(* ===== verification/Prelude.thy ===== *)
theory Prelude
  imports Complex_Main "HOL-Library.Multiset" "HOL-Library.Char_ord" "HOL-Library.List_Lexorder"
    "HOL-Library.Product_Lexorder" "HOL-Library.Sublist"
begin

text \<open>
  Shared material of the development: the exceptions of the modelled Python code, the
  result type of code that may raise, and lemmas on lists and multisets that
  several components use.
\<close>

section \<open>Exceptions and results\<close>

text \<open>
  The exception classes the modelled code raises, each with the text that \<open>str(e)\<close> gives.
  A raising expression is a value of \<open>pyexn + 'a\<close>: \<open>Inl\<close> is the exception.
\<close>

datatype pyexn =
    AssertionError string
  | ValueError string
  | KeyError string
  | IndexError string
  | TypeError string
  | AttributeError string
  | ZeroDivisionError string
  | RecursionError string
  | NotImplementedError string
  | RuntimeError string
  | PlainException string

fun exn_str :: "pyexn \<Rightarrow> string" where
  "exn_str (AssertionError m) = m"
| "exn_str (ValueError m) = m"
| "exn_str (KeyError m) = m"
| "exn_str (IndexError m) = m"
| "exn_str (TypeError m) = m"
| "exn_str (AttributeError m) = m"
| "exn_str (ZeroDivisionError m) = m"
| "exn_str (RecursionError m) = m"
| "exn_str (NotImplementedError m) = m"
| "exn_str (RuntimeError m) = m"
| "exn_str (PlainException m) = m"

type_synonym 'a result = "pyexn + 'a"

definition rbind :: "'a result \<Rightarrow> ('a \<Rightarrow> 'b result) \<Rightarrow> 'b result" where
  "rbind r f = (case r of Inl e \<Rightarrow> Inl e | Inr x \<Rightarrow> f x)"

text \<open>The statement \<open>assert b, m\<close> followed by the rest of the block.\<close>

definition passert :: "bool \<Rightarrow> string \<Rightarrow> 'a result \<Rightarrow> 'a result" where
  "passert b m k = (if b then k else Inl (AssertionError m))"

lemma rbind_cong [fundef_cong]:
  "r = r' \<Longrightarrow> (\<And>x. r' = Inr x \<Longrightarrow> f x = f' x) \<Longrightarrow> rbind r f = rbind r' f'"
  by (cases r') (auto simp: rbind_def)

named_theorems result_simps \<open>evaluation of results\<close>

lemma rbind_Inl [simp, result_simps]: "rbind (Inl e) f = Inl e"
  by (simp add: rbind_def)

lemma rbind_Inr [simp, result_simps]: "rbind (Inr x) f = f x"
  by (simp add: rbind_def)

lemma rbind_eq_Inr: "rbind r f = Inr y \<longleftrightarrow> (\<exists>x. r = Inr x \<and> f x = Inr y)"
  by (cases r) auto

lemma passert_True [simp, result_simps]: "b \<Longrightarrow> passert b m k = k"
  by (simp add: passert_def)

lemma passert_False [simp, result_simps]: "\<not> b \<Longrightarrow> passert b m k = Inl (AssertionError m)"
  by (simp add: passert_def)

lemma passert_eq_Inr: "passert b m k = Inr y \<longleftrightarrow> b \<and> k = Inr y"
  by (simp add: passert_def)

text \<open>A loop \<open>for x in xs\<close> that rebinds one accumulator and may raise.\<close>

fun for_each :: "('a \<Rightarrow> 's \<Rightarrow> 's result) \<Rightarrow> 'a list \<Rightarrow> 's \<Rightarrow> 's result" where
  "for_each f [] s = Inr s"
| "for_each f (x # xs) s = rbind (f x s) (for_each f xs)"

lemma for_each_invariant:
  assumes "for_each f xs s = Inr t" and "I s"
    and "\<And>x s t. x \<in> set xs \<Longrightarrow> I s \<Longrightarrow> f x s = Inr t \<Longrightarrow> I t"
  shows "I t"
  using assms
proof (induction xs arbitrary: s)
  case Nil
  then show ?case by simp
next
  case (Cons x xs)
  then obtain s' where "f x s = Inr s'" and rest: "for_each f xs s' = Inr t"
    by (auto simp: rbind_eq_Inr)
  with Cons.prems have "I s'" by auto
  with Cons.IH [OF rest] Cons.prems(3) show ?case by auto
qed

section \<open>Sorting and slicing\<close>

text \<open>
  \<open>xs.sort(key=f, reverse=True)\<close>: Python reverses, sorts stably and reverses again. And
  \<open>xs[start::step]\<close> for a positive step.
\<close>

definition py_sort_desc :: "('a \<Rightarrow> 'k::linorder) \<Rightarrow> 'a list \<Rightarrow> 'a list" where
  "py_sort_desc f xs = rev (sort_key f (rev xs))"

definition step_slice :: "nat \<Rightarrow> nat \<Rightarrow> 'a list \<Rightarrow> 'a list" where
  "step_slice start step xs = map ((!) xs) (filter (\<lambda>i. (i - start) mod step = 0) [start..<length xs])"

lemma mset_py_sort_desc [simp]: "mset (py_sort_desc f xs) = mset xs"
  by (simp add: py_sort_desc_def)

lemma mset_even_odd: "mset (step_slice 0 2 xs) + mset (step_slice 1 2 xs) = mset xs"
proof -
  have odd: "filter (\<lambda>i. (i - 1) mod 2 = 0) [1..<length xs] = filter odd [0..<length xs]"
  proof (cases xs)
    case Nil
    then show ?thesis by simp
  next
    case (Cons x xs')
    then have "[0..<length xs] = 0 # [1..<length xs]" by (simp add: upt_conv_Cons del: upt_Suc)
    moreover have "filter (\<lambda>i. (i - 1) mod 2 = 0) [1..<length xs] = filter odd [1..<length xs]"
    proof (rule filter_cong [OF refl])
      fix i assume "i \<in> set [1..<length xs]"
      then have "1 \<le> i" by simp
      then show "((i - 1) mod 2 = 0) = odd i" by presburger
    qed
    ultimately show ?thesis by simp
  qed
  have even: "(\<lambda>i. (i - 0) mod 2 = 0) = (even :: nat \<Rightarrow> bool)"
    by (rule ext) presburger
  have "mset (step_slice 0 2 xs) = image_mset ((!) xs) (filter_mset even (mset [0..<length xs]))"
    unfolding step_slice_def even by (simp only: mset_map mset_filter)
  moreover have "mset (step_slice 1 2 xs) = image_mset ((!) xs) (filter_mset odd (mset [0..<length xs]))"
    unfolding step_slice_def odd by (simp only: mset_map mset_filter)
  moreover have "filter_mset even (mset [0..<length xs]) + filter_mset odd (mset [0..<length xs])
      = mset [0..<length xs]"
    by (rule multiset_partition [symmetric])
  moreover have "image_mset ((!) xs) (mset [0..<length xs]) = mset xs"
    by (metis map_nth mset_map)
  ultimately show ?thesis by (metis image_mset_union)
qed

section \<open>Decimal text\<close>

text \<open>\<open>str(n)\<close> for integers: decimal digits, with a sign for negative values.\<close>

definition digit_char :: "nat \<Rightarrow> char" where
  "digit_char d = char_of (48 + d)"

fun show_nat :: "nat \<Rightarrow> string" where
  "show_nat n = (if n < 10 then [digit_char n] else show_nat (n div 10) @ [digit_char (n mod 10)])"

declare show_nat.simps [simp del]

definition show_int :: "int \<Rightarrow> string" where
  "show_int i = (if i < 0 then CHR ''-'' # show_nat (nat (- i)) else show_nat (nat i))"

section \<open>Characters\<close>

text \<open>ASCII white space, \<open>s.strip()\<close> and decimal digits.\<close>

definition is_space :: "char \<Rightarrow> bool" where
  "is_space c \<longleftrightarrow> of_char c \<in> {9, 10, 11, 12, 13, 28, 29, 30, 31, 32 :: nat}"

definition strip :: "string \<Rightarrow> string" where
  "strip s = rev (dropWhile is_space (rev (dropWhile is_space s)))"

definition is_digit :: "char \<Rightarrow> bool" where
  "is_digit c \<longleftrightarrow> 48 \<le> (of_char c :: nat) \<and> (of_char c :: nat) \<le> 57"

section \<open>Lists and multisets\<close>

lemma mset_zip_upt: "length xs = n \<Longrightarrow> mset (map snd (zip xs [0..<n])) = mset [0..<n]"
  by simp

lemma sum_list_le_mult:
  assumes "\<And>x. x \<in> set xs \<Longrightarrow> x \<le> (c::int)"
  shows "sum_list xs \<le> int (length xs) * c"
  using assms by (induction xs) (force simp: algebra_simps)+

lemma sum_list_ge_mult:
  assumes "\<And>x. x \<in> set xs \<Longrightarrow> (c::int) \<le> x"
  shows "int (length xs) * c \<le> sum_list xs"
  using assms by (induction xs) (force simp: algebra_simps)+

lemma mset_update_swap:
  assumes "i < length xs" and "j < length xs"
  shows "mset (xs[i := xs ! j, j := xs ! i]) = mset xs"
  using mset_swap [OF assms(2,1)] assms by (simp add: list_update_swap)

text \<open>Moving a hole: the item at \<open>j\<close> fills position \<open>i\<close>, and \<open>x\<close> takes its place.\<close>

lemma mset_move_hole:
  assumes "i < length h" and "j < length h" and "i \<noteq> j"
  shows "mset (h[i := h ! j, j := x]) = mset (h[i := x])"
proof -
  have "h[i := h ! j, j := x] = (h[i := x])[i := h[i := x] ! j, j := h[i := x] ! i]"
    using assms by simp
  then show ?thesis
    using assms by (simp only: mset_update_swap length_list_update)
qed

lemma add_mset_update:
  assumes "i < length xs"
  shows "add_mset (xs ! i) (mset (xs[i := x])) = add_mset x (mset xs)"
proof -
  have "mset (xs[i := x]) = add_mset x (mset xs - {#xs ! i#})"
    using assms by (simp add: mset_update)
  moreover have "xs ! i \<in># mset xs"
    using assms by simp
  ultimately show ?thesis by simp
qed

end
