(* ===== verification/Heapq.thy ===== *)
theory Heapq
  imports Prelude
begin

text \<open>
  The part of Python's \<open>heapq\<close> that the scheduler uses: \<open>heappush\<close> and \<open>heappop\<close> on a list,
  with the sift loops of the standard library. The comparison \<open>lt\<close> is the \<open>__lt__\<close> method of
  the elements. The lemmas show that no element is lost or duplicated, whatever
  \<open>lt\<close> is.
\<close>

section \<open>The sift loops\<close>

text \<open>
  \<open>sift_down h start pos x\<close>: the loop of \<open>_siftdown\<close> with the new item \<open>x\<close> held aside;
  it moves parents down until the place of \<open>x\<close> is found, and stores it.
\<close>

function sift_down :: "('a \<Rightarrow> 'a \<Rightarrow> bool) \<Rightarrow> 'a list \<Rightarrow> nat \<Rightarrow> nat \<Rightarrow> 'a \<Rightarrow> 'a list" where
  "sift_down lt h start pos x =
     (if start < pos \<and> lt x (h ! ((pos - 1) div 2))
      then sift_down lt (h[pos := h ! ((pos - 1) div 2)]) start ((pos - 1) div 2) x
      else h[pos := x])"
  by pat_completeness auto
termination
  by (relation "measure (\<lambda>(lt, h, start, pos, x). pos)") auto

declare sift_down.simps [simp del]

text \<open>The loop of \<open>_siftup\<close>: the smaller child moves up until a leaf is reached.\<close>

definition smaller_child :: "('a \<Rightarrow> 'a \<Rightarrow> bool) \<Rightarrow> 'a list \<Rightarrow> nat \<Rightarrow> nat" where
  "smaller_child lt h c =
     (if c + 1 < length h \<and> \<not> lt (h ! c) (h ! (c + 1)) then c + 1 else c)"

lemma smaller_child_ge: "c \<le> smaller_child lt h c"
  by (simp add: smaller_child_def)

lemma smaller_child_less: "c < length h \<Longrightarrow> smaller_child lt h c < length h"
  by (simp add: smaller_child_def)

function sift_leaf :: "('a \<Rightarrow> 'a \<Rightarrow> bool) \<Rightarrow> 'a list \<Rightarrow> nat \<Rightarrow> 'a list \<times> nat" where
  "sift_leaf lt h pos =
     (if 2 * pos + 1 < length h
      then sift_leaf lt (h[pos := h ! smaller_child lt h (2 * pos + 1)])
             (smaller_child lt h (2 * pos + 1))
      else (h, pos))"
  by pat_completeness auto
termination
proof (relation "measure (\<lambda>(lt, h, pos). length h - pos)", goal_cases)
  case 1
  show ?case by simp
next
  case (2 lt h pos)
  then show ?case
    using smaller_child_ge [of "2 * pos + 1" lt h] smaller_child_less [of "2 * pos + 1" h lt]
    by auto
qed

declare sift_leaf.simps [simp del]

definition sift_up :: "('a \<Rightarrow> 'a \<Rightarrow> bool) \<Rightarrow> 'a list \<Rightarrow> 'a list" where
  "sift_up lt h =
     (case sift_leaf lt h 0 of (h', pos) \<Rightarrow> sift_down lt h' 0 pos (h ! 0))"

section \<open>Push and pop\<close>

definition heappush :: "('a \<Rightarrow> 'a \<Rightarrow> bool) \<Rightarrow> 'a list \<Rightarrow> 'a \<Rightarrow> 'a list" where
  "heappush lt h x = sift_down lt (h @ [x]) 0 (length h) x"

definition heappop :: "('a \<Rightarrow> 'a \<Rightarrow> bool) \<Rightarrow> 'a list \<Rightarrow> ('a \<times> 'a list) result" where
  "heappop lt h =
     (if h = [] then Inl (IndexError ''index out of range'')
      else if butlast h = [] then Inr (last h, [])
      else Inr (hd h, sift_up lt ((butlast h)[0 := last h])))"

section \<open>No element is lost\<close>

lemma length_sift_down [simp]: "length (sift_down lt h start pos x) = length h"
proof (induction lt h start pos x rule: sift_down.induct)
  case (1 lt h start pos x)
  then show ?case by (simp add: sift_down.simps [of lt h start pos x])
qed

lemma mset_sift_down:
  "pos < length h \<Longrightarrow> mset (sift_down lt h start pos x) = mset (h[pos := x])"
proof (induction lt h start pos x rule: sift_down.induct)
  case (1 lt h start pos x)
  let ?p = "(pos - 1) div 2"
  show ?case
  proof (cases "start < pos \<and> lt x (h ! ?p)")
    case True
    then have p: "?p < pos" by auto
    with "1.prems" have pl: "?p < length h" by simp
    have "mset (sift_down lt h start pos x) = mset (h[pos := h ! ?p, ?p := x])"
      using "1.IH" [OF True] True pl by (simp add: sift_down.simps [of lt h start pos x])
    also have "\<dots> = mset (h[pos := x])"
      using mset_move_hole [of pos h ?p x] p "1.prems" by simp
    finally show ?thesis .
  next
    case False
    then show ?thesis by (auto simp: sift_down.simps [of lt h start pos x])
  qed
qed

lemma sift_leaf_props:
  assumes "sift_leaf lt h pos = (h', q)" and "pos < length h"
  shows "length h' = length h \<and> q < length h \<and> mset (h'[q := x]) = mset (h[pos := x])"
  using assms
proof (induction lt h pos arbitrary: h' q rule: sift_leaf.induct)
  case (1 lt h pos)
  let ?c = "smaller_child lt h (2 * pos + 1)"
  show ?case
  proof (cases "2 * pos + 1 < length h")
    case True
    then have c: "?c < length h" "pos < ?c"
      using smaller_child_less smaller_child_ge [of "2 * pos + 1" lt h] by auto
    have rec: "sift_leaf lt (h[pos := h ! ?c]) ?c = (h', q)"
      using "1.prems"(1) True by (simp add: sift_leaf.simps [of lt h pos])
    from "1.IH" [OF True rec] c
    have IH: "length h' = length h" "q < length h"
      "mset (h'[q := x]) = mset (h[pos := h ! ?c, ?c := x])"
      by auto
    moreover have "mset (h[pos := h ! ?c, ?c := x]) = mset (h[pos := x])"
      using c "1.prems"(2) by (intro mset_move_hole) simp_all
    ultimately show ?thesis using IH by simp
  next
    case False
    with "1.prems" show ?thesis by (simp add: sift_leaf.simps [of lt h pos])
  qed
qed

lemma mset_sift_up: "h \<noteq> [] \<Longrightarrow> mset (sift_up lt h) = mset h"
proof -
  assume ne: "h \<noteq> []"
  obtain h' q where eq: "sift_leaf lt h 0 = (h', q)" by fastforce
  from sift_leaf_props [OF eq, of "h ! 0"] ne
  have "q < length h'" and "mset (h'[q := h ! 0]) = mset h" by auto
  with mset_sift_down [of q h' lt 0 "h ! 0"] eq show ?thesis by (simp add: sift_up_def)
qed

lemma mset_heappush [simp]: "mset (heappush lt h x) = add_mset x (mset h)"
  by (simp add: heappush_def mset_sift_down)

lemma length_heappush [simp]: "length (heappush lt h x) = Suc (length h)"
  by (simp add: heappush_def)

lemma heappop_Inr: "h \<noteq> [] \<Longrightarrow> \<exists>x h'. heappop lt h = Inr (x, h')"
  by (simp add: heappop_def)

lemma heappop_mset:
  assumes "heappop lt h = Inr (x, h')"
  shows "mset h = add_mset x (mset h')"
proof -
  have ne: "h \<noteq> []" using assms by (auto simp: heappop_def)
  then have h: "h = butlast h @ [last h]" by simp
  show ?thesis
  proof (cases "butlast h")
    case Nil
    with assms ne have "x = last h" "h' = []" by (auto simp: heappop_def)
    with h Nil show ?thesis by (metis append_Nil mset.simps mset_single_iff)
  next
    case (Cons a as)
    with assms ne have x: "x = hd h" and h': "mset h' = mset ((butlast h)[0 := last h])"
      by (auto simp: heappop_def mset_sift_up)
    have "hd h = a" using h Cons by (metis append_Cons list.sel(1))
    with x h' Cons have "add_mset x (mset h') = mset (butlast h) + {#last h#}" by simp
    also have "\<dots> = mset h" by (subst h) simp
    finally show ?thesis by simp
  qed
qed

lemma heappop_length: "heappop lt h = Inr (x, h') \<Longrightarrow> length h = Suc (length h')"
  using heappop_mset [of lt h x h'] by (metis size_add_mset size_mset)

end
