(* ===== verification/Seqlen.thy ===== *)
theory Seqlen
  imports Heapq
begin

text \<open>
  Sequence-length balancing (\<open>verl/utils/seqlen_balancing.py\<close>): the Karmarkar-Karp and the
  greedy partitioners, the checked entry point, the split of a batch into micro-batches and
  its inverse, and the partition that keeps groups together. Sequence lengths and workloads
  are Python integers (\<open>int\<close>), indices and counts are \<open>nat\<close>.
\<close>

section \<open>Workload\<close>

definition calculate_workload :: "int list \<Rightarrow> int list" where
  "calculate_workload seqlen_list = map (\<lambda>s. 24576 * s + s ^ 2) seqlen_list"

section \<open>The inner class \<open>Set\<close>\<close>

record pset =
  psum :: int
  pitems :: "(nat \<times> int) list"

definition pset_new :: pset where
  "pset_new = \<lparr>psum = 0, pitems = []\<rparr>"

definition pset_add :: "pset \<Rightarrow> nat \<Rightarrow> int \<Rightarrow> pset" where
  "pset_add s idx val = \<lparr>psum = psum s + val, pitems = pitems s @ [(idx, val)]\<rparr>"

definition pset_merge :: "pset \<Rightarrow> pset \<Rightarrow> pset" where
  "pset_merge s other = foldl (\<lambda>s (idx, val). pset_add s idx val) s (pitems other)"

definition pset_lt :: "pset \<Rightarrow> pset \<Rightarrow> bool" where
  "pset_lt s other =
     (if psum s \<noteq> psum other then psum s < psum other
      else if length (pitems s) \<noteq> length (pitems other)
      then length (pitems s) < length (pitems other)
      else pitems s < pitems other)"

text \<open>
  \<open>sorted(sets, reverse=True)\<close>. \<open>pset_lt\<close> is the lexicographic order of the key below
  (lemma \<open>pset_lt_key\<close>).
\<close>

definition pset_key :: "pset \<Rightarrow> int \<times> nat \<times> (nat \<times> int) list" where
  "pset_key s = (psum s, length (pitems s), pitems s)"

definition sort_sets :: "pset list \<Rightarrow> pset list" where
  "sort_sets sets = py_sort_desc pset_key sets"

section \<open>The inner class \<open>State\<close>\<close>

record kstate =
  kk :: nat
  ksets :: "pset list"

fun fill_sets :: "nat \<Rightarrow> (nat \<times> int) list \<Rightarrow> pset list \<Rightarrow> pset list result" where
  "fill_sets i [] sets = Inr sets"
| "fill_sets i ((idx, seqlen) # items) sets =
     (if i < length sets
      then fill_sets (Suc i) items (sets[i := pset_add (sets ! i) idx seqlen])
      else Inl (IndexError ''list index out of range''))"

definition kstate_init :: "(nat \<times> int) list \<Rightarrow> nat \<Rightarrow> kstate result" where
  "kstate_init items k =
     passert (length items \<in> {1, k})
       (show_nat (length items) @ '' not in [1, '' @ show_nat k @ '']'')
       (rbind (fill_sets 0 items (replicate k pset_new))
         (\<lambda>sets. Inr \<lparr>kk = k, ksets = sort_sets sets\<rparr>))"

definition get_partitions :: "kstate \<Rightarrow> nat list list" where
  "get_partitions st = map (\<lambda>s. map fst (pitems s)) (ksets st)"

definition kstate_merge :: "kstate \<Rightarrow> kstate \<Rightarrow> kstate" where
  "kstate_merge st other =
     st\<lparr>ksets := sort_sets
          (map (\<lambda>i. pset_merge (ksets st ! i) (ksets other ! (kk st - 1 - i))) [0..<kk st])\<rparr>"

definition spread :: "kstate \<Rightarrow> int" where
  "spread st = psum (hd (ksets st)) - psum (last (ksets st))"

definition kstate_lt :: "kstate \<Rightarrow> kstate \<Rightarrow> bool" where
  "kstate_lt st other =
     (if spread st \<noteq> spread other then spread st > spread other
      else pset_lt (hd (ksets other)) (hd (ksets st)))"

section \<open>Karmarkar-Karp\<close>

text \<open>The main loop: pop the two states with the largest spread, merge them, push the result.\<close>

function kk_loop :: "kstate list \<Rightarrow> kstate list result" where
  "kk_loop pq =
     (if 1 < length pq
      then rbind (heappop kstate_lt pq) (\<lambda>(state0, pq1).
           rbind (heappop kstate_lt pq1) (\<lambda>(state1, pq2).
             kk_loop (heappush kstate_lt pq2 (kstate_merge state0 state1))))
      else Inr pq)"
  by pat_completeness auto
termination
  by (relation "measure length") (auto dest!: heappop_length)

declare kk_loop.simps [simp del]

definition sorted_seqlens :: "int list \<Rightarrow> (int \<times> nat) list" where
  "sorted_seqlens seqlen_list = sort (zip seqlen_list [0..<length seqlen_list])"

text \<open>The item lists of the initial states, in the order in which they are pushed.\<close>

definition initial_items :: "int list \<Rightarrow> nat \<Rightarrow> bool \<Rightarrow> (nat \<times> int) list list" where
  "initial_items seqlen_list k equal_size =
     (let ss = sorted_seqlens seqlen_list
      in if equal_size
         then map (\<lambda>j. map (\<lambda>i. (snd (ss ! (j * k + i)), fst (ss ! (j * k + i)))) [0..<k])
                [0..<length ss div k]
         else map (\<lambda>(seqlen, idx). [(idx, seqlen)]) ss)"

definition push_state :: "nat \<Rightarrow> (nat \<times> int) list \<Rightarrow> kstate list \<Rightarrow> kstate list result" where
  "push_state k items pq = rbind (kstate_init items k) (\<lambda>st. Inr (heappush kstate_lt pq st))"

definition check_equal :: "nat \<Rightarrow> nat \<Rightarrow> nat list list \<Rightarrow> unit result" where
  "check_equal k n partitions =
     for_each (\<lambda>p u. passert (length p * k = n)
         (show_nat (length p) @ '' * '' @ show_nat k @ '' != '' @ show_nat n) (Inr ()))
       partitions ()"

definition karmarkar_karp :: "int list \<Rightarrow> nat \<Rightarrow> bool \<Rightarrow> nat list list result" where
  "karmarkar_karp seqlen_list k equal_size =
     (let n = length seqlen_list in
      if equal_size \<and> k = 0 then Inl (ZeroDivisionError ''integer modulo by zero'')
      else passert (equal_size \<longrightarrow> n mod k = 0)
        (show_nat n @ '' % '' @ show_nat k @ '' != 0'')
        (rbind (for_each (push_state k) (initial_items seqlen_list k equal_size) [])
          (\<lambda>pq. rbind (kk_loop pq)
            (\<lambda>pq. case pq of [] \<Rightarrow> Inl (IndexError ''list index out of range'')
               | st # _ \<Rightarrow>
                  (let partitions = get_partitions st
                   in if equal_size
                      then rbind (check_equal k n partitions) (\<lambda>_. Inr partitions)
                      else Inr partitions)))))"

section \<open>The greedy partitioner\<close>

text \<open>The inner loop over \<open>j\<close>: the first position of the smallest sum.\<close>

definition greedy_min_idx :: "int list \<Rightarrow> nat \<Rightarrow> nat option" where
  "greedy_min_idx partition_sums k =
     foldl (\<lambda>min_idx j. case min_idx of None \<Rightarrow> Some j
         | Some m \<Rightarrow> if partition_sums ! j < partition_sums ! m then Some j else Some m)
       None [0..<k]"

definition greedy_step ::
    "nat \<Rightarrow> int \<times> nat \<Rightarrow> nat list list \<times> int list \<Rightarrow> (nat list list \<times> int list) result" where
  "greedy_step k item acc =
     (case (item, acc) of ((seqlen, i), (partitions, partition_sums)) \<Rightarrow>
       case greedy_min_idx partition_sums k of
         None \<Rightarrow> Inl (TypeError ''list indices must be integers or slices, not NoneType'')
       | Some m \<Rightarrow> Inr (partitions[m := partitions ! m @ [i]],
                       partition_sums[m := partition_sums ! m + seqlen]))"

definition greedy_partition :: "int list \<Rightarrow> nat \<Rightarrow> bool \<Rightarrow> nat list list result" where
  "greedy_partition seqlen_list k equal_size =
     (let n = length seqlen_list;
          bias = (if equal_size then sum_list seqlen_list + 1 else 0);
          sorted_seqlen = map (\<lambda>(seqlen, i). (seqlen + bias, i)) (zip seqlen_list [0..<n])
      in rbind (for_each (greedy_step k) sorted_seqlen (replicate k [], replicate k 0))
           (\<lambda>(partitions, _).
              if equal_size
              then rbind (check_equal k n partitions) (\<lambda>_. Inr partitions)
              else Inr partitions))"

section \<open>The checked entry point\<close>

text \<open>
  The loop of \<open>_check_and_sort_partitions\<close>: \<open>seen\<close> is \<open>seen_idx\<close>, \<open>done\<close> the part of
  \<open>sorted_partitions\<close> filled so far.
\<close>

fun check_loop :: "nat \<Rightarrow> nat list list \<Rightarrow> nat set \<Rightarrow> nat list list \<Rightarrow> (nat set \<times> nat list list) result" where
  "check_loop i [] seen sorted_parts = Inr (seen, sorted_parts)"
| "check_loop i (p # ps) seen sorted_parts =
     passert (length p > 0) (''the '' @ show_nat i @ ''-th partition is empty'')
       (check_loop (Suc i) ps (seen \<union> set p) (sorted_parts @ [sort p]))"

definition check_and_sort_partitions :: "nat \<Rightarrow> nat \<Rightarrow> nat list list \<Rightarrow> nat list list result" where
  "check_and_sort_partitions n k partitions =
     passert (length partitions = k) (show_nat (length partitions) @ '' != '' @ show_nat k)
       (rbind (check_loop 0 partitions {} [])
         (\<lambda>(seen_idx, sorted_partitions).
            passert (seen_idx = set [0..<n]) [] (Inr sorted_partitions)))"

definition get_seqlen_balanced_partitions :: "int list \<Rightarrow> nat \<Rightarrow> bool \<Rightarrow> nat list list result" where
  "get_seqlen_balanced_partitions seqlen_list k equal_size =
     passert (k \<le> length seqlen_list)
       (''number of items:['' @ show_nat (length seqlen_list) @ ''] < k_partitions:[''
         @ show_nat k @ '']'')
       (rbind (karmarkar_karp seqlen_list k equal_size)
         (check_and_sort_partitions (length seqlen_list) k))"

section \<open>Lemmas on sets and states\<close>

lemma pset_lt_key: "pset_lt s t \<longleftrightarrow> pset_key s < pset_key t"
  by (auto simp: pset_lt_def pset_key_def less_prod_def')

lemma pset_key_inj: "pset_key s = pset_key t \<Longrightarrow> s = t"
  by (cases s; cases t) (simp add: pset_key_def)

lemma pset_merge_items [simp]: "pitems (pset_merge s t) = pitems s @ pitems t"
proof -
  have "pitems (foldl (\<lambda>s (idx, val). pset_add s idx val) s xs) = pitems s @ xs" for xs
    by (induction xs arbitrary: s) (auto simp: pset_add_def)
  then show ?thesis by (simp add: pset_merge_def)
qed

definition pset_ok :: "pset \<Rightarrow> bool" where
  "pset_ok s \<longleftrightarrow> psum s = sum_list (map snd (pitems s))"

lemma pset_ok_new [simp]: "pset_ok pset_new"
  by (simp add: pset_ok_def pset_new_def)

lemma pset_ok_add [simp]: "pset_ok s \<Longrightarrow> pset_ok (pset_add s idx v)"
  by (simp add: pset_ok_def pset_add_def)

lemma pset_merge_sum: "psum (pset_merge s t) = psum s + sum_list (map snd (pitems t))"
proof -
  have "psum (foldl (\<lambda>s (idx, val). pset_add s idx val) s xs) = psum s + sum_list (map snd xs)" for xs
    by (induction xs arbitrary: s) (auto simp: pset_add_def)
  then show ?thesis by (simp add: pset_merge_def)
qed

lemma pset_ok_merge: "pset_ok s \<Longrightarrow> pset_ok (pset_merge s t)"
  by (simp add: pset_ok_def pset_merge_sum)

lemma mset_sort_sets [simp]: "mset (sort_sets xs) = mset xs"
  by (simp add: sort_sets_def)

lemma set_sort_sets [simp]: "set (sort_sets xs) = set xs"
  by (simp add: sort_sets_def py_sort_desc_def)

lemma length_sort_sets [simp]: "length (sort_sets xs) = length xs"
  by (simp add: sort_sets_def py_sort_desc_def)

definition decreasing :: "pset list \<Rightarrow> bool" where
  "decreasing xs \<longleftrightarrow> (\<forall>i j. i \<le> j \<longrightarrow> j < length xs \<longrightarrow> pset_key (xs ! j) \<le> pset_key (xs ! i))"

lemma decreasing_sort_sets [simp]: "decreasing (sort_sets xs)"
proof -
  let ?ys = "sort_key pset_key (rev xs)"
  have "sorted (map pset_key ?ys)" by simp
  then have "pset_key (?ys ! i) \<le> pset_key (?ys ! j)" if "i \<le> j" "j < length ?ys" for i j
    using that sorted_nth_mono [of "map pset_key ?ys" i j] by simp
  then show ?thesis by (auto simp: decreasing_def sort_sets_def py_sort_desc_def rev_nth)
qed

lemma decreasing_psum: "decreasing xs \<Longrightarrow> i \<le> j \<Longrightarrow> j < length xs \<Longrightarrow> psum (xs ! j) \<le> psum (xs ! i)"
  by (fastforce simp: decreasing_def pset_key_def less_eq_prod_def)

text \<open>What every state in the queue satisfies: \<open>k\<close> sets, in decreasing order, with true loads.\<close>

definition kstate_ok :: "nat \<Rightarrow> kstate \<Rightarrow> bool" where
  "kstate_ok k st \<longleftrightarrow> kk st = k \<and> length (ksets st) = k \<and> decreasing (ksets st)
     \<and> list_all pset_ok (ksets st)"

definition kitems :: "kstate \<Rightarrow> (nat \<times> int) multiset" where
  "kitems st = (\<Sum>s\<in>#mset (ksets st). mset (pitems s))"

lemma kitems_concat: "kitems st = mset (concat (map pitems (ksets st)))"
  by (simp add: kitems_def mset_concat sum_mset_sum_list [symmetric] image_mset.compositionality comp_def)

text \<open>The \<open>k\<close> sets of a merge before they are sorted.\<close>

definition merged_sets :: "kstate \<Rightarrow> kstate \<Rightarrow> pset list" where
  "merged_sets a b = map (\<lambda>i. pset_merge (ksets a ! i) (ksets b ! (kk a - 1 - i))) [0..<kk a]"

lemma kstate_merge_eq: "kstate_merge a b = a\<lparr>ksets := sort_sets (merged_sets a b)\<rparr>"
  by (simp add: kstate_merge_def merged_sets_def)

lemma kstate_ok_merge: "kstate_ok k a \<Longrightarrow> kstate_ok k b \<Longrightarrow> kstate_ok k (kstate_merge a b)"
  by (auto simp: kstate_ok_def kstate_merge_eq merged_sets_def list_all_iff intro: pset_ok_merge)

lemma rev_index_bij: "mset (map (\<lambda>i. f (k - 1 - i)) [0..<k]) = mset (map f [0..<k])"
proof -
  have "map (\<lambda>i. f (k - 1 - i)) [0..<k] = rev (map f [0..<k])"
    by (rule nth_equalityI) (auto simp: rev_nth)
  then show ?thesis by simp
qed

lemma kitems_merge:
  assumes "kstate_ok k a" and "kstate_ok k b"
  shows "kitems (kstate_merge a b) = kitems a + kitems b"
proof -
  have len: "kk a = k" "length (ksets a) = k" "length (ksets b) = k"
    using assms by (simp_all add: kstate_ok_def)
  have eqk: "kk a = k" "ksets a = map ((!) (ksets a)) [0..<k]" "ksets b = map ((!) (ksets b)) [0..<k]"
    using len map_nth [of "ksets a"] map_nth [of "ksets b"] by simp_all
  let ?f = "\<lambda>i. mset (pitems (ksets a ! i))" and ?g = "\<lambda>i. mset (pitems (ksets b ! i))"
  have "kitems (kstate_merge a b) = (\<Sum>i\<in>#mset [0..<k]. ?f i + ?g (k - 1 - i))"
    using eqk(1) by (simp add: kitems_def kstate_merge_eq merged_sets_def
        image_mset.compositionality comp_def)
  also have "\<dots> = (\<Sum>i\<in>#mset [0..<k]. ?f i) + (\<Sum>i\<in>#mset [0..<k]. ?g (k - 1 - i))"
    by (simp add: sum_mset.distrib)
  also have "(\<Sum>i\<in>#mset [0..<k]. ?g (k - 1 - i)) = (\<Sum>i\<in>#mset [0..<k]. ?g i)"
    using rev_index_bij [of ?g k] by (metis mset_map)
  also have "(\<Sum>i\<in>#mset [0..<k]. ?f i) = kitems a"
    unfolding kitems_def by (subst eqk(2)) (simp add: image_mset.compositionality comp_def)
  also have "(\<Sum>i\<in>#mset [0..<k]. ?g i) = kitems b"
    unfolding kitems_def by (subst eqk(3)) (simp add: image_mset.compositionality comp_def)
  finally show ?thesis .
qed

section \<open>The main loop\<close>

text \<open>
  The loop ends with one state; it holds all the items of the queue, and any property of
  the states that merging keeps.
\<close>

lemma kk_loop_correct:
  assumes "pq \<noteq> []" and "\<And>st. st \<in> set pq \<Longrightarrow> kstate_ok k st \<and> P st"
    and merge: "\<And>a b. kstate_ok k a \<Longrightarrow> kstate_ok k b \<Longrightarrow> P a \<Longrightarrow> P b \<Longrightarrow> P (kstate_merge a b)"
  shows "\<exists>st. kk_loop pq = Inr [st] \<and> kstate_ok k st \<and> P st \<and> kitems st = (\<Sum>st\<in>#mset pq. kitems st)"
  using assms(1,2)
proof (induction pq rule: kk_loop.induct)
  case (1 pq)
  show ?case
  proof (cases "1 < length pq")
    case False
    with "1.prems"(1) obtain st where "pq = [st]"
      by (metis One_nat_def Suc_lessI length_0_conv length_greater_0_conv length_Suc_conv)
    with "1.prems"(2) show ?thesis by (simp add: kk_loop.simps [of "[st]"])
  next
    case True
    obtain s0 pq1 where p0: "heappop kstate_lt pq = Inr (s0, pq1)"
      using heappop_Inr [OF "1.prems"(1)] by blast
    with True have "pq1 \<noteq> []" using heappop_length [OF p0] by auto
    then obtain s1 pq2 where p1: "heappop kstate_lt pq1 = Inr (s1, pq2)"
      using heappop_Inr by blast
    let ?m = "kstate_merge s0 s1"
    let ?pq = "heappush kstate_lt pq2 ?m"
    have ms: "mset pq = add_mset s0 (add_mset s1 (mset pq2))"
      using heappop_mset [OF p0] heappop_mset [OF p1] by simp
    then have in_pq: "set pq = insert s0 (insert s1 (set pq2))"
      by (metis set_mset_add_mset_insert set_mset_mset)
    have ok: "kstate_ok k s0" "kstate_ok k s1" "P s0" "P s1"
      using "1.prems"(2) in_pq by auto
    have "set ?pq = insert ?m (set pq2)"
      by (metis mset_heappush set_mset_add_mset_insert set_mset_mset)
    then have inv: "\<And>st. st \<in> set ?pq \<Longrightarrow> kstate_ok k st \<and> P st"
      using "1.prems"(2) in_pq ok by (auto intro: kstate_ok_merge merge)
    have ne: "?pq \<noteq> []" by (metis length_greater_0_conv length_heappush zero_less_Suc)
    from "1.IH" [OF True p0 refl p1 refl ne inv]
    obtain st where "kk_loop ?pq = Inr [st]" "kstate_ok k st" "P st"
      "kitems st = (\<Sum>st\<in>#mset ?pq. kitems st)" by auto
    moreover have "kk_loop pq = kk_loop ?pq"
      using True p0 p1 by (simp add: kk_loop.simps [of pq])
    ultimately show ?thesis using ms ok by (auto simp: kitems_merge add.assoc)
  qed
qed


section \<open>Properties of the states that merging keeps\<close>

lemma kstate_ok_sets:
  assumes "kstate_ok k st"
  shows "kk st = k" and "length (ksets st) = k" and "decreasing (ksets st)"
    and "\<And>s. s \<in> set (ksets st) \<Longrightarrow> pset_ok s"
  using assms by (auto simp: kstate_ok_def list_all_iff)

lemma spread_bounds:
  assumes "kstate_ok k st" and "i < k" and "j < k"
  shows "psum (ksets st ! i) - psum (ksets st ! j) \<le> spread st"
proof -
  have ne: "ksets st \<noteq> []" using assms kstate_ok_sets(2) by force
  have d: "decreasing (ksets st)" "length (ksets st) = k" using assms(1) kstate_ok_sets by auto
  have "psum (ksets st ! i) \<le> psum (ksets st ! 0)"
    using decreasing_psum [OF d(1), of 0 i] assms d by simp
  moreover have "psum (ksets st ! (k - 1)) \<le> psum (ksets st ! j)"
    using decreasing_psum [OF d(1), of j "k - 1"] assms d by simp
  ultimately show ?thesis
    using ne d by (simp add: spread_def hd_conv_nth last_conv_nth)
qed

text \<open>The sum of a merged set, and the bound on the differences of merged loads.\<close>

lemma psum_merged:
  assumes "kstate_ok k a" and "kstate_ok k b" and "i < k"
  shows "psum (merged_sets a b ! i) = psum (ksets a ! i) + psum (ksets b ! (k - 1 - i))"
proof -
  have "pset_ok (ksets b ! (k - 1 - i))"
    using assms(2,3) kstate_ok_sets [OF assms(2)] by simp
  then show ?thesis
    using assms kstate_ok_sets(1) [OF assms(1)]
    by (simp add: merged_sets_def pset_merge_sum pset_ok_def)
qed

lemma merged_diff:
  assumes ab: "kstate_ok k a" "kstate_ok k b" and ij: "i < k" "j < k"
  shows "psum (merged_sets a b ! i) - psum (merged_sets a b ! j) \<le> max (spread a) (spread b)"
proof (cases "i \<le> j")
  case True
  have "psum (ksets b ! (k - 1 - i)) \<le> psum (ksets b ! (k - 1 - j))"
    using decreasing_psum [of "ksets b" "k - 1 - j" "k - 1 - i"] kstate_ok_sets [OF ab(2)] True ij
    by simp
  with spread_bounds [OF ab(1) ij] show ?thesis
    using psum_merged [OF ab ij(1)] psum_merged [OF ab ij(2)] by linarith
next
  case False
  have "psum (ksets a ! i) \<le> psum (ksets a ! j)"
    using decreasing_psum [of "ksets a" j i] kstate_ok_sets [OF ab(1)] False ij by simp
  with spread_bounds [OF ab(2), of "k - 1 - i" "k - 1 - j"] show ?thesis
    using psum_merged [OF ab ij(1)] psum_merged [OF ab ij(2)] ij by simp
qed

lemma spread_attained:
  assumes "kstate_ok k st" and "0 < k"
  shows "\<exists>s \<in> set (ksets st). \<exists>t \<in> set (ksets st). spread st = psum s - psum t"
proof -
  have "ksets st \<noteq> []" using assms kstate_ok_sets(2) by force
  then show ?thesis
    using hd_in_set last_in_set by (fastforce simp: spread_def)
qed

lemma length_merged [simp]: "length (merged_sets a b) = kk a"
  by (simp add: merged_sets_def)

lemma spread_merge:
  assumes ab: "kstate_ok k a" "kstate_ok k b" and "0 < k"
  shows "spread (kstate_merge a b) \<le> max (spread a) (spread b)"
proof -
  obtain s t where st: "s \<in> set (merged_sets a b)" "t \<in> set (merged_sets a b)"
    "spread (kstate_merge a b) = psum s - psum t"
    using spread_attained [OF kstate_ok_merge [OF ab] assms(3)] by (auto simp: kstate_merge_eq)
  then obtain i j where "i < k" "j < k" "s = merged_sets a b ! i" "t = merged_sets a b ! j"
    using kstate_ok_sets(1) [OF ab(1)] by (metis in_set_conv_nth length_merged)
  with st merged_diff [OF ab] show ?thesis by simp
qed

text \<open>Equal sizes: if all sets of both states have the same length, so do the merged ones.\<close>

definition same_size :: "kstate \<Rightarrow> bool" where
  "same_size st \<longleftrightarrow> (\<exists>m. \<forall>s\<in>set (ksets st). length (pitems s) = m)"

lemma same_size_merge:
  assumes ab: "kstate_ok k a" "kstate_ok k b" and "same_size a" "same_size b"
  shows "same_size (kstate_merge a b)"
proof -
  obtain m n where mn: "\<And>s. s \<in> set (ksets a) \<Longrightarrow> length (pitems s) = m"
    "\<And>s. s \<in> set (ksets b) \<Longrightarrow> length (pitems s) = n"
    using assms by (auto simp: same_size_def)
  have "length (pitems s) = m + n" if "s \<in> set (merged_sets a b)" for s
    using that mn kstate_ok_sets [OF ab(1)] kstate_ok_sets [OF ab(2)]
    by (auto simp: merged_sets_def)
  then show ?thesis by (auto simp: same_size_def kstate_merge_eq)
qed


text \<open>
  No set stays empty while there are items: with non-negative values the empty sets are the
  smallest ones, so a merge pairs them with the largest sets of the other state.
\<close>

definition nonneg :: "kstate \<Rightarrow> bool" where
  "nonneg st \<longleftrightarrow> (\<forall>s\<in>set (ksets st). \<forall>x\<in>set (pitems s). 0 \<le> snd x)"

definition used :: "pset list \<Rightarrow> nat" where
  "used sets = length (filter (\<lambda>s. pitems s \<noteq> []) sets)"

definition filled :: "nat \<Rightarrow> kstate \<Rightarrow> bool" where
  "filled k st \<longleftrightarrow> nonneg st \<and> min k (size (kitems st)) \<le> used (ksets st)"

lemma used_card: "used sets = card {i. i < length sets \<and> pitems (sets ! i) \<noteq> []}"
  by (simp add: used_def length_filter_conv_card)

lemma used_mset: "mset xs = mset ys \<Longrightarrow> used xs = used ys"
  unfolding used_def by (metis mset_filter size_mset)

lemma nonempty_prefix:
  assumes ok: "kstate_ok k st" "nonneg st" and "j \<le> i" "i < k"
    and ne: "pitems (ksets st ! i) \<noteq> []"
  shows "pitems (ksets st ! j) \<noteq> []"
proof
  assume e: "pitems (ksets st ! j) = []"
  have len: "length (ksets st) = k" using ok kstate_ok_sets by blast
  then have mem: "ksets st ! i \<in> set (ksets st)" "ksets st ! j \<in> set (ksets st)"
    using assms by auto
  have "psum (ksets st ! i) = sum_list (map snd (pitems (ksets st ! i)))"
    using kstate_ok_sets(4) [OF ok(1) mem(1)] by (simp add: pset_ok_def)
  then have "0 \<le> psum (ksets st ! i)"
    using ok(2) mem by (fastforce simp: nonneg_def intro!: sum_list_nonneg)
  moreover have "psum (ksets st ! j) = 0"
    using kstate_ok_sets(4) [OF ok(1) mem(2)] e by (simp add: pset_ok_def)
  moreover have "pset_key (ksets st ! i) \<le> pset_key (ksets st ! j)"
    using kstate_ok_sets(3) [OF ok(1)] assms len by (simp add: decreasing_def)
  ultimately show False using ne e by (auto simp: pset_key_def less_eq_prod_def)
qed

lemma used_nonempty:
  assumes ok: "kstate_ok k st" "nonneg st" and "i < used (ksets st)"
  shows "pitems (ksets st ! i) \<noteq> []"
proof
  assume e: "pitems (ksets st ! i) = []"
  have len: "length (ksets st) = k" using ok kstate_ok_sets by blast
  have "{j. j < length (ksets st) \<and> pitems (ksets st ! j) \<noteq> []} \<subseteq> {..<i}"
  proof
    fix j assume "j \<in> {j. j < length (ksets st) \<and> pitems (ksets st ! j) \<noteq> []}"
    then have "j < k" "pitems (ksets st ! j) \<noteq> []" using len by auto
    then show "j \<in> {..<i}" using nonempty_prefix [OF ok, of i j] e by force
  qed
  then have "used (ksets st) \<le> i"
    unfolding used_card by (metis card_lessThan card_mono finite_lessThan)
  then show False using assms by simp
qed

lemma used_le: "kstate_ok k st \<Longrightarrow> used (ksets st) \<le> k"
  using kstate_ok_sets(2) unfolding used_def by (metis length_filter_le)

lemma used_merged:
  assumes ab: "kstate_ok k a" "kstate_ok k b" and "nonneg a" "nonneg b"
  shows "min k (used (ksets a) + used (ksets b)) \<le> used (merged_sets a b)"
proof -
  let ?x = "used (ksets a)" and ?y = "used (ksets b)"
  let ?N = "{i. i < k \<and> pitems (merged_sets a b ! i) \<noteq> []}"
  have kk: "kk a = k" using kstate_ok_sets [OF ab(1)] by simp
  have sub: "{..<?x} \<union> {k - ?y..<k} \<subseteq> ?N"
  proof
    fix i assume i: "i \<in> {..<?x} \<union> {k - ?y..<k}"
    have "i < k" using i used_le [OF ab(1)] by auto
    moreover have "i < ?x \<or> k - 1 - i < ?y" using i by auto
    then have "pitems (ksets a ! i) \<noteq> [] \<or> pitems (ksets b ! (k - 1 - i)) \<noteq> []"
      using used_nonempty [OF ab(1) assms(3)] used_nonempty [OF ab(2) assms(4)] by blast
    ultimately show "i \<in> ?N" using kk by (auto simp: merged_sets_def)
  qed
  have "min k (?x + ?y) \<le> card ({..<?x} \<union> {k - ?y..<k})"
  proof (cases "?x + ?y \<le> k")
    case True
    then have "{..<?x} \<inter> {k - ?y..<k} = {}" by auto
    then show ?thesis using True by (simp add: card_Un_disjoint)
  next
    case False
    then have "{..<k} \<subseteq> {..<?x} \<union> {k - ?y..<k}" by auto
    then have "k \<le> card ({..<?x} \<union> {k - ?y..<k})"
      by (metis card_lessThan card_mono finite_Un finite_atLeastLessThan finite_lessThan)
    then show ?thesis by simp
  qed
  also have "\<dots> \<le> card ?N" using sub by (intro card_mono) auto
  finally show ?thesis using kk by (simp add: used_card)
qed

lemma filled_merge:
  assumes ab: "kstate_ok k a" "kstate_ok k b" and "filled k a" "filled k b"
  shows "filled k (kstate_merge a b)"
proof -
  have nn: "nonneg a" "nonneg b" using assms by (auto simp: filled_def)
  have "nonneg (kstate_merge a b)"
  proof -
    have "0 \<le> snd x" if "s \<in> set (merged_sets a b)" "x \<in> set (pitems s)" for s x
      using that nn kstate_ok_sets [OF ab(1)] kstate_ok_sets [OF ab(2)]
      by (fastforce simp: merged_sets_def nonneg_def)
    then show ?thesis by (auto simp: nonneg_def kstate_merge_eq)
  qed
  moreover have "used (ksets (kstate_merge a b)) = used (merged_sets a b)"
    by (rule used_mset) (simp add: kstate_merge_eq)
  moreover have "min k (size (kitems a) + size (kitems b)) \<le> min k (used (ksets a) + used (ksets b))"
    using assms by (auto simp: filled_def)
  ultimately show ?thesis
    using used_merged [OF ab nn] kitems_merge [OF ab] by (simp add: filled_def)
qed


section \<open>The initial states\<close>

lemma fill_sets_Inr:
  "i + length items \<le> length sets \<Longrightarrow>
   fill_sets i items sets =
     Inr (map (\<lambda>j. if i \<le> j \<and> j < i + length items
                  then pset_add (sets ! j) (fst (items ! (j - i))) (snd (items ! (j - i)))
                  else sets ! j) [0..<length sets])"
proof (induction items arbitrary: i sets)
  case Nil
  show ?case by (auto intro!: nth_equalityI)
next
  case (Cons x items)
  obtain idx v where x: "x = (idx, v)" by fastforce
  let ?sets = "sets[i := pset_add (sets ! i) idx v]"
  have "fill_sets i (x # items) sets = fill_sets (Suc i) items ?sets"
    using Cons.prems x by simp
  also have "\<dots> = Inr (map (\<lambda>j. if Suc i \<le> j \<and> j < Suc i + length items
                  then pset_add (?sets ! j) (fst (items ! (j - Suc i))) (snd (items ! (j - Suc i)))
                  else ?sets ! j) [0..<length ?sets])"
    using Cons.prems by (intro Cons.IH) simp
  also have "\<dots> = Inr (map (\<lambda>j. if i \<le> j \<and> j < i + length (x # items)
                  then pset_add (sets ! j) (fst ((x # items) ! (j - i))) (snd ((x # items) ! (j - i)))
                  else sets ! j) [0..<length sets])"
    using Cons.prems x by (auto simp: nth_Cons' nth_list_update Suc_diff_Suc split: if_splits)
  finally show ?case .
qed

definition start_sets :: "(nat \<times> int) list \<Rightarrow> nat \<Rightarrow> pset list" where
  "start_sets items k =
     map (\<lambda>j. if j < length items
              then pset_add pset_new (fst (items ! j)) (snd (items ! j)) else pset_new) [0..<k]"

definition start_state :: "nat \<Rightarrow> (nat \<times> int) list \<Rightarrow> kstate" where
  "start_state k items = \<lparr>kk = k, ksets = sort_sets (start_sets items k)\<rparr>"

lemma kstate_init_Inr:
  assumes "length items \<in> {1, k}" and "0 < k"
  shows "kstate_init items k = Inr (start_state k items)"
proof -
  have "length items \<le> k" using assms by auto
  then have "fill_sets 0 items (replicate k pset_new) = Inr (start_sets items k)"
    by (simp add: fill_sets_Inr start_sets_def cong: map_cong)
  with assms(1) show ?thesis by (simp add: kstate_init_def start_state_def)
qed

lemma start_state_ok: "kstate_ok k (start_state k items)"
  by (auto simp: kstate_ok_def start_state_def start_sets_def list_all_iff)

lemma start_sets_items:
  assumes "j < k"
  shows "pitems (start_sets items k ! j) = (if j < length items then [items ! j] else [])"
    and "psum (start_sets items k ! j) = (if j < length items then snd (items ! j) else 0)"
  using assms by (auto simp: start_sets_def pset_add_def pset_new_def)

lemma start_state_items:
  assumes "length items \<le> k"
  shows "kitems (start_state k items) = mset items"
proof -
  let ?f = "\<lambda>j. if j < length items then [items ! j] else []"
  have "map pitems (start_sets items k) = map ?f [0..<k]"
    by (rule nth_equalityI) (auto simp: start_sets_def pset_add_def pset_new_def)
  note sets = this
  have "[0..<k] = [0..<length items] @ [length items..<k]"
    using assms by (metis le_add_diff_inverse upt_add_eq_append zero_le)
  moreover have "map ?f [0..<length items] = map (\<lambda>j. [items ! j]) [0..<length items]" by simp
  moreover have "concat (map ?f [length items..<k]) = []" by simp
  ultimately have "concat (map ?f [0..<k]) = concat (map (\<lambda>j. [items ! j]) [0..<length items])"
    by (simp only: map_append concat_append append_Nil2)
  moreover have "concat (map (\<lambda>j. [items ! j]) [0..<length items]) = items"
    by (metis concat_map_singleton map_nth)
  ultimately have "mset (concat (map pitems (start_sets items k))) = mset items"
    using sets by simp
  moreover have "kitems (start_state k items) = mset (concat (map pitems (start_sets items k)))"
    by (simp add: start_state_def kitems_def mset_concat sum_mset_sum_list [symmetric]
        image_mset.compositionality comp_def)
  ultimately show ?thesis by simp
qed

lemma start_state_set:
  assumes "s \<in> set (ksets (start_state k items))"
  obtains j where "j < k" and "s = start_sets items k ! j"
  using assms that by (auto simp: start_state_def in_set_conv_nth start_sets_def)

lemma start_state_filled:
  assumes "length items \<le> k" and "\<And>x. x \<in> set items \<Longrightarrow> 0 \<le> snd x"
  shows "filled k (start_state k items)"
proof -
  have "nonneg (start_state k items)"
  proof (unfold nonneg_def, intro ballI)
    fix s x assume s: "s \<in> set (ksets (start_state k items))" and x: "x \<in> set (pitems s)"
    obtain j where "j < k" "s = start_sets items k ! j" by (rule start_state_set [OF s])
    with x have "x \<in> set items" by (simp add: start_sets_items split: if_splits)
    then show "0 \<le> snd x" by (rule assms(2))
  qed
  moreover have "used (ksets (start_state k items)) = length items"
  proof -
    have "used (ksets (start_state k items)) = used (start_sets items k)"
      by (rule used_mset) (simp add: start_state_def)
    also have "\<dots> = card {j. j < k \<and> pitems (start_sets items k ! j) \<noteq> []}"
      unfolding used_card by (simp add: start_sets_def)
    also have "{j. j < k \<and> pitems (start_sets items k ! j) \<noteq> []} = {..<length items}"
      using assms(1) by (auto simp: start_sets_items split: if_splits)
    finally show ?thesis by simp
  qed
  ultimately show ?thesis
    by (simp add: filled_def start_state_items [OF assms(1)])
qed

lemma start_state_spread:
  assumes "\<And>x. x \<in> set items \<Longrightarrow> 0 \<le> snd x \<and> snd x \<le> D" and "0 \<le> D" and "0 < k"
  shows "spread (start_state k items) \<le> D"
proof -
  have "0 \<le> psum s \<and> psum s \<le> D" if s: "s \<in> set (ksets (start_state k items))" for s
  proof -
    obtain j where "j < k" "s = start_sets items k ! j" by (rule start_state_set [OF s])
    then show ?thesis using assms(1) [OF nth_mem] assms(2) by (simp add: start_sets_items)
  qed
  moreover obtain s t where "s \<in> set (ksets (start_state k items))"
    "t \<in> set (ksets (start_state k items))" "spread (start_state k items) = psum s - psum t"
    using spread_attained [OF start_state_ok assms(3)] by blast
  ultimately show ?thesis by (smt (verit))
qed

lemma start_state_same_size: "length items = k \<Longrightarrow> same_size (start_state k items)"
  unfolding same_size_def by (rule exI [of _ 1]) (auto elim!: start_state_set simp: start_sets_items)

lemma push_all:
  assumes "0 < k" and "\<And>is. is \<in> set iss \<Longrightarrow> length is \<in> {1, k}"
  shows "\<exists>pq. for_each (push_state k) iss pq0 = Inr pq \<and>
    mset pq = mset pq0 + mset (map (start_state k) iss)"
  using assms(2)
proof (induction iss arbitrary: pq0)
  case Nil
  show ?case by simp
next
  case (Cons i iss)
  have "push_state k i pq0 = Inr (heappush kstate_lt pq0 (start_state k i))"
    using Cons.prems assms(1) by (simp add: push_state_def kstate_init_Inr)
  moreover obtain pq where "for_each (push_state k) iss (heappush kstate_lt pq0 (start_state k i)) = Inr pq"
    "mset pq = mset (heappush kstate_lt pq0 (start_state k i)) + mset (map (start_state k) iss)"
    using Cons.IH Cons.prems by (metis list.set_intros(2))
  ultimately show ?case by simp
qed


section \<open>The result of Karmarkar-Karp\<close>

lemma mset_sorted_seqlens:
  "mset (map (\<lambda>(s, i). (i, s)) (sorted_seqlens l)) = mset (map (\<lambda>i. (i, l ! i)) [0..<length l])"
proof -
  have "map (\<lambda>(s, i). (i, s)) (zip l [0..<length l]) = map (\<lambda>i. (i, l ! i)) [0..<length l]"
    by (rule nth_equalityI) auto
  moreover have "mset (map (\<lambda>(s, i). (i, s)) (sorted_seqlens l))
      = mset (map (\<lambda>(s, i). (i, s)) (zip l [0..<length l]))"
    by (simp add: sorted_seqlens_def)
  ultimately show ?thesis by simp
qed

lemma length_sorted_seqlens [simp]: "length (sorted_seqlens l) = length l"
  by (simp add: sorted_seqlens_def)

lemma concat_chunks: "concat (map (\<lambda>j. map (\<lambda>i. f (j * k + i)) [0..<k]) [0..<m]) = map f [0..<m * k]"
proof (induction m)
  case 0
  show ?case by simp
next
  case (Suc m)
  have "map (\<lambda>i. f (m * k + i)) [0..<k] = map f [m * k..<m * k + k]"
    by (rule nth_equalityI) auto
  moreover have "[0..<Suc m * k] = [0..<m * k] @ [m * k..<m * k + k]"
    by (metis add.commute mult_Suc upt_add_eq_append zero_le)
  ultimately show ?case using Suc by simp
qed

lemma initial_items_props:
  assumes "0 < k" and "equal_size \<longrightarrow> length l mod k = 0"
  shows "mset (concat (initial_items l k equal_size)) = mset (map (\<lambda>i. (i, l ! i)) [0..<length l])"
    and "is \<in> set (initial_items l k equal_size) \<Longrightarrow>
         length is \<in> {1, k} \<and> length is \<le> k \<and> (equal_size \<longrightarrow> length is = k)"
proof -
  let ?ss = "sorted_seqlens l"
  let ?swap = "\<lambda>(s :: int, i :: nat). (i, s)"
  have "concat (initial_items l k equal_size) = map ?swap ?ss"
  proof (cases equal_size)
    case True
    let ?f = "\<lambda>p. (snd (?ss ! p), fst (?ss ! p))"
    have "concat (initial_items l k equal_size) = map ?f [0..<length ?ss div k * k]"
      using True concat_chunks [of ?f k] by (simp add: initial_items_def Let_def)
    also have "length ?ss div k * k = length ?ss"
      using assms True by auto
    also have "map ?f [0..<length ?ss] = map ?swap ?ss"
      by (rule nth_equalityI) (auto simp: split_beta)
    finally show ?thesis .
  next
    case False
    have "concat (map (\<lambda>(s, i). [(i, s)]) xs) = map ?swap xs" for xs
      by (induction xs) auto
    with False show ?thesis by (simp add: initial_items_def)
  qed
  then show "mset (concat (initial_items l k equal_size)) = mset (map (\<lambda>i. (i, l ! i)) [0..<length l])"
    by (simp only: mset_sorted_seqlens)
  assume "is \<in> set (initial_items l k equal_size)"
  then show "length is \<in> {1, k} \<and> length is \<le> k \<and> (equal_size \<longrightarrow> length is = k)"
    using assms(1) by (auto simp: initial_items_def Let_def split: if_splits)
qed

text \<open>The sum of the values that a partition selects.\<close>

definition part_sum :: "int list \<Rightarrow> nat list \<Rightarrow> int" where
  "part_sum l p = sum_list (map ((!) l) p)"

text \<open>What the final state of the loop is, for lengths between \<open>0\<close> and \<open>D\<close>.\<close>

lemma kk_final_state:
  assumes "0 < k" and "l \<noteq> []" and "equal_size \<longrightarrow> length l mod k = 0"
    and "\<And>s. s \<in> set l \<Longrightarrow> 0 \<le> s \<and> s \<le> D"
  shows "\<exists>pq st. for_each (push_state k) (initial_items l k equal_size) [] = Inr pq \<and>
    kk_loop pq = Inr [st] \<and> kstate_ok k st \<and>
    kitems st = mset (map (\<lambda>i. (i, l ! i)) [0..<length l]) \<and>
    filled k st \<and> spread st \<le> D \<and> (equal_size \<longrightarrow> same_size st)"
proof -
  let ?iss = "initial_items l k equal_size"
  let ?P = "\<lambda>st. filled k st \<and> spread st \<le> D \<and> (equal_size \<longrightarrow> same_size st)"
  note items = initial_items_props [OF assms(1,3)]
  have val: "0 \<le> snd x \<and> snd x \<le> D" if x: "is \<in> set ?iss" "x \<in> set is" for "is" x
  proof -
    have "x \<in># mset (concat ?iss)" using x by auto
    then obtain i where "i < length l" "x = (i, l ! i)" by (auto simp only: items(1)) auto
    then show ?thesis using assms(4) by simp
  qed
  have "0 \<le> D" using assms(2,4) by (metis dual_order.trans list.set_intros(1) neq_Nil_conv)
  obtain pq where pq: "for_each (push_state k) ?iss [] = Inr pq"
    "mset pq = mset (map (start_state k) ?iss)"
    using push_all [OF assms(1), of ?iss "[]"] items(2) by auto
  have "length (concat ?iss) = length l"
    using items(1) by (metis length_map length_upt minus_nat.diff_0 size_mset)
  then have "?iss \<noteq> []" using assms(2) by auto
  then have "pq \<noteq> []" using pq(2) by auto
  moreover have "kstate_ok k st \<and> ?P st" if st: "st \<in> set pq" for st
  proof -
    obtain "is" where i: "is \<in> set ?iss" "st = start_state k is"
      using st pq(2) by (metis in_set_conv_nth length_map nth_map set_mset_mset)
    with items(2) [OF i(1)] val [OF i(1)] show ?thesis
      using assms(1) \<open>0 \<le> D\<close> start_state_filled [of "is" k] start_state_spread [of "is" D k]
      by (simp add: start_state_ok start_state_same_size)
  qed
  moreover have "?P (kstate_merge a b)" if "kstate_ok k a" "kstate_ok k b" "?P a" "?P b" for a b
    using that filled_merge [of k a b] same_size_merge [of k a b] spread_merge [of k a b] assms(1)
    by auto
  ultimately obtain st where st: "kk_loop pq = Inr [st]" "kstate_ok k st" "?P st"
    "kitems st = (\<Sum>st\<in>#mset pq. kitems st)"
    using kk_loop_correct [of pq k ?P] by blast
  have "(\<Sum>st\<in>#mset pq. kitems st) = (\<Sum>is\<in>#mset ?iss. kitems (start_state k is))"
    by (simp add: pq(2) image_mset.compositionality comp_def)
  also have "\<dots> = (\<Sum>is\<in>#mset ?iss. mset is)"
    using items(2) by (intro arg_cong [where f = sum_mset] image_mset_cong) (simp add: start_state_items)
  also have "\<dots> = mset (concat ?iss)" by (simp add: mset_concat sum_mset_sum_list [symmetric])
  finally show ?thesis using pq st items(1) by auto
qed


lemma final_partitions:
  assumes ok: "kstate_ok k st" and items: "kitems st = mset (map (\<lambda>i. (i, l ! i)) [0..<length l])"
  shows "length (get_partitions st) = k"
    and "mset (concat (get_partitions st)) = mset [0..<length l]"
    and "i < k \<Longrightarrow> part_sum l (get_partitions st ! i) = psum (ksets st ! i)"
    and "i < k \<Longrightarrow> length (get_partitions st ! i) = length (pitems (ksets st ! i))"
proof -
  note len = kstate_ok_sets(2) [OF ok]
  show "length (get_partitions st) = k" by (simp add: get_partitions_def len)
  have "concat (get_partitions st) = map fst (concat (map pitems (ksets st)))"
    by (simp add: get_partitions_def map_concat comp_def)
  then have "mset (concat (get_partitions st)) = image_mset fst (kitems st)"
    by (simp add: kitems_concat)
  then show "mset (concat (get_partitions st)) = mset [0..<length l]"
    by (simp add: items image_mset.compositionality comp_def)
  assume i: "i < k"
  then show "length (get_partitions st ! i) = length (pitems (ksets st ! i))"
    by (simp add: get_partitions_def len)
  have "x \<in># kitems st" if "x \<in> set (pitems (ksets st ! i))" for x
    using that i len by (auto simp: kitems_concat intro!: bexI [of _ "ksets st ! i"])
  then have val: "snd x = l ! fst x" if "x \<in> set (pitems (ksets st ! i))" for x
    using that items by fastforce
  have "part_sum l (get_partitions st ! i) = sum_list (map (\<lambda>x. l ! fst x) (pitems (ksets st ! i)))"
    using i len by (simp add: part_sum_def get_partitions_def comp_def)
  also have "map (\<lambda>x. l ! fst x) (pitems (ksets st ! i)) = map snd (pitems (ksets st ! i))"
    using val by (intro map_cong) auto
  also have "sum_list \<dots> = psum (ksets st ! i)"
    using kstate_ok_sets(4) [OF ok] i len by (simp add: pset_ok_def)
  finally show "part_sum l (get_partitions st ! i) = psum (ksets st ! i)" .
qed

lemma for_each_append: "for_each f (xs @ ys) s = rbind (for_each f xs s) (for_each f ys)"
  by (induction xs arbitrary: s) (auto simp: rbind_def split: sum.splits)

lemma for_each_checks:
  "(\<And>x. x \<in> set xs \<Longrightarrow> f x u = Inr u) \<Longrightarrow> for_each f xs u = Inr u"
  by (induction xs) auto

lemma sum_same_length:
  "(\<And>p. p \<in> set ps \<Longrightarrow> length p = m) \<Longrightarrow> length (concat ps) = length ps * m"
  by (induction ps) auto

text \<open>What it means to be a good answer for a partitioner: \<open>k\<close> lists that share out the indices.\<close>

definition index_partition :: "nat \<Rightarrow> nat \<Rightarrow> nat list list \<Rightarrow> bool" where
  "index_partition n k ps \<longleftrightarrow> length ps = k \<and> mset (concat ps) = mset [0..<n]"

lemma karmarkar_karp_spec:
  assumes k: "0 < k" and "l \<noteq> []" and eq: "equal_size \<longrightarrow> length l mod k = 0"
    and val: "\<And>s. s \<in> set l \<Longrightarrow> 0 \<le> s \<and> s \<le> D"
  shows "\<exists>ps. karmarkar_karp l k equal_size = Inr ps \<and> index_partition (length l) k ps \<and>
    (equal_size \<longrightarrow> (\<forall>p\<in>set ps. length p * k = length l)) \<and>
    (k \<le> length l \<longrightarrow> (\<forall>p\<in>set ps. p \<noteq> [])) \<and>
    (\<forall>p\<in>set ps. \<forall>q\<in>set ps. part_sum l p - part_sum l q \<le> D)"
proof -
  obtain pq st where run: "for_each (push_state k) (initial_items l k equal_size) [] = Inr pq"
      "kk_loop pq = Inr [st]"
    and st: "kstate_ok k st" "kitems st = mset (map (\<lambda>i. (i, l ! i)) [0..<length l])"
      "filled k st" "spread st \<le> D" "equal_size \<longrightarrow> same_size st"
    using kk_final_state [OF assms] by blast
  let ?ps = "get_partitions st"
  note parts = final_partitions [OF st(1,2)]
  have idx: "\<exists>i<k. p = ?ps ! i" if "p \<in> set ?ps" for p
    using that parts(1) by (metis in_set_conv_nth)
  have eqs: "length p * k = length l" if eqt: "equal_size" and p: "p \<in> set ?ps" for p
  proof -
    obtain m where m: "\<And>s. s \<in> set (ksets st) \<Longrightarrow> length (pitems s) = m"
      using st(5) eqt by (auto simp: same_size_def)
    then have "\<And>q. q \<in> set ?ps \<Longrightarrow> length q = m" by (auto simp: get_partitions_def)
    moreover have "length (concat ?ps) = length l"
      using parts(2) by (metis length_upt minus_nat.diff_0 size_mset)
    ultimately have "k * m = length l" "length p = m"
      using sum_same_length [of ?ps m] parts(1) p by auto
    then show ?thesis by (metis mult.commute)
  qed
  have ne: "p \<noteq> []" if "k \<le> length l" "p \<in> set ?ps" for p
  proof -
    obtain i where i: "i < k" "p = ?ps ! i" using idx \<open>p \<in> set ?ps\<close> by blast
    have "k \<le> used (ksets st)" "nonneg st"
      using st(2,3) that(1) by (auto simp: filled_def)
    then have "pitems (ksets st ! i) \<noteq> []" using used_nonempty [OF st(1)] i by simp
    then show ?thesis using parts(4) [OF i(1)] i by auto
  qed
  have bal: "part_sum l p - part_sum l q \<le> D" if p: "p \<in> set ?ps" and q: "q \<in> set ?ps" for p q
  proof -
    obtain i where i: "i < k" "p = ?ps ! i" using idx [OF p] by blast
    obtain j where j: "j < k" "q = ?ps ! j" using idx [OF q] by blast
    show ?thesis
      using parts(3) [OF i(1)] parts(3) [OF j(1)] spread_bounds [OF st(1) i(1) j(1)] st(4) i(2) j(2)
      by simp
  qed
  have "equal_size \<Longrightarrow> check_equal k (length l) ?ps = Inr ()"
    unfolding check_equal_def by (rule for_each_checks) (simp add: eqs)
  then have "karmarkar_karp l k equal_size = Inr ?ps"
    using run k eq by (auto simp: karmarkar_karp_def Let_def)
  then show ?thesis using parts(1,2) eqs ne bal by (auto simp: index_partition_def)
qed


section \<open>The contract of a partitioner\<close>

text \<open>
  What the callers rely on: the indices are shared out, in equal sizes when asked for, and
  without that constraint no two parts differ by more than the largest value. The balance
  guarantee for a single part follows from the contract alone.
\<close>

locale partitioner =
  fixes part :: "int list \<Rightarrow> nat \<Rightarrow> bool \<Rightarrow> nat list list result"
  assumes part_total: "0 < k \<Longrightarrow> l \<noteq> [] \<Longrightarrow> equal_size \<longrightarrow> length l mod k = 0 \<Longrightarrow>
      (\<And>s. s \<in> set l \<Longrightarrow> 0 \<le> s) \<Longrightarrow> \<exists>ps. part l k equal_size = Inr ps"
    and part_indices: "0 < k \<Longrightarrow> l \<noteq> [] \<Longrightarrow> (\<And>s. s \<in> set l \<Longrightarrow> 0 \<le> s) \<Longrightarrow>
      part l k equal_size = Inr ps \<Longrightarrow> index_partition (length l) k ps"
    and part_equal: "part l k True = Inr ps \<Longrightarrow> p \<in> set ps \<Longrightarrow> length p * k = length l"
    and part_balanced: "0 < k \<Longrightarrow> l \<noteq> [] \<Longrightarrow> (\<And>s. s \<in> set l \<Longrightarrow> 0 \<le> s \<and> s \<le> D) \<Longrightarrow>
      part l k False = Inr ps \<Longrightarrow> p \<in> set ps \<Longrightarrow> q \<in> set ps \<Longrightarrow> part_sum l p - part_sum l q \<le> D"
begin

lemma sum_of_parts:
  assumes "0 < k" and "l \<noteq> []" and "\<And>s. s \<in> set l \<Longrightarrow> 0 \<le> s" and "part l k equal_size = Inr ps"
  shows "sum_list (map (part_sum l) ps) = sum_list l"
proof -
  have "mset (concat ps) = mset [0..<length l]"
    using part_indices [OF assms] by (simp add: index_partition_def)
  then have "mset (map ((!) l) (concat ps)) = mset (map ((!) l) [0..<length l])"
    by (metis mset_map)
  then have "sum_list (map ((!) l) (concat ps)) = sum_list l"
    by (metis map_nth sum_mset_sum_list)
  moreover have "sum_list (map ((!) l) (concat ps)) = sum_list (map (part_sum l) ps)"
    by (induction ps) (auto simp: part_sum_def)
  ultimately show ?thesis by simp
qed

lemma load_bound:
  assumes "0 < k" and "l \<noteq> []" and val: "\<And>s. s \<in> set l \<Longrightarrow> 0 \<le> s \<and> s \<le> D"
    and run: "part l k False = Inr ps" and p: "p \<in> set ps"
  shows "int k * part_sum l p \<le> sum_list l + int (k - 1) * D"
proof -
  have nn: "\<And>s. s \<in> set l \<Longrightarrow> 0 \<le> s" using val by blast
  have len: "length ps = k"
    using part_indices [OF assms(1,2) nn run] by (simp add: index_partition_def)
  obtain us vs where ps: "ps = us @ p # vs" using p by (auto simp: in_set_conv_decomp)
  have "part_sum l p - D \<le> part_sum l q" if "q \<in> set (us @ vs)" for q
    using part_balanced [OF assms(1,2) val run p, of q] that ps by simp
  then have "int (length (us @ vs)) * (part_sum l p - D) \<le> sum_list (map (part_sum l) (us @ vs))"
    using sum_list_ge_mult [of "map (part_sum l) (us @ vs)" "part_sum l p - D"] by auto
  moreover have "length (us @ vs) = k - 1" using len ps by simp
  then have "int (length (us @ vs)) = int (k - 1)" by (rule arg_cong)
  moreover have "sum_list (map (part_sum l) ps) = part_sum l p + sum_list (map (part_sum l) (us @ vs))"
    using ps by simp
  ultimately have "int (k - 1) * (part_sum l p - D) + part_sum l p \<le> sum_list l"
    using sum_of_parts [OF assms(1,2) nn run] by (simp only: map_append sum_list_append)
  then have "int (k - 1) * part_sum l p - int (k - 1) * D + part_sum l p \<le> sum_list l"
    by (simp only: right_diff_distrib)
  moreover have "int k * part_sum l p = int (k - 1) * part_sum l p + part_sum l p"
    using assms(1) by (cases k) (simp_all add: distrib_right)
  ultimately show ?thesis by linarith
qed

end

lemma check_equal_Inr:
  "check_equal k n ps = Inr u \<Longrightarrow> p \<in> set ps \<Longrightarrow> length p * k = n"
  unfolding check_equal_def by (induction ps) (auto simp: rbind_eq_Inr passert_eq_Inr)

lemma karmarkar_karp_equal:
  "karmarkar_karp l k True = Inr ps \<Longrightarrow> p \<in> set ps \<Longrightarrow> length p * k = length l"
proof -
  assume run: "karmarkar_karp l k True = Inr ps" and p: "p \<in> set ps"
  then obtain pq where "(case pq of [] \<Rightarrow> Inl (IndexError ''list index out of range'')
      | st # _ \<Rightarrow> rbind (check_equal k (length l) (get_partitions st)) (\<lambda>_. Inr (get_partitions st)))
      = Inr ps"
    by (auto simp: karmarkar_karp_def Let_def rbind_eq_Inr passert_eq_Inr split: if_splits)
  then have "check_equal k (length l) ps = Inr ()"
    by (cases pq) (auto simp: rbind_eq_Inr)
  then show "length p * k = length l" using p by (rule check_equal_Inr)
qed

lemma le_Max_list: "s \<in> set l \<Longrightarrow> s \<le> Max (set l)"
  by simp

lemma karmarkar_karp_Inr:
  assumes "0 < k" and "l \<noteq> []" and "\<And>s. s \<in> set l \<Longrightarrow> 0 \<le> s \<and> s \<le> D"
    and run: "karmarkar_karp l k equal_size = Inr ps"
  shows "index_partition (length l) k ps \<and> (k \<le> length l \<longrightarrow> (\<forall>p\<in>set ps. p \<noteq> [])) \<and>
    (\<forall>p\<in>set ps. \<forall>q\<in>set ps. part_sum l p - part_sum l q \<le> D)"
proof -
  have "equal_size \<longrightarrow> length l mod k = 0"
    using run assms(1) by (auto simp: karmarkar_karp_def Let_def passert_eq_Inr)
  from karmarkar_karp_spec [OF assms(1,2) this assms(3)] run show ?thesis by auto
qed

interpretation kk: partitioner karmarkar_karp
proof (unfold_locales, goal_cases)
  case (1 k l equal_size)
  then show ?case
    using karmarkar_karp_spec [of k l equal_size "Max (set l)"] by fastforce
next
  case (2 k l equal_size ps)
  then show ?case
    using karmarkar_karp_Inr [of k l "Max (set l)" equal_size ps] by fastforce
next
  case (3 l k ps p)
  then show ?case by (rule karmarkar_karp_equal)
next
  case (4 k l D ps p q)
  then show ?case
    using karmarkar_karp_Inr [of k l D False ps] by blast
qed


section \<open>The greedy partitioner meets the contract\<close>

lemma greedy_min_idx_upto:
  "0 < j \<Longrightarrow> \<exists>m<j. greedy_min_idx loads j = Some m \<and> (\<forall>i<j. loads ! m \<le> loads ! i)"
proof (induction j)
  case 0
  then show ?case by simp
next
  case (Suc j)
  show ?case
  proof (cases "j = 0")
    case True
    then show ?thesis by (simp add: greedy_min_idx_def)
  next
    case False
    with Suc obtain m where m: "m < j" "greedy_min_idx loads j = Some m" "\<forall>i<j. loads ! m \<le> loads ! i"
      by auto
    then have step: "greedy_min_idx loads (Suc j) = (if loads ! j < loads ! m then Some j else Some m)"
      by (simp add: greedy_min_idx_def)
    show ?thesis
    proof (cases "loads ! j < loads ! m")
      case True
      with m step show ?thesis by (fastforce simp: less_Suc_eq)
    next
      case False
      with m step show ?thesis by (fastforce simp: less_Suc_eq)
    qed
  qed
qed

text \<open>
  The invariant of the loop after the first \<open>t\<close> items: with \<open>b\<close> the bias, each stored sum is the
  real sum of its part plus \<open>b\<close> for each of its items.
\<close>

definition greedy_inv ::
    "int list \<Rightarrow> nat \<Rightarrow> int \<Rightarrow> int \<Rightarrow> nat \<Rightarrow> nat list list \<times> int list \<Rightarrow> bool" where
  "greedy_inv l k b D t acc \<longleftrightarrow>
     (case acc of (ps, loads) \<Rightarrow>
        length ps = k \<and> length loads = k \<and> mset (concat ps) = mset [0..<t] \<and>
        (\<forall>i<k. loads ! i = b * int (length (ps ! i)) + part_sum l (ps ! i)) \<and>
        (b = 0 \<longrightarrow> (\<forall>i<k. \<forall>j<k. part_sum l (ps ! i) - part_sum l (ps ! j) \<le> D)) \<and>
        (sum_list l < b \<longrightarrow> (\<forall>i<k. \<forall>j<k. length (ps ! i) \<le> length (ps ! j) + 1)))"

lemma part_sum_snoc [simp]: "part_sum l (p @ [i]) = part_sum l p + l ! i"
  by (simp add: part_sum_def)

lemma mset_concat_update:
  "m < length ps \<Longrightarrow> mset (concat (ps[m := ps ! m @ [i]])) = add_mset i (mset (concat ps))"
proof (induction ps arbitrary: m)
  case Nil
  then show ?case by simp
next
  case (Cons p ps)
  then show ?case by (cases m) auto
qed

lemma part_sum_le_total:
  assumes "mset (concat ps) = mset [0..<t]" and "t \<le> length l" and "p \<in> set ps"
    and nn: "\<And>s. s \<in> set l \<Longrightarrow> 0 \<le> s"
  shows "0 \<le> part_sum l p \<and> part_sum l p \<le> sum_list l"
proof -
  have idx: "set (concat ps) = {0..<t}"
    using assms(1) by (metis set_mset_mset set_upt)
  have pos: "0 \<le> part_sum l q" if "q \<in> set ps" for q
  proof -
    have "i < length l" if "i \<in> set q" for i
    proof -
      have "i \<in> set (concat ps)" using that \<open>q \<in> set ps\<close> by auto
      then show ?thesis using assms(2) unfolding idx by simp
    qed
    then show ?thesis unfolding part_sum_def using nn by (auto intro!: sum_list_nonneg)
  qed
  have "sum_list (map (part_sum l) ps) = sum_list (map ((!) l) (concat ps))"
    by (induction ps) (auto simp: part_sum_def)
  also have "\<dots> = sum_list (map ((!) l) [0..<t])"
    using assms(1) by (metis mset_map sum_mset_sum_list)
  also have "map ((!) l) [0..<t] = take t l"
    using assms(2) by (auto intro!: nth_equalityI)
  also have "sum_list (take t l) \<le> sum_list (take t l) + sum_list (drop t l)"
    using nn by (simp add: sum_list_nonneg in_set_dropD)
  also have "\<dots> = sum_list l" by (metis append_take_drop_id sum_list_append)
  finally have "sum_list (map (part_sum l) ps) \<le> sum_list l" .
  moreover have "part_sum l p \<le> sum_list (map (part_sum l) ps)"
    using assms(3) pos by (intro member_le_sum_list) auto
  ultimately show ?thesis using pos [OF assms(3)] by simp
qed

lemma greedy_inv_step:
  assumes inv: "greedy_inv l k b D t acc" and k: "0 < k" and t: "t < length l"
    and val: "\<And>s. s \<in> set l \<Longrightarrow> 0 \<le> s \<and> s \<le> D" and b: "0 \<le> b"
  shows "\<exists>acc'. greedy_step k (l ! t + b, t) acc = Inr acc' \<and> greedy_inv l k b D (Suc t) acc'"
proof -
  obtain ps loads where acc: "acc = (ps, loads)" by fastforce
  obtain m where m: "m < k" "greedy_min_idx loads k = Some m" "\<And>i. i < k \<Longrightarrow> loads ! m \<le> loads ! i"
    using greedy_min_idx_upto [OF k] by blast
  let ?ps = "ps[m := ps ! m @ [t]]" and ?loads = "loads[m := loads ! m + (l ! t + b)]"
  have I: "length ps = k" "length loads = k" "mset (concat ps) = mset [0..<t]"
    "\<And>i. i < k \<Longrightarrow> loads ! i = b * int (length (ps ! i)) + part_sum l (ps ! i)"
    "b = 0 \<Longrightarrow> i < k \<Longrightarrow> j < k \<Longrightarrow> part_sum l (ps ! i) - part_sum l (ps ! j) \<le> D"
    "sum_list l < b \<Longrightarrow> i < k \<Longrightarrow> j < k \<Longrightarrow> length (ps ! i) \<le> length (ps ! j) + 1" for i j
    using inv by (auto simp: greedy_inv_def acc)
  have lt: "0 \<le> l ! t" "l ! t \<le> D" using val t by auto
  have bounds: "0 \<le> part_sum l (ps ! i) \<and> part_sum l (ps ! i) \<le> sum_list l" if "i < k" for i
    using part_sum_le_total [OF I(3)] t I(1) that val by simp
  have least: "length (ps ! m) \<le> length (ps ! j)" if "sum_list l < b" "j < k" for j
  proof (rule ccontr)
    assume "\<not> length (ps ! m) \<le> length (ps ! j)"
    then have "b * (int (length (ps ! j)) + 1) \<le> b * int (length (ps ! m))"
      using b by (intro mult_left_mono) auto
    then have "loads ! j < loads ! m"
      using I(4) [OF that(2)] I(4) [OF m(1)] bounds [OF that(2)] bounds [OF m(1)] that(1)
      by (simp add: distrib_left)
    then show False using m(3) [OF that(2)] by simp
  qed
  have len: "length (?ps ! i) = (if i = m then length (ps ! m) + 1 else length (ps ! i))" if "i < k" for i
    using that I(1) by (auto simp: nth_list_update)
  have psum: "part_sum l (?ps ! i) = (if i = m then part_sum l (ps ! m) + l ! t else part_sum l (ps ! i))"
    if "i < k" for i
    using that I(1) by (auto simp: nth_list_update)
  have "mset (concat ?ps) = mset [0..<Suc t]"
    using m(1) I(1,3) by (simp add: mset_concat_update)
  moreover have "?loads ! i = b * int (length (?ps ! i)) + part_sum l (?ps ! i)" if "i < k" for i
    using I(4) [OF that] I(4) [OF m(1)] I(2) that by (auto simp: len psum nth_list_update distrib_left)
  moreover have "part_sum l (?ps ! i) - part_sum l (?ps ! j) \<le> D" if "b = 0" "i < k" "j < k" for i j
  proof -
    have "part_sum l (ps ! m) \<le> part_sum l (ps ! j)"
      using m(3) [OF that(3)] I(4) [OF that(3)] I(4) [OF m(1)] that(1) by simp
    moreover have "part_sum l (ps ! i) - part_sum l (ps ! j) \<le> D" by (rule I(5) [OF that])
    moreover have "part_sum l (ps ! i) - part_sum l (ps ! m) \<le> D" by (rule I(5) [OF that(1,2) m(1)])
    ultimately show ?thesis
      using lt psum [OF that(2)] psum [OF that(3)] by (cases "i = m"; cases "j = m") simp_all
  qed
  moreover have "length (?ps ! i) \<le> length (?ps ! j) + 1" if "sum_list l < b" "i < k" "j < k" for i j
    using I(6) [OF that] least [OF that(1)] that by (auto simp: len)
  ultimately have "greedy_inv l k b D (Suc t) (?ps, ?loads)"
    using I(1,2) by (simp add: greedy_inv_def)
  moreover have "greedy_step k (l ! t + b, t) acc = Inr (?ps, ?loads)"
    by (simp add: greedy_step_def acc m(2))
  ultimately show ?thesis by blast
qed


lemma greedy_inv_start: "0 \<le> D \<Longrightarrow> greedy_inv l k b D 0 (replicate k [], replicate k 0)"
  by (simp add: greedy_inv_def part_sum_def)

lemma greedy_loop:
  assumes "0 < k" and "t \<le> length l" and "\<And>s. s \<in> set l \<Longrightarrow> 0 \<le> s \<and> s \<le> D" and "0 \<le> b" and "0 \<le> D"
  shows "\<exists>acc. for_each (greedy_step k) (map (\<lambda>i. (l ! i + b, i)) [0..<t]) (replicate k [], replicate k 0)
      = Inr acc \<and> greedy_inv l k b D t acc"
  using assms(2)
proof (induction t)
  case 0
  then show ?case using greedy_inv_start assms(5) by simp
next
  case (Suc t)
  then obtain acc where acc: "greedy_inv l k b D t acc"
    "for_each (greedy_step k) (map (\<lambda>i. (l ! i + b, i)) [0..<t]) (replicate k [], replicate k 0) = Inr acc"
    by auto
  obtain acc' where "greedy_step k (l ! t + b, t) acc = Inr acc'" "greedy_inv l k b D (Suc t) acc'"
    using greedy_inv_step [OF acc(1) assms(1) _ assms(3,4)] Suc.prems by auto
  with acc(2) show ?case by (auto simp: for_each_append)
qed

lemma greedy_final:
  assumes "0 < k" and "\<And>s. s \<in> set l \<Longrightarrow> 0 \<le> s \<and> s \<le> D" and "0 \<le> D"
  shows "\<exists>ps loads. greedy_inv l k (if equal_size then sum_list l + 1 else 0) D (length l) (ps, loads) \<and>
    greedy_partition l k equal_size =
      (if equal_size then rbind (check_equal k (length l) ps) (\<lambda>_. Inr ps) else Inr ps)"
proof -
  let ?b = "if equal_size then sum_list l + 1 else 0"
  have "0 \<le> sum_list l" using assms(2) by (intro sum_list_nonneg) auto
  then have b: "0 \<le> ?b" by simp
  have "map (\<lambda>(s, i). (s + ?b, i)) (zip l [0..<length l]) = map (\<lambda>i. (l ! i + ?b, i)) [0..<length l]"
    by (rule nth_equalityI) auto
  note items = this
  obtain ps loads where loop:
    "for_each (greedy_step k) (map (\<lambda>i. (l ! i + ?b, i)) [0..<length l]) (replicate k [], replicate k 0)
      = Inr (ps, loads)" "greedy_inv l k ?b D (length l) (ps, loads)"
    using greedy_loop [OF assms(1) le_refl assms(2) b assms(3)] by fastforce
  then have "greedy_partition l k equal_size =
      (if equal_size then rbind (check_equal k (length l) ps) (\<lambda>_. Inr ps) else Inr ps)"
    unfolding greedy_partition_def Let_def items by simp
  with loop(2) show ?thesis by blast
qed

text \<open>With the bias, the sizes differ by at most one, so divisibility makes them equal.\<close>

lemma equal_lengths:
  assumes "length ps = k" and "0 < k" and "length (concat ps) = n" and "n mod k = 0"
    and diff: "\<And>p q. p \<in> set ps \<Longrightarrow> q \<in> set ps \<Longrightarrow> length p \<le> length q + 1" and p: "p \<in> set ps"
  shows "length p * k = n"
proof -
  define m where "m = Min (length ` set ps)"
  have ps: "set ps \<noteq> {}" using p by auto
  have lo: "m \<le> length q" if "q \<in> set ps" for q using that by (simp add: m_def)
  obtain q0 where q0: "q0 \<in> set ps" "length q0 = m"
    using Min_in [of "length ` set ps"] ps unfolding m_def
    by (metis (no_types, lifting) List.finite_set finite_imageI imageE image_is_empty)
  have hi: "length q \<le> m + 1" if "q \<in> set ps" for q using diff [OF that q0(1)] q0(2) by simp
  define c where "c = length (filter (\<lambda>q. length q = m + 1) ps)"
  have "length (concat qs) = length qs * m + length (filter (\<lambda>q. length q = m + 1) qs)"
    if "set qs \<subseteq> set ps" for qs
    using that
  proof (induction qs)
    case (Cons q qs)
    then have "length q = m \<or> length q = m + 1" using lo [of q] hi [of q] by fastforce
    with Cons show ?case by auto
  qed simp
  from this [of ps] have n: "n = k * m + c" using assms(1,3) by (simp add: c_def)
  have "length (filter (\<lambda>q. length q = m + 1) ps) < length ps"
    using q0 by (intro length_filter_less [of q0]) auto
  then have "c < k" using assms(1) by (simp add: c_def)
  then have "c = 0" using n assms(4) by simp
  then have "length p \<noteq> m + 1" using p by (auto simp: c_def filter_empty_conv)
  then have "length p = m" using lo [OF p] hi [OF p] by simp
  with n \<open>c = 0\<close> show ?thesis by simp
qed

lemma greedy_partition_spec:
  assumes k: "0 < k" and "equal_size \<longrightarrow> length l mod k = 0"
    and val: "\<And>s. s \<in> set l \<Longrightarrow> 0 \<le> s \<and> s \<le> D" and "0 \<le> D"
  shows "\<exists>ps. greedy_partition l k equal_size = Inr ps"
proof -
  obtain ps loads where
    inv: "greedy_inv l k (if equal_size then sum_list l + 1 else 0) D (length l) (ps, loads)" and
    run: "greedy_partition l k equal_size =
      (if equal_size then rbind (check_equal k (length l) ps) (\<lambda>_. Inr ps) else Inr ps)"
    using greedy_final [OF k val assms(4)] by blast
  have "check_equal k (length l) ps = Inr ()" if equal_size
  proof -
    have len: "length ps = k" "length (concat ps) = length l"
    proof -
      show "length ps = k" using inv by (simp add: greedy_inv_def)
      have "mset (concat ps) = mset [0..<length l]" using inv by (simp only: greedy_inv_def split)
      then have "size (mset (concat ps)) = size (mset [0..<length l])" by (rule arg_cong)
      then show "length (concat ps) = length l" by (simp only: size_mset length_upt minus_nat.diff_0)
    qed
    have near: "\<And>i j. i < k \<Longrightarrow> j < k \<Longrightarrow> length (ps ! i) \<le> length (ps ! j) + 1"
      using inv \<open>equal_size\<close> by (simp add: greedy_inv_def)
    have diff: "length p \<le> length q + 1" if p: "p \<in> set ps" and q: "q \<in> set ps" for p q
    proof -
      obtain i where "i < k" "p = ps ! i" using p len(1) by (auto simp: in_set_conv_nth)
      moreover obtain j where "j < k" "q = ps ! j" using q len(1) by (auto simp: in_set_conv_nth)
      ultimately show ?thesis using near by simp
    qed
    have "length p * k = length l" if p: "p \<in> set ps" for p
    proof (rule equal_lengths [OF len(1) k len(2) _ _ p])
      show "length l mod k = 0" using assms(2) \<open>equal_size\<close> by simp
    qed (rule diff)
    then show ?thesis unfolding check_equal_def by (intro for_each_checks) simp
  qed
  with run show ?thesis by auto
qed

lemma greedy_partition_Inr:
  assumes "0 < k" and "\<And>s. s \<in> set l \<Longrightarrow> 0 \<le> s \<and> s \<le> D" and "0 \<le> D"
    and run: "greedy_partition l k equal_size = Inr ps"
  shows "index_partition (length l) k ps \<and>
    (\<not> equal_size \<longrightarrow> (\<forall>p\<in>set ps. \<forall>q\<in>set ps. part_sum l p - part_sum l q \<le> D))"
proof -
  obtain ps' loads where
    inv: "greedy_inv l k (if equal_size then sum_list l + 1 else 0) D (length l) (ps', loads)"
    and eq: "greedy_partition l k equal_size =
      (if equal_size then rbind (check_equal k (length l) ps') (\<lambda>_. Inr ps') else Inr ps')"
    using greedy_final [of k l D equal_size, OF assms(1,2,3)] by blast
  from eq run have "ps' = ps" by (cases equal_size) (auto simp: rbind_eq_Inr)
  with inv have "greedy_inv l k (if equal_size then sum_list l + 1 else 0) D (length l) (ps, loads)"
    by simp
  then show ?thesis by (auto simp: greedy_inv_def index_partition_def in_set_conv_nth)
qed

interpretation greedy: partitioner greedy_partition
proof (unfold_locales, goal_cases)
  case (1 k l equal_size)
  moreover have "0 \<le> Max (set l)"
    using 1 by (metis List.finite_set Max_in set_empty)
  ultimately show ?case
    using greedy_partition_spec [of k equal_size l "Max (set l)"] by simp
next
  case (2 k l equal_size ps)
  moreover have "0 \<le> Max (set l)"
    using 2 by (metis List.finite_set Max_in set_empty)
  ultimately show ?case
    using greedy_partition_Inr [of k l "Max (set l)" equal_size ps] by simp
next
  case (3 l k ps p)
  then have "check_equal k (length l) ps = Inr ()"
    by (auto simp: greedy_partition_def Let_def rbind_eq_Inr split: prod.splits)
  then show ?case using 3 check_equal_Inr by blast
next
  case (4 k l D ps p q)
  moreover have "0 \<le> D" using 4 by (metis dual_order.trans last_in_set)
  ultimately show ?case
    using greedy_partition_Inr [of k l D False ps] by blast
qed

end
