(* ===== verification/Microbatch.thy ===== *)
theory Microbatch
  imports Seqlen
begin

text \<open>
  The callers of the partitioner in \<open>verl/utils/seqlen_balancing.py\<close>: the dynamic split of a
  batch into micro-batches, the inverse permutation that restores the batch, the imbalance
  metrics, and the partition that keeps the samples of one prompt together.
\<close>

section \<open>Rounding\<close>

definition ceildiv :: "int \<Rightarrow> int \<Rightarrow> int result" where
  "ceildiv a b =
     (if b = 0 then Inl (ZeroDivisionError ''integer division or modulo by zero'')
      else Inr (- (a div (- b))))"

definition roundup_divisible :: "int \<Rightarrow> int \<Rightarrow> int result" where
  "roundup_divisible a b =
     (if b = 0 then Inl (ZeroDivisionError ''integer division or modulo by zero'')
      else Inr (((a + b - 1) div b) * b))"

section \<open>The imbalance metrics\<close>

record unbalance =
  ub_min :: int
  ub_max :: int
  ub_minmax_diff :: int
  ub_balanced_min :: int
  ub_balanced_max :: int
  ub_mean :: rat

text \<open>The sums of the slices \<open>seqlen_list[offset : offset + batch_size]\<close>.\<close>

definition slice_sums :: "int list \<Rightarrow> nat \<Rightarrow> int list" where
  "slice_sums l batch_size =
     map (\<lambda>offset. sum_list (take batch_size (drop offset l)))
       (step_slice 0 batch_size [0..<length l])"

definition log_seqlen_unbalance :: "int list \<Rightarrow> nat list list \<Rightarrow> unbalance result" where
  "log_seqlen_unbalance l partitions =
     (let k = length partitions in
      if k = 0 then Inl (ZeroDivisionError ''integer division or modulo by zero'')
      else let batch_size = length l div k in
      if batch_size = 0 then Inl (ValueError ''range() arg 3 must not be zero'')
      else if \<exists>p\<in>set partitions. \<exists>i\<in>set p. length l \<le> i
      then Inl (IndexError ''list index out of range'')
      else let slices = slice_sums l batch_size;
               balanced = map (part_sum l) partitions;
               lo = Min (set slices); hi = Max (set slices)
      in Inr \<lparr>ub_min = lo, ub_max = hi, ub_minmax_diff = hi - lo,
              ub_balanced_min = Min (set balanced), ub_balanced_max = Max (set balanced),
              ub_mean = rat_of_int (sum_list slices) / rat_of_nat k\<rparr>)"

section \<open>The split into micro-batches\<close>

text \<open>
  A batch as the function reads it: the lengths come from the offsets of a nested tensor, or
  from the attention mask of a padded one; the rows are what \<open>index_select_tensor_dict\<close>
  selects. \<open>attn_width\<close> is \<open>attention_mask.shape[-1]\<close>.
\<close>

datatype input_ids = Nested "int list" | Padded

record 'row tbatch =
  ids :: input_ids
  attention_mask :: "int list list"
  attn_width :: int
  rows :: "'row list"

definition seq_len_effective :: "'row tbatch \<Rightarrow> int list" where
  "seq_len_effective b =
     (case ids b of
        Nested offsets \<Rightarrow> map2 (-) (tl offsets) (butlast offsets)
      | Padded \<Rightarrow> map sum_list (attention_mask b))"

definition max_seq_len :: "'row tbatch \<Rightarrow> int result" where
  "max_seq_len b =
     (case ids b of
        Nested offsets \<Rightarrow>
          (if seq_len_effective b = [] then Inl (ValueError ''max() iterable argument is empty'')
           else Inr (Max (set (seq_len_effective b))))
      | Padded \<Rightarrow> Inr (attn_width b))"

text \<open>
  The number of micro-batches. \<open>dp_sync\<close> is the \<open>all_reduce\<close> with \<open>MAX\<close> over the data-parallel
  group: \<open>None\<close> when \<open>torch.distributed\<close> is not initialised, no group is given or the
  ranks need not agree.
\<close>

definition num_micro_batches ::
    "int \<Rightarrow> int \<Rightarrow> nat \<Rightarrow> (int \<Rightarrow> int) option \<Rightarrow> int option \<Rightarrow> int option \<Rightarrow> int result" where
  "num_micro_batches total_seqlen max_token_len num_groups dp_sync num_batches_divided_by
       min_num_micro_batch =
     rbind (ceildiv total_seqlen max_token_len) (\<lambda>c.
       let n0 = min (int num_groups) c;
           n1 = (case min_num_micro_batch of None \<Rightarrow> n0 | Some m \<Rightarrow> max m n0);
           n2 = (case dp_sync of None \<Rightarrow> n1 | Some all_reduce \<Rightarrow> all_reduce n1)
       in case num_batches_divided_by of None \<Rightarrow> Inr n2 | Some d \<Rightarrow> roundup_divisible n2 d)"

text \<open>The workload of each group of \<open>g\<close> consecutive samples.\<close>

definition group_workloads :: "int list \<Rightarrow> nat \<Rightarrow> nat \<Rightarrow> int list" where
  "group_workloads lens num_groups g =
     map (\<lambda>j. sum_list (take g (drop (j * g) (calculate_workload lens)))) [0..<num_groups]"

definition expand_groups :: "nat \<Rightarrow> nat list list \<Rightarrow> nat list list" where
  "expand_groups g = map (\<lambda>group_partition. concat (map (\<lambda>j. [j * g..<j * g + g]) group_partition))"

text \<open>The sort key: the workload of a micro-batch, then its first index.\<close>

definition micro_key :: "int list \<Rightarrow> nat \<Rightarrow> nat list \<Rightarrow> int \<times> nat" where
  "micro_key workloads g p =
     (if 1 < g then sum_list (map (\<lambda>idx. workloads ! (idx div g)) (step_slice 0 g p))
      else sum_list (map ((!) workloads) p),
      case p of [] \<Rightarrow> 0 | i # _ \<Rightarrow> i)"

definition bubble_order :: "'a list \<Rightarrow> 'a list" where
  "bubble_order xs = rev (step_slice 0 2 xs) @ step_slice 1 2 xs"

definition micro_bsz_idx :: "int list \<Rightarrow> nat \<Rightarrow> nat \<Rightarrow> bool \<Rightarrow> nat list list result" where
  "micro_bsz_idx lens num_micro g use_dynamic_bsz_balance =
     (let num_groups = length lens div g;
          workloads = (if 1 < g then group_workloads lens num_groups g else calculate_workload lens)
      in rbind (get_seqlen_balanced_partitions workloads num_micro False)
           (\<lambda>ps. let idx = (if 1 < g then expand_groups g ps else ps)
                 in Inr (if use_dynamic_bsz_balance
                         then bubble_order (py_sort_desc (micro_key workloads g) idx)
                         else idx)))"

definition index_select :: "'row list \<Rightarrow> nat list \<Rightarrow> 'row list" where
  "index_select rs p = map ((!) rs) p"

definition rearrange_micro_batches ::
    "'row tbatch \<Rightarrow> int \<Rightarrow> (int \<Rightarrow> int) option \<Rightarrow> int option \<Rightarrow> int option \<Rightarrow> bool \<Rightarrow> nat
      \<Rightarrow> ('row list list \<times> nat list list) result" where
  "rearrange_micro_batches batch max_token_len dp_sync num_batches_divided_by
       min_num_micro_batch use_dynamic_bsz_balance force_group_size =
     rbind (max_seq_len batch) (\<lambda>longest.
       passert (longest \<le> max_token_len)
         (''max_token_len must be greater than the sequence length. Got max_token_len=''
           @ show_int max_token_len @ '' and max_seq_len='' @ show_int longest)
       (let lens = seq_len_effective batch; batch_size = length lens in
        if force_group_size = 0 then Inl (ZeroDivisionError ''integer modulo by zero'')
        else passert (batch_size mod force_group_size = 0)
          (''Batch size '' @ show_nat batch_size @ '' must be divisible by force_group_size ''
            @ show_nat force_group_size)
        (let num_groups = batch_size div force_group_size in
         rbind (num_micro_batches (sum_list lens) max_token_len num_groups dp_sync
                  num_batches_divided_by min_num_micro_batch) (\<lambda>n.
         passert (n \<le> int num_groups) []
         (rbind (micro_bsz_idx lens (nat n) force_group_size use_dynamic_bsz_balance) (\<lambda>idx.
          Inr (map (index_select (rows batch)) idx, idx)))))))"

section \<open>Restoring a batch\<close>

definition get_reverse_idx :: "nat list \<Rightarrow> nat list result" where
  "get_reverse_idx idx_map =
     for_each (\<lambda>(i, idx) acc. if idx < length acc then Inr (acc[idx := i])
                              else Inl (IndexError ''list assignment index out of range''))
       (zip [0..<length idx_map] idx_map) idx_map"

definition take_rows :: "'a list \<Rightarrow> nat list \<Rightarrow> 'a list result" where
  "take_rows data idx =
     (if \<forall>i\<in>set idx. i < length data then Inr (map ((!) data) idx)
      else Inl (IndexError ''index out of range''))"

definition restore_dynamic_batch :: "'a list \<Rightarrow> nat list list \<Rightarrow> 'a list result" where
  "restore_dynamic_batch data batch_idx_list =
     (let indices = concat batch_idx_list; batch_size = length data
      in passert (length indices = batch_size)
           (show_nat (length indices) @ '' vs. '' @ show_nat batch_size)
           (rbind (get_reverse_idx indices) (take_rows data)))"

section \<open>Partitions that keep groups together\<close>

text \<open>
  The loop that collects runs of equal uids: \<open>current_uid\<close>, \<open>current_indices\<close> and the finished
  groups. The second component of a group, its total length, is not used later.
\<close>

fun uid_groups :: "nat \<Rightarrow> 'u list \<Rightarrow> 'u option \<Rightarrow> nat list \<Rightarrow> nat list list \<Rightarrow> nat list list" where
  "uid_groups i [] cur indices groups = (if indices \<noteq> [] then groups @ [indices] else groups)"
| "uid_groups i (uid # uids) cur indices groups =
     (if Some uid \<noteq> cur
      then uid_groups (Suc i) uids (Some uid) [i] (if indices \<noteq> [] then groups @ [indices] else groups)
      else uid_groups (Suc i) uids cur (indices @ [i]) groups)"

definition get_group_balanced_partitions :: "int list \<Rightarrow> 'u list \<Rightarrow> nat \<Rightarrow> nat list list result" where
  "get_group_balanced_partitions seqlen_list uid_list k =
     passert (length seqlen_list = length uid_list) ''seqlen_list and uid_list must have same length''
     (let groups = uid_groups 0 uid_list None [] [];
          num_groups = length groups
      in passert (k \<le> num_groups)
           (''Number of uid groups ('' @ show_nat num_groups @ '') must be >= k_partitions (''
             @ show_nat k @ ''). Consider reducing world_size or increasing batch_size.'')
         (let workloads = map (\<lambda>indices. part_sum (calculate_workload seqlen_list) indices) groups
          in rbind (get_seqlen_balanced_partitions workloads k True)
               (\<lambda>ps. Inr (map (\<lambda>p. sort (concat (map ((!) groups) p))) ps))))"


section \<open>The checked entry point returns\<close>

lemma check_loop_Inr:
  "(\<And>p. p \<in> set ps \<Longrightarrow> p \<noteq> []) \<Longrightarrow>
   check_loop i ps seen acc = Inr (seen \<union> set (concat ps), acc @ map sort ps)"
  by (induction ps arbitrary: i seen acc) (auto simp: Un_assoc)

lemma index_partition_set: "index_partition n k ps \<Longrightarrow> set (concat ps) = set [0..<n]"
  unfolding index_partition_def by (metis set_mset_mset)

lemma mset_concat_sorts: "mset (concat (map sort ps)) = mset (concat ps)"
  by (induction ps) auto

lemma balanced_partitions_eq:
  assumes k: "0 < k" "k \<le> length l" and nn: "\<And>s. s \<in> set l \<Longrightarrow> 0 \<le> s"
    and run: "karmarkar_karp l k equal_size = Inr ps"
  shows "get_seqlen_balanced_partitions l k equal_size = Inr (map sort ps)"
proof -
  have ne: "l \<noteq> []" using k by auto
  have val: "\<And>s. s \<in> set l \<Longrightarrow> 0 \<le> s \<and> s \<le> Max (set l)" using nn by simp
  have ps: "index_partition (length l) k ps" "\<And>p. p \<in> set ps \<Longrightarrow> p \<noteq> []"
    using karmarkar_karp_Inr [of k l "Max (set l)", OF k(1) ne val run] k(2) by blast+
  have "check_loop 0 ps {} [] = Inr ({} \<union> set (concat ps), [] @ map sort ps)"
    using ps(2) by (rule check_loop_Inr)
  moreover have "length ps = k" using ps(1) by (simp add: index_partition_def)
  ultimately show ?thesis
    using run k(2) index_partition_set [OF ps(1)]
    by (simp add: get_seqlen_balanced_partitions_def check_and_sort_partitions_def)
qed

lemma part_sum_sort [simp]: "part_sum l (sort p) = part_sum l p"
  unfolding part_sum_def by (metis mset_map mset_sort sum_mset_sum_list)

text \<open>A call that returns has a positive number of partitions.\<close>

lemma karmarkar_karp_zero: "karmarkar_karp l 0 equal_size \<noteq> Inr ps"
proof (cases "equal_size \<or> l = []")
  case True
  then show ?thesis
    by (cases equal_size)
      (auto simp: karmarkar_karp_def initial_items_def sorted_seqlens_def kk_loop.simps)
next
  case False
  then have "sorted_seqlens l \<noteq> []" by (metis length_0_conv length_sorted_seqlens)
  then obtain x xs where "sorted_seqlens l = x # xs" by (cases "sorted_seqlens l") auto
  moreover obtain seqlen idx where "x = (seqlen, idx)" by fastforce
  ultimately show ?thesis using False
    by (simp add: karmarkar_karp_def initial_items_def push_state_def kstate_init_def Let_def)
qed

lemma balanced_partitions_Inr:
  assumes run: "get_seqlen_balanced_partitions l k equal_size = Inr ps"
    and nn: "\<And>s. s \<in> set l \<Longrightarrow> 0 \<le> s"
  shows "0 < k \<and> k \<le> length l \<and> index_partition (length l) k ps \<and> (\<forall>p\<in>set ps. p \<noteq> [] \<and> sorted p) \<and>
    (equal_size \<longrightarrow> (\<forall>p\<in>set ps. length p * k = length l))"
proof -
  obtain qs where qs: "karmarkar_karp l k equal_size = Inr qs" and k: "k \<le> length l"
    using run by (auto simp: get_seqlen_balanced_partitions_def passert_eq_Inr rbind_eq_Inr)
  have k0: "0 < k" using qs karmarkar_karp_zero by (cases k) auto
  then have ne: "l \<noteq> []" using k by auto
  have val: "\<And>s. s \<in> set l \<Longrightarrow> 0 \<le> s \<and> s \<le> Max (set l)" using nn by simp
  have ps: "ps = map sort qs" using balanced_partitions_eq [OF k0 k nn qs] run by simp
  have "index_partition (length l) k ps"
    using karmarkar_karp_Inr [of k l "Max (set l)", OF k0 ne val qs]
    by (simp add: ps index_partition_def mset_concat_sorts)
  moreover have "\<forall>p\<in>set ps. p \<noteq> [] \<and> sorted p"
    using karmarkar_karp_Inr [of k l "Max (set l)", OF k0 ne val qs] k
    by (auto simp: ps) (metis length_0_conv length_sort)
  moreover have "equal_size \<longrightarrow> (\<forall>p\<in>set ps. length p * k = length l)"
    using karmarkar_karp_equal qs by (auto simp: ps)
  ultimately show ?thesis using k k0 by blast
qed

section \<open>Micro-batches cover the batch\<close>

lemma mset_concat_cong: "mset xs = mset ys \<Longrightarrow> mset (concat xs) = mset (concat ys)"
  by (metis mset_concat mset_map sum_mset_sum_list)

lemma mset_bubble_order [simp]: "mset (bubble_order xs) = mset xs"
  by (simp add: bubble_order_def mset_even_odd del: One_nat_def)

lemma length_calculate_workload [simp]: "length (calculate_workload l) = length l"
  by (simp add: calculate_workload_def)

lemma calculate_workload_nonneg:
  "(\<And>s. s \<in> set l \<Longrightarrow> 0 \<le> s) \<Longrightarrow> w \<in> set (calculate_workload l) \<Longrightarrow> 0 \<le> w"
  by (auto simp: calculate_workload_def)

lemma mset_expand_groups:
  assumes "mset (concat ps) = mset [0..<m]"
  shows "mset (concat (expand_groups g ps)) = mset [0..<m * g]"
proof -
  let ?block = "\<lambda>j. [j * g..<j * g + g]"
  have "concat (expand_groups g ps) = concat (map ?block (concat ps))"
    by (induction ps) (auto simp: expand_groups_def)
  moreover have "mset (map ?block (concat ps)) = mset (map ?block [0..<m])"
    using assms by (metis mset_map)
  ultimately have "mset (concat (expand_groups g ps)) = mset (concat (map ?block [0..<m]))"
    using mset_concat_cong by metis
  moreover have "?block j = map (\<lambda>i. j * g + i) [0..<g]" for j
    by (rule nth_equalityI) auto
  then have "concat (map ?block [0..<m]) = [0..<m * g]"
    using concat_chunks [of "\<lambda>i. i" g m] by simp
  ultimately show ?thesis by simp
qed

lemma micro_workloads_nonneg:
  assumes w: "w \<in> set (if 1 < g then group_workloads lens m g else calculate_workload lens)"
    and nn: "\<And>s. s \<in> set lens \<Longrightarrow> 0 \<le> s"
  shows "0 \<le> w"
proof (cases "1 < g")
  case True
  then obtain j where "w = sum_list (take g (drop (j * g) (calculate_workload lens)))"
    using w by (auto simp: group_workloads_def)
  then show ?thesis
    using calculate_workload_nonneg [of lens] nn
    by (auto intro!: sum_list_nonneg dest!: in_set_takeD in_set_dropD)
next
  case False
  then show ?thesis using w calculate_workload_nonneg [of lens] nn by simp
qed

lemma micro_bsz_idx_Inr:
  assumes run: "micro_bsz_idx lens n g dyn = Inr idx" and g: "0 < g" "length lens mod g = 0"
    and nn: "\<And>s. s \<in> set lens \<Longrightarrow> 0 \<le> s"
  shows "mset (concat idx) = mset [0..<length lens] \<and> length idx = n \<and> 0 < n"
proof -
  let ?w = "if 1 < g then group_workloads lens (length lens div g) g else calculate_workload lens"
  obtain ps where ps: "get_seqlen_balanced_partitions ?w n False = Inr ps"
    and idx: "mset idx = mset (if 1 < g then expand_groups g ps else ps)"
    using run by (auto simp: micro_bsz_idx_def Let_def rbind_eq_Inr)
  have wn: "0 \<le> w" if "w \<in> set ?w" for w
    using that nn by (rule micro_workloads_nonneg)
  have len: "length ?w = length lens div g"
    using g(1) by (cases "g = 1") (auto simp: group_workloads_def)
  have part: "index_partition (length lens div g) n ps" "0 < n"
    using balanced_partitions_Inr [OF ps wn] len by auto
  have "length idx = length (if 1 < g then expand_groups g ps else ps)"
    by (rule mset_eq_length [OF idx])
  also have "\<dots> = n" using part(1) by (simp add: expand_groups_def index_partition_def)
  finally have "length idx = n" .
  moreover have "mset (concat (if 1 < g then expand_groups g ps else ps)) = mset [0..<length lens]"
  proof (cases "1 < g")
    case True
    have "length lens div g * g = length lens" using g(2) by auto
    with True part(1) show ?thesis
      using mset_expand_groups [of ps "length lens div g" g] by (simp add: index_partition_def)
  next
    case False
    with g(1) have "g = 1" by simp
    with part(1) show ?thesis by (simp add: index_partition_def)
  qed
  ultimately show ?thesis using mset_concat_cong [OF idx] part(2) by simp
qed

lemma rearrange_Inr:
  assumes run: "rearrange_micro_batches b max_token_len dp d m dyn g = Inr (mbs, idx)"
    and nn: "\<And>s. s \<in> set (seq_len_effective b) \<Longrightarrow> 0 \<le> s"
  shows "mset (concat idx) = mset [0..<length (seq_len_effective b)]"
    and "mbs = map (index_select (rows b)) idx" and "0 < length idx"
    and "length idx * g \<le> length (seq_len_effective b)"
proof -
  let ?B = "length (seq_len_effective b)"
  obtain n where g: "g \<noteq> 0" "?B mod g = 0" and n: "n \<le> int (?B div g)"
    and idx: "micro_bsz_idx (seq_len_effective b) (nat n) g dyn = Inr idx"
    and mbs: "mbs = map (index_select (rows b)) idx"
    using run by (auto simp: rearrange_micro_batches_def Let_def rbind_eq_Inr passert_eq_Inr
        split: if_splits)
  have cover: "mset (concat idx) = mset [0..<?B] \<and> length idx = nat n \<and> 0 < nat n"
    using micro_bsz_idx_Inr [OF idx _ g(2) nn] g(1) by simp
  then show "mset (concat idx) = mset [0..<?B]" "mbs = map (index_select (rows b)) idx"
    "0 < length idx"
    using mbs by auto
  have "length idx \<le> ?B div g" using cover n by linarith
  then have "length idx * g \<le> ?B div g * g" by simp
  also have "\<dots> \<le> ?B" by simp
  finally show "length idx * g \<le> ?B" .
qed


section \<open>Restoring undoes the split\<close>

lemma reverse_loop:
  assumes "distinct xs" and "\<And>x. x \<in> set xs \<Longrightarrow> x < length acc"
  shows "\<exists>r. for_each (\<lambda>(i, idx) acc. if idx < length acc then Inr (acc[idx := i])
                  else Inl (IndexError ''list assignment index out of range''))
         (zip [s..<s + length xs] xs) acc = Inr r \<and>
       length r = length acc \<and> (\<forall>i<length xs. r ! (xs ! i) = s + i) \<and>
       (\<forall>j. j \<notin> set xs \<longrightarrow> r ! j = acc ! j)"
  using assms
proof (induction xs arbitrary: s acc)
  case Nil
  then show ?case by simp
next
  case (Cons x xs)
  have "[s..<s + length (x # xs)] = s # [Suc s..<Suc s + length xs]"
    by (simp add: upt_conv_Cons del: upt_Suc)
  moreover obtain r where r: "for_each (\<lambda>(i, idx) acc. if idx < length acc then Inr (acc[idx := i])
                  else Inl (IndexError ''list assignment index out of range''))
         (zip [Suc s..<Suc s + length xs] xs) (acc[x := s]) = Inr r"
       "length r = length acc" "\<forall>i<length xs. r ! (xs ! i) = Suc s + i"
       "\<forall>j. j \<notin> set xs \<longrightarrow> r ! j = acc[x := s] ! j"
    using Cons.IH [of "acc[x := s]" "Suc s"] Cons.prems by auto
  moreover have "r ! x = s" using r(4) Cons.prems by simp
  ultimately show ?case using Cons.prems by (auto simp: nth_Cons' less_Suc_eq_0_disj)
qed

lemma get_reverse_idx_inverse:
  assumes "mset idx = mset [0..<n]"
  shows "\<exists>r. get_reverse_idx idx = Inr r \<and> length r = n \<and>
    (\<forall>i<n. r ! (idx ! i) = i) \<and> (\<forall>j<n. r ! j < n \<and> idx ! (r ! j) = j)"
proof -
  have len: "length idx = n" using assms by (metis length_upt minus_nat.diff_0 size_mset)
  have set: "set idx = {0..<n}" using assms by (metis set_mset_mset set_upt)
  have dist: "distinct idx" using assms by (metis distinct_upt mset_eq_imp_distinct_iff)
  obtain r where r: "get_reverse_idx idx = Inr r" "length r = n" "\<forall>i<n. r ! (idx ! i) = i"
    using reverse_loop [OF dist, of idx 0] len set by (auto simp: get_reverse_idx_def)
  moreover have "r ! j < n \<and> idx ! (r ! j) = j" if j: "j < n" for j
  proof -
    have "j \<in> set idx" using j set by simp
    then obtain i where "i < n" "idx ! i = j" using len by (metis in_set_conv_nth)
    then show ?thesis using r(3) by auto
  qed
  ultimately show ?thesis by blast
qed

lemma restore_selected:
  assumes "mset (concat idx) = mset [0..<length rs]"
  shows "restore_dynamic_batch (concat (map (index_select rs) idx)) idx = Inr rs"
proof -
  let ?is = "concat idx"
  obtain r where r: "get_reverse_idx ?is = Inr r" "length r = length rs"
    "\<forall>j<length rs. r ! j < length rs \<and> ?is ! (r ! j) = j"
    using get_reverse_idx_inverse [OF assms] by blast
  have len: "length ?is = length rs" using assms by (metis length_upt minus_nat.diff_0 size_mset)
  have sel: "concat (map (index_select rs) idx) = map ((!) rs) ?is"
    by (induction idx) (auto simp: index_select_def)
  have "take_rows (map ((!) rs) ?is) r = Inr (map ((!) (map ((!) rs) ?is)) r)"
  proof -
    have "\<forall>i\<in>set r. i < length (map ((!) rs) ?is)"
      using r(2,3) len by (metis in_set_conv_nth length_map)
    then show ?thesis unfolding take_rows_def by (rule if_P)
  qed
  moreover have "map ((!) (map ((!) rs) ?is)) r = rs"
  proof (rule nth_equalityI)
    fix j assume "j < length (map ((!) (map ((!) rs) ?is)) r)"
    then have j: "j < length r" by simp
    then have "r ! j < length ?is" "?is ! (r ! j) = j" using r(2,3) len by auto
    then show "map ((!) (map ((!) rs) ?is)) r ! j = rs ! j"
      using j by (simp only: nth_map)
  qed (simp add: r(2))
  ultimately show ?thesis
    using r(1) len by (simp add: restore_dynamic_batch_def sel del: length_concat)
qed

section \<open>Groups stay together\<close>

text \<open>All indices of a list carry the same uid.\<close>

definition same_uid :: "'u list \<Rightarrow> nat list \<Rightarrow> bool" where
  "same_uid uids g \<longleftrightarrow> (\<forall>a\<in>set g. \<forall>b\<in>set g. uids ! a = uids ! b)"

lemma same_uid_cur: "(\<And>j. j \<in> set g \<Longrightarrow> Some (uids ! j) = cur) \<Longrightarrow> same_uid uids g"
  unfolding same_uid_def by (metis option.inject)

lemma same_uid_cong: "same_uid uids g \<Longrightarrow> (\<And>j. j \<in> set g \<Longrightarrow> uids' ! j = uids ! j) \<Longrightarrow> same_uid uids' g"
  unfolding same_uid_def by metis

lemma uid_groups_props:
  assumes "concat groups @ indices = [0..<i]" and "length uids = i"
    and "\<And>j. j \<in> set indices \<Longrightarrow> Some (uids ! j) = cur"
    and "\<And>g. g \<in> set groups \<Longrightarrow> same_uid uids g"
  shows "concat (uid_groups i us cur indices groups) = [0..<i + length us] \<and>
    (\<forall>g\<in>set (uid_groups i us cur indices groups). same_uid (uids @ us) g)"
  using assms
proof (induction us arbitrary: i cur indices groups uids)
  case Nil
  have "same_uid uids indices" by (rule same_uid_cur) (rule Nil.prems(3))
  with Nil.prems(1,4) show ?case by auto
next
  case (Cons u us)
  let ?uids = "uids @ [u]"
  have old: "?uids ! j = uids ! j" if j: "j \<in> set indices \<or> (\<exists>g\<in>set groups. j \<in> set g)" for j
  proof -
    have "j \<in> set (concat groups @ indices)" using j by auto
    then have "j < i" unfolding Cons.prems(1) by simp
    then show ?thesis using Cons.prems(2) by (simp add: nth_append)
  qed
  have new: "?uids ! i = u" using Cons.prems(2) by (simp add: nth_append)
  have app: "?uids @ us = uids @ u # us" by simp
  have groups: "same_uid ?uids g" if g: "g \<in> set groups" for g
    by (rule same_uid_cong [OF Cons.prems(4) [OF g]]) (use g old in blast)
  show ?case
  proof (cases "Some u = cur")
    case True
    have "concat (uid_groups (Suc i) us cur (indices @ [i]) groups) = [0..<Suc i + length us] \<and>
      (\<forall>g\<in>set (uid_groups (Suc i) us cur (indices @ [i]) groups). same_uid (?uids @ us) g)"
    proof (rule Cons.IH)
      show "concat groups @ indices @ [i] = [0..<Suc i]"
        using Cons.prems(1) by (metis append_assoc upt_Suc_append zero_le)
      show "Some (?uids ! j) = cur" if "j \<in> set (indices @ [i])" for j
        using that Cons.prems(3) old new True by auto
    qed (use Cons.prems groups in auto)
    with True app show ?thesis by simp
  next
    case False
    let ?groups = "if indices \<noteq> [] then groups @ [indices] else groups"
    have ind: "same_uid ?uids indices"
      by (rule same_uid_cur [of _ _ cur]) (use Cons.prems(3) old in auto)
    have "concat (uid_groups (Suc i) us (Some u) [i] ?groups) = [0..<Suc i + length us] \<and>
      (\<forall>g\<in>set (uid_groups (Suc i) us (Some u) [i] ?groups). same_uid (?uids @ us) g)"
    proof (rule Cons.IH)
      show "concat ?groups @ [i] = [0..<Suc i]"
        using Cons.prems(1) by auto
      show "Some (?uids ! j) = Some u" if "j \<in> set [i]" for j using that new by simp
      show "same_uid ?uids g" if "g \<in> set ?groups" for g
        using that groups ind by (auto split: if_splits)
    qed (use Cons.prems in auto)
    with False app show ?thesis by simp
  qed
qed

lemma uid_groups_start:
  shows "concat (uid_groups 0 uids None [] []) = [0..<length uids]"
    and "g \<in> set (uid_groups 0 uids None [] []) \<Longrightarrow> same_uid uids g"
  using uid_groups_props [of "[]" "[]" 0 "[]" None uids] by simp_all


section \<open>Properties\<close>

text \<open>Parts of equal size need a number of items that the number of parts divides.\<close>

lemma equal_parts_divide:
  assumes "0 < k" and "index_partition n k ps" and "\<And>p. p \<in> set ps \<Longrightarrow> length p * k = n"
  shows "n mod k = 0"
proof -
  have "ps \<noteq> []" using assms(1,2) by (auto simp: index_partition_def)
  then have "hd ps \<in> set ps" by simp
  from assms(3) [OF this] show ?thesis by (metis mod_mult_self2_is_0)
qed

lemma partitions_total:
  assumes "0 < k" and "k \<le> length l" and "equal_size \<longrightarrow> length l mod k = 0"
    and "\<forall>s\<in>set l. 0 \<le> s"
  shows "\<exists>ps. get_seqlen_balanced_partitions l k equal_size = Inr ps \<and>
    index_partition (length l) k ps \<and> (\<forall>p\<in>set ps. p \<noteq> [] \<and> sorted p) \<and>
    (equal_size \<longrightarrow> (\<forall>p\<in>set ps. length p * k = length l)) \<and>
    (\<forall>p\<in>set ps. \<forall>q\<in>set ps. part_sum l p - part_sum l q \<le> Max (set l))"
proof -
  have ne: "l \<noteq> []" using assms(1,2) by auto
  have nn: "\<And>s. s \<in> set l \<Longrightarrow> 0 \<le> s" using assms(4) by blast
  then have val: "\<And>s. s \<in> set l \<Longrightarrow> 0 \<le> s \<and> s \<le> Max (set l)" by simp
  obtain qs where qs: "karmarkar_karp l k equal_size = Inr qs"
    "\<forall>p\<in>set qs. \<forall>q\<in>set qs. part_sum l p - part_sum l q \<le> Max (set l)"
    using karmarkar_karp_spec [of k l equal_size "Max (set l)", OF assms(1) ne assms(3) val] by blast
  have run: "get_seqlen_balanced_partitions l k equal_size = Inr (map sort qs)"
    by (rule balanced_partitions_eq [OF assms(1,2) nn qs(1)])
  with balanced_partitions_Inr [OF run nn] qs(2) show ?thesis by auto
qed

text \<open>C2: for non-negative lengths, the checked entry point returns exactly when there is at least one
  partition, at least as many items as partitions, and, if equal sizes are asked for, a number of items that
  the number of partitions divides; otherwise it raises. When it returns, the result is \<open>k\<close> sorted, non-empty
  index lists that share out all the indices, of equal size when asked for, and no two of them differ in their
  sum by more than the largest value.\<close>

theorem balanced_partitions_total:
  assumes nn: "\<forall>s\<in>set l. 0 \<le> s"
  shows "if 0 < k \<and> k \<le> length l \<and> (equal_size \<longrightarrow> length l mod k = 0)
    then \<exists>ps. get_seqlen_balanced_partitions l k equal_size = Inr ps \<and>
      index_partition (length l) k ps \<and> (\<forall>p\<in>set ps. p \<noteq> [] \<and> sorted p) \<and>
      (equal_size \<longrightarrow> (\<forall>p\<in>set ps. length p * k = length l)) \<and>
      (\<forall>p\<in>set ps. \<forall>q\<in>set ps. part_sum l p - part_sum l q \<le> Max (set l))
    else \<exists>e. get_seqlen_balanced_partitions l k equal_size = Inl e"
proof (cases "get_seqlen_balanced_partitions l k equal_size")
  case (Inl e)
  have "\<not> (0 < k \<and> k \<le> length l \<and> (equal_size \<longrightarrow> length l mod k = 0))"
  proof
    assume v: "0 < k \<and> k \<le> length l \<and> (equal_size \<longrightarrow> length l mod k = 0)"
    show False using partitions_total [of k l equal_size] v nn Inl by simp
  qed
  then show ?thesis using Inl by simp
next
  case (Inr ps)
  have ps: "0 < k" "k \<le> length l" "index_partition (length l) k ps"
    "equal_size \<longrightarrow> (\<forall>p\<in>set ps. length p * k = length l)"
    using balanced_partitions_Inr [OF Inr] nn by auto
  have "length l mod k = 0" if equal_size
    using equal_parts_divide [OF ps(1,3)] ps(4) that by blast
  then show ?thesis using partitions_total [of k l equal_size, OF ps(1,2) _ nn] ps(1,2) by auto
qed

theorem balanced_partitions_total_witness:
  "\<exists>ps. get_seqlen_balanced_partitions [5, 3, 2, 7, 1, 9] 3 True = Inr ps \<and>
    (\<forall>p\<in>set ps. \<forall>q\<in>set ps.
       part_sum [5, 3, 2, 7, 1, 9] p - part_sum [5, 3, 2, 7, 1, 9] q \<le> 9)"
  using balanced_partitions_total [of "[5, 3, 2, 7, 1, 9]" 3 True] by auto

text \<open>C15: without \<open>equal_size\<close>, and for at least one item with values from 0 to \<open>D\<close>, the heaviest part of
  Karmarkar-Karp carries at most the mean load plus \<open>(k - 1) / k\<close> of \<open>D\<close>, so of the largest value (both sides
  multiplied by \<open>k\<close>).\<close>

theorem karmarkar_karp_load_bound:
  assumes "0 < k" and "l \<noteq> []" and "\<And>s. s \<in> set l \<Longrightarrow> 0 \<le> s \<and> s \<le> D"
    and "karmarkar_karp l k False = Inr ps" and "p \<in> set ps"
  shows "int k * part_sum l p \<le> sum_list l + int (k - 1) * D"
  by (rule kk.load_bound [OF assms])

theorem karmarkar_karp_load_bound_witness:
  "int 2 * part_sum [5, 3, 2, 7, 1] [1, 0, 4] \<le> sum_list [5, 3, 2, 7, 1] + int (2 - 1) * 7"
proof (rule karmarkar_karp_load_bound)
  show "karmarkar_karp [5, 3, 2, 7, 1] 2 False = Inr [[1, 0, 4], [2, 3]]" by code_simp
qed auto

text \<open>C16: on at least one item, all of them non-negative, and with at least one partition, the greedy partitioner
  raises exactly when equal sizes are asked for and the number of partitions does not divide the number of items.
  Otherwise it shares out the indices, in parts of equal size under \<open>equal_size\<close>, and without it obeys the same
  load bound.\<close>

theorem greedy_partition_correct:
  assumes k: "0 < k" "l \<noteq> []" and val: "\<And>s. s \<in> set l \<Longrightarrow> 0 \<le> s \<and> s \<le> D"
  shows "if equal_size \<and> length l mod k \<noteq> 0 then \<exists>e. greedy_partition l k equal_size = Inl e
    else \<exists>ps. greedy_partition l k equal_size = Inr ps \<and> index_partition (length l) k ps \<and>
      (if equal_size then \<forall>p\<in>set ps. length p * k = length l
       else \<forall>p\<in>set ps. int k * part_sum l p \<le> sum_list l + int (k - 1) * D)"
proof (cases "greedy_partition l k equal_size")
  case (Inl e)
  have "\<not> (equal_size \<longrightarrow> length l mod k = 0)"
  proof
    assume "equal_size \<longrightarrow> length l mod k = 0"
    then show False using greedy.part_total [of k l equal_size, OF k] val Inl by simp
  qed
  then show ?thesis using Inl by simp
next
  case (Inr ps)
  have nn: "\<And>s. s \<in> set l \<Longrightarrow> 0 \<le> s" using val by blast
  have ind: "index_partition (length l) k ps" using greedy.part_indices [OF k nn Inr] .
  show ?thesis
  proof (cases equal_size)
    case True
    have eq: "length p * k = length l" if "p \<in> set ps" for p using greedy.part_equal [of l k ps] Inr True that by simp
    show ?thesis using equal_parts_divide [OF k(1) ind eq] True Inr ind eq by simp
  next
    case False
    then show ?thesis using Inr ind greedy.load_bound [of k l D ps, OF k val] by simp
  qed
qed

theorem greedy_partition_correct_witness:
  "\<exists>ps. greedy_partition [4, 1, 3, 2] 2 False = Inr ps \<and>
    (\<forall>p\<in>set ps. int 2 * part_sum [4, 1, 3, 2] p \<le> sum_list [4, 1, 3, 2] + int (2 - 1) * 4)"
proof -
  have "\<And>s. s \<in> set [4, 1, 3, 2 :: int] \<Longrightarrow> 0 \<le> s \<and> s \<le> 4" by auto
  from greedy_partition_correct [of 2 "[4, 1, 3, 2]" 4 False, OF _ _ this] show ?thesis by auto
qed

text \<open>C1: splitting a batch and restoring it is the identity: whatever the options, when the
  split returns and no length is negative, the index lists cover every sample exactly once, the micro-batches are
  the selected rows, and \<open>restore_dynamic_batch\<close> on their concatenation gives the rows back.\<close>

theorem micro_batches_roundtrip:
  assumes "rearrange_micro_batches b max_token_len dp d m dyn g = Inr (mbs, idx)"
    and "\<forall>s\<in>set (seq_len_effective b). 0 \<le> s"
    and "length (rows b) = length (seq_len_effective b)"
  shows "mset (concat idx) = mset [0..<length (rows b)] \<and>
    mbs = map (index_select (rows b)) idx \<and>
    restore_dynamic_batch (concat mbs) idx = Inr (rows b)"
proof -
  have nn: "\<And>s. s \<in> set (seq_len_effective b) \<Longrightarrow> 0 \<le> s" using assms(2) by blast
  note split = rearrange_Inr [OF assms(1) nn]
  have "mset (concat idx) = mset [0..<length (rows b)]" using split(1) assms(3) by simp
  then show ?thesis using restore_selected split(2) by blast
qed

definition demo_batch :: "char tbatch" where
  "demo_batch = \<lparr>ids = Nested [0, 2, 4, 6, 7], attention_mask = [], attn_width = 0, rows = ''abcd''\<rparr>"

lemma demo_split:
  "rearrange_micro_batches demo_batch 3 None None None True 1 = Inr ([''b'', ''ad'', ''c''], [[1], [0, 3], [2]])"
  by code_simp

theorem micro_batches_roundtrip_witness:
  "restore_dynamic_batch ''badc'' [[1], [0, 3], [2]] = Inr ''abcd''"
proof -
  have "\<forall>s\<in>set (seq_len_effective demo_batch). 0 \<le> s"
    and "length (rows demo_batch) = length (seq_len_effective demo_batch)"
    by code_simp+
  from micro_batches_roundtrip [OF demo_split this]
  have "restore_dynamic_batch (concat [''b'', ''ad'', ''c'']) [[1], [0, 3], [2]] = Inr (rows demo_batch)"
    by blast
  then show ?thesis by (simp add: demo_batch_def)
qed

text \<open>the split never fails for lack of micro-batches: with no synchronisation and no extra
  divisor, lengths that fit the limit and at least one token, it returns the number of
  micro-batches that the token count asks for, capped by the number of groups.\<close>

theorem rearrange_returns:
  assumes "max_seq_len b = Inr longest" and "longest \<le> max_token_len" and "0 < max_token_len"
    and "0 < g" and "length (seq_len_effective b) mod g = 0"
    and "\<forall>s\<in>set (seq_len_effective b). 0 \<le> s" and "0 < sum_list (seq_len_effective b)"
  shows "\<exists>mbs idx. rearrange_micro_batches b max_token_len None None None dyn g = Inr (mbs, idx) \<and>
    int (length idx) = min (int (length (seq_len_effective b) div g))
      (- (sum_list (seq_len_effective b) div - max_token_len))"
proof -
  let ?lens = "seq_len_effective b"
  let ?G = "length ?lens div g" and ?c = "- (sum_list ?lens div - max_token_len)"
  let ?n = "nat (min (int ?G) ?c)"
  let ?w = "if 1 < g then group_workloads ?lens ?G g else calculate_workload ?lens"
  have nn: "\<And>s. s \<in> set ?lens \<Longrightarrow> 0 \<le> s" using assms(6) by blast
  have "?lens \<noteq> []" using assms(7) by auto
  then have "0 < ?G" using assms(4,5) by (auto simp: div_greater_zero_iff dvd_imp_le)
  moreover have "0 < ?c"
    using assms(3,7) neg_imp_zdiv_neg_iff [of "- max_token_len" "sum_list ?lens"] by simp
  ultimately have n: "0 < ?n" "?n \<le> ?G" by auto
  have len: "length ?w = ?G" using assms(4) by (cases "g = 1") (auto simp: group_workloads_def)
  have "0 \<le> w" if "w \<in> set ?w" for w
    using that nn by (rule micro_workloads_nonneg)
  then obtain ps where ps: "get_seqlen_balanced_partitions ?w ?n False = Inr ps"
    using partitions_total [of ?n ?w False] n len by auto
  then obtain idx where idx: "micro_bsz_idx ?lens ?n g dyn = Inr idx"
    by (auto simp: micro_bsz_idx_def Let_def)
  have "num_micro_batches (sum_list ?lens) max_token_len ?G None None None = Inr (min (int ?G) ?c)"
    using assms(3) by (simp add: num_micro_batches_def ceildiv_def Let_def)
  then have "rearrange_micro_batches b max_token_len None None None dyn g
      = Inr (map (index_select (rows b)) idx, idx)"
    using assms idx n by (simp add: rearrange_micro_batches_def Let_def)
  moreover have "length idx = ?n"
    using micro_bsz_idx_Inr [OF idx assms(4,5) nn] by blast
  ultimately show ?thesis using n by auto
qed


theorem rearrange_returns_witness:
  "\<exists>mbs idx. rearrange_micro_batches demo_batch 3 None None None False 1 = Inr (mbs, idx) \<and>
    int (length idx) = 3"
proof -
  have "max_seq_len demo_batch = Inr 2" and "length (seq_len_effective demo_batch) mod 1 = 0"
    and "\<forall>s\<in>set (seq_len_effective demo_batch). 0 \<le> s"
    and "0 < sum_list (seq_len_effective demo_batch)"
    and val: "min (int (length (seq_len_effective demo_batch) div 1))
      (- (sum_list (seq_len_effective demo_batch) div - 3)) = 3"
    by code_simp+
  from rearrange_returns [OF this(1) _ _ _ this(2-4), of 3 False] val show ?thesis by simp
qed

text \<open>the documented limit \<open>max_token_len: max sum of attention_mask per micro-batch\<close> is not
  kept: three samples of two tokens under a limit of three tokens give a micro-batch of
  four. The count of micro-batches comes from the total, and no packing need exist.\<close>

definition tight_batch :: "char tbatch" where
  "tight_batch = \<lparr>ids = Nested [0, 2, 4, 6], attention_mask = [], attn_width = 0, rows = ''abc''\<rparr>"

theorem token_limit_exceeded:
  "rearrange_micro_batches tight_batch 3 None None None True 1 = Inr ([''ab'', ''c''], [[0, 1], [2]]) \<and>
   3 < part_sum (seq_len_effective tight_batch) [0, 1]"
proof
  show "rearrange_micro_batches tight_batch 3 None None None True 1 = Inr ([''ab'', ''c''], [[0, 1], [2]])"
    by code_simp
  show "3 < part_sum (seq_len_effective tight_batch) [0, 1]" by code_simp
qed

lemma group_partitions_runs:
  assumes "get_group_balanced_partitions l uids k = Inr ps" and "\<forall>s\<in>set l. 0 \<le> s"
  shows "mset (concat ps) = mset [0..<length l] \<and> length ps = k \<and>
    (\<forall>r\<in>set (uid_groups 0 uids None [] []). same_uid uids r \<and> (\<exists>p\<in>set ps. set r \<subseteq> set p))"
proof -
  let ?gs = "uid_groups 0 uids None [] []"
  let ?w = "map (part_sum (calculate_workload l)) ?gs"
  obtain qs where len: "length l = length uids"
    and qs: "get_seqlen_balanced_partitions ?w k True = Inr qs"
    and ps: "ps = map (\<lambda>p. sort (concat (map ((!) ?gs) p))) qs"
    using assms(1) by (auto simp: get_group_balanced_partitions_def Let_def passert_eq_Inr rbind_eq_Inr)
  note gs = uid_groups_start [where uids = uids]
  have "0 \<le> part_sum (calculate_workload l) g" if g: "g \<in> set ?gs" for g
  proof -
    have "i < length l" if "i \<in> set g" for i
    proof -
      have "i \<in> set (concat ?gs)" using g that by auto
      then show ?thesis unfolding gs(1) len by simp
    qed
    then show ?thesis
      using calculate_workload_nonneg [of l] assms(2) by (auto simp: part_sum_def intro!: sum_list_nonneg)
  qed
  then have part: "index_partition (length ?gs) k qs"
    using balanced_partitions_Inr [OF qs] by auto
  have "mset (concat ps) = mset (concat (map ((!) ?gs) (concat qs)))"
    unfolding ps by (induction qs) auto
  also have "\<dots> = mset (concat (map ((!) ?gs) [0..<length ?gs]))"
    using part by (intro mset_concat_cong) (metis index_partition_def mset_map)
  also have "\<dots> = mset [0..<length l]" by (simp only: map_nth gs(1) len)
  finally have "mset (concat ps) = mset [0..<length l]" .
  moreover have "\<exists>p\<in>set ps. set r \<subseteq> set p" if r: "r \<in> set ?gs" for r
  proof -
    obtain j where j: "j < length ?gs" "?gs ! j = r" using r by (metis in_set_conv_nth)
    then have "j \<in> set (concat qs)" using index_partition_set [OF part] by simp
    then obtain q where "q \<in> set qs" "j \<in> set q" by auto
    then show ?thesis using j by (auto simp: ps intro!: bexI [of _ q])
  qed
  ultimately show ?thesis using gs(2) part by (simp add: ps index_partition_def)
qed

text \<open>samples with the same uid and no other uid between them land in one partition: each
  returned partition is a union of whole uid runs, and the partitions share out the samples.\<close>

theorem group_partitions_whole_runs:
  assumes "get_group_balanced_partitions l uids k = Inr ps" and "\<forall>s\<in>set l. 0 \<le> s"
  shows "mset (concat ps) = mset [0..<length l] \<and> length ps = k \<and>
    (\<forall>r\<in>set (uid_groups 0 uids None [] []). same_uid uids r \<and> (\<exists>p\<in>set ps. set r \<subseteq> set p))"
  using assms by (rule group_partitions_runs)

theorem group_partitions_whole_runs_witness:
  "mset (concat [[2, 3], [0, 1]]) = mset [0..<length [4, 4, 6, 7 :: int]]"
proof -
  have "get_group_balanced_partitions [4, 4, 6, 7] ''aabb'' 2 = Inr [[2, 3], [0, 1]]" by code_simp
  from group_partitions_whole_runs [OF this] show ?thesis by simp
qed

lemma neg_div_least:
  assumes "0 < b"
  shows "(a :: int) \<le> m * b \<longleftrightarrow> - (a div - b) \<le> m"
proof -
  define c where "c = - (a div - b)"
  have "- b * (a div - b) + a mod - b = a" by (rule mult_div_mod_eq)
  then have a: "a = c * b + a mod - b" by (simp add: c_def mult.commute)
  have r: "- b < a mod - b" "a mod - b \<le> 0" using assms by (simp_all add: neg_mod_bound neg_mod_sign)
  show ?thesis unfolding c_def [symmetric]
  proof
    assume le: "a \<le> m * b"
    show "c \<le> m"
    proof (rule ccontr)
      assume "\<not> c \<le> m"
      then have "m * b \<le> (c - 1) * b" using assms by (intro mult_right_mono) auto
      then have "m * b \<le> c * b - b" by (simp only: left_diff_distrib mult_1)
      then show False using a r le by linarith
    qed
  next
    assume "c \<le> m"
    then have "c * b \<le> m * b" using assms by (intro mult_right_mono) auto
    then show "a \<le> m * b" using a r by linarith
  qed
qed

text \<open>\<open>ceildiv\<close> is the least integer whose multiple reaches \<open>a\<close>, and \<open>roundup_divisible\<close> the
  least multiple of \<open>b\<close> that is at least \<open>a\<close>, for a positive divisor.\<close>

theorem rounding_least:
  assumes "0 < b"
  shows "\<exists>c r. ceildiv a b = Inr c \<and> (\<forall>m. a \<le> m * b \<longleftrightarrow> c \<le> m) \<and>
    roundup_divisible a b = Inr r \<and> b dvd r \<and> a \<le> r \<and> r < a + b"
proof -
  have "a \<le> m * b \<longleftrightarrow> - (a div - b) \<le> m" for m
    by (rule neg_div_least [OF assms])
  moreover have "a \<le> (a + b - 1) div b * b" "(a + b - 1) div b * b < a + b"
    using assms div_mult_mod_eq [of "a + b - 1" b] pos_mod_bound [OF assms, of "a + b - 1"]
      pos_mod_sign [OF assms, of "a + b - 1"] by linarith+
  ultimately show ?thesis using assms by (simp add: ceildiv_def roundup_divisible_def)
qed

theorem rounding_least_witness:
  "\<exists>c. ceildiv 7 3 = Inr c \<and> (\<forall>m. 7 \<le> m * 3 \<longleftrightarrow> c \<le> m)"
  using rounding_least [of 3 7] by auto

end
