(* ===== verification/Tensor.thy ===== *)
theory Tensor
  imports Prelude
begin

text \<open>
  The tensor operations the training code uses, on lists of real numbers, and the masked
  reductions of \<open>verl/utils/torch_functional.py\<close>. A tensor of shape \<open>(bs, response_length)\<close> is
  the list of its rows. Real numbers stand for floating point; operations that torch rejects
  for a shape mismatch are used on equal shapes only, and a division by zero, where torch
  returns \<open>nan\<close> or \<open>inf\<close>, is excluded by the hypotheses of the theorems.
\<close>

type_synonym vec = "real list"
type_synonym mat = "real list list"

section \<open>Element-wise operations, sums and clamps\<close>

definition row_sums :: "mat \<Rightarrow> vec" where
  "row_sums a = map sum_list a"

text \<open>\<open>s.unsqueeze(-1) * m\<close> for \<open>s\<close> of shape \<open>(bs,)\<close>.\<close>

definition bcast_mul :: "vec \<Rightarrow> mat \<Rightarrow> mat" where
  "bcast_mul s m = map2 (\<lambda>x. map (\<lambda>y. x * y)) s m"

definition mzip :: "('a \<Rightarrow> 'b \<Rightarrow> 'c) \<Rightarrow> 'a list list \<Rightarrow> 'b list list \<Rightarrow> 'c list list" where
  "mzip f a b = map2 (map2 f) a b"

definition mmap :: "('a \<Rightarrow> 'b) \<Rightarrow> 'a list list \<Rightarrow> 'b list list" where
  "mmap f a = map (map f) a"

definition clamp :: "real \<Rightarrow> real \<Rightarrow> real \<Rightarrow> real" where
  "clamp lo hi x = min (max x lo) hi"

definition same_shape :: "'a list list \<Rightarrow> 'b list list \<Rightarrow> bool" where
  "same_shape a b \<longleftrightarrow> map length a = map length b"

text \<open>\<open>x.flip(-1).cumsum(-1).flip(-1)\<close> on one row: the suffix sums.\<close>

fun suffix_sums :: "vec \<Rightarrow> vec" where
  "suffix_sums [] = []"
| "suffix_sums (x # xs) = (x + sum_list xs) # suffix_sums xs"

fun prefix_sums :: "real \<Rightarrow> vec \<Rightarrow> vec" where
  "prefix_sums acc [] = []"
| "prefix_sums acc (x # xs) = (acc + x) # prefix_sums (acc + x) xs"

text \<open>\<open>torch.mean\<close> and \<open>torch.std\<close> of a vector; the latter with Bessel's correction.\<close>

definition tmean :: "vec \<Rightarrow> real" where
  "tmean xs = sum_list xs / real (length xs)"

definition tstd :: "vec \<Rightarrow> real" where
  "tstd xs = sqrt (sum_list (map (\<lambda>x. (x - tmean xs)\<^sup>2) xs) / (real (length xs) - 1))"

section \<open>Masked reductions\<close>

text \<open>The reductions are over all elements, so they take the flattened tensors.\<close>

definition masked_sum :: "vec \<Rightarrow> vec \<Rightarrow> real" where
  "masked_sum vs msk = sum_list (map2 (\<lambda>v m. (if m \<noteq> 0 then v else 0) * m) vs msk)"

definition masked_mean :: "vec \<Rightarrow> vec \<Rightarrow> real" where
  "masked_mean vs msk = masked_sum vs msk / (sum_list msk + 1 / 10 ^ 8)"

definition masked_var :: "vec \<Rightarrow> vec \<Rightarrow> bool \<Rightarrow> real result" where
  "masked_var vs msk unbiased =
     (let mean = masked_mean vs msk;
          variance = masked_mean (map (\<lambda>v. (v - mean)\<^sup>2) vs) msk;
          mask_sum = sum_list msk
      in if unbiased
         then if mask_sum = 0 then Inl (ValueError ''At least one element in the mask has to be 1.'')
              else if mask_sum = 1
              then Inl (ValueError ''The sum of the mask is one, which can cause a division by zero.'')
              else Inr (variance * (mask_sum / (mask_sum - 1)))
         else Inr variance)"

definition masked_whiten :: "mat \<Rightarrow> mat \<Rightarrow> bool \<Rightarrow> mat result" where
  "masked_whiten vs msk shift_mean =
     (let mean = masked_mean (concat vs) (concat msk)
      in rbind (masked_var (concat vs) (concat msk) True) (\<lambda>var.
           let whitened = mmap (\<lambda>v. (v - mean) * (1 / sqrt (var + 1 / 10 ^ 8))) vs
           in Inr (if shift_mean then whitened else mmap (\<lambda>v. v + mean) whitened)))"

section \<open>Lemmas\<close>

lemma masked_sum_eq: "masked_sum vs msk = sum_list (map2 (*) vs msk)"
proof -
  have "(\<lambda>v m. (if m \<noteq> 0 then v else 0) * m) = ((*) :: real \<Rightarrow> real \<Rightarrow> real)"
    by (intro ext) simp
  then show ?thesis by (simp add: masked_sum_def)
qed

lemma masked_sum_append:
  "length a = length m \<Longrightarrow> masked_sum (a @ b) (m @ n) = masked_sum a m + masked_sum b n"
  by (simp add: masked_sum_eq)

lemma length_bcast_mul [simp]: "length (bcast_mul s m) = min (length s) (length m)"
  by (simp add: bcast_mul_def)

lemma length_row_sums [simp]: "length (row_sums a) = length a"
  by (simp add: row_sums_def)

lemma length_suffix_sums [simp]: "length (suffix_sums xs) = length xs"
  by (induction xs) auto

lemma length_prefix_sums [simp]: "length (prefix_sums a xs) = length xs"
  by (induction xs arbitrary: a) auto

lemma suffix_sums_nth: "t < length xs \<Longrightarrow> suffix_sums xs ! t = sum_list (drop t xs)"
  by (induction xs arbitrary: t) (auto simp: nth_Cons split: nat.splits)

lemma bcast_mul_nth:
  "i < length s \<Longrightarrow> i < length m \<Longrightarrow> bcast_mul s m ! i = map (\<lambda>y. s ! i * y) (m ! i)"
  by (simp add: bcast_mul_def)

lemma clamp_bounds: "lo \<le> hi \<Longrightarrow> lo \<le> clamp lo hi x \<and> clamp lo hi x \<le> hi"
  by (auto simp: clamp_def)

lemma clamp_id: "lo \<le> x \<Longrightarrow> x \<le> hi \<Longrightarrow> clamp lo hi x = x"
  by (auto simp: clamp_def)

lemma same_shape_length: "same_shape a b \<Longrightarrow> length a = length b"
  unfolding same_shape_def by (metis length_map)

lemma same_shape_concat: "same_shape a b \<Longrightarrow> length (concat a) = length (concat b)"
  by (simp add: same_shape_def length_concat)

lemma concat_mzip:
  "same_shape a b \<Longrightarrow> concat (mzip f a b) = map2 f (concat a) (concat b)"
proof (induction a arbitrary: b)
  case (Cons r a)
  then show ?case by (cases b) (auto simp: same_shape_def mzip_def)
qed (simp add: mzip_def)

text \<open>Deviations from the mean sum to zero, and a shift of the values shifts the mean.\<close>

lemma sum_deviation: "xs \<noteq> [] \<Longrightarrow> sum_list (map (\<lambda>x. x - tmean xs) xs) = 0"
  by (simp add: sum_list_subtractf sum_list_triv tmean_def)

lemma tmean_shift: "xs \<noteq> [] \<Longrightarrow> tmean (map (\<lambda>x. x + c) xs) = tmean xs + c"
  by (simp add: tmean_def sum_list_addf sum_list_triv add_divide_distrib)

lemma tstd_shift: "xs \<noteq> [] \<Longrightarrow> tstd (map (\<lambda>x. x + c) xs) = tstd xs"
  by (simp add: tstd_def tmean_shift comp_def)

lemma tmean_scale: "tmean (map (\<lambda>x. c * x) xs) = c * tmean xs"
  by (simp add: tmean_def sum_list_const_mult)

lemma tstd_nonneg: "2 \<le> length xs \<Longrightarrow> 0 \<le> tstd xs"
  unfolding tstd_def by (intro real_sqrt_ge_zero divide_nonneg_nonneg sum_list_nonneg) auto

end
