(* ===== verification/Groupwise.thy ===== *)
theory Groupwise
  imports Tensor
begin

text \<open>
  Grouping of samples by prompt: the dictionaries \<open>defaultdict(list)\<close> that the advantage
  estimators fill, and the tensor counterparts in \<open>verl/utils/groupwise.py\<close>
  (\<open>as_torch_index\<close>, \<open>group_mean_std\<close>) with \<open>np.unique(..., return_inverse=True)\<close>.
\<close>

section \<open>Dictionaries of lists\<close>

text \<open>\<open>d[k].append(v)\<close> on a \<open>defaultdict(list)\<close>; keys keep the order of insertion.\<close>

fun dict_append :: "'k \<Rightarrow> 'v \<Rightarrow> ('k \<times> 'v list) list \<Rightarrow> ('k \<times> 'v list) list" where
  "dict_append k v [] = [(k, [v])]"
| "dict_append k v ((k', vs) # d) =
     (if k = k' then (k', vs @ [v]) # d else (k', vs) # dict_append k v d)"

definition group_by :: "'k list \<Rightarrow> 'v list \<Rightarrow> ('k \<times> 'v list) list" where
  "group_by ks vs = foldl (\<lambda>d (k, v). dict_append k v d) [] (zip ks vs)"

definition dict_get :: "('k \<times> 'v) list \<Rightarrow> 'k \<Rightarrow> 'v result" where
  "dict_get d k = (case map_of d k of None \<Rightarrow> Inl (KeyError []) | Some v \<Rightarrow> Inr v)"

text \<open>\<open>for idx in d: e[idx] = f(d[idx])\<close> and \<open>[f(x) for x in xs]\<close> where \<open>f\<close> may raise.\<close>

fun map_values :: "('v \<Rightarrow> 'w result) \<Rightarrow> ('k \<times> 'v) list \<Rightarrow> ('k \<times> 'w) list result" where
  "map_values f [] = Inr []"
| "map_values f ((k, v) # d) = rbind (f v) (\<lambda>w. rbind (map_values f d) (\<lambda>e. Inr ((k, w) # e)))"

fun map_result :: "('a \<Rightarrow> 'b result) \<Rightarrow> 'a list \<Rightarrow> 'b list result" where
  "map_result f [] = Inr []"
| "map_result f (x # xs) = rbind (f x) (\<lambda>y. rbind (map_result f xs) (\<lambda>ys. Inr (y # ys)))"

text \<open>The values of one group, in order.\<close>

definition members :: "'k list \<Rightarrow> 'v list \<Rightarrow> 'k \<Rightarrow> 'v list" where
  "members ks vs k = map snd (filter (\<lambda>(i, _). i = k) (zip ks vs))"

section \<open>Canonical group labels\<close>

text \<open>
  Labels as the callers of \<open>as_torch_index\<close> hold them: an integer tensor or array, a float
  array, or an array of strings (such as the uids of the prompts). Float values are rationals;
  tensors of floats and object arrays of mixed types are not modelled.
\<close>

datatype labels = IntTensor "int list" | IntArray "int list" | FloatArray "rat list"
  | StrArray "string list"

text \<open>\<open>np.unique(xs, return_inverse=True)[1]\<close>: ranks among the distinct sorted values.\<close>

definition unique_inverse :: "'a::linorder list \<Rightarrow> nat list" where
  "unique_inverse xs =
     (let u = sorted_list_of_set (set xs) in map (\<lambda>x. length (takeWhile (\<lambda>y. y < x) u)) xs)"

text \<open>\<open>np.rint\<close>: round half to even. And the conversion to \<open>np.int64\<close>, which truncates.\<close>

definition rint :: "rat \<Rightarrow> int" where
  "rint x =
     (let f = floor x; r = x - rat_of_int f
      in if r < 1 / 2 then f else if 1 / 2 < r then f + 1 else if even f then f else f + 1)"

definition truncate_int :: "rat \<Rightarrow> int" where
  "truncate_int x = (if 0 \<le> x then floor x else - floor (- x))"

text \<open>
  \<open>int(s)\<close> on ASCII text: surrounding white space, one sign, digits with single underscores
  between them; \<open>None\<close> is a \<open>ValueError\<close>.
\<close>

fun int_digits :: "int \<Rightarrow> bool \<Rightarrow> string \<Rightarrow> int option" where
  "int_digits acc after_digit [] = (if after_digit then Some acc else None)"
| "int_digits acc after_digit (c # cs) =
     (if is_digit c then int_digits (10 * acc + (of_char c - 48)) True cs
      else if c = CHR ''_'' \<and> after_digit then int_digits acc False cs
      else None)"

definition int_of_str :: "string \<Rightarrow> int option" where
  "int_of_str s =
     (case strip s of
        [] \<Rightarrow> None
      | c # cs \<Rightarrow>
          (if c = CHR ''-'' then map_option uminus (int_digits 0 False cs)
           else if c = CHR ''+'' then int_digits 0 False cs
           else int_digits 0 False (c # cs)))"

definition int64_of_str :: "string \<Rightarrow> int option" where
  "int64_of_str s =
     (case int_of_str s of
        Some i \<Rightarrow> (if - (2 ^ 63) \<le> i \<and> i < 2 ^ 63 then Some i else None)
      | None \<Rightarrow> None)"

definition as_torch_index :: "labels \<Rightarrow> int list" where
  "as_torch_index index =
     (case index of
        IntTensor t \<Rightarrow> t
      | IntArray arr \<Rightarrow> arr
      | FloatArray arr \<Rightarrow>
          (if \<forall>x\<in>set arr. \<bar>x - rat_of_int (rint x)\<bar> \<le> 1 / 10 ^ 6 then map rint arr
           else map truncate_int arr)
      | StrArray arr \<Rightarrow>
          (if \<forall>s\<in>set arr. int64_of_str s \<noteq> None then map (\<lambda>s. the (int64_of_str s)) arr
           else map int (unique_inverse arr)))"

section \<open>Group statistics as tensors\<close>

text \<open>\<open>torch.zeros(G).index_add_(0, gidx, xs)\<close>.\<close>

definition index_add :: "nat \<Rightarrow> nat list \<Rightarrow> vec \<Rightarrow> vec" where
  "index_add G gidx xs =
     foldl (\<lambda>acc (i, x). acc[i := acc ! i + x]) (replicate G 0) (zip gidx xs)"

text \<open>The three tensors \<open>mean\<close>, \<open>std\<close> and \<open>count\<close>, indexed by group.\<close>

definition group_mean_std :: "vec \<Rightarrow> int list \<Rightarrow> real \<Rightarrow> (vec \<times> vec \<times> vec) result" where
  "group_mean_std scores gidx eps =
     (if length scores \<noteq> length gidx
      then Inl (ValueError (''scores and gidx length mismatch: '' @ show_nat (length scores)
             @ '' vs '' @ show_nat (length gidx)))
      else if gidx = [] \<or> Max (set gidx) = - 1 then Inr ([], [], [])
      else if Max (set gidx) < - 1
      then Inl (RuntimeError (''Trying to create tensor with negative dimension '' @ show_int (Max (set gidx) + 1)))
      else if \<exists>i\<in>set gidx. i < 0 then Inl (IndexError ''index out of range in self'')
      else
        (let g = map nat gidx;
             G = Suc (Max (set g));
             count = index_add G g (map (\<lambda>_. 1) scores);
             s1 = index_add G g scores;
             mean = map2 (\<lambda>s c. s / max c 1) s1 count;
             centered = map2 (\<lambda>s i. s - mean ! i) scores g;
             var_num = index_add G g (map (\<lambda>c. c * c) centered);
             var = map2 (\<lambda>v c. v / max (c - 1) 1) var_num count;
             std = map (\<lambda>v. sqrt (max v eps)) var
         in Inr (map2 (\<lambda>m c. if c \<le> 1 then 0 else m) mean count,
                 map2 (\<lambda>s c. if c \<le> 1 then 1 else s) std count,
                 count)))"

section \<open>Lemmas on dictionaries\<close>

lemma map_of_dict_append:
  "map_of (dict_append k v d) j =
     (if j = k then Some ((case map_of d k of None \<Rightarrow> [] | Some vs \<Rightarrow> vs) @ [v]) else map_of d j)"
  by (induction k v d rule: dict_append.induct) auto

lemma dict_append_keys:
  "map fst (dict_append k v d) = (if k \<in> set (map fst d) then map fst d else map fst d @ [k])"
  by (induction k v d rule: dict_append.induct) auto

lemma map_of_group_fold:
  "map_of (foldl (\<lambda>d (k, v). dict_append k v d) d ps) j =
     (if j \<in> fst ` set ps
      then Some ((case map_of d j of None \<Rightarrow> [] | Some vs \<Rightarrow> vs)
             @ map snd (filter (\<lambda>(i, _). i = j) ps))
      else map_of d j)"
  by (induction ps arbitrary: d)
    (fastforce simp: map_of_dict_append image_iff filter_empty_conv split: option.splits)+

lemma map_of_group_by:
  assumes "length ks = length vs"
  shows "map_of (group_by ks vs) k = (if k \<in> set ks then Some (members ks vs k) else None)"
proof -
  have "fst ` set (zip ks vs) = set ks"
    using assms by (metis list.set_map map_fst_zip)
  then show ?thesis
    by (simp add: group_by_def members_def map_of_group_fold)
qed

lemma distinct_group_fold:
  "distinct (map fst d) \<Longrightarrow> distinct (map fst (foldl (\<lambda>d (k, v). dict_append k v d) d ps))"
  by (induction ps arbitrary: d) (auto simp: dict_append_keys)

lemma distinct_group_by [simp]: "distinct (map fst (group_by ks vs))"
  unfolding group_by_def by (rule distinct_group_fold) simp

lemma group_by_entry:
  assumes "length ks = length vs" and "(k, xs) \<in> set (group_by ks vs)"
  shows "k \<in> set ks" and "xs = members ks vs k"
proof -
  have "map_of (group_by ks vs) k = Some xs"
    using assms(2) by (simp add: map_of_is_SomeI)
  with assms(1) show "k \<in> set ks" and "xs = members ks vs k"
    by (auto simp: map_of_group_by split: if_splits)
qed

lemma map_of_map_values:
  "map_values f d = Inr e \<Longrightarrow> map_of e k = (case map_of d k of None \<Rightarrow> None
     | Some v \<Rightarrow> (case f v of Inl _ \<Rightarrow> None | Inr w \<Rightarrow> Some w))"
  by (induction f d arbitrary: e rule: map_values.induct) (auto simp: rbind_eq_Inr)

lemma map_values_Inr:
  "(\<And>k v. (k, v) \<in> set d \<Longrightarrow> \<exists>w. f v = Inr w) \<Longrightarrow> \<exists>e. map_values f d = Inr e"
proof (induction d)
  case (Cons p d)
  obtain k v where p: "p = (k, v)" by (cases p)
  obtain w where "f v = Inr w" using Cons.prems [of k v] p by auto
  moreover obtain e where "map_values f d = Inr e"
    using Cons by (metis list.set_intros(2))
  ultimately show ?case by (simp add: p)
qed simp

lemma map_values_Inl:
  "(k, v) \<in> set d \<Longrightarrow> f v = Inl e \<Longrightarrow> \<exists>e'. map_values f d = Inl e'"
  by (induction f d rule: map_values.induct) (auto simp: rbind_def split: sum.splits)

lemma map_result_map: "(\<And>x. x \<in> set xs \<Longrightarrow> f x = Inr (g x)) \<Longrightarrow> map_result f xs = Inr (map g xs)"
  by (induction xs) auto

section \<open>Lemmas on the members of a group\<close>

lemma members_Nil [simp]: "members [] vs k = []" "members ks [] k = []"
  by (simp_all add: members_def)

lemma members_Cons [simp]:
  "members (i # ks) (v # vs) k = (if i = k then v # members ks vs k else members ks vs k)"
  by (simp add: members_def)

lemma members_empty_iff:
  "length ks = length vs \<Longrightarrow> members ks vs k = [] \<longleftrightarrow> k \<notin> set ks"
  by (induction ks vs rule: list_induct2) auto

lemma length_members: "length ks = length vs \<Longrightarrow> length (members ks vs k) = count_list ks k"
  by (induction ks vs rule: list_induct2) auto

lemma members_map: "members ks (map f vs) k = map f (members ks vs k)"
proof (induction ks arbitrary: vs)
  case (Cons i ks)
  then show ?case by (cases vs) auto
qed simp

lemma members_map2:
  "length ks = length vs \<Longrightarrow> members ks (map2 f ks vs) k = map (f k) (members ks vs k)"
  by (induction ks vs rule: list_induct2) auto

lemma members_cong_list:
  "list_all2 (\<lambda>x y. x = a \<longleftrightarrow> y = b) g ks \<Longrightarrow> length ks = length vs \<Longrightarrow>
     members g vs a = members ks vs b"
proof (induction g ks arbitrary: vs rule: list_all2_induct)
  case (Cons x xs y ys)
  then show ?case by (cases vs) auto
qed simp

lemma members_cong_labels:
  assumes "length g = length ks" and "length ks = length vs" and "i < length ks"
    and "\<And>j. j < length ks \<Longrightarrow> g ! j = g ! i \<longleftrightarrow> ks ! j = ks ! i"
  shows "members g vs (g ! i) = members ks vs (ks ! i)"
  using assms by (intro members_cong_list) (auto simp: list_all2_conv_all_nth)

end
