(* ===== verification/Advantage.thy ===== *)
theory Advantage
  imports Groupwise
begin

text \<open>
  The advantage estimators of \<open>verl/trainer/ppo/core_algos.py\<close>. Each returns advantages and
  returns of shape \<open>(bs, response_length)\<close>; \<open>'u\<close> is the type of the group labels \<open>index\<close>.
  Batched column loops are written row by row: the rows of a batch do not interact in them.
\<close>

section \<open>Generalized advantage estimation\<close>

text \<open>
  One row, from the last token to the first: \<open>(nextvalues, lastgaelam, advantages)\<close> after the
  tokens of the list \<open>(reward, value, mask)\<close> have been processed.
\<close>

fun gae_row :: "real \<Rightarrow> real \<Rightarrow> (real \<times> real \<times> real) list \<Rightarrow> real \<times> real \<times> vec" where
  "gae_row gamma lam [] = (0, 0, [])"
| "gae_row gamma lam ((reward, v, m) # later) =
     (case gae_row gamma lam later of (nextvalues, lastgaelam, advantages) \<Rightarrow>
        let delta = reward + gamma * nextvalues - v;
            td_lastgaelam = delta + gamma * lam * lastgaelam;
            nextvalues' = v * m + (1 - m) * nextvalues;
            lastgaelam' = td_lastgaelam * m + (1 - m) * lastgaelam
        in (nextvalues', lastgaelam', lastgaelam' # advantages))"

definition row_tokens :: "vec \<Rightarrow> vec \<Rightarrow> vec \<Rightarrow> (real \<times> real \<times> real) list" where
  "row_tokens rs vs ms = zip rs (zip vs ms)"

definition gae_advantages :: "mat \<Rightarrow> mat \<Rightarrow> mat \<Rightarrow> real \<Rightarrow> real \<Rightarrow> mat" where
  "gae_advantages token_level_rewards vals response_mask gamma lam =
     map2 (\<lambda>rs (vs, ms). snd (snd (gae_row gamma lam (row_tokens rs vs ms))))
       token_level_rewards (zip vals response_mask)"

definition compute_gae_advantage_return ::
    "mat \<Rightarrow> mat \<Rightarrow> mat \<Rightarrow> real \<Rightarrow> real \<Rightarrow> (mat \<times> mat) result" where
  "compute_gae_advantage_return token_level_rewards vals response_mask gamma lam =
     (let advantages = gae_advantages token_level_rewards vals response_mask gamma lam;
          rets = mzip (+) advantages vals
      in rbind (masked_whiten advantages response_mask True) (\<lambda>whitened. Inr (whitened, rets)))"

section \<open>Estimators with a group baseline\<close>

text \<open>\<open>index[i]\<close> for \<open>i in range(bsz)\<close>: a shorter index array raises.\<close>

definition with_index :: "'u list \<Rightarrow> nat \<Rightarrow> 'b result \<Rightarrow> 'b result" where
  "with_index index bsz k =
     (if length index < bsz
      then Inl (IndexError (''index '' @ show_nat (length index) @ '' is out of bounds for axis 0 with size ''
             @ show_nat (length index)))
      else k)"

text \<open>The branch on the size of a group; the last one is unreachable.\<close>

definition by_group_size :: "'a \<Rightarrow> (vec \<Rightarrow> 'a) \<Rightarrow> vec \<Rightarrow> 'a result" where
  "by_group_size single stat xs =
     (if length xs = 1 then Inr single
      else if 1 < length xs then Inr (stat xs)
      else Inl (ValueError ''no score in prompt index''))"

definition grpo_scores :: "vec \<Rightarrow> 'u list \<Rightarrow> real \<Rightarrow> bool \<Rightarrow> vec result" where
  "grpo_scores scores index epsilon norm_adv_by_std_in_grpo =
     with_index index (length scores)
       (let id2score = group_by (take (length scores) index) scores
        in rbind (map_values (by_group_size (0, 1) (\<lambda>xs. (tmean xs, tstd xs))) id2score) (\<lambda>id2stat.
             map_result (\<lambda>(u, score). rbind (dict_get id2stat u) (\<lambda>(mean, std).
                 Inr (if norm_adv_by_std_in_grpo then (score - mean) / (std + epsilon)
                      else score - mean)))
               (zip index scores)))"

definition compute_grpo_outcome_advantage ::
    "mat \<Rightarrow> mat \<Rightarrow> 'u list \<Rightarrow> real \<Rightarrow> bool \<Rightarrow> (mat \<times> mat) result" where
  "compute_grpo_outcome_advantage token_level_rewards response_mask index epsilon
       norm_adv_by_std_in_grpo =
     rbind (grpo_scores (row_sums token_level_rewards) index epsilon norm_adv_by_std_in_grpo)
       (\<lambda>scores. let a = bcast_mul scores response_mask in Inr (a, a))"

definition compute_grpo_vectorized_outcome_advantage ::
    "mat \<Rightarrow> mat \<Rightarrow> labels \<Rightarrow> real \<Rightarrow> bool \<Rightarrow> (mat \<times> mat) result" where
  "compute_grpo_vectorized_outcome_advantage token_level_rewards response_mask index epsilon
       norm_adv_by_std_in_grpo =
     (let scores = row_sums token_level_rewards;
          g = as_torch_index index
      in rbind (group_mean_std scores g 0) (\<lambda>(mean_g, std_g, _).
           if mean_g = [] \<and> g \<noteq> []
           then Inl (IndexError (''index '' @ show_int (hd g) @ '' is out of bounds for dimension 0 with size 0''))
           else
           let scalars = map2 (\<lambda>score i.
                   if norm_adv_by_std_in_grpo
                   then (score - mean_g ! nat i) / (std_g ! nat i + epsilon)
                   else score - mean_g ! nat i) scores g;
               advantages = bcast_mul scalars response_mask
           in Inr (advantages, advantages)))"

text \<open>
  Pass@k. \<open>topk\<close> is \<open>torch.topk(rewards, 2)[1]\<close>, the positions of the two largest values; the
  order among equal values is torch's choice.
\<close>

definition passk_group ::
    "(vec \<Rightarrow> nat \<times> nat) \<Rightarrow> bool \<Rightarrow> real \<Rightarrow> vec \<Rightarrow> nat list \<Rightarrow> vec \<Rightarrow> vec result" where
  "passk_group topk norm_adv_by_std_in_grpo epsilon rewards indices advantages =
     (if length rewards < 2
      then Inl (ValueError (''Pass@k requires at least 2 samples per group. Got ''
             @ show_nat (length rewards)))
      else
        (case topk rewards of (first, second) \<Rightarrow>
          let advantage = rewards ! first - rewards ! second;
              scaled = (if norm_adv_by_std_in_grpo then advantage / (tstd rewards + epsilon)
                        else advantage)
          in Inr (advantages[indices ! first := scaled])))"

definition passk_scores :: "(vec \<Rightarrow> nat \<times> nat) \<Rightarrow> vec \<Rightarrow> 'u list \<Rightarrow> real \<Rightarrow> bool \<Rightarrow> vec result" where
  "passk_scores topk scores index epsilon norm_adv_by_std_in_grpo =
     with_index index (length scores)
       (let labels = take (length scores) index;
            id2scores = group_by labels scores;
            id2indices = group_by labels [0..<length scores]
        in for_each (\<lambda>(idx, rewards) advantages.
             rbind (dict_get id2indices idx)
               (\<lambda>indices. passk_group topk norm_adv_by_std_in_grpo epsilon rewards indices advantages))
           id2scores (map (\<lambda>_. 0) scores))"

definition compute_grpo_passk_outcome_advantage ::
    "(vec \<Rightarrow> nat \<times> nat) \<Rightarrow> mat \<Rightarrow> mat \<Rightarrow> 'u list \<Rightarrow> real \<Rightarrow> bool \<Rightarrow> (mat \<times> mat) result" where
  "compute_grpo_passk_outcome_advantage topk token_level_rewards response_mask index epsilon
       norm_adv_by_std_in_grpo =
     rbind (passk_scores topk (row_sums token_level_rewards) index epsilon norm_adv_by_std_in_grpo)
       (\<lambda>scores. let a = bcast_mul scores response_mask in Inr (a, a))"

text \<open>Scores minus the mean of their group, a group of one keeping its score.\<close>

definition centered_scores :: "vec \<Rightarrow> 'u list \<Rightarrow> vec result" where
  "centered_scores scores index =
     with_index index (length scores)
       (let id2score = group_by (take (length scores) index) scores
        in rbind (map_values (by_group_size 0 tmean) id2score) (\<lambda>id2mean.
             map_result (\<lambda>(u, score). rbind (dict_get id2mean u) (\<lambda>mean. Inr (score - mean)))
               (zip index scores)))"

definition compute_reinforce_plus_plus_baseline_outcome_advantage ::
    "mat \<Rightarrow> mat \<Rightarrow> 'u list \<Rightarrow> (mat \<times> mat) result" where
  "compute_reinforce_plus_plus_baseline_outcome_advantage token_level_rewards response_mask index =
     rbind (centered_scores (row_sums token_level_rewards) index) (\<lambda>scores.
       rbind (masked_whiten (bcast_mul scores response_mask) response_mask True) (\<lambda>whitened.
         let a = mzip (*) whitened response_mask in Inr (a, a)))"

definition rloo_scores :: "vec \<Rightarrow> 'u list \<Rightarrow> vec result" where
  "rloo_scores scores index =
     with_index index (length scores)
       (let id2score = group_by (take (length scores) index) scores
        in rbind (map_values (by_group_size 0 tmean) id2score) (\<lambda>id2mean.
             map_result (\<lambda>(u, score).
                 rbind (dict_get id2score u) (\<lambda>xs. rbind (dict_get id2mean u) (\<lambda>mean.
                   let n = real (length xs)
                   in Inr (if 1 < length xs then score * n / (n - 1) - mean * n / (n - 1)
                           else score))))
               (zip index scores)))"

definition compute_rloo_outcome_advantage :: "mat \<Rightarrow> mat \<Rightarrow> 'u list \<Rightarrow> (mat \<times> mat) result" where
  "compute_rloo_outcome_advantage token_level_rewards response_mask index =
     rbind (rloo_scores (row_sums token_level_rewards) index)
       (\<lambda>scores. let a = bcast_mul scores response_mask in Inr (a, a))"

definition rloo_vectorized_scores :: "vec \<Rightarrow> 'u::linorder list \<Rightarrow> vec" where
  "rloo_vectorized_scores scores index =
     (let inv = unique_inverse index;
          G = Suc (Max (set inv));
          counts = index_add G inv (map (\<lambda>_. 1) inv);
          sums_g = index_add G inv scores
      in map2 (\<lambda>score i.
           (counts ! i * score - sums_g ! i) / max (counts ! i - 1) 1
             * (if 1 < counts ! i then 1 else 0)) scores inv)"

definition compute_rloo_vectorized_outcome_advantage ::
    "mat \<Rightarrow> mat \<Rightarrow> 'u::linorder list \<Rightarrow> mat \<times> mat" where
  "compute_rloo_vectorized_outcome_advantage token_level_rewards response_mask index =
     (let a = bcast_mul (rloo_vectorized_scores (row_sums token_level_rewards) index) response_mask
      in (a, a))"

definition opo_scores :: "vec \<Rightarrow> vec \<Rightarrow> 'u list \<Rightarrow> vec result" where
  "opo_scores response_length scores index =
     with_index index (length scores)
       (let labels = take (length scores) index;
            id2score = group_by labels scores;
            id2len = group_by labels response_length
        in rbind (map_result (\<lambda>(idx, xs). rbind (dict_get id2len idx) (\<lambda>lens.
                   rbind (by_group_size 0 (\<lambda>xs. sum_list (map2 (*) lens xs) / sum_list lens) xs)
                     (\<lambda>b. Inr (idx, b)))) id2score) (\<lambda>id2bsl.
             map_result (\<lambda>(u, score). rbind (dict_get id2bsl u) (\<lambda>b. Inr (score - b)))
               (zip index scores)))"

definition compute_opo_outcome_advantage :: "mat \<Rightarrow> mat \<Rightarrow> 'u list \<Rightarrow> (mat \<times> mat) result" where
  "compute_opo_outcome_advantage token_level_rewards response_mask index =
     rbind (opo_scores (row_sums response_mask) (row_sums token_level_rewards) index)
       (\<lambda>scores. let a = bcast_mul scores response_mask in Inr (a, a))"

text \<open>GPG: \<open>alpha\<close> is recomputed from the number of non-zero scores.\<close>

definition compute_gpg_outcome_advantage ::
    "mat \<Rightarrow> mat \<Rightarrow> 'u list \<Rightarrow> real \<Rightarrow> (mat \<times> mat) result" where
  "compute_gpg_outcome_advantage token_level_rewards response_mask index f_norm =
     (let scores = row_sums token_level_rewards;
          m = length (filter (\<lambda>s. s \<noteq> 0) scores);
          alpha = real (length scores) / real (max m 1)
      in rbind (centered_scores scores index) (\<lambda>centered.
           let a = bcast_mul (map (\<lambda>c. alpha * c / f_norm) centered) response_mask in Inr (a, a)))"

section \<open>Reward-decoupled normalization (GDPO)\<close>

text \<open>
  \<open>rm_scores[arange, valid_response_length] = rm_score\<close>: the score of a sample at position
  \<open>valid_response_length\<close> of a zero row; a negative position counts from the end.
\<close>

definition place_score :: "nat \<Rightarrow> real \<Rightarrow> int \<Rightarrow> vec result" where
  "place_score width score pos =
     (let p = (if pos < 0 then pos + int width else pos)
      in if 0 \<le> p \<and> p < int width then Inr ((replicate width 0)[nat p := score])
         else Inl (IndexError ''index is out of bounds for dimension 1''))"

definition gdpo_score_list ::
    "string list \<Rightarrow> (string \<times> vec) list \<Rightarrow> int list \<Rightarrow> mat \<Rightarrow> mat list result" where
  "gdpo_score_list gdpo_reward_keys non_tensor_batch valid_response_length response_mask =
     passert (gdpo_reward_keys \<noteq> [])
       ''GDPO requires 'algorithm.gdpo_reward_keys' listing the individual reward component keys''
       (map_result (\<lambda>key.
            case map_of non_tensor_batch key of
              None \<Rightarrow> Inl (AssertionError (''GDPO reward key '' @ key @ '' not found in non_tensor_batch.''))
            | Some component \<Rightarrow>
                map_result (\<lambda>(row, score, pos). place_score (length row) score pos)
                  (zip response_mask (zip component valid_response_length)))
          gdpo_reward_keys)"

definition weighted_sum :: "real list \<Rightarrow> mat list \<Rightarrow> mat \<Rightarrow> mat" where
  "weighted_sum ws ms zero = foldl (\<lambda>acc (w, m). mzip (+) acc (mmap (\<lambda>x. w * x) m)) zero (zip ws ms)"

definition gdpo_combine :: "real list \<Rightarrow> mat list \<Rightarrow> mat" where
  "gdpo_combine ws ms =
     (case (ws, ms) of
        (w # ws', m # ms') \<Rightarrow> weighted_sum ws' ms' (mmap (\<lambda>x. w * x) m)
      | _ \<Rightarrow> [])"

text \<open>
  \<open>components\<close> is \<open>None\<close> when the configuration or the batch is missing, and otherwise the
  reward keys, the per-dimension rewards, the positions
  \<open>attention_mask[:, prompt_length:].sum(dim=1) - 1\<close> and the optional weights.
\<close>

definition compute_gdpo_outcome_advantage ::
    "mat \<Rightarrow> mat \<Rightarrow> 'u list \<Rightarrow> real \<Rightarrow> bool
      \<Rightarrow> (string list \<times> (string \<times> vec) list \<times> int list \<times> real list option) option
      \<Rightarrow> (mat \<times> mat) result" where
  "compute_gdpo_outcome_advantage token_level_rewards response_mask index epsilon
       norm_adv_by_std_in_grpo components =
     rbind (case components of
              None \<Rightarrow> Inr [token_level_rewards]
            | Some (keys, ntb, valid, _) \<Rightarrow> gdpo_score_list keys ntb valid response_mask) (\<lambda>score_list.
     let ws = (case components of Some (_, _, _, Some w) \<Rightarrow> w | _ \<Rightarrow> replicate (length score_list) 1)
     in if length ws < length score_list then Inl (IndexError ''index out of range'')
        else
          rbind (map_result (\<lambda>score. rbind (compute_grpo_outcome_advantage score response_mask index
                     epsilon norm_adv_by_std_in_grpo) (\<lambda>(normalized_score, _). Inr normalized_score))
                   score_list) (\<lambda>normalized.
          rbind (masked_whiten (gdpo_combine ws normalized) response_mask True) (\<lambda>whitened.
            let a = mzip (*) whitened response_mask in Inr (a, a))))"

section \<open>Estimators without a group baseline\<close>

text \<open>REINFORCE++: the pair of \<open>running_return\<close> and the returns of the later tokens.\<close>

fun rfpp_row :: "real \<Rightarrow> (real \<times> real) list \<Rightarrow> real \<times> vec" where
  "rfpp_row gamma [] = (0, [])"
| "rfpp_row gamma ((reward, m) # later) =
     (case rfpp_row gamma later of (running_return, rets) \<Rightarrow>
        let r = reward + gamma * running_return in (r * m, r # rets))"

definition rfpp_returns :: "mat \<Rightarrow> mat \<Rightarrow> real \<Rightarrow> mat" where
  "rfpp_returns token_level_rewards response_mask gamma =
     map2 (\<lambda>rs ms. snd (rfpp_row gamma (zip rs ms))) token_level_rewards response_mask"

definition compute_reinforce_plus_plus_outcome_advantage ::
    "mat \<Rightarrow> mat \<Rightarrow> real \<Rightarrow> (mat \<times> mat) result" where
  "compute_reinforce_plus_plus_outcome_advantage token_level_rewards response_mask gamma =
     (let rets = rfpp_returns token_level_rewards response_mask gamma
      in rbind (masked_whiten rets response_mask True)
           (\<lambda>advantages. Inr (mzip (*) advantages response_mask, rets)))"

text \<open>The reward-to-go used by ReMax and by the optimal token baselines.\<close>

definition returns_to_go :: "mat \<Rightarrow> mat \<Rightarrow> mat" where
  "returns_to_go token_level_rewards response_mask =
     map suffix_sums (mzip (*) token_level_rewards response_mask)"

definition compute_remax_outcome_advantage :: "mat \<Rightarrow> vec \<Rightarrow> mat \<Rightarrow> mat \<times> mat" where
  "compute_remax_outcome_advantage token_level_rewards reward_baselines response_mask =
     (let rets = returns_to_go token_level_rewards response_mask
      in (mzip (-) rets (bcast_mul reward_baselines response_mask), rets))"

end
