(* ===== verification/GroupBaselines.thy ===== *)
theory GroupBaselines
  imports Advantage
begin

text \<open>
  What the group-baseline estimators compute: the group statistics behind the dictionaries, and the
  properties of GRPO, RLOO (with their vectorized versions), OPO and Pass@k.
\<close>

section \<open>Group statistics\<close>

text \<open>What the dictionaries hold for the group \<open>u\<close>.\<close>

definition group_stat :: "'a \<Rightarrow> (vec \<Rightarrow> 'a) \<Rightarrow> 'u list \<Rightarrow> vec \<Rightarrow> 'u \<Rightarrow> 'a" where
  "group_stat single stat index scores u =
     (let xs = members index scores u in if length xs = 1 then single else stat xs)"

lemma group_stat_many: "length (members index scores u) \<noteq> 1 \<Longrightarrow>
    group_stat single stat index scores u = stat (members index scores u)"
  by (simp add: group_stat_def Let_def)

lemma group_stat_single: "length (members index scores u) = 1 \<Longrightarrow>
    group_stat single stat index scores u = single"
  by (simp add: group_stat_def Let_def)

lemma zip_take_left: "zip (take (length vs) ks) vs = zip ks vs"
proof (induction vs arbitrary: ks)
  case (Cons v vs)
  then show ?case by (cases ks) auto
qed simp

lemma members_take [simp]: "members (take (length vs) ks) vs k = members ks vs k"
  by (simp add: members_def zip_take_left)

lemma zip_in_take: "(u, s) \<in> set (zip index scores) \<Longrightarrow> u \<in> set (take (length scores) index)"
  by (metis set_zip_leftD zip_take_left)

lemma with_index_ok [simp]: "bsz \<le> length index \<Longrightarrow> with_index index bsz k = k"
  by (simp add: with_index_def)

text \<open>The loop \<open>for idx in id2score\<close> never raises and computes the statistic of every group.\<close>

lemma group_stats_dict:
  fixes scores :: vec
  assumes "length scores \<le> length index"
  obtains e where "map_values (by_group_size single stat) (group_by (take (length scores) index) scores) = Inr e"
    and "\<And>u. u \<in> set (take (length scores) index) \<Longrightarrow>
           dict_get e u = Inr (group_stat single stat index scores u)"
proof -
  let ?ks = "take (length scores) index"
  let ?d = "group_by ?ks scores"
  have len: "length ?ks = length scores" using assms by simp
  have ok: "\<exists>w. by_group_size single stat xs = Inr w" if "(k, xs) \<in> set ?d" for k xs
  proof -
    have "xs \<noteq> []"
      using group_by_entry [OF len that] members_empty_iff [OF len] by simp
    then show ?thesis by (cases xs) (auto simp: by_group_size_def)
  qed
  then obtain e where e: "map_values (by_group_size single stat) ?d = Inr e"
    using map_values_Inr by metis
  have "dict_get e u = Inr (group_stat single stat index scores u)" if u: "u \<in> set ?ks" for u
  proof -
    have "members index scores u \<noteq> []"
      using u members_empty_iff [OF len, of u] by simp
    then show ?thesis
      using u map_of_map_values [OF e, of u] len
      by (cases "members index scores u")
        (auto simp: dict_get_def map_of_group_by by_group_size_def group_stat_def)
  qed
  with e that show thesis by blast
qed

lemma per_sample:
  assumes "\<And>u. u \<in> set (take (length scores) index) \<Longrightarrow> dict_get e u = Inr (st u)"
  shows "map_result (\<lambda>(u, s). rbind (dict_get e u) (\<lambda>x. Inr (h x s))) (zip index scores)
       = Inr (map2 (\<lambda>u s. h (st u) s) index scores)"
proof (rule map_result_map)
  fix p assume p: "p \<in> set (zip index scores)"
  obtain u s where us: "p = (u, s)" by (cases p)
  with p have "dict_get e u = Inr (st u)"
    using assms zip_in_take by metis
  then show "(case p of (u, s) \<Rightarrow> rbind (dict_get e u) (\<lambda>x. Inr (h x s)))
      = Inr (case p of (u, s) \<Rightarrow> h (st u) s)"
    by (simp add: us)
qed

lemma grpo_scores_eq:
  assumes "length scores \<le> length index"
  shows "grpo_scores scores index epsilon by_std =
     Inr (map2 (\<lambda>u s. case group_stat (0, 1) (\<lambda>xs. (tmean xs, tstd xs)) index scores u of (mean, std) \<Rightarrow>
              if by_std then (s - mean) / (std + epsilon) else s - mean) index scores)"
proof -
  obtain e where e: "map_values (by_group_size (0, 1) (\<lambda>xs. (tmean xs, tstd xs)))
        (group_by (take (length scores) index) scores) = Inr e"
    and get: "\<And>u. u \<in> set (take (length scores) index) \<Longrightarrow>
        dict_get e u = Inr (group_stat (0, 1) (\<lambda>xs. (tmean xs, tstd xs)) index scores u)"
    by (rule group_stats_dict [OF assms, of "(0, 1)" "\<lambda>xs. (tmean xs, tstd xs)"]) blast
  show ?thesis
    using assms e per_sample [of scores index, OF get, where h = "\<lambda>(mean, std) s.
        if by_std then (s - mean) / (std + epsilon) else s - mean"]
    by (simp add: grpo_scores_def Let_def split_def)
qed

lemma centered_scores_eq:
  assumes "length scores \<le> length index"
  shows "centered_scores scores index =
     Inr (map2 (\<lambda>u s. s - group_stat 0 tmean index scores u) index scores)"
proof -
  obtain e where e: "map_values (by_group_size 0 tmean)
        (group_by (take (length scores) index) scores) = Inr e"
    and get: "\<And>u. u \<in> set (take (length scores) index) \<Longrightarrow>
        dict_get e u = Inr (group_stat 0 tmean index scores u)"
    by (rule group_stats_dict [OF assms, of 0 tmean]) blast
  show ?thesis
    using assms e per_sample [of scores index, OF get, where h = "\<lambda>mean s. s - mean"]
    by (simp add: centered_scores_def Let_def split_def)
qed

lemma rloo_scores_eq:
  assumes "length scores \<le> length index"
  shows "rloo_scores scores index =
     Inr (map2 (\<lambda>u s. let xs = members index scores u; n = real (length xs) in
              if 1 < length xs then s * n / (n - 1) - group_stat 0 tmean index scores u * n / (n - 1)
              else s) index scores)"
proof -
  obtain e where e: "map_values (by_group_size 0 tmean)
        (group_by (take (length scores) index) scores) = Inr e"
    and get: "\<And>u. u \<in> set (take (length scores) index) \<Longrightarrow>
        dict_get e u = Inr (group_stat 0 tmean index scores u)"
    by (rule group_stats_dict [OF assms, of 0 tmean]) blast
  have "dict_get (group_by (take (length scores) index) scores) u = Inr (members index scores u)"
    if "u \<in> set (take (length scores) index)" for u
    using that assms by (simp add: dict_get_def map_of_group_by)
  then show ?thesis
    unfolding rloo_scores_def Let_def using assms e
    by (auto intro!: map_result_map simp: get zip_in_take)
qed

lemma map_result_pairs:
  "(\<And>k v. (k, v) \<in> set d \<Longrightarrow> f k v = Inr (g k v)) \<Longrightarrow>
     map_result (\<lambda>(k, v). rbind (f k v) (\<lambda>b. Inr (k, b))) d = Inr (map (\<lambda>(k, v). (k, g k v)) d)"
  by (induction d) auto

lemma map_of_map_pairs: "map_of (map (\<lambda>(k, v). (k, g k v)) d) u = map_option (g u) (map_of d u)"
  by (induction d) auto

definition weighted_mean :: "vec \<Rightarrow> vec \<Rightarrow> real" where
  "weighted_mean lens xs = sum_list (map2 (*) lens xs) / sum_list lens"

lemma opo_scores_eq:
  assumes "length scores \<le> length index" and "length lens = length scores"
  shows "opo_scores lens scores index =
     Inr (map2 (\<lambda>u s. s - (if length (members index scores u) = 1 then 0
            else weighted_mean (members index lens u) (members index scores u))) index scores)"
proof -
  let ?ks = "take (length scores) index"
  let ?g = "\<lambda>u xs. if length xs = 1 then 0 else weighted_mean (members index lens u) xs"
  let ?d = "group_by ?ks scores"
  have len: "length ?ks = length scores" using assms by simp
  have lens: "dict_get (group_by ?ks lens) u = Inr (members index lens u)" if "u \<in> set ?ks" for u
    using that assms members_take [of lens index u] by (simp add: dict_get_def map_of_group_by)
  have f: "rbind (dict_get (group_by ?ks lens) u)
         (\<lambda>ls. by_group_size 0 (\<lambda>xs. sum_list (map2 (*) ls xs) / sum_list ls) xs) = Inr (?g u xs)"
    if "(u, xs) \<in> set ?d" for u xs
  proof -
    have "xs \<noteq> []" and "u \<in> set ?ks"
      using group_by_entry [OF len that] members_empty_iff [OF len, of u] by auto
    then have "length xs = 1 \<or> 1 < length xs" by (cases xs) auto
    with lens [OF \<open>u \<in> set ?ks\<close>] show ?thesis
      by (auto simp: by_group_size_def weighted_mean_def)
  qed
  have assoc: "rbind (rbind a b) c = rbind a (\<lambda>x. rbind (b x) c)" for a :: "'x result" and b :: "'x \<Rightarrow> 'y result" and c :: "'y \<Rightarrow> 'z result"
    by (cases a) auto
  have d: "map_result (\<lambda>(idx, xs). rbind (dict_get (group_by ?ks lens) idx) (\<lambda>ls.
              rbind (by_group_size 0 (\<lambda>xs. sum_list (map2 (*) ls xs) / sum_list ls) xs)
                (\<lambda>b. Inr (idx, b)))) ?d = Inr (map (\<lambda>(u, xs). (u, ?g u xs)) ?d)"
    using map_result_pairs [OF f] by (simp add: assoc)
  have get: "dict_get (map (\<lambda>(u, xs). (u, ?g u xs)) ?d) u = Inr (?g u (members index scores u))"
    if "u \<in> set ?ks" for u
    using that len by (simp add: dict_get_def map_of_map_pairs map_of_group_by)
  show ?thesis
    unfolding opo_scores_def Let_def using assms(1)
    by (auto intro!: map_result_map simp: d get [OF zip_in_take] simp del: length_0_conv One_nat_def)
qed


lemma members_map2_any: "members ks (map2 f ks vs) k = map (f k) (members ks vs k)"
proof (induction vs arbitrary: ks)
  case (Cons v vs)
  then show ?case by (cases ks) auto
qed simp

lemma sum_list_div: "sum_list (map (\<lambda>x. f x / (c::real)) xs) = sum_list (map f xs) / c"
  by (induction xs) (auto simp: add_divide_distrib)

lemma in_group_ne:
  assumes "i < length vs" and "length vs \<le> length ks"
  shows "members ks vs (ks ! i) \<noteq> []"
proof -
  have "(ks ! i, vs ! i) \<in> set (zip ks vs)"
    using assms by (auto simp: set_zip)
  then show ?thesis by (auto simp: members_def filter_empty_conv)
qed

text \<open>the scalars that GRPO assigns to the responses of one prompt sum to zero, so no prompt
  pushes the policy up or down as a whole; a prompt with a single response keeps its raw score
  (divided by \<open>1 + epsilon\<close> when normalizing). The scalar is broadcast over the response mask.\<close>

theorem grpo_group_zero_sum:
  assumes "length token_level_rewards \<le> length index"
  shows "\<exists>scalars. compute_grpo_outcome_advantage token_level_rewards response_mask index epsilon by_std
           = Inr (bcast_mul scalars response_mask, bcast_mul scalars response_mask)
       \<and> length scalars = length token_level_rewards
       \<and> (\<forall>u. 2 \<le> length (members index scalars u) \<longrightarrow> sum_list (members index scalars u) = 0)
       \<and> (\<forall>u x. members index (row_sums token_level_rewards) u = [x] \<longrightarrow>
             members index scalars u = [if by_std then x / (1 + epsilon) else x])"
proof -
  let ?s = "row_sums token_level_rewards"
  define f where "f u s = (case group_stat (0, 1) (\<lambda>xs. (tmean xs, tstd xs)) index ?s u of
       (mean, std) \<Rightarrow> if by_std then (s - mean) / (std + epsilon) else s - mean)" for u s
  let ?sc = "map2 f index ?s"
  have res: "grpo_scores ?s index epsilon by_std = Inr ?sc"
    using assms grpo_scores_eq [of ?s index epsilon by_std] by (simp add: f_def)
  have "sum_list (members index ?sc u) = 0" if "2 \<le> length (members index ?sc u)" for u
  proof -
    let ?m = "members index ?s u"
    from that have n: "2 \<le> length ?m" by (simp add: members_map2_any)
    then have "f u = (\<lambda>s. if by_std then (s - tmean ?m) / (tstd ?m + epsilon) else s - tmean ?m)"
      by (intro ext) (simp add: f_def group_stat_many)
    moreover have "?m \<noteq> []" using n by auto
    ultimately show ?thesis
      using sum_deviation [of ?m] by (cases by_std) (simp_all add: members_map2_any sum_list_div)
  qed
  moreover have "members index ?sc u = [if by_std then x / (1 + epsilon) else x]"
    if "members index ?s u = [x]" for u x
    using that by (simp add: members_map2_any f_def group_stat_single)
  ultimately show ?thesis
    using assms by (intro exI [of _ ?sc]) (simp add: compute_grpo_outcome_advantage_def res Let_def)
qed

theorem grpo_group_zero_sum_witness:
  "\<exists>scalars. compute_grpo_outcome_advantage [[1, 0], [0, 3], [5, 5]] [[1, 1], [1, 1], [1, 0]] ''aab'' (1 / 10) True
     = Inr (bcast_mul scalars [[1, 1], [1, 1], [1, 0]], bcast_mul scalars [[1, 1], [1, 1], [1, 0]])
   \<and> length scalars = 3
   \<and> (\<forall>u. 2 \<le> length (members ''aab'' scalars u) \<longrightarrow> sum_list (members ''aab'' scalars u) = 0)
   \<and> (\<forall>u x. members ''aab'' (row_sums [[1, 0], [0, 3], [5, 5]]) u = [x] \<longrightarrow>
         members ''aab'' scalars u = [if True then x / (1 + 1 / 10) else x])"
  using grpo_group_zero_sum [of "[[1, 0], [0, 3], [5, 5]]" "''aab''" "[[1, 1], [1, 1], [1, 0]]" "1 / 10" True]
  by (simp add: numeral_3_eq_3)

text \<open>adding a constant to every reward of a prompt leaves the GRPO advantages as they are: only
  the differences between the responses of one prompt count.\<close>

theorem grpo_shift_invariant:
  assumes "length token_level_rewards \<le> length index"
    and "\<forall>u\<in>set (take (length token_level_rewards) index). 2 \<le> length (members index (row_sums token_level_rewards) u)"
    and "row_sums shifted = map2 (\<lambda>u s. s + c u) index (row_sums token_level_rewards)"
  shows "compute_grpo_outcome_advantage shifted response_mask index epsilon by_std
       = compute_grpo_outcome_advantage token_level_rewards response_mask index epsilon by_std"
proof -
  let ?s = "row_sums token_level_rewards" and ?t = "row_sums shifted"
  have len: "length ?t = length ?s" using assms(1,3) by simp
  have "grpo_scores ?t index epsilon by_std = grpo_scores ?s index epsilon by_std"
  proof -
    have m: "members index ?t u = map (\<lambda>s. s + c u) (members index ?s u)" for u
      by (simp add: assms(3) members_map2_any)
    have st: "group_stat (0, 1) (\<lambda>xs. (tmean xs, tstd xs)) index ?t (index ! i)
          = (tmean (members index ?s (index ! i)) + c (index ! i), tstd (members index ?s (index ! i)))"
        "group_stat (0, 1) (\<lambda>xs. (tmean xs, tstd xs)) index ?s (index ! i)
          = (tmean (members index ?s (index ! i)), tstd (members index ?s (index ! i)))"
      if "i < length ?s" for i
    proof -
      have "index ! i \<in> set (take (length token_level_rewards) index)"
        using that assms(1) by (auto simp: in_set_conv_nth intro!: exI [of _ i])
      then have "2 \<le> length (members index ?s (index ! i))" using assms(2) by blast
      then have "length (members index ?s (index ! i)) \<noteq> 1" "members index ?s (index ! i) \<noteq> []"
        by auto
      then show "group_stat (0, 1) (\<lambda>xs. (tmean xs, tstd xs)) index ?t (index ! i)
          = (tmean (members index ?s (index ! i)) + c (index ! i), tstd (members index ?s (index ! i)))"
        and "group_stat (0, 1) (\<lambda>xs. (tmean xs, tstd xs)) index ?s (index ! i)
          = (tmean (members index ?s (index ! i)), tstd (members index ?s (index ! i)))"
        by (simp_all add: group_stat_many m tmean_shift tstd_shift)
    qed
    have "?t ! i = ?s ! i + c (index ! i)" if "i < length ?s" for i
      using that assms(1,3) by simp
    then show ?thesis
      using assms(1) len st
      by (simp add: grpo_scores_eq list_eq_iff_nth_eq)
  qed
  then show ?thesis by (simp add: compute_grpo_outcome_advantage_def)
qed

theorem grpo_shift_invariant_witness:
  "compute_grpo_outcome_advantage [[4, 4], [7, 4], [6, 0], [0, 1]] [[1, 1], [1, 1], [1, 0], [1, 1]] ''aabb'' (1 / 10) True
   = compute_grpo_outcome_advantage [[1, 0], [1, 3], [8, 0], [0, 3]] [[1, 1], [1, 1], [1, 0], [1, 1]] ''aabb'' (1 / 10) True"
  by (rule grpo_shift_invariant [where c = "\<lambda>u. if u = CHR ''a'' then 7 else - 2"])
    (simp_all add: row_sums_def)

lemma length_unique_inverse [simp]: "length (unique_inverse xs) = length xs"
  by (simp add: unique_inverse_def Let_def)

lemma sorted_takeWhile_nth:
  assumes "sorted u" and "x \<in> set u"
  shows "length (takeWhile (\<lambda>y. y < x) u) < length u \<and> u ! length (takeWhile (\<lambda>y. y < x) u) = (x :: 'a::linorder)"
  using assms by (induction u) force+

lemma unique_inverse_nth:
  "i < length xs \<Longrightarrow> sorted_list_of_set (set xs) ! (unique_inverse xs ! i) = xs ! i
     \<and> unique_inverse xs ! i < length (sorted_list_of_set (set xs))"
  using sorted_takeWhile_nth [of "sorted_list_of_set (set xs)" "xs ! i"]
  by (simp add: unique_inverse_def Let_def)

lemma unique_inverse_eq_iff:
  "i < length xs \<Longrightarrow> j < length xs \<Longrightarrow> unique_inverse xs ! i = unique_inverse xs ! j \<longleftrightarrow> xs ! i = xs ! j"
  by (metis unique_inverse_nth nth_map length_map unique_inverse_def)

lemma index_add_fold:
  assumes "k < length acc" and "\<forall>i\<in>set g. i < length acc" and "length g = length xs"
  shows "foldl (\<lambda>acc (i, x). acc[i := acc ! i + x]) acc (zip g xs) ! k = acc ! k + sum_list (members g xs k)"
  using assms(3,1,2)
  by (induction g xs arbitrary: acc rule: list_induct2) (auto simp: nth_list_update add.assoc)

lemma length_index_add [simp]: "length (index_add G g xs) = G"
proof -
  have "length (foldl (\<lambda>acc (i, x). acc[i := acc ! i + x]) acc ps) = length acc" for acc :: vec and ps
    by (induction ps arbitrary: acc) auto
  then show ?thesis by (simp add: index_add_def)
qed

lemma index_add_nth:
  assumes "k < G" and "\<forall>i\<in>set g. i < G" and "length g = length xs"
  shows "index_add G g xs ! k = sum_list (members g xs k)"
  using assms index_add_fold [of k "replicate G 0" g xs] by (simp add: index_add_def)

text \<open>The scores of the other responses to the same prompt.\<close>

definition others :: "'u list \<Rightarrow> vec \<Rightarrow> nat \<Rightarrow> vec" where
  "others index scores i =
     map ((!) scores) (filter (\<lambda>j. j \<noteq> i \<and> index ! j = index ! i) [0..<length scores])"

lemma members_nth:
  assumes "length vs \<le> length ks"
  shows "members ks vs k = map ((!) vs) (filter (\<lambda>j. ks ! j = k) [0..<length vs])"
proof -
  have "zip ks vs = map (\<lambda>j. (ks ! j, vs ! j)) [0..<length vs]"
    using assms by (intro nth_equalityI) auto
  then show ?thesis by (simp add: members_def filter_map comp_def)
qed

lemma members_others:
  assumes "i < length scores" and "length scores \<le> length index"
  shows "mset (members index scores (index ! i)) = add_mset (scores ! i) (mset (others index scores i))"
proof -
  let ?P = "\<lambda>j. index ! j = index ! i" and ?Q = "\<lambda>j. j \<noteq> i \<and> index ! j = index ! i"
  have split: "[0..<length scores] = [0..<i] @ i # [Suc i..<length scores]"
    using assms(1) by (metis le0 less_imp_le_nat upt_add_eq_append upt_conv_Cons le_add_diff_inverse)
  have "filter ?P [0..<i] = filter ?Q [0..<i]"
    and "filter ?P [Suc i..<length scores] = filter ?Q [Suc i..<length scores]"
    by (auto intro: filter_cong)
  then have "filter ?P [0..<length scores] = filter ?Q [0..<i] @ i # filter ?Q [Suc i..<length scores]"
    and "filter ?Q [0..<length scores] = filter ?Q [0..<i] @ filter ?Q [Suc i..<length scores]"
    by (simp_all add: split)
  then show ?thesis
    using assms(2) by (simp add: members_nth others_def)
qed

lemma sum_others: "i < length scores \<Longrightarrow> length scores \<le> length index \<Longrightarrow>
    sum_list (members index scores (index ! i)) = scores ! i + sum_list (others index scores i)"
  using members_others [of i scores index] by (metis sum_mset.add_mset sum_mset_sum_list)

lemma length_others: "i < length scores \<Longrightarrow> length scores \<le> length index \<Longrightarrow>
    length (members index scores (index ! i)) = Suc (length (others index scores i))"
  using members_others [of i scores index] by (metis size_add_mset size_mset)

lemma leave_one_out_algebra:
  assumes "0 < m"
  shows "s * (m + 1) / (m + 1 - 1) - (s + t) / (m + 1) * (m + 1) / (m + 1 - 1) = s - t / (m :: real)"
proof -
  have "(s + t) / (m + 1) * (m + 1) = s + t" using assms by simp
  then have "s * (m + 1) / (m + 1 - 1) - (s + t) / (m + 1) * (m + 1) / (m + 1 - 1)
      = s * (m + 1) / m - (s + t) / m" by (simp only: add_diff_cancel_right')
  also have "\<dots> = s - t / m" using assms by (simp add: field_simps)
  finally show ?thesis .
qed

lemma rloo_scalars:
  assumes "length token_level_rewards \<le> length index"
  shows "\<exists>scalars. compute_rloo_outcome_advantage token_level_rewards response_mask index
           = Inr (bcast_mul scalars response_mask, bcast_mul scalars response_mask)
       \<and> length scalars = length token_level_rewards
       \<and> (\<forall>i < length token_level_rewards.
            scalars ! i = row_sums token_level_rewards ! i
              - (if others index (row_sums token_level_rewards) i = [] then 0
                 else tmean (others index (row_sums token_level_rewards) i)))"
proof -
  let ?s = "row_sums token_level_rewards"
  let ?f = "\<lambda>u s. let xs = members index ?s u; n = real (length xs) in
      if 1 < length xs then s * n / (n - 1) - group_stat 0 tmean index ?s u * n / (n - 1) else s"
  let ?sc = "map2 ?f index ?s"
  have res: "rloo_scores ?s index = Inr ?sc"
    using assms rloo_scores_eq [of ?s index] by simp
  have "?sc ! i = ?s ! i - (if others index ?s i = [] then 0 else tmean (others index ?s i))"
    if i: "i < length ?s" for i
  proof -
    let ?o = "others index ?s i" and ?m = "members index ?s (index ! i)"
    have len: "length ?m = Suc (length ?o)" and sum: "sum_list ?m = ?s ! i + sum_list ?o"
      using i assms length_others [of i ?s index] sum_others [of i ?s index] by simp_all
    have nth: "?sc ! i = ?f (index ! i) (?s ! i)"
      using i assms by simp
    show ?thesis
    proof (cases "?o = []")
      case True
      then show ?thesis using nth len by simp
    next
      case False
      then have "group_stat 0 tmean index ?s (index ! i) = tmean ?m"
        using len by (intro group_stat_many) simp
      then show ?thesis
        using False nth len sum leave_one_out_algebra [of "real (length ?o)" "?s ! i" "sum_list ?o"]
        by (simp add: tmean_def add.commute)
    qed
  qed
  then show ?thesis
    using assms by (intro exI [of _ ?sc]) (simp add: compute_rloo_outcome_advantage_def res Let_def)
qed

text \<open>RLOO is leave-one-out: the advantage of a response is its score minus the mean score of
  the other responses to the same prompt; a prompt with a single response keeps its score.\<close>

theorem rloo_leave_one_out:
  assumes "length token_level_rewards \<le> length index"
  shows "\<exists>scalars. compute_rloo_outcome_advantage token_level_rewards response_mask index
           = Inr (bcast_mul scalars response_mask, bcast_mul scalars response_mask)
       \<and> length scalars = length token_level_rewards
       \<and> (\<forall>i < length token_level_rewards.
            scalars ! i = row_sums token_level_rewards ! i
              - (if others index (row_sums token_level_rewards) i = [] then 0
                 else tmean (others index (row_sums token_level_rewards) i)))"
  using assms by (rule rloo_scalars)

theorem rloo_leave_one_out_witness:
  "\<exists>scalars. compute_rloo_outcome_advantage [[1, 0], [0, 3], [5, 5]] [[1, 1], [1, 1], [1, 0]] ''aab''
     = Inr (bcast_mul scalars [[1, 1], [1, 1], [1, 0]], bcast_mul scalars [[1, 1], [1, 1], [1, 0]])
   \<and> length scalars = length [[1, 0], [0, 3], [5, 5 :: real]]
   \<and> (\<forall>i < length [[1, 0], [0, 3], [5, 5 :: real]].
        scalars ! i = row_sums [[1, 0], [0, 3], [5, 5]] ! i
          - (if others ''aab'' (row_sums [[1, 0], [0, 3], [5, 5]]) i = [] then 0
             else tmean (others ''aab'' (row_sums [[1, 0], [0, 3], [5, 5]]) i)))"
  by (rule rloo_leave_one_out) simp

lemma unique_inverse_bound:
  assumes "xs \<noteq> []" and "i \<in> set (unique_inverse xs)"
  shows "i < Suc (Max (set (unique_inverse xs)))"
  using assms by (simp add: le_imp_less_Suc)

lemma members_unique_inverse:
  assumes "length scores = length index" and "i < length index"
  shows "members (unique_inverse index) scores (unique_inverse index ! i) = members index scores (index ! i)"
  using assms by (intro members_cong_labels) (simp_all add: unique_inverse_eq_iff)

lemma members_const: "members ks (map (\<lambda>_. c) vs) k = map (\<lambda>_. c) (members ks vs k)"
  by (rule members_map)

lemma rloo_vectorized_nth:
  fixes index :: "'u::linorder list"
  assumes "length scores = length index" and "i < length scores"
  shows "rloo_vectorized_scores scores index ! i =
      (if others index scores i = [] then 0 else scores ! i - tmean (others index scores i))"
proof -
  let ?inv = "unique_inverse index"
  let ?G = "Suc (Max (set ?inv))"
  let ?m = "members index scores (index ! i)" and ?o = "others index scores i"
  have ne: "index \<noteq> []" using assms by auto
  have bound: "\<forall>j\<in>set ?inv. j < ?G"
    using unique_inverse_bound [OF ne] by blast
  have inv: "?inv ! i < ?G" and inv': "?inv ! i \<in> set ?inv"
    using bound assms by auto
  have len: "length ?m = Suc (length ?o)" and sum: "sum_list ?m = scores ! i + sum_list ?o"
    using assms length_others [of i scores index] sum_others [of i scores index] by simp_all
  have s: "index_add ?G ?inv scores ! (?inv ! i) = sum_list ?m"
    using index_add_nth [OF inv bound] assms members_unique_inverse [of scores index i] by simp
  have "members ?inv (map (\<lambda>_. 1) ?inv) (?inv ! i) = map (\<lambda>_. 1::real) (members ?inv ?inv (?inv ! i))"
    by (rule members_const)
  moreover have "length (members ?inv ?inv (?inv ! i)) = length (members ?inv scores (?inv ! i))"
    using assms by (simp add: length_members)
  ultimately have c: "index_add ?G ?inv (map (\<lambda>_. 1) ?inv) ! (?inv ! i) = real (Suc (length ?o))"
    using index_add_nth [OF inv bound, of "map (\<lambda>_. 1) ?inv"] assms members_unique_inverse [of scores index i] len
    by (simp add: sum_list_triv)
  have "rloo_vectorized_scores scores index ! i =
      (real (Suc (length ?o)) * scores ! i - sum_list ?m) / max (real (Suc (length ?o)) - 1) 1
        * (if 1 < real (Suc (length ?o)) then 1 else 0)"
    using assms s c by (simp add: rloo_vectorized_scores_def Let_def)
  also have "\<dots> = (if ?o = [] then 0 else scores ! i - tmean ?o)"
    by (cases "?o") (auto simp: sum tmean_def field_simps)
  finally show ?thesis .
qed

text \<open>when every prompt has at least two responses, the vectorized RLOO returns what the loop
  version returns.\<close>

theorem rloo_vectorized_agrees:
  fixes index :: "'u::linorder list"
  assumes "length token_level_rewards = length index"
    and "\<forall>i < length index. others index (row_sums token_level_rewards) i \<noteq> []"
  shows "compute_rloo_outcome_advantage token_level_rewards response_mask index
       = Inr (compute_rloo_vectorized_outcome_advantage token_level_rewards response_mask index)"
proof -
  let ?s = "row_sums token_level_rewards"
  obtain sc where res: "compute_rloo_outcome_advantage token_level_rewards response_mask index
        = Inr (bcast_mul sc response_mask, bcast_mul sc response_mask)"
    and sc: "length sc = length ?s"
      "\<forall>i < length ?s. sc ! i = ?s ! i - (if others index ?s i = [] then 0 else tmean (others index ?s i))"
    using assms rloo_scalars [of token_level_rewards index response_mask] by auto
  have "sc = rloo_vectorized_scores ?s index"
  proof (rule nth_equalityI)
    show "length sc = length (rloo_vectorized_scores ?s index)"
      using sc assms by (simp add: rloo_vectorized_scores_def Let_def)
  next
    fix i assume "i < length sc"
    then show "sc ! i = rloo_vectorized_scores ?s index ! i"
      using sc assms rloo_vectorized_nth [of ?s index i] by simp
  qed
  with res show ?thesis
    by (simp add: compute_rloo_vectorized_outcome_advantage_def Let_def)
qed

theorem rloo_vectorized_agrees_witness:
  "compute_rloo_outcome_advantage [[1, 0], [0, 3], [5, 5], [1, 1]] [[1, 1], [1, 1], [1, 0], [1, 1]] [7, 4, 7, 4 :: nat]
   = Inr (compute_rloo_vectorized_outcome_advantage [[1, 0], [0, 3], [5, 5], [1, 1]]
            [[1, 1], [1, 1], [1, 0], [1, 1]] [7, 4, 7, 4 :: nat])"
proof (rule rloo_vectorized_agrees)
  have "[0..<4] = [0, 1, 2, 3 :: nat]" by (simp add: upt_rec)
  then show "\<forall>i < length [7, 4, 7, 4 :: nat]. others [7, 4, 7, 4 :: nat]
      (row_sums [[1, 0], [0, 3], [5, 5], [1, 1]]) i \<noteq> []"
    by (simp add: others_def less_Suc_eq numeral_eq_Suc row_sums_def)
qed simp

text \<open>a prompt with one response is treated differently by the two versions: the loop keeps the
  score as the advantage, the vectorized version returns zero.\<close>

theorem rloo_singleton_divergence:
  "compute_rloo_outcome_advantage [[1, 2]] [[1, 1]] [0 :: nat] = Inr ([[3, 3]], [[3, 3]])
   \<and> compute_rloo_vectorized_outcome_advantage [[1, 2]] [[1, 1]] [0 :: nat] = ([[0, 0]], [[0, 0]])"
  by (simp add: compute_rloo_outcome_advantage_def rloo_scores_def row_sums_def with_index_def group_by_def
      by_group_size_def dict_get_def bcast_mul_def compute_rloo_vectorized_outcome_advantage_def
      rloo_vectorized_scores_def unique_inverse_def index_add_def Let_def)

text \<open>String labels that are not all integer literals are told apart by their canonical labels.\<close>

lemma as_torch_index_uids:
  assumes "s \<in> set uids" and "int64_of_str s = None"
  shows "as_torch_index (StrArray uids) = map int (unique_inverse uids)"
proof -
  have "\<not> (\<forall>s\<in>set uids. int64_of_str s \<noteq> None)" using assms by blast
  then show ?thesis by (simp only: as_torch_index_def labels.case if_False)
qed

text \<open>The statistics of \<open>group_mean_std\<close>, for labels that cover the scores.\<close>

lemma group_mean_std_nth:
  assumes "length g = length scores" and "k \<in> set g"
  obtains mean std c where "group_mean_std scores (map int g) 0 = Inr (mean, std, c)" and "mean \<noteq> []"
    and "\<And>k. k \<in> set g \<Longrightarrow> (mean ! k, std ! k) =
       (let xs = members g scores k in if length xs = 1 then (0, 1) else (tmean xs, tstd xs))"
proof -
  define G where "G = Suc (Max (set g))"
  define cnt where "cnt = index_add G g (map (\<lambda>_. 1) scores)"
  define mean where "mean = map2 (\<lambda>s c. s / max c 1) (index_add G g scores) cnt"
  define cen where "cen = map2 (\<lambda>s i. s - mean ! i) scores g"
  define var_num where "var_num = index_add G g (map (\<lambda>c. c * c) cen)"
  define std where "std = map (\<lambda>v. sqrt (max v 0)) (map2 (\<lambda>v c. v / max (c - 1) 1) var_num cnt)"
  define mean' where "mean' = map2 (\<lambda>m c. if c \<le> 1 then 0 else m) mean cnt"
  define std' where "std' = map2 (\<lambda>s c. if c \<le> 1 then 1 else s) std cnt"
  have bound: "\<forall>i\<in>set g. i < G"
    using assms(2) by (simp add: G_def le_imp_less_Suc)
  have ne: "g \<noteq> []" using assms(2) by auto
  have "int k \<le> Max (int ` set g)" using assms(2) by (intro Max_ge) auto
  then have top: "Max (int ` set g) \<noteq> - 1" "\<not> Max (int ` set g) < - 1" by linarith+
  have eq: "group_mean_std scores (map int g) 0 = Inr (mean', std', cnt)"
    using assms(1) ne top
    by (simp add: group_mean_std_def Let_def comp_def image_image mean'_def std'_def std_def var_num_def cen_def mean_def cnt_def G_def)
  have "(mean' ! k, std' ! k) =
       (let xs = members g scores k in if length xs = 1 then (0, 1) else (tmean xs, tstd xs))"
    if k: "k \<in> set g" for k
  proof -
    let ?xs = "members g scores k"
    have kG: "k < G" using bound k by blast
    have xs: "?xs \<noteq> []" using members_empty_iff [OF assms(1)] k by simp
    have cnt_k: "cnt ! k = real (length ?xs)"
      using index_add_nth [OF kG bound, of "map (\<lambda>_. 1) scores"] assms(1)
      by (simp add: cnt_def members_map sum_list_triv)
    have len: "length cnt = G" "length mean = G" "length std = G" "length var_num = G"
      by (simp_all add: cnt_def mean_def std_def var_num_def)
    have mean_k: "mean ! k = tmean ?xs"
    proof -
      have "max (real (length ?xs)) 1 = real (length ?xs)" using xs by (cases ?xs) auto
      then show ?thesis
        using kG len cnt_k index_add_nth [OF kG bound assms(1)] by (simp add: mean_def tmean_def)
    qed
    have "members g cen k = map (\<lambda>s. s - mean ! k) ?xs"
      unfolding cen_def using assms(1) by (induction g scores rule: list_induct2) auto
    then have vn: "var_num ! k = sum_list (map (\<lambda>x. (x - tmean ?xs)\<^sup>2) ?xs)"
      using index_add_nth [OF kG bound, of "map (\<lambda>c. c * c) cen"] assms(1)
      by (simp add: var_num_def members_map comp_def mean_k power2_eq_square cen_def [THEN arg_cong [where f = length]])
    show ?thesis
    proof (cases "length ?xs = 1")
      case True
      then show ?thesis using kG len cnt_k by (simp add: mean'_def std'_def)
    next
      case False
      with xs have n: "2 \<le> length ?xs" by (cases ?xs; cases "tl ?xs") auto
      then have d: "max (real (length ?xs) - 1) 1 = real (length ?xs) - 1" by simp
      have "0 \<le> sum_list (map (\<lambda>x. (x - tmean ?xs)\<^sup>2) ?xs) / (real (length ?xs) - 1)"
        using n by (intro divide_nonneg_nonneg sum_list_nonneg) auto
      then have "std ! k = tstd ?xs"
        unfolding std_def tstd_def using kG len cnt_k vn d by (simp add: max_absorb1)
      then show ?thesis
        using False n kG len cnt_k mean_k by (simp add: mean'_def std'_def Let_def)
    qed
  qed
  moreover have "mean' \<noteq> []"
  proof -
    have "length mean' = G" by (simp add: mean'_def mean_def cnt_def)
    then show ?thesis by (auto simp: G_def)
  qed
  ultimately show thesis using eq that by blast
qed

text \<open>C9: on string uids the vectorized GRPO returns what the loop version returns, provided some uid is
  not an integer literal (uids are UUID strings in the trainer).\<close>

theorem grpo_vectorized_agrees:
  assumes "length token_level_rewards = length uids" and "s \<in> set uids" and "int64_of_str s = None"
  shows "compute_grpo_vectorized_outcome_advantage token_level_rewards response_mask (StrArray uids) epsilon by_std
       = compute_grpo_outcome_advantage token_level_rewards response_mask uids epsilon by_std"
proof -
  let ?s = "row_sums token_level_rewards" and ?g = "unique_inverse uids"
  have len: "length ?g = length ?s" using assms(1) by simp
  have "?g \<noteq> []" using assms(2) by (metis length_0_conv length_unique_inverse length_pos_if_in_set less_numeral_extra(3))
  then obtain k where k: "k \<in> set ?g" by (metis last_in_set)
  obtain mean std c where st: "group_mean_std ?s (map int ?g) 0 = Inr (mean, std, c)" and ne: "mean \<noteq> []"
    and stk: "\<And>k. k \<in> set ?g \<Longrightarrow> (mean ! k, std ! k) =
       (let xs = members ?g ?s k in if length xs = 1 then (0, 1) else (tmean xs, tstd xs))"
    using group_mean_std_nth [OF len k] by metis
  let ?v = "map2 (\<lambda>score i. if by_std then (score - mean ! nat i) / (std ! nat i + epsilon)
                 else score - mean ! nat i) ?s (map int ?g)"
  have "grpo_scores ?s uids epsilon by_std = Inr ?v"
  proof -
    have "?v ! i = (case group_stat (0, 1) (\<lambda>xs. (tmean xs, tstd xs)) uids ?s (uids ! i) of (mean, std) \<Rightarrow>
              if by_std then (?s ! i - mean) / (std + epsilon) else ?s ! i - mean)"
      if i: "i < length ?s" for i
    proof -
      have "?g ! i \<in> set ?g" using i len by simp
      then have "(mean ! (?g ! i), std ! (?g ! i)) = group_stat (0, 1) (\<lambda>xs. (tmean xs, tstd xs)) uids ?s (uids ! i)"
        using stk [of "?g ! i"] members_unique_inverse [of ?s uids i] i assms(1)
        by (simp add: group_stat_def)
      then show ?thesis using i len by (simp flip: \<open>(mean ! (?g ! i), std ! (?g ! i)) = _\<close>)
    qed
    then show ?thesis
      using len assms(1) by (simp add: grpo_scores_eq list_eq_iff_nth_eq)
  qed
  then show ?thesis
    using st ne as_torch_index_uids [OF assms(2,3)]
    by (simp add: compute_grpo_vectorized_outcome_advantage_def compute_grpo_outcome_advantage_def Let_def)
qed

theorem grpo_vectorized_agrees_witness:
  "compute_grpo_vectorized_outcome_advantage [[1, 0], [0, 3]] [[1, 1], [1, 1]] (StrArray [''u7'', ''u7'']) 0 True
   = compute_grpo_outcome_advantage [[1, 0], [0, 3]] [[1, 1], [1, 1]] [''u7'', ''u7''] 0 True"
  by (rule grpo_vectorized_agrees [of _ _ "''u7''"])
    (simp_all add: int64_of_str_def int_of_str_def strip_def is_space_def is_digit_def of_char_def)

text \<open>float labels are rounded when all of them are near integers, and truncated otherwise: the labels
  \<open>0.2\<close> and \<open>0.7\<close> fall into one group, and so do the strings \<open>7\<close> and \<open>07\<close>.\<close>

theorem as_torch_index_merges_labels:
  "as_torch_index (FloatArray [1 / 5, 7 / 10]) = [0, 0]
   \<and> as_torch_index (StrArray [''7'', ''07'']) = [7, 7]"
  by code_simp

section \<open>OPO\<close>

lemma sum_weighted_deviation:
  assumes "length lens = length xs" and "sum_list lens \<noteq> 0"
  shows "sum_list (map2 (*) lens (map (\<lambda>x. x - weighted_mean lens xs) xs)) = 0"
proof -
  have "sum_list (map2 (*) lens (map (\<lambda>x. x - b) xs)) = sum_list (map2 (*) lens xs) - sum_list lens * b" for b
    using assms(1) by (induction lens xs rule: list_induct2) (auto simp: algebra_simps)
  then show ?thesis using assms(2) by (simp add: weighted_mean_def)
qed

text \<open>the OPO baseline is the length-weighted mean: the advantages of the responses of one prompt,
  weighted with the response lengths, sum to zero.\<close>

theorem opo_weighted_zero_sum:
  assumes "length token_level_rewards \<le> length index"
    and "length response_mask = length token_level_rewards"
  shows "\<exists>scalars. compute_opo_outcome_advantage token_level_rewards response_mask index
           = Inr (bcast_mul scalars response_mask, bcast_mul scalars response_mask)
       \<and> length scalars = length token_level_rewards
       \<and> (\<forall>u. 2 \<le> length (members index scalars u)
              \<and> sum_list (members index (row_sums response_mask) u) \<noteq> 0
            \<longrightarrow> sum_list (map2 (*) (members index (row_sums response_mask) u) (members index scalars u)) = 0)"
proof -
  let ?s = "row_sums token_level_rewards" and ?l = "row_sums response_mask"
  define f where "f u s = s - (if length (members index ?s u) = 1 then 0
       else weighted_mean (members index ?l u) (members index ?s u))" for u s
  let ?sc = "map2 f index ?s"
  have res: "opo_scores ?l ?s index = Inr ?sc"
    using assms opo_scores_eq [of ?s index ?l] by (simp add: f_def)
  have "sum_list (map2 (*) (members index ?l u) (members index ?sc u)) = 0"
    if "2 \<le> length (members index ?sc u)" and "sum_list (members index ?l u) \<noteq> 0" for u
  proof -
    have "length (members index ?s u) \<noteq> 1" using that(1) by (simp add: members_map2_any)
    then have "f u = (\<lambda>s. s - weighted_mean (members index ?l u) (members index ?s u))"
      by (intro ext) (simp add: f_def)
    moreover have "length (members index ?l u) = length (members index ?s u)"
      using assms by (simp add: members_nth)
    ultimately show ?thesis
      using sum_weighted_deviation [OF _ that(2)] by (simp only: members_map2_any)
  qed
  then show ?thesis
    using assms by (intro exI [of _ ?sc]) (simp add: compute_opo_outcome_advantage_def res Let_def)
qed

theorem opo_weighted_zero_sum_witness:
  "\<exists>scalars. compute_opo_outcome_advantage [[1, 0], [0, 3], [5, 5]] [[1, 1], [1, 1], [1, 0]] ''aab''
     = Inr (bcast_mul scalars [[1, 1], [1, 1], [1, 0]], bcast_mul scalars [[1, 1], [1, 1], [1, 0]])
   \<and> length scalars = length [[1, 0], [0, 3], [5, 5 :: real]]
   \<and> (\<forall>u. 2 \<le> length (members ''aab'' scalars u)
          \<and> sum_list (members ''aab'' (row_sums [[1, 1], [1, 1], [1, 0]]) u) \<noteq> 0
        \<longrightarrow> sum_list (map2 (*) (members ''aab'' (row_sums [[1, 1], [1, 1], [1, 0]]) u) (members ''aab'' scalars u)) = 0)"
  by (rule opo_weighted_zero_sum) simp_all

section \<open>Pass@k\<close>

text \<open>What \<open>torch.topk(rewards, 2)\<close> promises: two positions that hold the two largest values.\<close>

definition topk_spec :: "(vec \<Rightarrow> nat \<times> nat) \<Rightarrow> bool" where
  "topk_spec topk \<longleftrightarrow> (\<forall>xs. 2 \<le> length xs \<longrightarrow>
     (case topk xs of (i, j) \<Rightarrow> i < length xs \<and> j < length xs \<and> i \<noteq> j \<and> xs ! j \<le> xs ! i
        \<and> (\<forall>m < length xs. m \<noteq> i \<longrightarrow> xs ! m \<le> xs ! j)))"

lemma passk_group_Inr:
  assumes "topk_spec topk" and "0 \<le> epsilon"
    and "passk_group topk by_std epsilon rewards indices advantages = Inr advantages'"
  obtains i c where "i < length rewards" and "advantages' = advantages[indices ! i := c]" and "0 \<le> c"
    and "\<And>m. m < length rewards \<Longrightarrow> rewards ! m \<le> rewards ! i"
proof -
  obtain i j where ij: "topk rewards = (i, j)" by (cases "topk rewards")
  have n: "2 \<le> length rewards"
    using assms(3) by (auto simp: passk_group_def not_less split: if_splits)
  have spec: "i < length rewards" "rewards ! j \<le> rewards ! i"
     "\<And>m. m < length rewards \<Longrightarrow> m \<noteq> i \<Longrightarrow> rewards ! m \<le> rewards ! j"
    using assms(1) n ij unfolding topk_spec_def by fastforce+
  let ?c = "if by_std then (rewards ! i - rewards ! j) / (tstd rewards + epsilon) else rewards ! i - rewards ! j"
  have "advantages' = advantages[indices ! i := ?c]"
    using assms(3) n ij by (auto simp: passk_group_def Let_def)
  moreover have "0 \<le> ?c"
    using spec(2) assms(2) tstd_nonneg [OF n] by auto
  moreover have "rewards ! m \<le> rewards ! i" if "m < length rewards" for m
    using spec(2) spec(3) [OF that] by fastforce
  ultimately show thesis using that spec(1) by blast
qed

lemma members_upt_nth:
  assumes "length ks = n" and "i < length (members ks [0..<n] k)"
  shows "ks ! (members ks [0..<n] k ! i) = k \<and> members ks [0..<n] k ! i < n"
proof -
  have "members ks [0..<n] k ! i \<in> set (members ks [0..<n] k)"
    using assms(2) by (rule nth_mem)
  then show ?thesis
    using assms(1) by (auto simp: members_nth)
qed

lemma members_upt_map:
  "length vs \<le> length ks \<Longrightarrow> members ks vs k = map ((!) vs) (members ks [0..<length vs] k)"
  by (simp add: members_nth comp_def cong: map_cong)

text \<open>The loop over the groups: every position it sets belongs to a group processed so far, holds a
  best response of that group, and the value is not negative.\<close>

definition passk_inv :: "'u list \<Rightarrow> vec \<Rightarrow> 'u set \<Rightarrow> vec \<Rightarrow> bool" where
  "passk_inv labels scores finished advantages \<longleftrightarrow>
     length advantages = length scores
     \<and> (\<forall>i < length scores. 0 \<le> advantages ! i)
     \<and> (\<forall>i < length scores. advantages ! i \<noteq> 0 \<longrightarrow> labels ! i \<in> finished
          \<and> (\<forall>j < length scores. labels ! j = labels ! i \<longrightarrow> scores ! j \<le> scores ! i))
     \<and> (\<forall>i < length scores. \<forall>j < length scores. labels ! i = labels ! j
          \<longrightarrow> advantages ! i \<noteq> 0 \<longrightarrow> advantages ! j \<noteq> 0 \<longrightarrow> i = j)"

lemma passk_inv_step:
  assumes inv: "passk_inv labels scores finished advantages" and "u \<notin> finished"
    and "length labels = length scores" and "topk_spec topk" and "0 \<le> epsilon"
    and "passk_group topk by_std epsilon (members labels scores u)
           (members labels [0..<length scores] u) advantages = Inr advantages'"
  shows "passk_inv labels scores (insert u finished) advantages'"
proof -
  let ?ix = "members labels [0..<length scores] u"
  obtain i c where i: "i < length (members labels scores u)" and upd: "advantages' = advantages[?ix ! i := c]"
    and c: "0 \<le> c"
    and best: "\<And>m. m < length (members labels scores u) \<Longrightarrow> members labels scores u ! m \<le> members labels scores u ! i"
    using passk_group_Inr [OF assms(4,5,6)] by metis
  have ms: "members labels scores u = map ((!) scores) ?ix"
    using assms(3) by (intro members_upt_map) simp
  define p where "p = ?ix ! i"
  have p: "labels ! p = u" "p < length scores"
    using members_upt_nth [of labels "length scores" i u] assms(3) i ms by (simp_all add: p_def)
  have ix: "set ?ix = {j. j < length scores \<and> labels ! j = u}"
    using assms(3) by (auto simp: members_nth)
  have pbest: "scores ! j \<le> scores ! p" if "j < length scores" "labels ! j = u" for j
  proof -
    have "j \<in> set ?ix" using that ix by simp
    then obtain m where "m < length ?ix" "?ix ! m = j" by (auto simp: in_set_conv_nth)
    then show ?thesis using best [of m] ms i by (simp add: p_def)
  qed
  have upd': "advantages' ! j = (if j = p then c else advantages ! j)" if "j < length scores" for j
    using that p inv by (simp add: upd passk_inv_def flip: p_def)
  have len': "length advantages' = length scores"
    using inv upd by (simp add: passk_inv_def)
  have old: "advantages ! j = 0" if "j < length scores" "labels ! j = u" for j
    using that inv assms(2) unfolding passk_inv_def by blast
  show ?thesis
    unfolding passk_inv_def
  proof (intro conjI allI impI)
    fix j assume j: "j < length scores"
    show "0 \<le> advantages' ! j"
      using j c inv by (simp add: upd' passk_inv_def)
    assume nz: "advantages' ! j \<noteq> 0"
    show "labels ! j \<in> insert u finished"
      using nz j p inv by (auto simp: upd' passk_inv_def split: if_splits)
    fix k assume k: "k < length scores"
    { assume "labels ! k = labels ! j"
      then show "scores ! k \<le> scores ! j"
        using nz j k p pbest inv by (cases "j = p") (simp_all add: upd' passk_inv_def) }
    { assume same: "labels ! j = labels ! k" and nz': "advantages' ! k \<noteq> 0"
      show "j = k"
      proof (cases "j = p \<or> k = p")
        case True
        then have "labels ! j = u" "labels ! k = u" using same p by auto
        then show ?thesis
          using nz nz' j k old [of j] old [of k] by (auto simp: upd' split: if_splits)
      next
        case False
        then have "advantages ! j \<noteq> 0" "advantages ! k \<noteq> 0"
          using nz nz' j k by (simp_all add: upd')
        then show ?thesis using inv j k same unfolding passk_inv_def by blast
      qed }
  qed (simp add: len')
qed

lemma dict_get_indices:
  assumes "length labels = length scores" and "(u, rewards) \<in> set (group_by labels scores)"
  shows "dict_get (group_by labels [0..<length scores]) u = Inr (members labels [0..<length scores] u)
       \<and> rewards = members labels scores u"
  using group_by_entry [OF assms] assms(1) by (simp add: dict_get_def map_of_group_by)

lemma passk_loop:
  assumes "passk_inv labels scores finished advantages" and "set d \<subseteq> set (group_by labels scores)"
    and "distinct (map fst d)" and "fst ` set d \<inter> finished = {}"
    and "length labels = length scores" and "topk_spec topk" and "0 \<le> epsilon"
    and "for_each (\<lambda>(idx, rewards) advantages. rbind (dict_get (group_by labels [0..<length scores]) idx)
           (\<lambda>indices. passk_group topk by_std epsilon rewards indices advantages)) d advantages = Inr result"
  shows "passk_inv labels scores (finished \<union> fst ` set d) result"
  using assms(1-4,8)
proof (induction d arbitrary: finished advantages)
  case (Cons p d)
  obtain u rewards where p: "p = (u, rewards)" by (cases p)
  have mem: "dict_get (group_by labels [0..<length scores]) u = Inr (members labels [0..<length scores] u)"
      "rewards = members labels scores u"
    using Cons.prems(2) dict_get_indices [OF assms(5), of u rewards] by (simp_all add: p)
  obtain advantages' where step: "passk_group topk by_std epsilon (members labels scores u)
        (members labels [0..<length scores] u) advantages = Inr advantages'"
    and rest: "for_each (\<lambda>(idx, rewards) advantages. rbind (dict_get (group_by labels [0..<length scores]) idx)
           (\<lambda>indices. passk_group topk by_std epsilon rewards indices advantages)) d advantages' = Inr result"
    using Cons.prems(5) mem by (auto simp: p rbind_eq_Inr)
  have "u \<notin> finished" using Cons.prems(4) by (simp add: p)
  then have "passk_inv labels scores (insert u finished) advantages'"
    using passk_inv_step [OF Cons.prems(1) _ assms(5-7) step] by simp
  moreover have "fst ` set d \<inter> insert u finished = {}"
    using Cons.prems(3,4) by (auto simp: p)
  ultimately show ?case
    using Cons.IH [of "insert u finished" advantages'] Cons.prems(2,3) rest by (simp add: p)
qed simp

text \<open>with Pass@k advantages are never negative, and per prompt at most one response, one with the
  best score, has a non-zero advantage.\<close>

theorem passk_only_best:
  assumes "topk_spec topk" and "0 \<le> epsilon"
    and "passk_scores topk scores index epsilon by_std = Inr scalars"
  shows "length scalars = length scores \<and> (\<forall>i < length scores. 0 \<le> scalars ! i)
    \<and> (\<forall>i < length scores. scalars ! i \<noteq> 0 \<longrightarrow>
         (\<forall>j < length scores. index ! j = index ! i \<longrightarrow> scores ! j \<le> scores ! i
             \<and> (scalars ! j \<noteq> 0 \<longrightarrow> j = i)))"
proof -
  let ?ls = "take (length scores) index"
  have len: "length scores \<le> length index"
    using assms(3) by (auto simp: passk_scores_def with_index_def not_less split: if_splits)
  have start: "passk_inv ?ls scores {} (map (\<lambda>_. 0) scores)"
    by (simp add: passk_inv_def)
  have run: "for_each (\<lambda>(idx, rewards) advantages. rbind (dict_get (group_by ?ls [0..<length scores]) idx)
           (\<lambda>indices. passk_group topk by_std epsilon rewards indices advantages)) (group_by ?ls scores)
           (map (\<lambda>_. 0) scores) = Inr scalars"
    using assms(3) len by (simp add: passk_scores_def Let_def)
  have "passk_inv ?ls scores ({} \<union> fst ` set (group_by ?ls scores)) scalars"
    by (rule passk_loop [OF start subset_refl distinct_group_by _ _ assms(1,2) run]) (use len in auto)
  then show ?thesis
    unfolding passk_inv_def by auto
qed


text \<open>A choice by sorting, as an instance of the contract.\<close>

definition sort_topk :: "vec \<Rightarrow> nat \<times> nat" where
  "sort_topk xs =
     (let order = sort_key ((!) xs) [0..<length xs]
      in (order ! (length xs - 1), order ! (length xs - 2)))"

lemma topk_spec_sort: "topk_spec sort_topk"
proof -
  have "i < length xs \<and> j < length xs \<and> i \<noteq> j \<and> xs ! j \<le> xs ! i
      \<and> (\<forall>m < length xs. m \<noteq> i \<longrightarrow> xs ! m \<le> xs ! j)"
    if n: "2 \<le> length xs" and ij: "sort_topk xs = (i, j)" for xs :: vec and i j
  proof -
    define order where "order = sort_key ((!) xs) [0..<length xs]"
    have len: "length order = length xs" and dist: "distinct order" and set: "set order = {0..<length xs}"
      by (simp_all add: order_def)
    have sorted: "sorted (map ((!) xs) order)"
      by (simp add: order_def)
    have i: "i = order ! (length xs - 1)" and j: "j = order ! (length xs - 2)"
      using ij by (simp_all add: sort_topk_def order_def Let_def)
    have mono: "xs ! (order ! a) \<le> xs ! (order ! b)" if "a \<le> b" "b < length xs" for a b
      using sorted_nth_mono [OF sorted, of a b] that len by simp
    have "xs ! m \<le> xs ! j" if m: "m < length xs" "m \<noteq> i" for m
    proof -
      obtain a where a: "a < length order" "order ! a = m"
        using m(1) set by (metis atLeastLessThan_iff in_set_conv_nth le0)
      with m(2) i have "a \<noteq> length xs - 1" by auto
      with a len have "a \<le> length xs - 2" by simp
      then show ?thesis using mono [of a "length xs - 2"] a n j by simp
    qed
    moreover have "i \<noteq> j"
      using dist n len by (simp add: i j nth_eq_iff_index_eq)
    moreover have "i < length xs" "j < length xs"
      using set len n nth_mem [of "length xs - 1" order] nth_mem [of "length xs - 2" order] by (auto simp: i j)
    moreover have "xs ! j \<le> xs ! i"
      using mono [of "length xs - 2" "length xs - 1"] n by (simp add: i j)
    ultimately show ?thesis by blast
  qed
  then show ?thesis by (auto simp: topk_spec_def)
qed

theorem passk_only_best_witness:
  "0 \<le> [0, 2, 0, 1 :: real] ! 3 \<and> [1, 3, 5, 6 :: real] ! 2 \<le> [1, 3, 5, 6] ! 3"
proof -
  have "[0..<4] = [0, 1, 2, 3 :: nat]" "[0..<2] = [0, 1 :: nat]" by (simp_all add: upt_rec)
  then have "passk_scores sort_topk [1, 3, 5, 6] ''aabb'' 0 False = Inr [0, 2, 0, 1]"
    by (simp add: passk_scores_def group_by_def dict_get_def passk_group_def sort_topk_def Let_def)
  from passk_only_best [OF topk_spec_sort order_refl this] show ?thesis
    by (simp add: All_less_Suc numeral_eq_Suc)
qed

end
