(* ===== verification/TokenReturns.thy ===== *)
theory TokenReturns
  imports GroupBaselines
begin

text \<open>
  What the token-level estimators compute: GAE, REINFORCE++ and ReMax in closed form.
\<close>

section \<open>Discounted sums\<close>

definition dsum :: "real \<Rightarrow> vec \<Rightarrow> real" where
  "dsum c xs = (\<Sum>k<length xs. c ^ k * xs ! k)"

definition discounted :: "real \<Rightarrow> vec \<Rightarrow> vec" where
  "discounted c xs = map (\<lambda>t. dsum c (drop t xs)) [0..<length xs]"

text \<open>The entries of \<open>xs\<close> at the valid tokens.\<close>

definition keep :: "vec \<Rightarrow> 'a list \<Rightarrow> 'a list" where
  "keep ms xs = map fst (filter (\<lambda>(x, m). m \<noteq> 0) (zip xs ms))"

text \<open>The temporal-difference errors \<open>r + gamma * next value - v\<close>, the value after the last token
  being zero.\<close>

fun td_errors :: "real \<Rightarrow> (real \<times> real) list \<Rightarrow> vec" where
  "td_errors gamma [] = []"
| "td_errors gamma ((r, v) # later) =
     (r + gamma * (case later of [] \<Rightarrow> 0 | (_, v') # _ \<Rightarrow> v') - v) # td_errors gamma later"

lemma dsum_Nil [simp]: "dsum c [] = 0"
  by (simp add: dsum_def)

lemma dsum_Cons [simp]: "dsum c (x # xs) = x + c * dsum c xs"
  by (simp add: dsum_def sum.lessThan_Suc_shift sum_distrib_left mult.assoc del: sum.lessThan_Suc)

lemma discounted_Nil [simp]: "discounted c [] = []"
  by (simp add: discounted_def)

lemma discounted_Cons [simp]: "discounted c (x # xs) = dsum c (x # xs) # discounted c xs"
proof -
  have "[0..<length (x # xs)] = 0 # map Suc [0..<length xs]"
    by (simp add: map_Suc_upt upt_conv_Cons del: upt_Suc)
  then show ?thesis by (simp add: discounted_def comp_def)
qed

lemma keep_Nil [simp]: "keep ms [] = []" "keep [] xs = []"
  by (simp_all add: keep_def)

lemma keep_Cons [simp]: "keep (m # ms) (x # xs) = (if m \<noteq> 0 then x # keep ms xs else keep ms xs)"
  by (simp add: keep_def)

lemma length_td_errors [simp]: "length (td_errors gamma xs) = length xs"
  by (induction xs rule: td_errors.induct) auto

text \<open>The loop on a row with a 0/1 mask: the carried values are those of the valid tokens only.\<close>

lemma gae_row_valid:
  assumes "length vs = length rs" and "length ms = length rs" and "set ms \<subseteq> {0, 1}"
  shows "\<exists>nv advs. gae_row gamma lam (row_tokens rs vs ms)
       = (nv, dsum (gamma * lam) (td_errors gamma (zip (keep ms rs) (keep ms vs))), advs)
    \<and> nv = (case keep ms vs of [] \<Rightarrow> 0 | v # _ \<Rightarrow> v)
    \<and> length advs = length rs
    \<and> keep ms advs = discounted (gamma * lam) (td_errors gamma (zip (keep ms rs) (keep ms vs)))
    \<and> length (keep ms rs) = length (keep ms vs)"
  using assms
proof (induction rs arbitrary: vs ms)
  case (Cons r rs)
  obtain v vs' where vs: "vs = v # vs'" using Cons.prems(1) by (cases vs) auto
  obtain m ms' where ms: "ms = m # ms'" using Cons.prems(2) by (cases ms) auto
  obtain advs where row: "gae_row gamma lam (row_tokens rs vs' ms')
       = (case keep ms' vs' of [] \<Rightarrow> 0 | v # _ \<Rightarrow> v,
          dsum (gamma * lam) (td_errors gamma (zip (keep ms' rs) (keep ms' vs'))), advs)"
    and IH: "length advs = length rs"
      "keep ms' advs = discounted (gamma * lam) (td_errors gamma (zip (keep ms' rs) (keep ms' vs')))"
      "length (keep ms' rs) = length (keep ms' vs')"
    using Cons.IH [of vs' ms'] Cons.prems vs ms by auto
  have "m = 0 \<or> m = 1" using Cons.prems(3) ms by auto
  then show ?case
  proof
    assume "m = 0"
    then show ?thesis using row IH by (simp add: row_tokens_def vs ms)
  next
    assume "m = 1"
    then show ?thesis
      using row IH
      by (cases "keep ms' rs"; cases "keep ms' vs'") (simp_all add: row_tokens_def vs ms Let_def mult.assoc)
  qed
qed (simp add: row_tokens_def)

lemma compute_gae_returns:
  assumes "compute_gae_advantage_return rewards vals msk gamma lam = Inr (adv, ret)"
    and "i < length rewards" and "length vals = length rewards" and "length msk = length rewards"
  shows "ret ! i = map2 (+) (snd (snd (gae_row gamma lam (row_tokens (rewards ! i) (vals ! i) (msk ! i))))) (vals ! i)"
  using assms by (auto simp: compute_gae_advantage_return_def rbind_eq_Inr mzip_def gae_advantages_def Let_def)

lemma keep_map2_add: "length xs = length ys \<Longrightarrow> length ys = length ms \<Longrightarrow>
    keep ms (map2 (+) xs ys) = map2 (+) (keep ms xs) (keep ms ys)"
proof (induction xs ys arbitrary: ms rule: list_induct2)
  case (Cons x xs y ys)
  then show ?case by (cases ms) auto
qed simp

text \<open>C14: GAE skips observation tokens. With rewards, values and a 0/1 mask of the same shape, on the valid tokens the
  return is the value plus the \<open>gamma * lam\<close>-discounted sum of the later temporal-difference errors, computed as
  if the tokens with mask 0 were not there.\<close>

theorem gae_skips_observations:
  assumes "compute_gae_advantage_return rewards vals msk gamma lam = Inr (adv, ret)"
    and "i < length rewards" and "length vals = length rewards" and "length msk = length rewards"
    and "length (vals ! i) = length (rewards ! i)" and "length (msk ! i) = length (rewards ! i)"
    and "set (msk ! i) \<subseteq> {0, 1}"
  shows "keep (msk ! i) (ret ! i)
       = map2 (+) (discounted (gamma * lam)
             (td_errors gamma (zip (keep (msk ! i) (rewards ! i)) (keep (msk ! i) (vals ! i)))))
           (keep (msk ! i) (vals ! i))"
proof -
  let ?r = "rewards ! i" and ?v = "vals ! i" and ?m = "msk ! i"
  obtain nv lg advs where row: "gae_row gamma lam (row_tokens ?r ?v ?m) = (nv, lg, advs)"
    and "length advs = length ?r"
    and "keep ?m advs = discounted (gamma * lam) (td_errors gamma (zip (keep ?m ?r) (keep ?m ?v)))"
    using gae_row_valid [OF assms(5-7)] by blast
  then show ?thesis
    using compute_gae_returns [OF assms(1-4)] assms(5,6) by (simp add: keep_map2_add)
qed

lemma td_telescope:
  "length rs = length vs \<Longrightarrow>
     dsum gamma (td_errors gamma (zip rs vs)) = dsum gamma rs - (case vs of [] \<Rightarrow> 0 | v # _ \<Rightarrow> v)"
proof (induction rs vs rule: list_induct2)
  case (Cons r rs v vs)
  then show ?case by (cases rs; cases vs) (auto simp: algebra_simps)
qed simp

lemma discounted_td:
  "length rs = length vs \<Longrightarrow>
     map2 (+) (discounted gamma (td_errors gamma (zip rs vs))) vs = discounted gamma rs"
proof (induction rs vs rule: list_induct2)
  case (Cons r rs v vs)
  then show ?case
    using td_telescope [of "r # rs" "v # vs" gamma] by simp
qed simp

lemma length_keep: "length xs = length ys \<Longrightarrow> length (keep ms xs) = length (keep ms ys)"
proof (induction xs ys arbitrary: ms rule: list_induct2)
  case (Cons x xs y ys)
  then show ?case by (cases ms) auto
qed simp

text \<open>with \<open>lam = 1\<close> the values cancel: the return of a valid token is the discounted sum of the
  rewards of the valid tokens from it on.\<close>

theorem gae_monte_carlo:
  assumes "compute_gae_advantage_return rewards vals msk gamma 1 = Inr (adv, ret)"
    and "i < length rewards" and "length vals = length rewards" and "length msk = length rewards"
    and "length (vals ! i) = length (rewards ! i)" and "length (msk ! i) = length (rewards ! i)"
    and "set (msk ! i) \<subseteq> {0, 1}"
  shows "keep (msk ! i) (ret ! i) = discounted gamma (keep (msk ! i) (rewards ! i))"
proof -
  let ?r = "rewards ! i" and ?v = "vals ! i" and ?m = "msk ! i"
  obtain nv lg advs where "gae_row gamma 1 (row_tokens ?r ?v ?m) = (nv, lg, advs)"
    and "length advs = length ?r"
    and "keep ?m advs = discounted (gamma * 1) (td_errors gamma (zip (keep ?m ?r) (keep ?m ?v)))"
    using gae_row_valid [OF assms(5-7)] by blast
  then show ?thesis
    using compute_gae_returns [OF assms(1-4)] assms(5,6) length_keep [OF assms(5), of ?m]
    by (simp add: keep_map2_add discounted_td)
qed

lemma demo_gae:
  "\<exists>adv. compute_gae_advantage_return [[1, 5, 2]] [[3, 4, 1]] [[1, 0, 1]] (1 / 2) 1
      = Inr (adv, [[2, 5, 2]])"
  by (simp add: compute_gae_advantage_return_def gae_advantages_def row_tokens_def mzip_def masked_whiten_def
      masked_var_def Let_def)

theorem gae_skips_observations_witness:
  "keep ([[1, 0, 1]] ! 0) ([[2, 5, 2 :: real]] ! 0)
     = map2 (+) (discounted (1 / 2 * 1)
             (td_errors (1 / 2) (zip (keep ([[1, 0, 1]] ! 0) ([[1, 5, 2]] ! 0)) (keep ([[1, 0, 1]] ! 0) ([[3, 4, 1]] ! 0)))))
           (keep ([[1, 0, 1]] ! 0) ([[3, 4, 1]] ! 0))"
  using demo_gae gae_skips_observations [of "[[1, 5, 2]]" "[[3, 4, 1]]" "[[1, 0, 1]]" "1 / 2" 1 _ "[[2, 5, 2]]" 0]
  by force

theorem gae_monte_carlo_witness:
  "keep ([[1, 0, 1]] ! 0) ([[2, 5, 2 :: real]] ! 0)
     = discounted (1 / 2) (keep ([[1, 0, 1]] ! 0) ([[1, 5, 2]] ! 0))"
  using demo_gae gae_monte_carlo [of "[[1, 5, 2]]" "[[3, 4, 1]]" "[[1, 0, 1]]" "1 / 2" _ "[[2, 5, 2]]" 0]
  by force

section \<open>REINFORCE++ and ReMax\<close>

lemma rfpp_row_append:
  "\<exists>early. length early = length pre \<and> snd (rfpp_row gamma (pre @ rest)) = early @ snd (rfpp_row gamma rest)"
proof (induction pre)
  case (Cons p pre)
  then obtain early where "length early = length pre"
    and "snd (rfpp_row gamma (pre @ rest)) = early @ snd (rfpp_row gamma rest)" by blast
  then show ?case
    by (cases p; cases "rfpp_row gamma (pre @ rest)") (auto simp: Let_def intro: exI [of _ "_ # early"])
qed simp

lemma rfpp_row_run:
  assumes "post = [] \<or> snd (hd post) = 0"
  shows "rfpp_row gamma (map (\<lambda>r. (r, 1)) seg @ post)
       = (dsum gamma seg, discounted gamma seg @ snd (rfpp_row gamma post))"
proof (induction seg)
  case Nil
  have "fst (rfpp_row gamma post) = 0"
    using assms by (cases post) (auto simp: Let_def split: prod.splits)
  then show ?case by (cases "rfpp_row gamma post") simp
qed (simp add: Let_def)

text \<open>REINFORCE++ returns are discounted sums over the run of valid tokens a token belongs to: the
  reward after the next token with mask 0 (the end of the response, or an observation) does not
  reach the tokens before it.\<close>

theorem rfpp_returns_of_run:
  assumes "compute_reinforce_plus_plus_outcome_advantage rewards msk gamma = Inr (adv, ret)"
    and "i < length rewards" and "length msk = length rewards"
    and "rewards ! i = pre @ seg @ post" and "msk ! i = pre_mask @ replicate (length seg) 1 @ post_mask"
    and "length pre_mask = length pre" and "length post_mask = length post"
    and "post_mask = [] \<or> hd post_mask = 0"
  shows "take (length seg) (drop (length pre) (ret ! i)) = discounted gamma seg"
proof -
  have ret: "ret ! i = snd (rfpp_row gamma (zip (rewards ! i) (msk ! i)))"
    using assms(1-3)
    by (auto simp: compute_reinforce_plus_plus_outcome_advantage_def rbind_eq_Inr rfpp_returns_def Let_def)
  have seg: "zip seg (replicate (length seg) 1) = map (\<lambda>r. (r, 1 :: real)) seg"
    by (induction seg) auto
  have "zip (rewards ! i) (msk ! i) = zip pre pre_mask @ map (\<lambda>r. (r, 1)) seg @ zip post post_mask"
    using assms(4-6) seg by simp
  moreover have "zip post post_mask = [] \<or> snd (hd (zip post post_mask)) = 0"
    using assms(7,8) by (cases post; cases post_mask) auto
  moreover obtain early where "length early = length (zip pre pre_mask)"
    and "snd (rfpp_row gamma (zip pre pre_mask @ map (\<lambda>r. (r, 1)) seg @ zip post post_mask))
       = early @ snd (rfpp_row gamma (map (\<lambda>r. (r, 1)) seg @ zip post post_mask))"
    using rfpp_row_append by blast
  ultimately show ?thesis
    using assms(6) ret rfpp_row_run [of "zip post post_mask" gamma seg]
    by (simp add: discounted_def)
qed

lemma demo_rfpp:
  "\<exists>adv. compute_reinforce_plus_plus_outcome_advantage [[1, 2, 7, 3]] [[1, 1, 0, 1]] (1 / 2)
      = Inr (adv, [[2, 2, 17 / 2, 3]])"
  by (simp add: compute_reinforce_plus_plus_outcome_advantage_def rfpp_returns_def masked_whiten_def
      masked_var_def Let_def)

theorem rfpp_returns_of_run_witness:
  "take (length [1, 2 :: real]) (drop (length []) ([[2, 2, 17 / 2, 3]] ! 0)) = discounted (1 / 2) [1, 2]"
proof -
  obtain adv where "compute_reinforce_plus_plus_outcome_advantage [[1, 2, 7, 3]] [[1, 1, 0, 1]] (1 / 2)
      = Inr (adv, [[2, 2, 17 / 2, 3]])"
    using demo_rfpp by blast
  then have "take (length [1, 2 :: real]) (drop (length ([] :: vec)) ([[2, 2, 17 / 2, 3]] ! 0)) = discounted (1 / 2) [1, 2]"
    by (rule rfpp_returns_of_run [where post = "[7, 3]" and pre_mask = "[]" and post_mask = "[0, 1]"])
      (simp_all add: numeral_2_eq_2)
  then show ?thesis by simp
qed

text \<open>ReMax returns are the sums of the valid rewards from a token on, and its advantages subtract the
  greedy baseline on the valid tokens.\<close>

theorem remax_returns:
  assumes "compute_remax_outcome_advantage rewards baselines msk = (adv, ret)"
    and "i < length rewards" and "same_shape rewards msk" and "length baselines = length rewards"
    and "t < length (rewards ! i)"
  shows "ret ! i ! t = (\<Sum>k = t..<length (rewards ! i). rewards ! i ! k * msk ! i ! k)
       \<and> adv ! i ! t = ret ! i ! t - baselines ! i * msk ! i ! t"
proof -
  have len: "length msk = length rewards" "length (msk ! i) = length (rewards ! i)"
    using assms(2,3) same_shape_length [OF assms(3)]
    unfolding same_shape_def by (simp, metis nth_map)
  have ret: "ret ! i = suffix_sums (map2 (*) (rewards ! i) (msk ! i))"
    using assms(1,2) len
    by (auto simp: compute_remax_outcome_advantage_def returns_to_go_def mzip_def Let_def)
  have "ret ! i ! t = sum_list (drop t (map2 (*) (rewards ! i) (msk ! i)))"
    using assms(5) len by (simp add: ret suffix_sums_nth)
  also have "\<dots> = (\<Sum>k = t..<length (rewards ! i). rewards ! i ! k * msk ! i ! k)"
  proof -
    have "drop t (map2 (*) (rewards ! i) (msk ! i)) = map (\<lambda>k. rewards ! i ! k * msk ! i ! k) [t..<length (rewards ! i)]"
      using assms(5) len by (intro nth_equalityI) auto
    then show ?thesis by (simp add: interv_sum_list_conv_sum_set_nat)
  qed
  finally have "ret ! i ! t = (\<Sum>k = t..<length (rewards ! i). rewards ! i ! k * msk ! i ! k)" .
  moreover have "adv ! i ! t = ret ! i ! t - baselines ! i * msk ! i ! t"
    using assms len
    by (auto simp: compute_remax_outcome_advantage_def returns_to_go_def mzip_def Let_def bcast_mul_def)
  ultimately show ?thesis by simp
qed

theorem remax_returns_witness:
  "[[5, 2, 2 :: real]] ! 0 ! 1 = (\<Sum>k = 1..<length ([[3, 4, 2 :: real]] ! 0). [[3, 4, 2]] ! 0 ! k * [[1, 0, 1]] ! 0 ! k)
   \<and> [[4, 2, 1 :: real]] ! 0 ! 1 = [[5, 2, 2]] ! 0 ! 1 - [1] ! 0 * [[1, 0, 1]] ! 0 ! 1"
  by (rule remax_returns)
    (simp_all add: compute_remax_outcome_advantage_def returns_to_go_def mzip_def bcast_mul_def same_shape_def)

end
