(* ===== verification/Losses.thy ===== *)
theory Losses
  imports Tensor
begin

text \<open>
  The losses of \<open>verl/trainer/ppo/core_algos.py\<close>: aggregation over a global batch, the policy
  losses, the value loss, the KL estimators and the KL controllers. \<open>detach\<close> does not change a
  value, so it leaves no trace here; gradients are not modelled.
\<close>

section \<open>Aggregation\<close>

definition horizon :: "mat \<Rightarrow> real" where
  "horizon m = (case m of [] \<Rightarrow> 0 | row # _ \<Rightarrow> real (length row))"

text \<open>The number that divides a sum: the given one, or the local one when there is one rank.\<close>

definition normalizer :: "nat \<Rightarrow> real option \<Rightarrow> string \<Rightarrow> real \<Rightarrow> real result" where
  "normalizer dp_size given message local_value =
     (case given of
        Some n \<Rightarrow> Inr n
      | None \<Rightarrow> if 1 < dp_size then Inl (ValueError message) else Inr local_value)"

definition seq_mask :: "mat \<Rightarrow> vec" where
  "seq_mask loss_mask = map (\<lambda>row. if 0 < sum_list row then 1 else 0) loss_mask"

definition agg_loss ::
    "mat \<Rightarrow> mat \<Rightarrow> string \<Rightarrow> nat \<Rightarrow> real option \<Rightarrow> real option \<Rightarrow> real option \<Rightarrow> real result" where
  "agg_loss loss_mat loss_mask loss_agg_mode dp_size batch_num_tokens global_batch_size loss_scale_factor =
     (if loss_agg_mode = ''token-mean'' then
        rbind (normalizer dp_size batch_num_tokens ''(global) batch_num_tokens is required when dp_size > 1''
                 (sum_list (concat loss_mask))) (\<lambda>n.
          Inr (masked_sum (concat loss_mat) (concat loss_mask) / n * real dp_size))
      else if loss_agg_mode \<in> {''seq-mean-token-sum'', ''seq-mean-token-sum-norm''} then
        (let seq_losses = row_sums (mzip (*) loss_mat loss_mask)
         in rbind (normalizer dp_size global_batch_size ''global_batch_size is required when dp_size > 1''
                     (sum_list (seq_mask loss_mask))) (\<lambda>n.
              let loss = masked_sum seq_losses (seq_mask loss_mask) / n * real dp_size
              in Inr (if loss_agg_mode = ''seq-mean-token-sum-norm''
                      then loss / (case loss_scale_factor of None \<Rightarrow> horizon loss_mask | Some f \<Rightarrow> f)
                      else loss)))
      else if loss_agg_mode = ''seq-mean-token-mean'' then
        (let seq_losses = map2 (\<lambda>s n. s / (n + 1 / 10 ^ 8)) (row_sums (mzip (*) loss_mat loss_mask))
                            (row_sums loss_mask)
         in rbind (normalizer dp_size global_batch_size ''global_batch_size is required when dp_size > 1''
                     (sum_list (seq_mask loss_mask))) (\<lambda>n.
              Inr (masked_sum seq_losses (seq_mask loss_mask) / n * real dp_size)))
      else Inl (ValueError (''Invalid loss_agg_mode: '' @ loss_agg_mode)))"

section \<open>Configuration and metrics\<close>

text \<open>The keyword arguments \<open>**config.global_batch_info\<close>, with the defaults of \<open>agg_loss\<close>.\<close>

record batch_info =
  dp_size :: nat
  batch_num_tokens :: "real option"
  global_batch_size :: "real option"
  loss_scale_factor :: "real option"

record actor_config =
  clip_ratio :: real
  clip_ratio_low :: "real option"
  clip_ratio_high :: "real option"
  clip_ratio_c :: real
  tau_pos :: real
  tau_neg :: real
  clip_cov_ratio :: "real option"
  clip_cov_lb :: "real option"
  clip_cov_ub :: "real option"
  kl_cov_ratio :: "real option"
  ppo_kl_coef :: "real option"
  global_batch_info :: batch_info

record pg_metrics =
  pg_clipfrac :: real
  ppo_kl :: real
  pg_clipfrac_lower :: real

definition or_else :: "'a option \<Rightarrow> 'a \<Rightarrow> 'a" where
  "or_else x d = (case x of None \<Rightarrow> d | Some v \<Rightarrow> v)"

definition clip_low :: "actor_config \<Rightarrow> real" where
  "clip_low config = or_else (clip_ratio_low config) (clip_ratio config)"

definition clip_high :: "actor_config \<Rightarrow> real" where
  "clip_high config = or_else (clip_ratio_high config) (clip_ratio config)"

definition agg_with :: "actor_config \<Rightarrow> mat \<Rightarrow> mat \<Rightarrow> string \<Rightarrow> real result" where
  "agg_with config loss_mat loss_mask mode =
     (let g = global_batch_info config
      in agg_loss loss_mat loss_mask mode (dp_size g) (batch_num_tokens g) (global_batch_size g)
           (loss_scale_factor g))"

definition apply_is_weights :: "mat option \<Rightarrow> mat \<Rightarrow> mat" where
  "apply_is_weights rollout_is_weights pg_losses =
     (case rollout_is_weights of None \<Rightarrow> pg_losses | Some w \<Rightarrow> mzip (*) pg_losses w)"

definition mean_over :: "mat \<Rightarrow> mat \<Rightarrow> real" where
  "mean_over vs msk = masked_mean (concat vs) (concat msk)"

definition mzip3 :: "('a \<Rightarrow> 'b \<Rightarrow> 'c \<Rightarrow> 'd) \<Rightarrow> 'a list list \<Rightarrow> 'b list list \<Rightarrow> 'c list list \<Rightarrow> 'd list list" where
  "mzip3 f a b c = mzip (\<lambda>x (y, z). f x y z) a (mzip Pair b c)"

definition indicator_real :: "bool \<Rightarrow> real" where
  "indicator_real b = (if b then 1 else 0)"

text \<open>\<open>log_prob - old_log_prob\<close>, clamped to \<open>[-20, 20]\<close> where the code clamps it.\<close>

definition approx_kl :: "mat \<Rightarrow> mat \<Rightarrow> mat" where
  "approx_kl old_log_prob log_prob = mzip (-) log_prob old_log_prob"

definition clamped_kl :: "mat \<Rightarrow> mat \<Rightarrow> mat" where
  "clamped_kl old_log_prob log_prob = mmap (clamp (- 20) 20) (approx_kl old_log_prob log_prob)"

section \<open>PPO\<close>

definition ppo_losses1 :: "real \<Rightarrow> real \<Rightarrow> real" where
  "ppo_losses1 a ratio = - a * ratio"

definition ppo_losses2 :: "real \<Rightarrow> real \<Rightarrow> real \<Rightarrow> real \<Rightarrow> real" where
  "ppo_losses2 low high a ratio = - a * clamp (1 - low) (1 + high) ratio"

definition ppo_token_loss :: "real \<Rightarrow> real \<Rightarrow> real \<Rightarrow> real \<Rightarrow> real \<Rightarrow> real" where
  "ppo_token_loss low high c a ratio =
     (let clip_pg_losses1 = max (ppo_losses1 a ratio) (ppo_losses2 low high a ratio);
          pg_losses3 = - a * c;
          clip_pg_losses2 = min pg_losses3 clip_pg_losses1
      in if a < 0 then clip_pg_losses2 else clip_pg_losses1)"

definition ppo_core ::
    "real \<Rightarrow> real \<Rightarrow> real \<Rightarrow> mat \<Rightarrow> mat \<Rightarrow> mat \<Rightarrow> mat \<Rightarrow> mat \<times> pg_metrics" where
  "ppo_core low high c old_log_prob log_prob advantages response_mask =
     (let kl = clamped_kl old_log_prob log_prob;
          ratio = mmap exp kl
      in (mzip (ppo_token_loss low high c) advantages ratio,
          \<lparr>pg_clipfrac = mean_over (mzip (\<lambda>a r. indicator_real (ppo_losses1 a r < ppo_losses2 low high a r))
                            advantages ratio) response_mask,
           ppo_kl = mean_over (mmap uminus kl) response_mask,
           pg_clipfrac_lower = mean_over (mzip (\<lambda>a r.
               indicator_real (- a * c < max (ppo_losses1 a r) (ppo_losses2 low high a r)) * indicator_real (a < 0))
               advantages ratio) response_mask\<rparr>))"

definition clip_c_message :: string where
  "clip_c_message = ''The lower bound of the clip_ratio_c for dual-clip PPO should be greater than 1.0,''"

definition compute_policy_loss ::
    "mat \<Rightarrow> mat \<Rightarrow> mat \<Rightarrow> mat \<Rightarrow> real \<Rightarrow> real option \<Rightarrow> real option \<Rightarrow> real \<Rightarrow> string
      \<Rightarrow> (real \<times> real \<times> real \<times> real) result" where
  "compute_policy_loss old_log_prob log_prob advantages response_mask cliprange cliprange_low
       cliprange_high c loss_agg_mode =
     passert (1 < c) clip_c_message
       (let (pg_losses, m) = ppo_core (or_else cliprange_low cliprange) (or_else cliprange_high cliprange)
              c old_log_prob log_prob advantages response_mask
        in rbind (agg_loss pg_losses response_mask loss_agg_mode 1 None None None)
             (\<lambda>pg_loss. Inr (pg_loss, pg_clipfrac m, ppo_kl m, pg_clipfrac_lower m)))"

definition compute_policy_loss_vanilla ::
    "mat \<Rightarrow> mat \<Rightarrow> mat \<Rightarrow> mat \<Rightarrow> string \<Rightarrow> actor_config \<Rightarrow> mat option \<Rightarrow> (real \<times> pg_metrics) result" where
  "compute_policy_loss_vanilla old_log_prob log_prob advantages response_mask loss_agg_mode config
       rollout_is_weights =
     passert (1 < clip_ratio_c config) clip_c_message
       (let (pg_losses, m) = ppo_core (clip_low config) (clip_high config) (clip_ratio_c config)
              old_log_prob log_prob advantages response_mask
        in rbind (agg_with config (apply_is_weights rollout_is_weights pg_losses) response_mask loss_agg_mode)
             (\<lambda>pg_loss. Inr (pg_loss, m)))"

section \<open>Divergence-masked policy gradient (DPPO)\<close>

definition dppo_tv_valid :: "real \<Rightarrow> real \<Rightarrow> real \<Rightarrow> real \<Rightarrow> real \<Rightarrow> bool" where
  "dppo_tv_valid low high old lp a =
     (if 0 < a then exp lp - exp old \<le> high else - low \<le> exp lp - exp old)"

definition binary_kl :: "real \<Rightarrow> real \<Rightarrow> real" where
  "binary_kl old lp =
     exp old * (old - lp) + (1 - exp old) * ln ((1 - exp old + 1 / 10 ^ 8) / (1 - exp lp + 1 / 10 ^ 8))"

definition dppo_kl_valid :: "real \<Rightarrow> real \<Rightarrow> real \<Rightarrow> real \<Rightarrow> real \<Rightarrow> bool" where
  "dppo_kl_valid low high old lp a =
     (if 0 < a then binary_kl old lp \<le> high \<or> exp lp \<le> exp old
      else binary_kl old lp \<le> low \<or> exp old \<le> exp lp)"

definition dppo_token_loss :: "real \<Rightarrow> (real \<Rightarrow> real \<Rightarrow> real \<Rightarrow> bool) \<Rightarrow> real \<Rightarrow> real \<Rightarrow> real \<Rightarrow> real" where
  "dppo_token_loss c valid old lp a =
     - a * min (exp (clamp (- 20) 20 (lp - old))) c * lp * indicator_real (valid old lp a)"

definition dppo_core ::
    "(real \<Rightarrow> real \<Rightarrow> real \<Rightarrow> bool) \<Rightarrow> mat \<Rightarrow> mat \<Rightarrow> mat \<Rightarrow> mat \<Rightarrow> string \<Rightarrow> actor_config \<Rightarrow> mat option
      \<Rightarrow> (real \<times> pg_metrics) result" where
  "dppo_core valid old_log_prob log_prob advantages response_mask loss_agg_mode config rollout_is_weights =
     (let c = clip_ratio_c config;
          pg_losses = mzip3 (dppo_token_loss c valid) old_log_prob log_prob advantages
      in rbind (agg_with config (apply_is_weights rollout_is_weights pg_losses) response_mask loss_agg_mode)
           (\<lambda>pg_loss. Inr (pg_loss,
             \<lparr>pg_clipfrac = mean_over (mzip3 (\<lambda>old lp a. 1 - indicator_real (valid old lp a))
                               old_log_prob log_prob advantages) response_mask,
              ppo_kl = mean_over (mmap uminus (clamped_kl old_log_prob log_prob)) response_mask,
              pg_clipfrac_lower = mean_over (mzip3 (\<lambda>old lp a.
                  indicator_real (c < exp (clamp (- 20) 20 (lp - old))) * indicator_real (valid old lp a))
                  old_log_prob log_prob advantages) response_mask\<rparr>)))"

definition compute_policy_loss_dppo_tv ::
    "mat \<Rightarrow> mat \<Rightarrow> mat \<Rightarrow> mat \<Rightarrow> string \<Rightarrow> actor_config \<Rightarrow> mat option \<Rightarrow> (real \<times> pg_metrics) result" where
  "compute_policy_loss_dppo_tv old_log_prob log_prob advantages response_mask loss_agg_mode config =
     dppo_core (dppo_tv_valid (clip_low config) (clip_high config)) old_log_prob log_prob advantages
       response_mask loss_agg_mode config"

definition compute_policy_loss_dppo_kl ::
    "mat \<Rightarrow> mat \<Rightarrow> mat \<Rightarrow> mat \<Rightarrow> string \<Rightarrow> actor_config \<Rightarrow> mat option \<Rightarrow> (real \<times> pg_metrics) result" where
  "compute_policy_loss_dppo_kl old_log_prob log_prob advantages response_mask loss_agg_mode config =
     dppo_core (dppo_kl_valid (clip_low config) (clip_high config)) old_log_prob log_prob advantages
       response_mask loss_agg_mode config"

section \<open>Sequence-level and smoothed objectives\<close>

text \<open>GSPO: the mean log ratio of a sequence, and its ratio on every token.\<close>

definition gspo_row_kl :: "vec \<Rightarrow> vec \<Rightarrow> real" where
  "gspo_row_kl kl_row mask_row = sum_list (map2 (*) kl_row mask_row) / max (sum_list mask_row) 1"

definition gspo_log_ratio :: "mat \<Rightarrow> mat \<Rightarrow> mat \<Rightarrow> mat" where
  "gspo_log_ratio old_log_prob log_prob response_mask =
     map2 (\<lambda>lp_row (kl_row, mask_row).
             map (\<lambda>lp. min (lp - lp + gspo_row_kl kl_row mask_row) 10) lp_row)
       log_prob (zip (approx_kl old_log_prob log_prob) response_mask)"

definition compute_policy_loss_gspo ::
    "mat \<Rightarrow> mat \<Rightarrow> mat \<Rightarrow> mat \<Rightarrow> actor_config \<Rightarrow> mat option \<Rightarrow> (real \<times> pg_metrics) result" where
  "compute_policy_loss_gspo old_log_prob log_prob advantages response_mask config rollout_is_weights =
     (let low = clip_low config; high = clip_high config;
          ratio = mmap exp (gspo_log_ratio old_log_prob log_prob response_mask);
          pg_losses = mzip (\<lambda>a r. max (ppo_losses1 a r) (ppo_losses2 low high a r)) advantages ratio
      in rbind (agg_with config (apply_is_weights rollout_is_weights pg_losses) response_mask
                  ''seq-mean-token-mean'') (\<lambda>pg_loss. Inr (pg_loss,
            \<lparr>pg_clipfrac = mean_over (mzip (\<lambda>a r. indicator_real (ppo_losses1 a r < ppo_losses2 low high a r))
                              advantages ratio) response_mask,
             ppo_kl = mean_over (mmap uminus (approx_kl old_log_prob log_prob)) response_mask,
             pg_clipfrac_lower = 0\<rparr>)))"

definition sapo_gate :: "real \<Rightarrow> real \<Rightarrow> real" where
  "sapo_gate x tau = 1 / (1 + exp (- (tau * (x - 1)))) * (4 / tau)"

definition sapo_token_loss :: "real \<Rightarrow> real \<Rightarrow> real \<Rightarrow> real \<Rightarrow> real" where
  "sapo_token_loss pos neg a ratio = - sapo_gate ratio (if 0 < a then pos else neg) * a"

definition compute_policy_loss_sapo ::
    "mat \<Rightarrow> mat \<Rightarrow> mat \<Rightarrow> mat \<Rightarrow> actor_config \<Rightarrow> mat option \<Rightarrow> (real \<times> pg_metrics) result" where
  "compute_policy_loss_sapo old_log_prob log_prob advantages response_mask config rollout_is_weights =
     (let kl = clamped_kl old_log_prob log_prob;
          pg_losses = mzip (sapo_token_loss (tau_pos config) (tau_neg config)) advantages (mmap exp kl)
      in rbind (agg_with config (apply_is_weights rollout_is_weights pg_losses) response_mask
                  ''seq-mean-token-mean'') (\<lambda>pg_loss. Inr (pg_loss,
            \<lparr>pg_clipfrac = 0, ppo_kl = mean_over (mmap uminus kl) response_mask, pg_clipfrac_lower = 0\<rparr>)))"

definition compute_policy_loss_gpg ::
    "mat \<Rightarrow> mat \<Rightarrow> mat \<Rightarrow> string \<Rightarrow> actor_config \<Rightarrow> mat option \<Rightarrow> real result" where
  "compute_policy_loss_gpg log_prob advantages response_mask loss_agg_mode config rollout_is_weights =
     agg_with config (apply_is_weights rollout_is_weights (mzip (\<lambda>lp a. - lp * a) log_prob advantages))
       response_mask loss_agg_mode"

definition cispo_ratio :: "real \<Rightarrow> real \<Rightarrow> real \<Rightarrow> real" where
  "cispo_ratio low high ratio = clamp (1 - low) (1 + high) ratio"

definition compute_policy_loss_cispo ::
    "mat \<Rightarrow> mat \<Rightarrow> mat \<Rightarrow> mat \<Rightarrow> string \<Rightarrow> actor_config \<Rightarrow> mat option \<Rightarrow> (real \<times> pg_metrics) result" where
  "compute_policy_loss_cispo old_log_prob log_prob advantages response_mask loss_agg_mode config
       rollout_is_weights =
     (let kl = clamped_kl old_log_prob log_prob;
          ratio = mmap exp kl;
          clipped_ratio = mmap (cispo_ratio (clip_low config) (clip_high config)) ratio;
          pg_losses = mzip3 (\<lambda>r a lp. - r * a * lp) clipped_ratio advantages log_prob
      in rbind (agg_with config (apply_is_weights rollout_is_weights pg_losses) response_mask loss_agg_mode)
           (\<lambda>pg_loss. Inr (pg_loss,
             \<lparr>pg_clipfrac = mean_over (mzip (\<lambda>r c. indicator_real (r \<noteq> c)) ratio clipped_ratio) response_mask,
              ppo_kl = mean_over (mmap uminus kl) response_mask,
              pg_clipfrac_lower = 0\<rparr>)))"

text \<open>GMPO: the log ratio clipped against the sign of the advantage, and the geometric mean per row.\<close>

definition gmpo_kl_min :: "real \<Rightarrow> real \<Rightarrow> real \<Rightarrow> real \<Rightarrow> real" where
  "gmpo_kl_min low high a kl = sgn a * min (sgn a * kl) (sgn a * clamp (- low) high kl)"

definition row_mean :: "vec \<Rightarrow> vec \<Rightarrow> real" where
  "row_mean xs ms = sum_list (map2 (*) xs ms) / (sum_list ms + 1 / 10 ^ 8)"

definition compute_policy_loss_geo_mean ::
    "mat \<Rightarrow> mat \<Rightarrow> mat \<Rightarrow> mat \<Rightarrow> actor_config \<Rightarrow> mat option \<Rightarrow> real \<times> pg_metrics" where
  "compute_policy_loss_geo_mean old_log_prob log_prob advantages response_mask config rollout_is_weights =
     (let low = clip_low config; high = clip_high config;
          kl = approx_kl old_log_prob log_prob;
          kl_clamp = mmap (clamp (- low) high) kl;
          ratio = map2 (\<lambda>xs ms. exp (row_mean xs ms)) (mzip (gmpo_kl_min low high) advantages kl) response_mask;
          advantage = map2 row_mean advantages response_mask;
          pg_losses = map2 (\<lambda>a r. - a * r) advantage ratio;
          weighted = (case rollout_is_weights of
               None \<Rightarrow> pg_losses
             | Some w \<Rightarrow> map2 (*) pg_losses
                 (map2 (\<lambda>xs ms. exp (row_mean (map (\<lambda>x. ln (x + 1 / 10 ^ 10)) xs) ms)) w response_mask));
          clipped = mzip (\<lambda>k c. k \<noteq> c) kl kl_clamp
      in (tmean weighted,
          \<lparr>pg_clipfrac = mean_over (mzip (\<lambda>b a. indicator_real (b \<and> 0 < a)) clipped advantages) response_mask,
           ppo_kl = mean_over (mmap uminus kl) response_mask,
           pg_clipfrac_lower = mean_over (mzip (\<lambda>b a. indicator_real (b \<and> a < 0)) clipped advantages)
             response_mask\<rparr>))"

section \<open>Covariance-based objectives\<close>

text \<open>
  Clip-Cov. \<open>randperm\<close> is \<open>torch.randperm\<close>. A cell whose covariance the code overwrites with minus
  infinity (masked out, or clipped already) is never selected.
\<close>

definition cells :: "mat \<Rightarrow> (nat \<times> nat) list" where
  "cells m = concat (map (\<lambda>i. map (\<lambda>j. (i, j)) [0..<length (m ! i)]) [0..<length m])"

definition cell :: "'a list list \<Rightarrow> nat \<times> nat \<Rightarrow> 'a" where
  "cell m p = m ! fst p ! snd p"

definition clip_cov_candidates ::
    "real \<Rightarrow> real \<Rightarrow> mat \<Rightarrow> mat \<Rightarrow> mat \<Rightarrow> mat \<Rightarrow> mat \<Rightarrow> (nat \<times> nat) list" where
  "clip_cov_candidates lb ub advantages log_prob response_mask losses1 losses2 =
     (let mean_a = mean_over advantages response_mask; mean_lp = mean_over log_prob response_mask
      in filter (\<lambda>p. let cov = (cell advantages p - mean_a) * (cell log_prob p - mean_lp)
                    in \<not> (cell response_mask p = 0)
                       \<and> \<not> (cell losses1 p < cell losses2 p \<and> 0 < cell response_mask p)
                       \<and> cov < ub \<and> lb < cov \<and> 0 < cell response_mask p)
           (cells advantages))"

definition clip_cov_selected ::
    "(nat \<Rightarrow> nat list) \<Rightarrow> real \<Rightarrow> mat \<Rightarrow> (nat \<times> nat) list \<Rightarrow> (nat \<times> nat) list" where
  "clip_cov_selected randperm cov_ratio response_mask candidates =
     (let clip_num = max (floor (cov_ratio * sum_list (concat response_mask))) 1
      in if candidates = [] then []
         else map ((!) candidates)
                (take (nat (min clip_num (int (length candidates)))) (randperm (length candidates))))"

definition clip_cov_corr :: "mat \<Rightarrow> (nat \<times> nat) list \<Rightarrow> mat" where
  "clip_cov_corr advantages selected =
     map (\<lambda>i. map (\<lambda>j. if (i, j) \<in> set selected then 0 else 1) [0..<length (advantages ! i)])
       [0..<length advantages]"

definition compute_policy_loss_clip_cov ::
    "(nat \<Rightarrow> nat list) \<Rightarrow> mat \<Rightarrow> mat \<Rightarrow> mat \<Rightarrow> mat \<Rightarrow> string \<Rightarrow> actor_config \<Rightarrow> mat option
      \<Rightarrow> (real \<times> real \<times> real) result" where
  "compute_policy_loss_clip_cov randperm old_log_prob log_prob advantages response_mask loss_agg_mode config
       rollout_is_weights =
     (let cov_ratio = or_else (clip_cov_ratio config) (2 / 10000);
          lb = or_else (clip_cov_lb config) 1; ub = or_else (clip_cov_ub config) 5;
          kl = approx_kl old_log_prob log_prob; ratio = mmap exp kl
      in passert (0 < cov_ratio) ''clip_ratio should be larger than 0.''
           (let losses1 = mzip ppo_losses1 advantages ratio;
                losses2 = mzip (ppo_losses2 (clip_low config) (clip_high config)) advantages ratio;
                selected = clip_cov_selected randperm cov_ratio response_mask
                  (clip_cov_candidates lb ub advantages log_prob response_mask losses1 losses2);
                corr = clip_cov_corr advantages selected;
                pg_losses = mzip (*) (mzip max losses1 losses2) corr
            in rbind (agg_with config (apply_is_weights rollout_is_weights pg_losses) response_mask loss_agg_mode)
                 (\<lambda>pg_loss. Inr (pg_loss, mean_over (mmap (\<lambda>c. indicator_real (c = 0)) corr) response_mask,
                     mean_over (mmap uminus kl) response_mask))))"

text \<open>
  KL-Cov. \<open>topk xs k\<close> are the positions \<open>torch.topk(xs, k, largest=True).indices\<close>.
\<close>

definition kl_cov_large ::
    "(vec \<Rightarrow> nat \<Rightarrow> nat list) \<Rightarrow> real \<Rightarrow> mat \<Rightarrow> mat \<Rightarrow> mat \<Rightarrow> (nat \<times> nat) list" where
  "kl_cov_large topk cov_ratio advantages log_prob response_mask =
     (let valid = filter (\<lambda>p. 0 < cell response_mask p) (cells response_mask);
          adv = map (cell advantages) valid; logp = map (cell log_prob) valid
      in if adv = [] then []
         else let cov = map2 (\<lambda>a lp. (a - tmean adv) * (lp - tmean logp)) adv logp;
                  k = max 1 (floor (real (length cov) * cov_ratio))
              in map ((!) valid) (topk cov (nat k)))"

definition compute_policy_loss_kl_cov ::
    "(vec \<Rightarrow> nat \<Rightarrow> nat list) \<Rightarrow> mat \<Rightarrow> mat \<Rightarrow> mat \<Rightarrow> mat \<Rightarrow> string \<Rightarrow> actor_config \<Rightarrow> mat option
      \<Rightarrow> (real \<times> real) result" where
  "compute_policy_loss_kl_cov topk old_log_prob log_prob advantages response_mask loss_agg_mode config
       rollout_is_weights =
     (let cov_ratio = or_else (kl_cov_ratio config) (2 / 10000);
          coef = or_else (ppo_kl_coef config) 1;
          kl = approx_kl old_log_prob log_prob
      in passert (0 < cov_ratio) ''kl_cov_ratio should be larger than 0.''
           (let large = kl_cov_large topk cov_ratio advantages log_prob response_mask;
                pg_losses = map (\<lambda>i. map (\<lambda>j.
                    let p = (i, j); base = - cell advantages p * exp (cell kl p)
                    in if p \<in> set large then base + coef * \<bar>cell kl p\<bar> else base)
                    [0..<length (advantages ! i)]) [0..<length advantages]
            in rbind (agg_with config (apply_is_weights rollout_is_weights pg_losses) response_mask loss_agg_mode)
                 (\<lambda>pg_loss. Inr (pg_loss, mean_over (mmap abs kl) response_mask))))"

section \<open>REINFORCE, value loss and rewards\<close>

definition compute_policy_loss_reinforce ::
    "mat \<Rightarrow> mat \<Rightarrow> mat \<Rightarrow> mat \<Rightarrow> string \<Rightarrow> actor_config \<Rightarrow> mat option \<Rightarrow> (real \<times> real) result" where
  "compute_policy_loss_reinforce rollout_log_prob log_prob advantages response_mask loss_agg_mode config
       rollout_is_weights =
     (let pg_losses = (case rollout_is_weights of
            Some w \<Rightarrow> mzip (*) (mzip (\<lambda>a lp. - a * lp) advantages log_prob) w
          | None \<Rightarrow> mzip (\<lambda>a lp. - a * lp) advantages log_prob)
      in rbind (agg_with config pg_losses response_mask loss_agg_mode)
           (\<lambda>pg_loss. Inr (pg_loss, mean_over (mmap uminus (approx_kl rollout_log_prob log_prob)) response_mask)))"

definition clip_by_value :: "real \<Rightarrow> real \<Rightarrow> real \<Rightarrow> real" where
  "clip_by_value x tensor_min tensor_max = max (min x tensor_max) tensor_min"

definition value_loss_terms :: "real \<Rightarrow> real \<Rightarrow> real \<Rightarrow> real \<Rightarrow> real \<times> real" where
  "value_loss_terms cliprange_value vpred ret v =
     ((vpred - ret)\<^sup>2, (clip_by_value vpred (v - cliprange_value) (v + cliprange_value) - ret)\<^sup>2)"

definition compute_value_loss ::
    "mat \<Rightarrow> mat \<Rightarrow> mat \<Rightarrow> mat \<Rightarrow> real \<Rightarrow> string \<Rightarrow> (real \<times> real) result" where
  "compute_value_loss vpreds rets vals response_mask cliprange_value loss_agg_mode =
     (let terms = mzip3 (value_loss_terms cliprange_value) vpreds rets vals
      in rbind (agg_loss (mmap (\<lambda>(l1, l2). max l1 l2) terms) response_mask loss_agg_mode 1 None None None)
           (\<lambda>loss. Inr (1 / 2 * loss,
              mean_over (mmap (\<lambda>(l1, l2). indicator_real (l1 < l2)) terms) response_mask)))"

definition compute_rewards :: "mat \<Rightarrow> mat \<Rightarrow> mat \<Rightarrow> real \<Rightarrow> mat" where
  "compute_rewards token_level_scores old_log_prob ref_log_prob kl_ratio =
     mzip3 (\<lambda>s old ref. s - (old - ref) * kl_ratio) token_level_scores old_log_prob ref_log_prob"

section \<open>KL estimators and controllers\<close>

definition kl_penalty_forward :: "real \<Rightarrow> real \<Rightarrow> string \<Rightarrow> real result" where
  "kl_penalty_forward logprob ref_logprob kind =
     (if kind \<in> {''kl'', ''k1''} then Inr (logprob - ref_logprob)
      else if kind = ''abs'' then Inr \<bar>logprob - ref_logprob\<bar>
      else if kind \<in> {''mse'', ''k2''} then Inr (1 / 2 * (logprob - ref_logprob)\<^sup>2)
      else if kind \<in> {''low_var_kl'', ''k3''} then
        (let kl = clamp (- 20) 20 (ref_logprob - logprob)
         in Inr (clamp (- 10) 10 (exp kl - kl - 1)))
      else Inl (NotImplementedError []))"

text \<open>The straight-through form: \<open>backward - backward.detach() + forward.detach()\<close>.\<close>

definition kl_penalty :: "real \<Rightarrow> real \<Rightarrow> string \<Rightarrow> real result" where
  "kl_penalty logprob ref_logprob kind =
     (let plus = (kind \<noteq> [] \<and> last kind = CHR ''+'');
          base = (if plus then butlast kind else kind)
      in rbind (kl_penalty_forward logprob ref_logprob base) (\<lambda>forward_score.
           if \<not> plus \<or> kind \<in> {''mse'', ''k2''} then Inr forward_score
           else let backward_score = 1 / 2 * (logprob - ref_logprob)\<^sup>2
                in Inr (backward_score - backward_score + forward_score)))"

datatype kl_controller =
    AdaptiveKLController (kl_value: real) (target: real) (kl_horizon: real)
  | FixedKLController (kl_value: real)

record kl_ctrl =
  ctrl_type :: string
  kl_coef :: real
  ctrl_horizon :: real
  target_kl :: real

definition get_kl_controller :: "kl_ctrl \<Rightarrow> kl_controller result" where
  "get_kl_controller ctrl =
     (if ctrl_type ctrl = ''fixed'' then Inr (FixedKLController (kl_coef ctrl))
      else if ctrl_type ctrl = ''adaptive'' then
        passert (0 < ctrl_horizon ctrl) ''horizon must be larger than 0.''
          (Inr (AdaptiveKLController (kl_coef ctrl) (target_kl ctrl) (ctrl_horizon ctrl)))
      else Inl (NotImplementedError []))"

fun kl_update :: "kl_controller \<Rightarrow> real \<Rightarrow> real \<Rightarrow> kl_controller" where
  "kl_update (FixedKLController v) current_kl n_steps = FixedKLController v"
| "kl_update (AdaptiveKLController v tgt h) current_kl n_steps =
     (let proportional_error = clamp (- (2 / 10)) (2 / 10) (current_kl / tgt - 1);
          mult = 1 + proportional_error * n_steps / h
      in AdaptiveKLController (v * mult) tgt h)"

end
