(* ===== verification/LossFacts.thy ===== *)
theory LossFacts
  imports Losses
begin

text \<open>
  What the losses guarantee: additive aggregation over micro-batches, the bounds of the clipped
  objectives, the budget of Clip-Cov, and the range of the KL estimator and of the KL controller.
\<close>

section \<open>Aggregation over micro-batches\<close>

lemma mzip_append:
  "length a = length m \<Longrightarrow> mzip f (a @ b) (m @ n) = mzip f a m @ mzip f b n"
  by (simp add: mzip_def)

lemma row_sums_append: "row_sums (a @ b) = row_sums a @ row_sums b"
  by (simp add: row_sums_def)

lemma seq_mask_append: "seq_mask (a @ b) = seq_mask a @ seq_mask b"
  by (simp add: seq_mask_def)

lemma length_seq_mask [simp]: "length (seq_mask m) = length m"
  by (simp add: seq_mask_def)

lemma length_mzip [simp]: "length (mzip f a b) = min (length a) (length b)"
  by (simp add: mzip_def)

lemma add_scaled: "(x + y) / n * d = x / n * d + y / n * (d :: real)"
  by (simp add: add_divide_distrib distrib_right)

definition loss_modes :: "string set" where
  "loss_modes = {''token-mean'', ''seq-mean-token-sum'', ''seq-mean-token-sum-norm'', ''seq-mean-token-mean''}"

text \<open>C10: with the global normalizers given, aggregation is additive over micro-batches: splitting a batch,
  aggregating the parts and adding the results gives the loss of the whole batch, in every mode.\<close>

theorem agg_loss_additive:
  assumes "mode \<in> loss_modes" and "same_shape a m" and "same_shape b n"
  shows "\<exists>x y. agg_loss a m mode dp (Some tokens) (Some seqs) (Some scale) = Inr x
    \<and> agg_loss b n mode dp (Some tokens) (Some seqs) (Some scale) = Inr y
    \<and> agg_loss (a @ b) (m @ n) mode dp (Some tokens) (Some seqs) (Some scale) = Inr (x + y)"
proof -
  have len: "length a = length m" "length (concat a) = length (concat m)"
    using same_shape_length [OF assms(2)] same_shape_concat [OF assms(2)] .
  consider "mode = ''token-mean''" | "mode = ''seq-mean-token-sum''" | "mode = ''seq-mean-token-sum-norm''"
    | "mode = ''seq-mean-token-mean''"
    using assms(1) by (auto simp: loss_modes_def)
  then show ?thesis
    by cases
      (use len in \<open>simp_all add: agg_loss_def normalizer_def masked_sum_append add_scaled mzip_append
         row_sums_append seq_mask_append add_divide_distrib distrib_right Let_def\<close>)
qed

theorem agg_loss_additive_witness:
  "\<exists>x y. agg_loss [[1, 2]] [[1, 1]] ''seq-mean-token-sum'' 2 (Some 3) (Some 2) (Some 4) = Inr x
    \<and> agg_loss [[5, 7]] [[1, 0]] ''seq-mean-token-sum'' 2 (Some 3) (Some 2) (Some 4) = Inr y
    \<and> agg_loss ([[1, 2]] @ [[5, 7]]) ([[1, 1]] @ [[1, 0]]) ''seq-mean-token-sum'' 2 (Some 3) (Some 2) (Some 4)
        = Inr (x + y)"
  by (rule agg_loss_additive) (simp_all add: loss_modes_def same_shape_def)

text \<open>With more than one data-parallel rank the global normalizer of the mode has to be given, and an
  unknown mode is rejected.\<close>

lemma agg_loss_errors:
  "1 < dp \<Longrightarrow> agg_loss a m ''token-mean'' dp None seqs scale
       = Inl (ValueError ''(global) batch_num_tokens is required when dp_size > 1'')
    \<and> (mode \<in> loss_modes \<longrightarrow> mode \<noteq> ''token-mean'' \<longrightarrow> agg_loss a m mode dp tokens None scale
       = Inl (ValueError ''global_batch_size is required when dp_size > 1''))
    \<and> (mode \<notin> loss_modes \<longrightarrow> agg_loss a m mode dp tokens seqs scale
       = Inl (ValueError (''Invalid loss_agg_mode: '' @ mode)))"
  by (auto simp: agg_loss_def normalizer_def loss_modes_def Let_def)

section \<open>PPO\<close>

text \<open>bounds of the clipped token loss: a positive advantage earns at most \<open>1 + high\<close> times the
  advantage, a negative one costs at most \<open>c\<close> times its size, and the loss is never below the
  unclipped one except by that cap.\<close>

theorem ppo_token_bounds:
  assumes "0 \<le> low" and "0 \<le> high" and "1 < c" and "0 \<le> ratio"
  shows "(0 \<le> a \<longrightarrow> - a * (1 + high) \<le> ppo_token_loss low high c a ratio
                 \<and> - a * ratio \<le> ppo_token_loss low high c a ratio)
    \<and> (a < 0 \<longrightarrow> ppo_token_loss low high c a ratio \<le> - a * c
                 \<and> min (- a * c) (- a * ratio) \<le> ppo_token_loss low high c a ratio)"
proof -
  have "clamp (1 - low) (1 + high) ratio \<le> 1 + high"
    using assms by (auto simp: clamp_def)
  then have "0 \<le> a \<Longrightarrow> - a * (1 + high) \<le> ppo_losses2 low high a ratio"
    by (simp add: ppo_losses2_def mult_left_mono)
  then show ?thesis
    by (auto simp: ppo_token_loss_def ppo_losses1_def Let_def)
qed

theorem ppo_token_bounds_witness:
  "- 2 * (1 + 1 / 5) \<le> ppo_token_loss (1 / 5) (1 / 5) 3 2 5 \<and> ppo_token_loss (1 / 5) (1 / 5) 3 (- 2) 5 \<le> 2 * 3"
  using ppo_token_bounds [of "1 / 5" "1 / 5" 3 5 2] ppo_token_bounds [of "1 / 5" "1 / 5" 3 5 "- 2"] by simp

lemma ratio_on_policy: "mmap exp (mmap (\<lambda>_. 0) b) = mmap (\<lambda>_. 1 :: real) b" "clamped_kl b b = mmap (\<lambda>_. 0) b"
proof -
  have "mzip (-) b b = mmap (\<lambda>_. 0) b"
    by (simp add: mzip_def mmap_def zip_same_conv_map comp_def)
  then show "clamped_kl b b = mmap (\<lambda>_. 0) b"
    by (simp add: clamped_kl_def approx_kl_def mmap_def comp_def clamp_def)
  show "mmap exp (mmap (\<lambda>_. 0) b) = mmap (\<lambda>_. 1 :: real) b"
    by (simp add: mmap_def comp_def)
qed

lemma mzip_const: "same_shape a b \<Longrightarrow> mzip f a (mmap (\<lambda>_. c) b) = mmap (\<lambda>x. f x c) a"
proof (induction a arbitrary: b)
  case (Cons r a)
  obtain q b' where b: "b = q # b'" using Cons.prems by (cases b) (auto simp: same_shape_def)
  have "map2 f r (map (\<lambda>_. c) q) = map (\<lambda>x. f x c) r"
    using Cons.prems b by (intro nth_equalityI) (auto simp: same_shape_def)
  moreover have "mzip f a (mmap (\<lambda>_. c) b') = mmap (\<lambda>x. f x c) a"
    using Cons.prems b by (intro Cons.IH) (simp add: same_shape_def)
  ultimately show ?case by (simp add: b mzip_def mmap_def)
qed (simp add: mzip_def mmap_def)

lemma mean_over_zero: "mean_over (mmap (\<lambda>_. 0) a) m = 0"
proof -
  have "sum_list (map2 (*) (map (\<lambda>_. 0) xs) ys) = (0 :: real)" for xs :: "'a list" and ys
  proof (induction xs arbitrary: ys)
    case (Cons x xs)
    then show ?case by (cases ys) auto
  qed simp
  then show ?thesis
    by (simp add: mean_over_def masked_mean_def masked_sum_eq mmap_def map_concat [symmetric] del: map_map)
qed

text \<open>on policy (the new log probabilities are the old ones) the PPO loss is the aggregated negative
  advantage and nothing is clipped.\<close>

theorem vanilla_on_policy:
  assumes "1 < clip_ratio_c config" and "0 \<le> clip_low config" and "0 \<le> clip_high config"
    and "same_shape advantages log_prob"
  shows "compute_policy_loss_vanilla log_prob log_prob advantages response_mask mode config None
    = rbind (agg_with config (mmap uminus advantages) response_mask mode)
        (\<lambda>loss. Inr (loss, \<lparr>pg_clipfrac = 0, ppo_kl = 0, pg_clipfrac_lower = 0\<rparr>))"
proof -
  have clamp1: "clamp (1 - clip_low config) (1 + clip_high config) 1 = 1"
    using assms(2,3) by (intro clamp_id) auto
  have tok: "ppo_token_loss (clip_low config) (clip_high config) (clip_ratio_c config) a 1 = - a" for a
    using assms(1) mult_left_mono_neg [of 1 "clip_ratio_c config" a]
    by (auto simp: ppo_token_loss_def ppo_losses1_def ppo_losses2_def clamp1 Let_def)
  have low: "(if a < a * clip_ratio_c config then 1 else 0) * (if a < 0 then 1 else (0 :: real)) = 0" for a
    using assms(1) mult_left_mono_neg [of 1 "clip_ratio_c config" a] by auto
  have neg: "mmap uminus (mmap (\<lambda>_. 0) log_prob) = mmap (\<lambda>_. 0 :: real) log_prob"
    by (simp add: mmap_def comp_def)
  show ?thesis
    using assms(1)
    by (simp add: compute_policy_loss_vanilla_def ppo_core_def ratio_on_policy mzip_const [OF assms(4)] Let_def
        tok ppo_losses1_def ppo_losses2_def clamp1 neg mean_over_zero apply_is_weights_def)
      (simp add: indicator_real_def mean_over_zero low)
qed

definition demo_config :: actor_config where
  "demo_config = \<lparr>clip_ratio = 1 / 5, clip_ratio_low = None, clip_ratio_high = Some (3 / 10), clip_ratio_c = 3,
     tau_pos = 1, tau_neg = 21 / 20, clip_cov_ratio = Some (1 / 2), clip_cov_lb = None, clip_cov_ub = None,
     kl_cov_ratio = None, ppo_kl_coef = None,
     global_batch_info = \<lparr>dp_size = 1, batch_num_tokens = None, global_batch_size = None, loss_scale_factor = None\<rparr>\<rparr>"

theorem vanilla_on_policy_witness:
  "compute_policy_loss_vanilla [[- 1, - 2]] [[- 1, - 2]] [[3, 5]] [[1, 1]] ''token-mean'' demo_config None
    = Inr (- 4, \<lparr>pg_clipfrac = 0, ppo_kl = 0, pg_clipfrac_lower = 0\<rparr>)"
  by (subst vanilla_on_policy)
    (simp_all add: demo_config_def clip_low_def clip_high_def or_else_def same_shape_def agg_with_def agg_loss_def
      normalizer_def masked_sum_def mmap_def)

section \<open>DPPO, SAPO and CISPO\<close>

text \<open>DPPO drops a token exactly when its probability has already moved further than the threshold in
  the direction of its advantage; otherwise the weight of the gradient term is the ratio truncated at
  \<open>c\<close>.\<close>

lemma dppo_tv_masks:
  "(0 < a \<and> high < exp lp - exp old \<longrightarrow> dppo_token_loss c (dppo_tv_valid low high) old lp a = 0)
   \<and> (a \<le> 0 \<and> low < exp old - exp lp \<longrightarrow> dppo_token_loss c (dppo_tv_valid low high) old lp a = 0)
   \<and> (\<bar>exp lp - exp old\<bar> \<le> min low high \<longrightarrow> dppo_token_loss c (dppo_tv_valid low high) old lp a
        = - a * min (exp (clamp (- 20) 20 (lp - old))) c * lp)"
  by (auto simp: dppo_token_loss_def dppo_tv_valid_def indicator_real_def)

section \<open>Clip-Cov\<close>

text \<open>Clip-Cov zeroes the loss of at most \<open>max(1, int(ratio * tokens))\<close> tokens, each of them a valid
  token with a covariance strictly between the bounds.\<close>

theorem clip_cov_budget:
  assumes "\<And>n. length (randperm n) = n \<and> set (randperm n) = {0..<n}"
  shows "let candidates = clip_cov_candidates lb ub advantages log_prob response_mask losses1 losses2;
             selected = clip_cov_selected randperm cov_ratio response_mask candidates
         in int (length selected) \<le> max 1 (floor (cov_ratio * sum_list (concat response_mask)))
          \<and> set selected \<subseteq> set candidates
          \<and> (\<forall>p\<in>set selected. 0 < cell response_mask p)"
proof -
  define cand where "cand = clip_cov_candidates lb ub advantages log_prob response_mask losses1 losses2"
  define sel where "sel = clip_cov_selected randperm cov_ratio response_mask cand"
  have "set sel \<subseteq> set cand"
    using assms [of "length cand"] set_take_subset [of _ "randperm (length cand)"]
    by (fastforce simp: sel_def clip_cov_selected_def Let_def)
  moreover have "int (length sel) \<le> max 1 (floor (cov_ratio * sum_list (concat response_mask)))"
    using assms [of "length cand"] by (auto simp: sel_def clip_cov_selected_def Let_def)
  moreover have "\<forall>p\<in>set cand. 0 < cell response_mask p"
    by (auto simp: cand_def clip_cov_candidates_def Let_def)
  ultimately show ?thesis
    unfolding Let_def cand_def sel_def by blast
qed

theorem clip_cov_budget_witness:
  "let candidates = clip_cov_candidates 5 (- 5) [[1, 2]] [[- 1, - 2]] [[1, 1]] [[0, 0]] [[0, 0]];
             selected = clip_cov_selected (\<lambda>n. rev [0..<n]) (1 / 2) [[1, 1]] candidates
         in int (length selected) \<le> max 1 (floor (1 / 2 * sum_list (concat [[1, 1 :: real]])))
          \<and> set selected \<subseteq> set candidates
          \<and> (\<forall>p\<in>set selected. 0 < cell [[1, 1 :: real]] p)"
  by (rule clip_cov_budget) auto

section \<open>Value loss and KL\<close>

text \<open>The value loss is pessimistic: each token costs at least its unclipped squared error, and exactly
  that when the prediction stays within the clip range of the old value.\<close>

lemma value_loss_pessimistic:
  "(vpred - ret)\<^sup>2 \<le> (case value_loss_terms cr vpred ret v of (l1, l2) \<Rightarrow> max l1 l2)
   \<and> (\<bar>vpred - v\<bar> \<le> cr \<longrightarrow> value_loss_terms cr vpred ret v = ((vpred - ret)\<^sup>2, (vpred - ret)\<^sup>2))"
proof -
  have "clip_by_value vpred (v - cr) (v + cr) = vpred" if "\<bar>vpred - v\<bar> \<le> cr"
    using that by (auto simp: clip_by_value_def)
  then show ?thesis by (simp add: value_loss_terms_def)
qed

text \<open>the \<open>k3\<close> estimator lies between 0 and 10 and is 0 only for equal log probabilities; the
  straight-through variant has the same value.\<close>

theorem k3_nonneg:
  "\<exists>kl. kl_penalty logprob ref_logprob ''k3'' = Inr kl \<and> kl_penalty logprob ref_logprob ''k3+'' = Inr kl
     \<and> 0 \<le> kl \<and> kl \<le> 10 \<and> (kl = 0 \<longleftrightarrow> logprob = ref_logprob)"
proof -
  define d where "d = clamp (- 20) 20 (ref_logprob - logprob)"
  have d0: "d = 0 \<longleftrightarrow> logprob = ref_logprob"
    by (auto simp: d_def clamp_def)
  have pos: "0 \<le> exp d - d - 1"
    using exp_ge_add_one_self [of d] by linarith
  have "1 + d < exp d" if "d \<noteq> 0"
  proof (cases "- 2 \<le> d")
    case True
    have "(1 + d / 2)\<^sup>2 \<le> (exp (d / 2))\<^sup>2"
      using True exp_ge_add_one_self [of "d / 2"] by (intro power_mono) auto
    also have "\<dots> = exp d" by (simp add: power2_eq_square flip: exp_add)
    finally have "1 + d + d\<^sup>2 / 4 \<le> exp d" by (simp add: power2_eq_square field_simps)
    moreover have "0 < d\<^sup>2" using that by simp
    ultimately show ?thesis by linarith
  next
    case False
    then have "1 + d < 0" by simp
    then show ?thesis using exp_gt_zero [of d] by linarith
  qed
  then have zero: "exp d - d - 1 = 0 \<longleftrightarrow> d = 0" by force
  define k where "k = clamp (- 10) 10 (exp d - d - 1)"
  have k: "kl_penalty logprob ref_logprob ''k3'' = Inr k" "kl_penalty logprob ref_logprob ''k3+'' = Inr k"
    by (simp_all add: kl_penalty_def kl_penalty_forward_def Let_def k_def d_def)
  have "k = min (exp d - d - 1) 10"
    using pos by (simp add: k_def clamp_def)
  then have "0 \<le> k" "k \<le> 10" "k = 0 \<longleftrightarrow> logprob = ref_logprob"
    using pos zero d0 by (auto simp: min_def)
  with k show ?thesis by blast
qed

text \<open>one update moves the adaptive KL coefficient by at most a fifth of \<open>n_steps / horizon\<close>, up when
  the measured KL exceeds the target and down when it is below it; as long as fewer than five horizons
  of steps pass at once the coefficient stays positive.\<close>

theorem kl_controller_band:
  assumes "0 < v" and "0 < tgt" and "0 < h" and "0 \<le> n"
  shows "let v' = kl_value (kl_update (AdaptiveKLController v tgt h) current n) in
     v * (1 - 2 / 10 * n / h) \<le> v' \<and> v' \<le> v * (1 + 2 / 10 * n / h)
     \<and> (tgt \<le> current \<longrightarrow> v \<le> v') \<and> (current \<le> tgt \<longrightarrow> v' \<le> v) \<and> (n < 5 * h \<longrightarrow> 0 < v')"
proof -
  define e where "e = clamp (- (2 / 10)) (2 / 10) (current / tgt - 1)"
  define r where "r = n / h"
  have e: "- (2 / 10) \<le> e" "e \<le> 2 / 10" and r: "0 \<le> r"
    using clamp_bounds [of "- (2 / 10)" "2 / 10"] assms by (simp_all add: e_def r_def)
  have v': "kl_value (kl_update (AdaptiveKLController v tgt h) current n) = v * (1 + e * r)"
    by (simp add: Let_def e_def r_def)
  have up: "e * r \<le> 2 / 10 * r" and low: "- (2 / 10) * r \<le> e * r"
    using e r by (simp_all only: mult_right_mono)
  have "0 \<le> e" if "tgt \<le> current" using that assms by (simp add: e_def clamp_def le_max_iff_disj)
  moreover have "e \<le> 0" if "current \<le> tgt" using that assms by (simp add: e_def clamp_def min_le_iff_disj)
  moreover have "0 < 1 + e * r" if "n < 5 * h"
  proof -
    have "r < 5" using that assms by (simp add: r_def pos_divide_less_eq)
    then show ?thesis using low by linarith
  qed
  moreover define k where "k = kl_value (kl_update (AdaptiveKLController v tgt h) current n)"
  moreover have "v * (1 - 2 / 10 * n / h) \<le> v * (1 + e * r)" "v * (1 + e * r) \<le> v * (1 + 2 / 10 * n / h)"
    using up low assms(1) by (auto simp: r_def intro!: mult_left_mono)
  moreover have "0 \<le> e \<Longrightarrow> v * 1 \<le> v * (1 + e * r)" "e \<le> 0 \<Longrightarrow> v * (1 + e * r) \<le> v * 1"
    using r assms(1) by (intro mult_left_mono, simp_all add: mult_nonpos_nonneg)+
  ultimately show ?thesis
    using v' assms(1) by (simp only: Let_def mult_1_right k_def [symmetric]) simp
qed

theorem kl_controller_band_witness:
  "1 * (1 - 2 / 10 * 1 / 10) \<le> kl_value (kl_update (AdaptiveKLController 1 6 10) 12 1)"
  using kl_controller_band [of 1 6 10 1 12] by (simp add: Let_def)

end
