(* ===== verification/PyValue.thy ===== *)
theory PyValue
  imports Prelude
begin

text \<open>
  Python values and dictionaries for the simulated API backends in
  \<open>verl/utils/bfcl_multiturn/func_source_code/\<close>, the string methods they use, and the contract
  of a backend: a state, calls that return a value or raise, and an invariant. Text is ASCII.
\<close>

section \<open>Values\<close>

text \<open>Floating-point numbers are rationals; dictionaries have string keys in insertion order.\<close>

datatype pyval =
    PNone
  | PBool bool
  | PInt int
  | PFloat rat
  | PStr string
  | PList "pyval list"
  | PDict "(string \<times> pyval) list"

type_synonym 'v pydict = "(string \<times> 'v) list"

text \<open>\<open>d[k] = v\<close>: an existing key keeps its place, a new one is appended. \<open>del d[k]\<close> removes it.\<close>

fun dict_set :: "'k \<Rightarrow> 'v \<Rightarrow> ('k \<times> 'v) list \<Rightarrow> ('k \<times> 'v) list" where
  "dict_set k v [] = [(k, v)]"
| "dict_set k v ((k', v') # d) = (if k = k' then (k, v) # d else (k', v') # dict_set k v d)"

definition dict_del :: "'k \<Rightarrow> ('k \<times> 'v) list \<Rightarrow> ('k \<times> 'v) list" where
  "dict_del k d = filter (\<lambda>(k', _). k' \<noteq> k) d"

definition dict_update :: "('k \<times> 'v) list \<Rightarrow> ('k \<times> 'v) list \<Rightarrow> ('k \<times> 'v) list" where
  "dict_update d e = foldl (\<lambda>d (k, v). dict_set k v d) d e"

text \<open>A string between single quotes.\<close>

definition quoted :: "string \<Rightarrow> string" where
  "quoted k = CHR 0x27 # k @ [CHR 0x27]"

text \<open>\<open>d[k]\<close>, which raises \<open>KeyError\<close> for a missing key, and \<open>d.get(k, default)\<close>.\<close>

definition dict_index :: "'v pydict \<Rightarrow> string \<Rightarrow> 'v result" where
  "dict_index d k = (case map_of d k of None \<Rightarrow> Inl (KeyError (quoted k)) | Some v \<Rightarrow> Inr v)"

definition dict_get_or :: "('k \<times> 'v) list \<Rightarrow> 'k \<Rightarrow> 'v \<Rightarrow> 'v" where
  "dict_get_or d k v0 = (case map_of d k of None \<Rightarrow> v0 | Some v \<Rightarrow> v)"

text \<open>\<open>v == i\<close> for an integer \<open>i\<close>, where Python compares numbers across their types; \<open>v == s\<close> for text.\<close>

fun eq_int :: "pyval \<Rightarrow> int \<Rightarrow> bool" where
  "eq_int (PInt j) i = (j = i)"
| "eq_int (PFloat r) i = (r = rat_of_int i)"
| "eq_int (PBool b) i = ((if b then 1 else 0) = i)"
| "eq_int _ i = False"

definition eq_str :: "pyval \<Rightarrow> string \<Rightarrow> bool" where
  "eq_str v s \<longleftrightarrow> v = PStr s"

text \<open>Truth values of an optional string: \<open>None\<close> and the empty string are false.\<close>

definition truthy_str :: "string option \<Rightarrow> bool" where
  "truthy_str s \<longleftrightarrow> s \<noteq> None \<and> s \<noteq> Some []"

definition opt_str :: "string option \<Rightarrow> pyval" where
  "opt_str s = (case s of None \<Rightarrow> PNone | Some t \<Rightarrow> PStr t)"

section \<open>String methods\<close>

definition lower_char :: "char \<Rightarrow> char" where
  "lower_char c = (if 65 \<le> (of_char c :: nat) \<and> (of_char c :: nat) \<le> 90 then char_of (of_char c + 32 :: nat) else c)"

definition lower :: "string \<Rightarrow> string" where
  "lower s = map lower_char s"

text \<open>\<open>v.lower()\<close> on a value: only strings have the method.\<close>

definition value_lower :: "pyval \<Rightarrow> string result" where
  "value_lower v = (case v of PStr s \<Rightarrow> Inr (lower s) | _ \<Rightarrow> Inl (AttributeError (''object has no attribute '' @ quoted ''lower'')))"

text \<open>\<open>a in b\<close> for strings, \<open>sep.join(xs)\<close> and \<open>s.zfill(w)\<close> for text without a sign.\<close>

definition contains :: "string \<Rightarrow> string \<Rightarrow> bool" where
  "contains a b = sublist a b"

fun join :: "string \<Rightarrow> string list \<Rightarrow> string" where
  "join sep [] = []"
| "join sep [x] = x"
| "join sep (x # y # ys) = x @ sep @ join sep (y # ys)"

definition zfill :: "nat \<Rightarrow> string \<Rightarrow> string" where
  "zfill w s = replicate (w - length s) CHR ''0'' @ s"

section \<open>Responses\<close>

definition error_dict :: "string \<Rightarrow> pyval" where
  "error_dict m = PDict [(''error'', PStr m)]"

text \<open>A response that reports a failure: an exception, or a dictionary with the key \<open>error\<close>.\<close>

definition is_error :: "pyval result \<Rightarrow> bool" where
  "is_error r = (case r of Inl _ \<Rightarrow> True
     | Inr (PDict d) \<Rightarrow> ''error'' \<in> fst ` set d
     | Inr _ \<Rightarrow> False)"

section \<open>The contract of a backend\<close>

text \<open>
  Calls run one after the other; an exception is reported to the caller and the state stays as
  the call left it. \<open>run_calls\<close> collects the responses.
\<close>

fun run_calls :: "('call \<Rightarrow> 'st \<Rightarrow> pyval result \<times> 'st) \<Rightarrow> 'call list \<Rightarrow> 'st \<Rightarrow> pyval result list \<times> 'st" where
  "run_calls step [] s = ([], s)"
| "run_calls step (c # cs) s =
     (case step c s of (r, s') \<Rightarrow> case run_calls step cs s' of (rs, t) \<Rightarrow> (r # rs, t))"

locale backend =
  fixes step :: "'call \<Rightarrow> 'st \<Rightarrow> pyval result \<times> 'st" and inv :: "'st \<Rightarrow> bool"
  assumes step_inv: "inv s \<Longrightarrow> inv (snd (step c s))"
begin

lemma run_inv: "inv s \<Longrightarrow> inv (snd (run_calls step cs s))"
proof (induction cs arbitrary: s)
  case (Cons c cs)
  then have "inv (snd (step c s))" by (simp add: step_inv)
  from Cons.IH [OF this] show ?case by (auto split: prod.splits)
qed simp

lemma run_append:
  "run_calls step (cs @ ds) s = (case run_calls step cs s of (rs, t) \<Rightarrow>
     case run_calls step ds t of (rs', u) \<Rightarrow> (rs @ rs', u))"
  by (induction cs arbitrary: s) (auto split: prod.splits)

end

text \<open>A backend whose failing calls leave the state alone.\<close>

locale atomic_backend = backend +
  assumes error_atomic: "inv s \<Longrightarrow> is_error (fst (step c s)) \<Longrightarrow> snd (step c s) = s"
begin

lemma failing_calls_do_nothing:
  "inv s \<Longrightarrow> list_all is_error (fst (run_calls step cs s)) \<Longrightarrow> snd (run_calls step cs s) = s"
proof (induction cs arbitrary: s)
  case (Cons c cs)
  obtain r s' where c: "step c s = (r, s')" by (cases "step c s")
  obtain rs t where cs: "run_calls step cs s' = (rs, t)" by (cases "run_calls step cs s'")
  have "is_error r" and "list_all is_error rs" using Cons.prems(2) c cs by simp_all
  then have "s' = s" using error_atomic [of s c] Cons.prems(1) c by simp
  then show ?case using Cons.IH [of s] Cons.prems(1) c cs \<open>list_all is_error rs\<close> by simp
qed simp

end

text \<open>
  Backends some of whose calls may not return: \<open>None\<close> is a call that runs forever, and then the
  calls after it are not made.
\<close>

fun run_some :: "('call \<Rightarrow> 'st \<Rightarrow> (pyval result \<times> 'st) option) \<Rightarrow> 'call list \<Rightarrow> 'st
    \<Rightarrow> (pyval result list \<times> 'st) option" where
  "run_some step [] s = Some ([], s)"
| "run_some step (c # cs) s =
     (case step c s of None \<Rightarrow> None
      | Some (r, s') \<Rightarrow> map_option (\<lambda>(rs, t). (r # rs, t)) (run_some step cs s'))"

lemma run_some_append:
  "run_some step (cs @ ds) s = (case run_some step cs s of None \<Rightarrow> None
     | Some (rs, t) \<Rightarrow> map_option (\<lambda>(rs', u). (rs @ rs', u)) (run_some step ds t))"
proof (induction cs arbitrary: s)
  case Nil
  show ?case by (cases "run_some step ds s") auto
next
  case (Cons c cs)
  have merge: "map_option (\<lambda>(rs, t). (r # rs, t)) (map_option (\<lambda>(rs', u). (rs @ rs', u)) x)
      = map_option (\<lambda>(rs', u). (r # rs @ rs', u)) x" for r rs x by (cases x) auto
  show ?case by (auto simp: Cons.IH merge split: option.splits)
qed

locale looping_backend =
  fixes step :: "'call \<Rightarrow> 'st \<Rightarrow> (pyval result \<times> 'st) option" and inv :: "'st \<Rightarrow> bool"
  assumes step_inv: "inv s \<Longrightarrow> step c s = Some (r, t) \<Longrightarrow> inv t"
begin

lemma run_inv: "inv s \<Longrightarrow> run_some step cs s = Some (rs, t) \<Longrightarrow> inv t"
  by (induction cs arbitrary: s rs) (auto split: option.splits dest: step_inv)

lemma run_returns:
  assumes "\<And>s c. inv s \<Longrightarrow> step c s \<noteq> None" and "inv s"
  shows "\<exists>rs t. run_some step cs s = Some (rs, t) \<and> inv t"
  using assms(2)
proof (induction cs arbitrary: s)
  case (Cons c cs)
  obtain r s' where c: "step c s = Some (r, s')" using assms(1) [OF Cons.prems, of c] by auto
  then have "inv s'" using Cons.prems step_inv by blast
  from Cons.IH [OF this] c show ?case by auto
qed simp

lemma run_atomic:
  assumes "\<And>s c r t. inv s \<Longrightarrow> step c s = Some (r, t) \<Longrightarrow> is_error r \<Longrightarrow> t = s"
    and "inv s" and "run_some step cs s = Some (rs, t)" and "list_all is_error rs"
  shows "t = s"
  using assms(2-4)
proof (induction cs arbitrary: s rs)
  case (Cons c cs)
  then obtain r s' rs' where c: "step c s = Some (r, s')" and cs: "run_some step cs s' = Some (rs', t)"
    and rs: "rs = r # rs'" by (auto split: option.splits)
  then have "s' = s" using assms(1) [OF Cons.prems(1) c] Cons.prems(3) by simp
  then show ?case using Cons.IH [of s rs'] Cons.prems(1,3) cs rs by simp
qed simp

end

sublocale backend \<subseteq> looping: looping_backend "\<lambda>c s. Some (step c s)" inv
  by unfold_locales (metis step_inv option.inject snd_conv)

section \<open>Lemmas\<close>

lemma map_of_dict_set: "map_of (dict_set k v d) j = (if j = k then Some v else map_of d j)"
  by (induction k v d rule: dict_set.induct) auto

lemma dict_set_keys:
  "map fst (dict_set k v d) = (if k \<in> set (map fst d) then map fst d else map fst d @ [k])"
  by (induction k v d rule: dict_set.induct) auto

lemma distinct_dict_set: "distinct (map fst d) \<Longrightarrow> distinct (map fst (dict_set k v d))"
  by (auto simp: dict_set_keys)

lemma map_of_dict_update:
  "distinct (map fst e) \<Longrightarrow> map_of (dict_update d e) k = (case map_of e k of None \<Rightarrow> map_of d k | Some v \<Rightarrow> Some v)"
proof (induction e arbitrary: d)
  case (Cons p e)
  have "dict_update d (p # e) = dict_update (dict_set (fst p) (snd p) d) e"
    by (simp add: dict_update_def split_beta)
  moreover have "map_of e (fst p) = None" using Cons.prems by (simp add: map_of_eq_None_iff)
  ultimately show ?case
    using Cons.IH [of "dict_set (fst p) (snd p) d"] Cons.prems by (cases p) (auto simp: map_of_dict_set split: option.splits)
qed (simp add: dict_update_def)

lemma map_of_dict_del: "map_of (dict_del k d) j = (if j = k then None else map_of d j)"
  unfolding dict_del_def by (induction d) auto

lemma distinct_dict_del: "distinct (map fst d) \<Longrightarrow> distinct (map fst (dict_del k d))"
  unfolding dict_del_def by (induction d) auto

lemma is_error_simps [simp]:
  "is_error (Inl e)" "is_error (Inr (error_dict m))"
  "is_error (Inr (PDict d)) \<longleftrightarrow> ''error'' \<in> fst ` set d"
  "\<not> is_error (Inr (PList xs))"
  by (simp_all add: is_error_def error_dict_def)

end
