(* ===== verification/Ticket.thy ===== *)
theory Ticket
  imports PyValue
begin

text \<open>
  The ticketing backend \<open>ticket_api.py\<close>. A ticket is a dictionary; the queue holds the tickets
  in order of creation.
\<close>

type_synonym ticket = "pyval pydict"

record ticket_api =
  ticket_queue :: "ticket list"
  ticket_counter :: int
  current_user :: "string option"

text \<open>A scenario gives some of the attributes; \<open>DEFAULT_STATE\<close> gives the others.\<close>

definition load_scenario :: "ticket list option \<Rightarrow> int option \<Rightarrow> string option option \<Rightarrow> ticket_api" where
  "load_scenario queue counter user =
     \<lparr>ticket_queue = (case queue of None \<Rightarrow> [] | Some q \<Rightarrow> q),
      ticket_counter = (case counter of None \<Rightarrow> 1 | Some c \<Rightarrow> c),
      current_user = (case user of None \<Rightarrow> None | Some u \<Rightarrow> u)\<rparr>"

definition create_ticket :: "string \<Rightarrow> string \<Rightarrow> int \<Rightarrow> ticket_api \<Rightarrow> pyval result \<times> ticket_api" where
  "create_ticket title description priority s =
     (if \<not> truthy_str (current_user s)
      then (Inr (error_dict ''User not authenticated. Please log in to create a ticket.''), s)
      else if priority < 1 \<or> 5 < priority
      then (Inr (error_dict ''Invalid priority. Priority must be between 1 and 5.''), s)
      else let ticket = [(''id'', PInt (ticket_counter s)), (''title'', PStr title),
                (''description'', PStr description), (''status'', PStr ''Open''),
                (''priority'', PInt priority), (''created_by'', opt_str (current_user s))]
           in (Inr (PDict ticket),
               s\<lparr>ticket_queue := ticket_queue s @ [ticket], ticket_counter := ticket_counter s + 1\<rparr>))"

text \<open>
  \<open>_find_ticket\<close>: the position of the first ticket with the id, or \<open>None\<close>. The caller mutates
  the ticket at that position. A ticket without an id raises.
\<close>

fun find_ticket :: "int \<Rightarrow> ticket list \<Rightarrow> nat option result" where
  "find_ticket ticket_id [] = Inr None"
| "find_ticket ticket_id (t # ts) =
     rbind (dict_index t ''id'') (\<lambda>v.
       if eq_int v ticket_id then Inr (Some 0)
       else rbind (find_ticket ticket_id ts) (\<lambda>r. Inr (map_option Suc r)))"

definition not_found :: "int \<Rightarrow> pyval" where
  "not_found ticket_id = error_dict (''Ticket with ID '' @ show_int ticket_id @ '' not found.'')"

text \<open>The common shape of the operations on one ticket.\<close>

definition on_ticket ::
    "int \<Rightarrow> (ticket \<Rightarrow> (pyval \<times> ticket) result) \<Rightarrow> ticket_api \<Rightarrow> pyval result \<times> ticket_api" where
  "on_ticket ticket_id f s =
     (case find_ticket ticket_id (ticket_queue s) of
        Inl e \<Rightarrow> (Inl e, s)
      | Inr None \<Rightarrow> (Inr (not_found ticket_id), s)
      | Inr (Some i) \<Rightarrow>
          (case f (ticket_queue s ! i) of
             Inl e \<Rightarrow> (Inl e, s)
           | Inr (v, t) \<Rightarrow> (Inr v, s\<lparr>ticket_queue := (ticket_queue s)[i := t]\<rparr>)))"

definition get_ticket :: "int \<Rightarrow> ticket_api \<Rightarrow> pyval result \<times> ticket_api" where
  "get_ticket ticket_id = on_ticket ticket_id (\<lambda>t. Inr (PDict t, t))"

definition status_response :: "int \<Rightarrow> string \<Rightarrow> pyval" where
  "status_response ticket_id what =
     PDict [(''status'', PStr (''Ticket '' @ show_int ticket_id @ '' has been '' @ what @ '' successfully.''))]"

definition close_ticket :: "int \<Rightarrow> ticket_api \<Rightarrow> pyval result \<times> ticket_api" where
  "close_ticket ticket_id = on_ticket ticket_id (\<lambda>t.
     rbind (dict_index t ''status'') (\<lambda>v.
       if eq_str v ''Closed''
       then Inr (error_dict (''Ticket with ID '' @ show_int ticket_id @ '' is already closed.''), t)
       else Inr (status_response ticket_id ''closed'', dict_set ''status'' (PStr ''Closed'') t)))"

definition resolve_ticket :: "int \<Rightarrow> string \<Rightarrow> ticket_api \<Rightarrow> pyval result \<times> ticket_api" where
  "resolve_ticket ticket_id resolution = on_ticket ticket_id (\<lambda>t.
     rbind (dict_index t ''status'') (\<lambda>v.
       if eq_str v ''Resolved''
       then Inr (error_dict (''Ticket with ID '' @ show_int ticket_id @ '' is already resolved.''), t)
       else Inr (status_response ticket_id ''resolved'',
                 dict_set ''resolution'' (PStr resolution) (dict_set ''status'' (PStr ''Resolved'') t))))"

definition valid_fields :: "string list" where
  "valid_fields = [''title'', ''description'', ''status'', ''priority'']"

text \<open>
  \<open>set_order\<close> lists the elements of a set in Python's iteration order, which the message about
  invalid fields depends on.
\<close>

definition edit_ticket ::
    "(string list \<Rightarrow> string list) \<Rightarrow> int \<Rightarrow> pyval pydict \<Rightarrow> ticket_api \<Rightarrow> pyval result \<times> ticket_api" where
  "edit_ticket set_order ticket_id updates = on_ticket ticket_id (\<lambda>t.
     let invalid_fields = filter (\<lambda>k. k \<notin> set valid_fields) (map fst updates)
     in if invalid_fields \<noteq> []
        then Inr (error_dict (''Invalid fields for update: '' @ join '', '' (set_order invalid_fields)), t)
        else Inr (status_response ticket_id ''updated'',
                  foldl (\<lambda>t (key, v). if v \<noteq> PNone then dict_set key v t else t) t updates))"

definition ticket_login :: "string \<Rightarrow> string \<Rightarrow> ticket_api \<Rightarrow> pyval result \<times> ticket_api" where
  "ticket_login username password s =
     (if username \<noteq> [] \<and> password \<noteq> []
      then (Inr (PDict [(''success'', PBool True)]), s\<lparr>current_user := Some username\<rparr>)
      else (Inr (PDict [(''success'', PBool False)]), s))"

definition ticket_get_login_status :: "ticket_api \<Rightarrow> pyval result \<times> ticket_api" where
  "ticket_get_login_status s = (Inr (PDict [(''login_status'', PBool (truthy_str (current_user s)))]), s)"

definition logout :: "ticket_api \<Rightarrow> pyval result \<times> ticket_api" where
  "logout s =
     (if truthy_str (current_user s)
      then (Inr (PDict [(''success'', PBool True)]), s\<lparr>current_user := None\<rparr>)
      else (Inr (PDict [(''success'', PBool False)]), s))"

text \<open>List comprehensions whose condition may raise.\<close>

fun filter_result :: "('a \<Rightarrow> bool result) \<Rightarrow> 'a list \<Rightarrow> 'a list result" where
  "filter_result p [] = Inr []"
| "filter_result p (x # xs) =
     rbind (p x) (\<lambda>b. rbind (filter_result p xs) (\<lambda>ys. Inr (if b then x # ys else ys)))"

definition get_user_tickets :: "string option \<Rightarrow> ticket_api \<Rightarrow> pyval result \<times> ticket_api" where
  "get_user_tickets status s =
     (if \<not> truthy_str (current_user s)
      then (Inr (PList [error_dict ''User not authenticated. Please log in to view tickets.'']), s)
      else
        (rbind (filter_result (\<lambda>t. rbind (dict_index t ''created_by'') (\<lambda>v.
                   Inr (eq_str v (the (current_user s))))) (ticket_queue s)) (\<lambda>user_tickets.
         rbind (if truthy_str status
                then filter_result (\<lambda>t. rbind (dict_index t ''status'') (\<lambda>v.
                       rbind (value_lower v) (\<lambda>l. Inr (l = lower (the status))))) user_tickets
                else Inr user_tickets) (\<lambda>ts. Inr (PList (map PDict ts)))), s))"

section \<open>The calls\<close>

datatype ticket_call =
    CreateTicket string string int
  | GetTicket int
  | CloseTicket int
  | ResolveTicket int string
  | EditTicket int "pyval pydict"
  | TicketLogin string string
  | TicketGetLoginStatus
  | Logout
  | GetUserTickets "string option"

fun ticket_step ::
    "(string list \<Rightarrow> string list) \<Rightarrow> ticket_call \<Rightarrow> ticket_api \<Rightarrow> pyval result \<times> ticket_api" where
  "ticket_step set_order (CreateTicket title description priority) = create_ticket title description priority"
| "ticket_step set_order (GetTicket i) = get_ticket i"
| "ticket_step set_order (CloseTicket i) = close_ticket i"
| "ticket_step set_order (ResolveTicket i resolution) = resolve_ticket i resolution"
| "ticket_step set_order (EditTicket i updates) = edit_ticket set_order i updates"
| "ticket_step set_order (TicketLogin username password) = ticket_login username password"
| "ticket_step set_order TicketGetLoginStatus = ticket_get_login_status"
| "ticket_step set_order Logout = logout"
| "ticket_step set_order (GetUserTickets status) = get_user_tickets status"

section \<open>The invariant\<close>

text \<open>The immutable part of a ticket: its id and its creator.\<close>

definition ticket_key :: "ticket \<Rightarrow> pyval option \<times> pyval option" where
  "ticket_key t = (map_of t ''id'', map_of t ''created_by'')"

definition ticket_inv :: "ticket_api \<Rightarrow> bool" where
  "ticket_inv s \<longleftrightarrow>
     (\<exists>ids. map (\<lambda>t. map_of t ''id'') (ticket_queue s) = map (\<lambda>i. Some (PInt i)) ids
        \<and> distinct ids \<and> (\<forall>i\<in>set ids. i < ticket_counter s))"

text \<open>A call either leaves the keys of the tickets and the counter, or adds a ticket with the counter as id.\<close>

definition ticket_progress :: "ticket_api \<Rightarrow> ticket_api \<Rightarrow> bool" where
  "ticket_progress s s' \<longleftrightarrow>
     (map ticket_key (ticket_queue s') = map ticket_key (ticket_queue s)
        \<and> ticket_counter s' = ticket_counter s)
     \<or> (\<exists>t. ticket_queue s' = ticket_queue s @ [t] \<and> map_of t ''id'' = Some (PInt (ticket_counter s))
          \<and> ticket_counter s' = ticket_counter s + 1)"

lemma find_ticket_nth:
  "find_ticket i ts = Inr (Some n) \<Longrightarrow>
     n < length ts \<and> (\<exists>v. map_of (ts ! n) ''id'' = Some v \<and> eq_int v i)"
proof (induction i ts arbitrary: n rule: find_ticket.induct)
  case (2 i t ts)
  then show ?case
    by (auto simp: rbind_eq_Inr dict_index_def split: option.splits if_splits)
qed simp

text \<open>An operation on one ticket that keeps its key keeps the queue's keys.\<close>

lemma on_ticket_keys:
  assumes "\<And>t v t'. f t = Inr (v, t') \<Longrightarrow> ticket_key t' = ticket_key t"
  shows "map ticket_key (ticket_queue (snd (on_ticket i f s))) = map ticket_key (ticket_queue s)
     \<and> ticket_counter (snd (on_ticket i f s)) = ticket_counter s
     \<and> current_user (snd (on_ticket i f s)) = current_user s"
proof -
  have "map ticket_key ((ticket_queue s)[n := t']) = map ticket_key (ticket_queue s)"
    if "f (ticket_queue s ! n) = Inr (v, t')" "n < length (ticket_queue s)" for n v t'
    using assms [OF that(1)] that(2) by (metis list_update_id map_update nth_map)
  then show ?thesis
    using find_ticket_nth [of i "ticket_queue s"]
    by (auto simp: on_ticket_def split: sum.splits option.splits)
qed

lemma ticket_key_set [simp]:
  "k \<noteq> ''id'' \<Longrightarrow> k \<noteq> ''created_by'' \<Longrightarrow> ticket_key (dict_set k v t) = ticket_key t"
  by (simp add: ticket_key_def map_of_dict_set)

lemma ticket_key_updates:
  "set (map fst updates) \<subseteq> set valid_fields \<Longrightarrow>
     ticket_key (foldl (\<lambda>t (key, v). if v \<noteq> PNone then dict_set key v t else t) t updates) = ticket_key t"
proof (induction updates arbitrary: t)
  case (Cons u updates)
  obtain k v where u: "u = (k, v)" by (cases u)
  have "k \<noteq> ''id''" "k \<noteq> ''created_by''" using Cons.prems by (auto simp: u valid_fields_def)
  then show ?case using Cons by (simp add: u)
qed simp

lemma progress_on_ticket:
  "(\<And>t v t'. f t = Inr (v, t') \<Longrightarrow> ticket_key t' = ticket_key t) \<Longrightarrow>
     ticket_progress s (snd (on_ticket i f s))"
  using on_ticket_keys [of f i s] by (simp add: ticket_progress_def)

text \<open>An error response of an operation on one ticket comes with the ticket unchanged.\<close>

lemma atomic_on_ticket:
  assumes "\<And>t v t'. f t = Inr (v, t') \<Longrightarrow> is_error (Inr v) \<Longrightarrow> t' = t"
    and "is_error (fst (on_ticket i f s))"
  shows "snd (on_ticket i f s) = s"
proof (cases "find_ticket i (ticket_queue s)")
  case (Inl e)
  then show ?thesis by (simp add: on_ticket_def)
next
  case (Inr r)
  show ?thesis
  proof (cases r)
    case None
    then show ?thesis using Inr by (simp add: on_ticket_def)
  next
    case (Some n)
    show ?thesis
    proof (cases "f (ticket_queue s ! n)")
      case (Inl e)
      then show ?thesis using Inr Some \<open>find_ticket i (ticket_queue s) = Inr r\<close> by (simp add: on_ticket_def)
    next
      case f: (Inr p)
      obtain v t where p: "p = (v, t)" by (cases p)
      then have "is_error (Inr v)"
        using assms(2) Inr Some f by (simp add: on_ticket_def)
      then have "t = ticket_queue s ! n" using assms(1) f p by blast
      then show ?thesis using Inr Some f p by (simp add: on_ticket_def)
    qed
  qed
qed

lemma not_error_status [simp]: "\<not> is_error (Inr (status_response i w))"
  by (simp add: status_response_def)

lemma edit_cases:
  assumes "(let invalid_fields = filter (\<lambda>k. k \<notin> set valid_fields) (map fst updates)
     in if invalid_fields \<noteq> []
        then Inr (error_dict (m invalid_fields), t)
        else Inr (status_response i w, foldl (\<lambda>t (key, v). if v \<noteq> PNone then dict_set key v t else t) t updates)) = Inr (v, t')"
  shows "ticket_key t' = ticket_key t \<and> (is_error (Inr v) \<longrightarrow> t' = t)"
  using assms ticket_key_updates [of updates t] by (auto simp: Let_def filter_empty_conv split: if_splits)

lemma ticket_step_progress: "ticket_progress s (snd (ticket_step set_order c s))"
proof (cases c)
  case (CreateTicket title description priority)
  then show ?thesis by (auto simp: create_ticket_def ticket_progress_def Let_def)
next
  case (GetTicket i)
  then show ?thesis by (auto simp: get_ticket_def intro!: progress_on_ticket)
next
  case (CloseTicket i)
  then show ?thesis
    by (auto simp: close_ticket_def rbind_eq_Inr intro!: progress_on_ticket split: if_splits)
next
  case (ResolveTicket i r)
  then show ?thesis
    by (auto simp: resolve_ticket_def rbind_eq_Inr intro!: progress_on_ticket split: if_splits)
next
  case (EditTicket i updates)
  have "ticket_progress s (snd (edit_ticket set_order i updates s))"
    unfolding edit_ticket_def by (rule progress_on_ticket) (drule edit_cases, blast)
  then show ?thesis by (simp add: EditTicket)
next
  case (TicketLogin u p)
  then show ?thesis by (simp add: ticket_login_def ticket_progress_def)
next
  case TicketGetLoginStatus
  then show ?thesis by (simp add: ticket_get_login_status_def ticket_progress_def)
next
  case Logout
  then show ?thesis by (simp add: logout_def ticket_progress_def)
next
  case (GetUserTickets st)
  then show ?thesis by (simp add: get_user_tickets_def ticket_progress_def)
qed

lemma ticket_step_atomic:
  "is_error (fst (ticket_step set_order c s)) \<Longrightarrow> snd (ticket_step set_order c s) = s"
proof (cases c)
  case (EditTicket i updates)
  assume err: "is_error (fst (ticket_step set_order c s))"
  have "snd (edit_ticket set_order i updates s) = s"
    unfolding edit_ticket_def
    by (rule atomic_on_ticket) (drule edit_cases, blast, use err EditTicket in \<open>simp add: edit_ticket_def\<close>)
  then show ?thesis by (simp add: EditTicket)
next
  case (CloseTicket i)
  assume err: "is_error (fst (ticket_step set_order c s))"
  have "snd (close_ticket i s) = s"
    unfolding close_ticket_def
    by (rule atomic_on_ticket)
      (auto simp: rbind_eq_Inr split: if_splits, use err CloseTicket in \<open>simp add: close_ticket_def\<close>)
  then show ?thesis by (simp add: CloseTicket)
next
  case (ResolveTicket i r)
  assume err: "is_error (fst (ticket_step set_order c s))"
  have "snd (resolve_ticket i r s) = s"
    unfolding resolve_ticket_def
    by (rule atomic_on_ticket)
      (auto simp: rbind_eq_Inr split: if_splits, use err ResolveTicket in \<open>simp add: resolve_ticket_def\<close>)
  then show ?thesis by (simp add: ResolveTicket)
next
  case (GetTicket i)
  assume err: "is_error (fst (ticket_step set_order c s))"
  have "snd (get_ticket i s) = s"
    unfolding get_ticket_def
    by (rule atomic_on_ticket) (auto, use err GetTicket in \<open>simp add: get_ticket_def\<close>)
  then show ?thesis by (simp add: GetTicket)
qed (auto simp: create_ticket_def ticket_login_def ticket_get_login_status_def logout_def get_user_tickets_def Let_def
      split: if_splits)

lemma ids_of_keys: "map ticket_key ts = map ticket_key us \<Longrightarrow>
    map (\<lambda>t. map_of t ''id'') ts = map (\<lambda>t. map_of t ''id'') us"
proof -
  assume "map ticket_key ts = map ticket_key us"
  then have "map fst (map ticket_key ts) = map fst (map ticket_key us)" by simp
  then show ?thesis by (simp add: comp_def ticket_key_def)
qed

lemma progress_inv:
  assumes "ticket_inv s" and "ticket_progress s s'"
  shows "ticket_inv s'"
proof -
  obtain ids where ids: "map (\<lambda>t. map_of t ''id'') (ticket_queue s) = map (\<lambda>i. Some (PInt i)) ids"
    "distinct ids" "\<forall>i\<in>set ids. i < ticket_counter s"
    using assms(1) by (auto simp: ticket_inv_def)
  from assms(2) consider
      "map ticket_key (ticket_queue s') = map ticket_key (ticket_queue s)" "ticket_counter s' = ticket_counter s"
    | t where "ticket_queue s' = ticket_queue s @ [t]" "map_of t ''id'' = Some (PInt (ticket_counter s))"
        "ticket_counter s' = ticket_counter s + 1"
    unfolding ticket_progress_def by blast
  then show ?thesis
  proof cases
    case 1
    then show ?thesis
      using ids ids_of_keys [OF 1(1)] unfolding ticket_inv_def by metis
  next
    case 2
    then show ?thesis
      using ids unfolding ticket_inv_def
      by (intro exI [of _ "ids @ [ticket_counter s]"]) force
  qed
qed

lemma progress_prefix: "ticket_progress s s' \<Longrightarrow>
    prefix (map ticket_key (ticket_queue s)) (map ticket_key (ticket_queue s'))"
  by (auto simp: ticket_progress_def)

interpretation tickets: atomic_backend "ticket_step set_order" ticket_inv for set_order
  by unfold_locales (auto intro: progress_inv ticket_step_progress ticket_step_atomic)

text \<open>With the tickets of an earlier state as part of the invariant.\<close>

interpretation tickets_from: backend "ticket_step set_order"
    "\<lambda>s. prefix (map ticket_key (ticket_queue s0)) (map ticket_key (ticket_queue s))" for set_order s0
  by unfold_locales (erule prefix_order.trans, rule progress_prefix, rule ticket_step_progress)

section \<open>Properties\<close>

text \<open>whatever calls an agent makes on a fresh ticket backend, ticket ids are distinct integers below the
  counter, so \<open>_find_ticket\<close> finds at most one ticket and the next ticket gets a new id.\<close>

theorem ticket_ids_unique:
  "ticket_inv (snd (run_calls (ticket_step set_order) calls (load_scenario None None user)))"
  by (rule tickets.run_inv) (auto simp: ticket_inv_def load_scenario_def)

text \<open>no call removes a ticket or changes its id or its creator: the tickets of a state are a prefix of
  those of every later state.\<close>

theorem tickets_persist:
  "prefix (map ticket_key (ticket_queue s))
     (map ticket_key (ticket_queue (snd (run_calls (ticket_step set_order) calls s))))"
  by (rule tickets_from.run_inv) simp

text \<open>a sequence of calls that all fail leaves the backend as it was.\<close>

theorem ticket_errors_atomic:
  assumes "ticket_inv s" and "list_all is_error (fst (run_calls (ticket_step set_order) calls s))"
  shows "snd (run_calls (ticket_step set_order) calls s) = s"
  using assms by (rule tickets.failing_calls_do_nothing)

theorem ticket_errors_atomic_witness:
  "snd (run_calls (ticket_step id) [CreateTicket ''t'' [] 9, CloseTicket 4]
      (load_scenario None None (Some (Some ''amy'')))) = load_scenario None None (Some (Some ''amy''))"
  by (rule ticket_errors_atomic)
    (simp_all add: ticket_inv_def load_scenario_def create_ticket_def truthy_str_def close_ticket_def on_ticket_def
       not_found_def)

text \<open>The documented range of priorities is enforced on creation only: \<open>edit_ticket\<close> accepts any
  priority.\<close>

theorem edit_ignores_priority_range:
  "run_calls (ticket_step id) [CreateTicket ''t'' [] 9, CreateTicket ''t'' [] 5,
       EditTicket 1 [(''priority'', PInt 9)], GetTicket 1] (load_scenario None None (Some (Some ''amy'')))
   = ([Inr (error_dict ''Invalid priority. Priority must be between 1 and 5.''),
       Inr (PDict [(''id'', PInt 1), (''title'', PStr ''t''), (''description'', PStr []), (''status'', PStr ''Open''),
                   (''priority'', PInt 5), (''created_by'', PStr ''amy'')]),
       Inr (PDict [(''status'', PStr ''Ticket 1 has been updated successfully.'')]),
       Inr (PDict [(''id'', PInt 1), (''title'', PStr ''t''), (''description'', PStr []), (''status'', PStr ''Open''),
                   (''priority'', PInt 9), (''created_by'', PStr ''amy'')])],
      \<lparr>ticket_queue = [[(''id'', PInt 1), (''title'', PStr ''t''), (''description'', PStr []), (''status'', PStr ''Open''),
                   (''priority'', PInt 9), (''created_by'', PStr ''amy'')]],
       ticket_counter = 2, current_user = Some ''amy''\<rparr>)"
  by code_simp

end
