(* ===== verification/Message.thy ===== *)
theory Message
  imports PyValue
begin

text \<open>
  The messaging backend \<open>message_api.py\<close>. An inbox entry is a dictionary from the receiver to the
  text. The pseudo-random generator is a stream of draws \<open>rnd\<close> of \<open>randint(10000, 99999)\<close> with a
  position in it.
\<close>

type_synonym message = "string pydict"

record message_api =
  generated_ids :: "int set"
  user_count :: int
  user_map :: "string pydict"
  inbox :: "message list"
  message_count :: int
  current_user :: "string option"
  draws :: nat

definition default_state :: message_api where
  "default_state =
     \<lparr>generated_ids = {}, user_count = 4,
      user_map = [(''Alice'', ''USR001''), (''Bob'', ''USR002''), (''Catherine'', ''USR003''), (''Daniel'', ''USR004'')],
      inbox = [[(''USR002'', ''My name is Alice. I want to connect.'')],
               [(''USR003'', ''Could you upload the file?'')],
               [(''USR004'', ''Could you upload the file?'')]],
      message_count = 3, current_user = None, draws = 0\<rparr>"

text \<open>A scenario: the attributes it gives.\<close>

record message_scenario =
  sc_generated_ids :: "int set option"
  sc_user_count :: "int option"
  sc_user_map :: "string pydict option"
  sc_inbox :: "message list option"
  sc_message_count :: "int option"
  sc_current_user :: "string option option"

definition given :: "'a option \<Rightarrow> 'a \<Rightarrow> 'a" where
  "given x d = (case x of None \<Rightarrow> d | Some v \<Rightarrow> v)"

definition load_scenario :: "message_scenario \<Rightarrow> message_api" where
  "load_scenario sc =
     \<lparr>generated_ids = given (sc_generated_ids sc) (generated_ids default_state),
      user_count = given (sc_user_count sc) (user_count default_state),
      user_map = given (sc_user_map sc) (user_map default_state),
      inbox = given (sc_inbox sc) (inbox default_state),
      message_count = given (sc_message_count sc) (message_count default_state),
      current_user = given (sc_current_user sc) (current_user default_state),
      draws = 0\<rparr>"

text \<open>
  The loop of \<open>_generate_id\<close>: draw until the id is new. It does not return when every later draw
  has been used, so the result is an option: \<open>None\<close> is non-termination.
\<close>

partial_function (option) draw_until_new :: "(nat \<Rightarrow> int) \<Rightarrow> int set \<Rightarrow> nat \<Rightarrow> (int \<times> nat) option" where
  "draw_until_new rnd ids k =
     (if rnd k \<in> ids then draw_until_new rnd ids (Suc k) else Some (rnd k, Suc k))"

definition generate_id :: "(nat \<Rightarrow> int) \<Rightarrow> message_api \<Rightarrow> (pyval \<times> message_api) option" where
  "generate_id rnd s =
     (case draw_until_new rnd (generated_ids s) (draws s) of
        None \<Rightarrow> None
      | Some (new_id, k) \<Rightarrow>
          Some (PDict [(''new_id'', PInt new_id)],
                s\<lparr>generated_ids := insert new_id (generated_ids s), draws := k\<rparr>))"

definition list_users :: "message_api \<Rightarrow> pyval result \<times> message_api" where
  "list_users s = (Inr (PDict [(''user_list'', PList (map (PStr \<circ> fst) (user_map s)))]), s)"

definition get_user_id :: "string \<Rightarrow> message_api \<Rightarrow> pyval result \<times> message_api" where
  "get_user_id user s =
     (case map_of (user_map s) user of
        None \<Rightarrow> (Inr (error_dict (''User '' @ quoted user @ '' not found in the workspace.'')), s)
      | Some i \<Rightarrow> (Inr (PDict [(''user_id'', PStr i)]), s))"

definition message_login :: "string \<Rightarrow> message_api \<Rightarrow> pyval result \<times> message_api" where
  "message_login user_id s =
     (if user_id \<notin> snd ` set (user_map s)
      then (Inr (PDict [(''login_status'', PBool False), (''message'', PStr (''User ID '' @ quoted user_id @ '' not found.''))]), s)
      else (Inr (PDict [(''login_status'', PBool True),
              (''message'', PStr (''User '' @ quoted user_id @ '' logged in successfully.''))]),
            s\<lparr>current_user := Some user_id\<rparr>))"

definition message_get_login_status :: "message_api \<Rightarrow> pyval result \<times> message_api" where
  "message_get_login_status s = (Inr (PDict [(''login_status'', PBool (truthy_str (current_user s)))]), s)"

definition not_logged_in :: pyval where
  "not_logged_in = error_dict ''No user is currently logged in.''"

definition send_message :: "(nat \<Rightarrow> int) \<Rightarrow> string \<Rightarrow> string \<Rightarrow> message_api \<Rightarrow> (pyval result \<times> message_api) option" where
  "send_message rnd receiver_id message s =
     (if \<not> truthy_str (current_user s) then Some (Inr not_logged_in, s)
      else if receiver_id \<notin> snd ` set (user_map s)
      then Some (Inr (error_dict (''Receiver ID '' @ quoted receiver_id @ '' not found.'')), s)
      else map_option (\<lambda>(message_id, s).
          (Inr (PDict [(''sent_status'', PBool True), (''message_id'', message_id),
                       (''message'', PStr (''Message sent to '' @ quoted receiver_id @ '' successfully.''))]),
           s\<lparr>inbox := inbox s @ [[(receiver_id, message)]], message_count := message_count s + 1\<rparr>))
        (generate_id rnd s))"

text \<open>
  \<open>list(message.items())[0]\<close> raises on an empty dictionary. \<open>self.inbox.remove(message)\<close> removes the
  first entry that equals the one found from the end.
\<close>

definition first_item :: "message \<Rightarrow> (string \<times> string) result" where
  "first_item m = (case m of [] \<Rightarrow> Inl (IndexError ''list index out of range'') | i # _ \<Rightarrow> Inr i)"

fun find_sent :: "string \<Rightarrow> message list \<Rightarrow> message option result" where
  "find_sent receiver_id [] = Inr None"
| "find_sent receiver_id (m # ms) =
     rbind (first_item m) (\<lambda>(receiver, _).
       if receiver = receiver_id then Inr (Some m) else find_sent receiver_id ms)"

definition delete_message :: "string \<Rightarrow> message_api \<Rightarrow> pyval result \<times> message_api" where
  "delete_message receiver_id s =
     (if \<not> truthy_str (current_user s) then (Inr not_logged_in, s)
      else case find_sent receiver_id (rev (inbox s)) of
             Inl e \<Rightarrow> (Inl e, s)
           | Inr None \<Rightarrow> (Inr (error_dict (''Receiver ID '' @ receiver_id @ '' not found.'')), s)
           | Inr (Some m) \<Rightarrow>
               (Inr (PDict [(''deleted_status'', PBool True), (''receiver_id'', PStr receiver_id),
                  (''message'', PStr (''Receiver '' @ receiver_id @ [CHR 0x27] @ ''s latest message deleted successfully.''))]),
                s\<lparr>inbox := remove1 m (inbox s)\<rparr>))"

text \<open>The texts sent to each receiver, in order; the keys appear in order of the first message.\<close>

fun group_messages :: "message list \<Rightarrow> (string \<times> string list) list \<Rightarrow> (string \<times> string list) list result" where
  "group_messages [] sent = Inr sent"
| "group_messages (m # ms) sent =
     rbind (first_item m) (\<lambda>(receiver, content).
       group_messages ms
         (case map_of sent receiver of
            None \<Rightarrow> dict_set receiver [content] sent
          | Some texts \<Rightarrow> dict_set receiver (texts @ [content]) sent))"

definition view_messages_sent :: "message_api \<Rightarrow> pyval result \<times> message_api" where
  "view_messages_sent s =
     (if \<not> truthy_str (current_user s) then (Inr not_logged_in, s)
      else (rbind (group_messages (inbox s) []) (\<lambda>sent.
              Inr (PDict [(''messages'', PDict (map (\<lambda>(r, texts). (r, PList (map PStr texts))) sent))])), s))"

definition add_contact :: "string \<Rightarrow> message_api \<Rightarrow> pyval result \<times> message_api" where
  "add_contact user_name s =
     (if map_of (user_map s) user_name \<noteq> None
      then (Inr (error_dict (''User name '' @ quoted user_name @ '' already exists.'')), s)
      else
        (let s = s\<lparr>user_count := user_count s + 1\<rparr>;
             user_id = ''USR'' @ zfill 3 (show_int (user_count s))
         in if user_id \<in> snd ` set (user_map s)
            then (Inr (error_dict (''User ID '' @ quoted user_id @ '' already exists.'')), s)
            else (Inr (PDict [(''added_status'', PBool True), (''user_id'', PStr user_id),
                     (''message'', PStr (''Contact '' @ quoted user_name @ '' added successfully.''))]),
                  s\<lparr>user_map := dict_set user_name user_id (user_map s)\<rparr>)))"

fun search_loop :: "string \<Rightarrow> message list \<Rightarrow> pyval list result" where
  "search_loop keyword_lower [] = Inr []"
| "search_loop keyword_lower (m # ms) =
     rbind (first_item m) (\<lambda>(receiver_id, content).
       rbind (search_loop keyword_lower ms) (\<lambda>results.
         Inr (if contains keyword_lower (lower content)
              then PDict [(''receiver_id'', PStr receiver_id), (''message'', PStr content)] # results
              else results)))"

definition search_messages :: "string \<Rightarrow> message_api \<Rightarrow> pyval result \<times> message_api" where
  "search_messages keyword s =
     (if \<not> truthy_str (current_user s) then (Inr not_logged_in, s)
      else (rbind (search_loop (lower keyword) (inbox s)) (\<lambda>results. Inr (PDict [(''results'', PList results)])), s))"

fun stats_loop :: "message list \<Rightarrow> nat \<Rightarrow> string set \<Rightarrow> (nat \<times> string set) result" where
  "stats_loop [] received_count contacts = Inr (received_count, contacts)"
| "stats_loop (m # ms) received_count contacts =
     rbind (first_item m) (\<lambda>(receiver_id, _). stats_loop ms (received_count + 1) (insert receiver_id contacts))"

definition get_message_stats :: "message_api \<Rightarrow> pyval result \<times> message_api" where
  "get_message_stats s =
     (if \<not> truthy_str (current_user s) then (Inr not_logged_in, s)
      else (rbind (stats_loop (inbox s) 0 {}) (\<lambda>(received_count, contacts).
              Inr (PDict [(''stats'', PDict [(''received_count'', PInt (int received_count)),
                                            (''total_contacts'', PInt (int (card contacts)))])])), s))"

section \<open>The calls\<close>

datatype message_call =
    ListUsers
  | GetUserId string
  | MessageLogin string
  | MessageGetLoginStatus
  | SendMessage string string
  | DeleteMessage string
  | ViewMessagesSent
  | AddContact string
  | SearchMessages string
  | GetMessageStats

text \<open>\<open>None\<close>: the call does not return.\<close>

fun message_step :: "(nat \<Rightarrow> int) \<Rightarrow> message_call \<Rightarrow> message_api \<Rightarrow> (pyval result \<times> message_api) option" where
  "message_step rnd ListUsers s = Some (list_users s)"
| "message_step rnd (GetUserId user) s = Some (get_user_id user s)"
| "message_step rnd (MessageLogin user_id) s = Some (message_login user_id s)"
| "message_step rnd MessageGetLoginStatus s = Some (message_get_login_status s)"
| "message_step rnd (SendMessage receiver_id message) s = send_message rnd receiver_id message s"
| "message_step rnd (DeleteMessage receiver_id) s = Some (delete_message receiver_id s)"
| "message_step rnd ViewMessagesSent s = Some (view_messages_sent s)"
| "message_step rnd (AddContact user_name) s = Some (add_contact user_name s)"
| "message_step rnd (SearchMessages keyword) s = Some (search_messages keyword s)"
| "message_step rnd GetMessageStats s = Some (get_message_stats s)"

text \<open>The states an agent can reach.\<close>

inductive message_reach :: "(nat \<Rightarrow> int) \<Rightarrow> message_api \<Rightarrow> message_api \<Rightarrow> bool" for rnd s0 where
  start: "message_reach rnd s0 s0"
| call: "message_reach rnd s0 s \<Longrightarrow> message_step rnd c s = Some (r, t) \<Longrightarrow> message_reach rnd s0 t"

section \<open>Fresh message ids\<close>

lemma draw_Some_pair:
  "draw_until_new rnd ids k = Some y \<Longrightarrow> fst y \<notin> ids \<and> k < snd y \<and> fst y = rnd (snd y - 1)"
proof (rule draw_until_new.raw_induct [where P = "\<lambda>rnd ids k y. fst y \<notin> ids \<and> k < snd y \<and> fst y = rnd (snd y - 1)"])
  fix dr :: "(nat \<Rightarrow> int) \<Rightarrow> int set \<Rightarrow> nat \<Rightarrow> (int \<times> nat) option" and rnd ids k y
  assume IH: "\<And>rnd ids k y. dr rnd ids k = Some y \<Longrightarrow> fst y \<notin> ids \<and> k < snd y \<and> fst y = rnd (snd y - 1)"
    and "(if rnd k \<in> ids then dr rnd ids (Suc k) else Some (rnd k, Suc k)) = Some y"
  then show "fst y \<notin> ids \<and> k < snd y \<and> fst y = rnd (snd y - 1)"
    using IH [of rnd ids "Suc k" y] by (cases "rnd k \<in> ids"; force)
qed

lemma draw_Some: "draw_until_new rnd ids k = Some (i, k') \<Longrightarrow> i \<notin> ids \<and> k < k' \<and> i = rnd (k' - 1)"
  using draw_Some_pair [of rnd ids k "(i, k')"] by (metis fst_conv snd_conv)

lemma draw_terminates:
  "rnd (k + n) \<notin> ids \<Longrightarrow> \<exists>i k'. draw_until_new rnd ids k = Some (i, k')"
proof (induction n arbitrary: k)
  case 0
  then show ?case by (simp add: draw_until_new.simps)
next
  case (Suc n)
  then show ?case
    using Suc.IH [of "Suc k"] by (subst draw_until_new.simps) auto
qed

text \<open>sending a message returns exactly when the generator can still draw an unused id, and the
  message then carries an id that no earlier message has.\<close>

theorem send_message_fresh_id:
  assumes "truthy_str (current_user s)" and "receiver_id \<in> snd ` set (user_map s)"
  shows "(send_message rnd receiver_id text s \<noteq> None \<longleftrightarrow> (\<exists>k \<ge> draws s. rnd k \<notin> generated_ids s))
    \<and> (\<forall>r s'. send_message rnd receiver_id text s = Some (r, s') \<longrightarrow>
         (\<exists>i. i \<notin> generated_ids s \<and> generated_ids s' = insert i (generated_ids s)
            \<and> r = Inr (PDict [(''sent_status'', PBool True), (''message_id'', PDict [(''new_id'', PInt i)]),
                       (''message'', PStr (''Message sent to '' @ quoted receiver_id @ '' successfully.''))])
            \<and> inbox s' = inbox s @ [[(receiver_id, text)]]))"
proof -
  have eq: "send_message rnd receiver_id text s = map_option (\<lambda>(message_id, s).
          (Inr (PDict [(''sent_status'', PBool True), (''message_id'', message_id),
                       (''message'', PStr (''Message sent to '' @ quoted receiver_id @ '' successfully.''))]),
           s\<lparr>inbox := inbox s @ [[(receiver_id, text)]], message_count := message_count s + 1\<rparr>))
        (generate_id rnd s)"
    using assms by (simp add: send_message_def)
  have "generate_id rnd s \<noteq> None \<longleftrightarrow> (\<exists>k \<ge> draws s. rnd k \<notin> generated_ids s)"
  proof
    assume "generate_id rnd s \<noteq> None"
    then obtain i k where "draw_until_new rnd (generated_ids s) (draws s) = Some (i, k)"
      by (auto simp: generate_id_def split: option.splits)
    from draw_Some [OF this] show "\<exists>k \<ge> draws s. rnd k \<notin> generated_ids s"
      by (intro exI [of _ "k - 1"]) auto
  next
    assume "\<exists>k \<ge> draws s. rnd k \<notin> generated_ids s"
    then obtain n where "rnd (draws s + n) \<notin> generated_ids s" by (auto simp: le_iff_add)
    from draw_terminates [where rnd = rnd, OF this] show "generate_id rnd s \<noteq> None"
      by (auto simp: generate_id_def)
  qed
  moreover have "\<exists>i. i \<notin> generated_ids s \<and> generated_ids s' = insert i (generated_ids s)
      \<and> m = PDict [(''new_id'', PInt i)] \<and> inbox s' = inbox s"
    if "generate_id rnd s = Some (m, s')" for m s'
    using that draw_Some [of rnd "generated_ids s" "draws s"]
    by (auto simp: generate_id_def split: option.splits)
  ultimately show ?thesis
    unfolding eq by (fastforce simp: option.map_sel)
qed

theorem send_message_fresh_id_witness:
  "\<exists>i s'. i \<notin> generated_ids (default_state\<lparr>current_user := Some ''USR001''\<rparr>)
     \<and> send_message (\<lambda>k. 10000 + int k) ''USR002'' ''hi'' (default_state\<lparr>current_user := Some ''USR001''\<rparr>)
        = Some (Inr (PDict [(''sent_status'', PBool True), (''message_id'', PDict [(''new_id'', PInt i)]),
             (''message'', PStr (''Message sent to '' @ quoted ''USR002'' @ '' successfully.''))]), s')"
proof -
  let ?s = "default_state\<lparr>current_user := Some ''USR001''\<rparr>"
  have "truthy_str (current_user ?s)" "''USR002'' \<in> snd ` set (user_map ?s)"
    by (simp_all add: truthy_str_def default_state_def)
  note th = send_message_fresh_id [OF this, of "\<lambda>k. 10000 + int k" "''hi''"]
  moreover have "\<exists>k \<ge> draws ?s. 10000 + int k \<notin> generated_ids ?s"
    by (simp add: default_state_def)
  ultimately have "send_message (\<lambda>k. 10000 + int k) ''USR002'' ''hi'' ?s \<noteq> None" by blast
  then obtain r s' where rs: "send_message (\<lambda>k. 10000 + int k) ''USR002'' ''hi'' ?s = Some (r, s')" by auto
  with th show ?thesis by blast
qed

section \<open>The invariant\<close>

text \<open>Names and ids of users are unique, the message count is an upper bound of the inbox, and every
  message has a receiver.\<close>

definition message_inv :: "message_api \<Rightarrow> bool" where
  "message_inv s \<longleftrightarrow> distinct (map fst (user_map s)) \<and> distinct (map snd (user_map s))
     \<and> int (length (inbox s)) \<le> message_count s \<and> (\<forall>m\<in>set (inbox s). \<exists>r t. m = [(r, t)])"

lemma find_sent_Inr:
  "find_sent r ms = Inr (Some m) \<Longrightarrow> m \<in> set ms \<and> (\<exists>t rest. m = (r, t) # rest)"
  by (induction r ms rule: find_sent.induct)
    (auto simp: rbind_eq_Inr first_item_def split: list.splits if_splits)

lemma add_contact_inv:
  assumes "message_inv s"
  shows "message_inv (snd (add_contact name s))"
proof -
  have dict: "map snd (dict_set k v d) = map snd d @ [v]" if "\<forall>y. (k, y) \<notin> set d" for k v and d :: "string pydict"
    using that by (induction k v d rule: dict_set.induct) auto
  have dict_new: "map snd (dict_set k v d) = map snd d @ [v]" if "\<forall>x\<in>set d. k \<noteq> fst x" for k v and d :: "string pydict"
    using that dict [of k d v] by force
  show ?thesis
    using assms
    by (auto simp: add_contact_def message_inv_def Let_def dict distinct_dict_set map_of_eq_None_iff image_iff dict_new)
qed

lemma message_step_inv:
  assumes "message_inv s" and "message_step rnd c s = Some (r, t)"
  shows "message_inv t"
proof (cases c)
  case (SendMessage receiver body)
  have "\<exists>i k. u = s\<lparr>generated_ids := insert i (generated_ids s), draws := k\<rparr>"
    if "generate_id rnd s = Some (m, u)" for m u
    using that by (auto simp: generate_id_def split: option.splits)
  moreover have "send_message rnd receiver body s = Some (r, t)" using assms(2) SendMessage by simp
  ultimately have "t = s \<or> (\<exists>i k. t = s\<lparr>generated_ids := insert i (generated_ids s), draws := k,
      inbox := inbox s @ [[(receiver, body)]], message_count := message_count s + 1\<rparr>)"
    by (fastforce simp: send_message_def split: if_splits)
  then show ?thesis
    using assms(1) by (auto simp: message_inv_def)
next
  case (DeleteMessage receiver)
  have "delete_message receiver s = (r, t)" using assms(2) DeleteMessage by simp
  then have "t = s \<or> (\<exists>m. t = s\<lparr>inbox := remove1 m (inbox s)\<rparr>)"
    by (auto simp: delete_message_def split: if_splits sum.splits option.splits)
  moreover have "int (length (remove1 m (inbox s))) \<le> message_count s" for m
    using assms(1) by (auto simp: message_inv_def length_remove1)
  moreover have "\<forall>m'\<in>set (remove1 m (inbox s)). \<exists>r t. m' = [(r, t)]" for m
    using assms(1) set_remove1_subset [of m "inbox s"] unfolding message_inv_def by blast
  ultimately show ?thesis
    using assms(1) by (auto simp: message_inv_def)
next
  case (AddContact name)
  then show ?thesis using assms add_contact_inv [of s name] by (cases "add_contact name s") simp
next
  case (MessageLogin i)
  then show ?thesis using assms by (auto simp: message_login_def message_inv_def split: if_splits)
qed (use assms in \<open>auto simp: list_users_def get_user_id_def message_get_login_status_def view_messages_sent_def
       search_messages_def get_message_stats_def split: if_splits option.splits\<close>)

text \<open>in every reachable state user names and user ids are unique, the inbox holds at most
  \<open>message_count\<close> messages and every message has exactly one receiver.\<close>

theorem message_invariant: "message_reach rnd default_state s \<Longrightarrow> message_inv s"
proof (induction rule: message_reach.induct)
  case start
  then show ?case by (simp add: message_inv_def default_state_def)
next
  case (call s c r t)
  then show ?case by (blast intro: message_step_inv)
qed

theorem message_invariant_witness:
  "message_inv (snd (add_contact ''Eve'' default_state))"
  by (rule message_invariant [where rnd = "\<lambda>_. 10000"], rule message_reach.call [OF message_reach.start, of _ "AddContact ''Eve''"])
    (simp add: prod_eq_iff)

text \<open>Deleting \<open>the latest message\<close> removes the earliest message with the same receiver and text, and a
  failed \<open>add_contact\<close> still consumes a user number.\<close>

theorem message_api_divergences:
  "inbox (snd (delete_message ''A''
       (default_state\<lparr>inbox := [[(''A'', ''x'')], [(''B'', ''y'')], [(''A'', ''x'')]], current_user := Some ''C''\<rparr>)))
     = [[(''B'', ''y'')], [(''A'', ''x'')]]
   \<and> is_error (fst (add_contact ''Eve'' (default_state\<lparr>user_map := [(''Zoe'', ''USR005'')]\<rparr>)))
   \<and> user_count (snd (add_contact ''Eve'' (default_state\<lparr>user_map := [(''Zoe'', ''USR005'')]\<rparr>))) = 5"
proof -
  have five: "show_int 5 = ''5''" by code_simp
  show ?thesis
    by (simp add: delete_message_def add_contact_def default_state_def truthy_str_def first_item_def Let_def
      zfill_def five numeral_2_eq_2)
qed

end
