(* ===== verification/Executor.thy ===== *)
theory Executor
  imports PyValue
begin

text \<open>
  The executor and the checker of multi-turn tool use (\<open>bfcl_multiturn/executor.py\<close> and
  \<open>checker.py\<close>). Python's \<open>eval\<close> on a call string is the parameter \<open>py_eval\<close>, a function of the
  string and the instances; \<open>'inst\<close> is the type of the backend instances, \<open>methods\<close> the names
  \<open>inspect.getmembers\<close> lists for an instance and \<open>show_float\<close> Python's \<open>repr\<close> of a float.
\<close>

section \<open>Text of values\<close>

definition hex_digit :: "nat \<Rightarrow> char" where
  "hex_digit d = char_of (if d < 10 then 48 + d else 87 + d)"

definition hex2 :: "nat \<Rightarrow> string" where
  "hex2 n = [hex_digit (n div 16), hex_digit (n mod 16)]"

definition json_char :: "char \<Rightarrow> string" where
  "json_char c =
     (let n = (of_char c :: nat) in
      if n = 34 then [CHR 0x5C, c]
      else if n = 92 then [CHR 0x5C, c]
      else if n = 10 then [CHR 0x5C, CHR ''n'']
      else if n = 13 then [CHR 0x5C, CHR ''r'']
      else if n = 9 then [CHR 0x5C, CHR ''t'']
      else if n = 12 then [CHR 0x5C, CHR ''f'']
      else if n = 8 then [CHR 0x5C, CHR ''b'']
      else if n < 32 \<or> 127 \<le> n then [CHR 0x5C] @ ''u00'' @ hex2 n
      else [c])"

definition json_string :: "string \<Rightarrow> string" where
  "json_string s = [CHR 0x22] @ concat (map json_char s) @ [CHR 0x22]"

text \<open>\<open>json.dumps\<close>.\<close>

fun json_dumps :: "(rat \<Rightarrow> string) \<Rightarrow> pyval \<Rightarrow> string" where
  "json_dumps show_float PNone = ''null''"
| "json_dumps show_float (PBool b) = (if b then ''true'' else ''false'')"
| "json_dumps show_float (PInt i) = show_int i"
| "json_dumps show_float (PFloat r) = show_float r"
| "json_dumps show_float (PStr s) = json_string s"
| "json_dumps show_float (PList vs) = ''['' @ join '', '' (map (json_dumps show_float) vs) @ '']''"
| "json_dumps show_float (PDict d) =
     ''{'' @ join '', '' (map (\<lambda>p. json_string (fst p) @ '': '' @ json_dumps show_float (snd p)) d) @ ''}''"

text \<open>\<open>repr\<close>: single quotes unless the text has single quotes and no double quotes.\<close>

definition repr_string :: "string \<Rightarrow> string" where
  "repr_string s =
     (let q = (if CHR 0x27 \<in> set s \<and> CHR 0x22 \<notin> set s then CHR 0x22 else CHR 0x27);
          esc = (\<lambda>c. let n = (of_char c :: nat) in
             if c = q \<or> n = 92 then [CHR 0x5C, c]
             else if n = 10 then [CHR 0x5C, CHR ''n'']
             else if n = 13 then [CHR 0x5C, CHR ''r'']
             else if n = 9 then [CHR 0x5C, CHR ''t'']
             else if n < 32 \<or> n = 127 then [CHR 0x5C, CHR ''x''] @ hex2 n
             else [c])
      in [q] @ concat (map esc s) @ [q])"

fun py_repr :: "(rat \<Rightarrow> string) \<Rightarrow> pyval \<Rightarrow> string" where
  "py_repr show_float PNone = ''None''"
| "py_repr show_float (PBool b) = (if b then ''True'' else ''False'')"
| "py_repr show_float (PInt i) = show_int i"
| "py_repr show_float (PFloat r) = show_float r"
| "py_repr show_float (PStr s) = repr_string s"
| "py_repr show_float (PList vs) = ''['' @ join '', '' (map (py_repr show_float) vs) @ '']''"
| "py_repr show_float (PDict d) =
     ''{'' @ join '', '' (map (\<lambda>p. repr_string (fst p) @ '': '' @ py_repr show_float (snd p)) d) @ ''}''"

definition stringify :: "(rat \<Rightarrow> string) \<Rightarrow> pyval \<Rightarrow> string" where
  "stringify show_float result =
     (case result of PStr s \<Rightarrow> s | PDict d \<Rightarrow> json_dumps show_float (PDict d) | _ \<Rightarrow> py_repr show_float result)"

section \<open>Method names\<close>

definition build_method_mapping :: "('inst \<Rightarrow> string list) \<Rightarrow> (string \<times> 'inst) list \<Rightarrow> string pydict" where
  "build_method_mapping methods instances =
     foldl (\<lambda>mapping (class_name, instance).
         foldl (\<lambda>mapping method_name.
             if take 1 method_name = ''_'' then mapping else dict_set method_name class_name mapping)
           mapping (methods instance))
       [] instances"

definition is_alpha :: "char \<Rightarrow> bool" where
  "is_alpha c \<longleftrightarrow> (let n = (of_char c :: nat) in 65 \<le> n \<and> n \<le> 90 \<or> 97 \<le> n \<and> n \<le> 122)"

definition is_word :: "char \<Rightarrow> bool" where
  "is_word c \<longleftrightarrow> is_alpha c \<or> is_digit c \<or> c = CHR ''_''"

definition replace_function :: "string pydict \<Rightarrow> string \<Rightarrow> string" where
  "replace_function mapping func_name =
     (case map_of mapping func_name of None \<Rightarrow> func_name | Some cls \<Rightarrow> cls @ ''.'' @ func_name)"

text \<open>
  \<open>re.sub(r"\b([a-zA-Z_]\w*)\s*(?=\()", replace_function, s)\<close>. The flag tells whether the previous
  character is a word character. A match covers the white space before the parenthesis.
\<close>

function process_method_calls :: "string pydict \<Rightarrow> bool \<Rightarrow> string \<Rightarrow> string" where
  "process_method_calls mapping after_word [] = []"
| "process_method_calls mapping after_word (c # cs) =
     (if \<not> after_word \<and> (is_alpha c \<or> c = CHR ''_'')
      then let word = c # takeWhile is_word cs;
               rest = dropWhile is_word cs;
               rest' = dropWhile is_space rest
           in if take 1 rest' = ''(''
              then replace_function mapping word @ process_method_calls mapping False rest'
              else word @ process_method_calls mapping True rest
      else c # process_method_calls mapping (is_word c) cs)"
  by pat_completeness auto
termination
proof (relation "measure (\<lambda>(_, _, s). length s)", goal_cases)
  case (2 mapping after_word c cs x xa xb)
  then show ?case
    using length_dropWhile_le [of is_word cs] length_dropWhile_le [of is_space "dropWhile is_word cs"] by simp
next
  case (3 mapping after_word c cs x xa xb)
  then show ?case using length_dropWhile_le [of is_word cs] by simp
qed auto

section \<open>Execution\<close>

definition forbidden_calls :: "string list" where
  "forbidden_calls = [''kill'', ''exit'', ''quit'', ''remove'', ''unlink'', ''popen'', ''Popen'', ''run'']"

definition call_head :: "string \<Rightarrow> string" where
  "call_head processed =
     (let head = takeWhile (\<lambda>c. c \<noteq> CHR ''('') processed
      in if CHR ''.'' \<in> set head
         then takeWhile (\<lambda>c. c \<noteq> CHR ''.'') (tl (dropWhile (\<lambda>c. c \<noteq> CHR ''.'') head))
         else head)"

type_synonym 'inst evaluator = "string \<Rightarrow> (string \<times> 'inst) list \<Rightarrow> pyval result \<times> (string \<times> 'inst) list"

definition execute_call ::
    "(rat \<Rightarrow> string) \<Rightarrow> 'inst evaluator \<Rightarrow> string pydict \<Rightarrow> string \<Rightarrow> (string \<times> 'inst) list
      \<Rightarrow> string \<times> (string \<times> 'inst) list" where
  "execute_call show_float py_eval mapping func_call instances =
     (let processed = process_method_calls mapping False func_call;
          head = call_head processed;
          (r, instances') =
            (if head \<in> set forbidden_calls
             then (Inl (PlainException (''Function call '' @ head @ '' is not allowed.'')), instances)
             else py_eval processed instances)
      in ((case r of Inl e \<Rightarrow> ''Error during execution: '' @ exn_str e | Inr v \<Rightarrow> stringify show_float v),
          instances'))"

fun execute_loop ::
    "(string \<Rightarrow> (string \<times> 'inst) list \<Rightarrow> string \<times> (string \<times> 'inst) list) \<Rightarrow> string list \<Rightarrow> (string \<times> 'inst) list
      \<Rightarrow> string list \<times> (string \<times> 'inst) list" where
  "execute_loop exec1 [] instances = ([], instances)"
| "execute_loop exec1 (c # cs) instances =
     (case exec1 c instances of (r, instances') \<Rightarrow>
        case execute_loop exec1 cs instances' of (rs, instances'') \<Rightarrow> (r # rs, instances''))"

definition execute_calls ::
    "(rat \<Rightarrow> string) \<Rightarrow> ('inst \<Rightarrow> string list) \<Rightarrow> 'inst evaluator \<Rightarrow> string list \<Rightarrow> (string \<times> 'inst) list
      \<Rightarrow> string list \<times> (string \<times> 'inst) list" where
  "execute_calls show_float methods py_eval calls instances =
     execute_loop (execute_call show_float py_eval (build_method_mapping methods instances)) calls instances"

definition is_empty_execute_response :: "'a list list \<Rightarrow> bool" where
  "is_empty_execute_response xs \<longleftrightarrow> length xs = 0 \<or> length xs = 1 \<and> length (xs ! 0) = 0"

text \<open>
  \<open>make_instances\<close>: \<open>new_instance\<close> builds and seeds the instance of a supported class from its part of
  the configuration.
\<close>

fun make_instances :: "(string \<Rightarrow> 'inst option) \<Rightarrow> string list \<Rightarrow> (string \<times> 'inst) list \<Rightarrow> (string \<times> 'inst) list result" where
  "make_instances new_instance [] instances = Inr instances"
| "make_instances new_instance (class_name # cs) instances =
     (case new_instance class_name of
        None \<Rightarrow> Inl (ValueError (''Unsupported BFCL multi-turn class: '' @ class_name))
      | Some i \<Rightarrow> make_instances new_instance cs (dict_set class_name i instances))"

section \<open>The checker\<close>

datatype verdict =
    Valid
  | EmptyTurnModelResponse nat
  | InstanceStateMismatch string
  | ExecutionResponseMismatch nat "string list"
  | IrrelevanceError nat

text \<open>
  \<open>list2_copy.remove(item)\<close> per item of \<open>list1\<close>; the items that are not there are missing.
\<close>

fun missing_items :: "'a list \<Rightarrow> 'a list \<Rightarrow> 'a list" where
  "missing_items [] list2 = []"
| "missing_items (item # list1) list2 =
     (if item \<in> set list2 then missing_items list1 (remove1 item list2)
      else item # missing_items list1 list2)"

definition response_checker :: "string list \<Rightarrow> string list \<Rightarrow> nat \<Rightarrow> verdict" where
  "response_checker model_responses ground_truth_responses turn =
     (let missing = missing_items ground_truth_responses model_responses
      in if missing = [] then Valid else ExecutionResponseMismatch turn missing)"

text \<open>
  The public attributes of an instance, as \<open>vars\<close> lists them; only attributes of the ground truth count. The loop
  goes on after a difference, and \<open>getattr\<close> raises when the model's instance lacks an attribute.
\<close>

fun compare_attrs :: "string \<Rightarrow> 'attr pydict \<Rightarrow> 'attr pydict \<Rightarrow> bool \<Rightarrow> bool result" where
  "compare_attrs class_name model [] valid = Inr valid"
| "compare_attrs class_name model ((attr_name, ground_truth_attr) # attrs) valid =
     (if take 1 attr_name = ''_'' then compare_attrs class_name model attrs valid
      else case map_of model attr_name of
          None \<Rightarrow> Inl (AttributeError (quoted class_name @ '' object has no attribute '' @ quoted attr_name))
        | Some model_attr \<Rightarrow> compare_attrs class_name model attrs (valid \<and> model_attr = ground_truth_attr))"

definition compare_instances :: "('inst \<Rightarrow> 'attr pydict) \<Rightarrow> string \<Rightarrow> 'inst \<Rightarrow> 'inst \<Rightarrow> bool result" where
  "compare_instances public class_name model ground_truth = compare_attrs class_name (public model) (public ground_truth) True"

fun state_checker :: "('inst \<Rightarrow> 'attr pydict) \<Rightarrow> (string \<times> 'inst) list \<Rightarrow> (string \<times> 'inst) list \<Rightarrow> verdict result" where
  "state_checker public model_instances [] = Inr Valid"
| "state_checker public model_instances ((class_name, ground_truth) # gs) =
     rbind (dict_index model_instances class_name) (\<lambda>model.
     rbind (compare_instances public class_name model ground_truth) (\<lambda>valid.
       if valid then state_checker public model_instances gs
       else Inr (InstanceStateMismatch class_name)))"

text \<open>
  The loop over the turns: \<open>exec\<close> is \<open>execute_calls\<close>, \<open>results\<close> the model's execution results of all
  turns so far. A missing turn of the model counts as empty.
\<close>

fun run_steps :: "(string list \<Rightarrow> 'is \<Rightarrow> string list \<times> 'is) \<Rightarrow> string list list \<Rightarrow> 'is \<Rightarrow> string list \<times> 'is" where
  "run_steps exec [] s = ([], s)"
| "run_steps exec (step # steps) s =
     (case exec step s of (rs, s') \<Rightarrow> case run_steps exec steps s' of (rs', s'') \<Rightarrow> (rs @ rs', s''))"

fun turn_loop ::
    "(string list \<Rightarrow> (string \<times> 'inst) list \<Rightarrow> string list \<times> (string \<times> 'inst) list) \<Rightarrow> ('inst \<Rightarrow> 'attr pydict)
      \<Rightarrow> nat \<Rightarrow> string list list list \<Rightarrow> string list list \<Rightarrow> (string \<times> 'inst) list \<Rightarrow> (string \<times> 'inst) list
      \<Rightarrow> string list \<Rightarrow> verdict result" where
  "turn_loop exec public turn model [] ms gs results = Inr Valid"
| "turn_loop exec public turn model (truth # truths) ms gs results =
     (let response = (case model of [] \<Rightarrow> [] | r # _ \<Rightarrow> r);
          (model_results, ms') = run_steps exec response ms;
          (truth_results, gs') = exec truth gs;
          results' = results @ model_results;
          continue = turn_loop exec public (Suc turn) (tl model) truths ms' gs' results'
      in if length truth > 0 \<and> (response = [] \<or> is_empty_execute_response response)
         then Inr (EmptyTurnModelResponse turn)
         else if truth = [] then continue
         else rbind (state_checker public ms' gs') (\<lambda>v.
                if v \<noteq> Valid then Inr v
                else case response_checker results' truth_results turn of
                       Valid \<Rightarrow> continue
                     | bad \<Rightarrow> Inr bad))"

definition multi_turn_checker ::
    "(rat \<Rightarrow> string) \<Rightarrow> ('inst \<Rightarrow> string list) \<Rightarrow> 'inst evaluator \<Rightarrow> ('inst \<Rightarrow> 'attr pydict) \<Rightarrow> (string \<Rightarrow> 'inst option)
      \<Rightarrow> string list list list \<Rightarrow> string list list \<Rightarrow> string list \<Rightarrow> verdict result" where
  "multi_turn_checker show_float methods py_eval public new_instance model_decoded ground_truth involved_classes =
     rbind (make_instances new_instance involved_classes []) (\<lambda>model_instances.
     rbind (make_instances new_instance involved_classes []) (\<lambda>ground_truth_instances.
       turn_loop (execute_calls show_float methods py_eval) public 0 model_decoded ground_truth
         model_instances ground_truth_instances []))"

fun multi_turn_irrelevance_checker :: "nat \<Rightarrow> string list list list \<Rightarrow> string list list \<Rightarrow> verdict" where
  "multi_turn_irrelevance_checker turn model [] = Valid"
| "multi_turn_irrelevance_checker turn model (truth # truths) =
     (let response = (case model of [] \<Rightarrow> [] | r # _ \<Rightarrow> r)
      in if length truth = 0 \<and> \<not> is_empty_execute_response response then IrrelevanceError turn
         else multi_turn_irrelevance_checker (Suc turn) (tl model) truths)"

section \<open>Response and state checks\<close>

lemma missing_items_Nil: "missing_items xs ys = [] \<longleftrightarrow> mset xs \<subseteq># mset ys"
proof (induction xs arbitrary: ys)
  case (Cons x xs)
  show ?case
  proof (cases "x \<in> set ys")
    case True
    then show ?thesis using Cons by (simp add: insert_subset_eq_iff)
  next
    case False
    then show ?thesis by (simp add: insert_subset_eq_iff)
  qed
qed simp

lemma compare_attrs_True:
  "compare_attrs c model attrs valid = Inr True
     \<longleftrightarrow> valid \<and> (\<forall>(name, v)\<in>set attrs. take 1 name = ''_'' \<or> map_of model name = Some v)"
proof (induction attrs arbitrary: valid)
  case (Cons a attrs)
  obtain name v where a: "a = (name, v)" by (cases a)
  show ?case
  proof (cases "take 1 name = ''_''")
    case True
    then show ?thesis unfolding a compare_attrs.simps by (simp add: Cons.IH)
  next
    case False
    show ?thesis
    proof (cases "map_of model name")
      case None
      then show ?thesis using False unfolding a compare_attrs.simps by simp
    next
      case (Some w)
      then show ?thesis using False unfolding a compare_attrs.simps by (simp add: Cons.IH conj_assoc)
    qed
  qed
qed simp

text \<open>The comparison succeeds when the model has every public attribute of the ground truth with the same value.\<close>

lemma compare_instances_True:
  "compare_instances public c m g = Inr True
     \<longleftrightarrow> (\<forall>(name, v)\<in>set (public g). take 1 name = ''_'' \<or> map_of (public m) name = Some v)"
  by (simp add: compare_instances_def compare_attrs_True)

lemma compare_refl: "distinct (map fst (public i)) \<Longrightarrow> compare_instances public c i i = Inr True"
  by (auto simp: compare_instances_True)

lemma state_checker_refl:
  assumes "\<And>i. distinct (map fst (public i))" and "distinct (map fst is)"
  shows "state_checker public is is = Inr Valid"
proof -
  have "state_checker public is js = Inr Valid" if "set js \<subseteq> set is" for js
    using that
  proof (induction js)
    case (Cons j js)
    obtain n i where j: "j = (n, i)" by (cases j)
    then have "map_of is n = Some i" using Cons.prems assms(2) by (simp add: map_of_is_SomeI)
    then show ?case using Cons j compare_refl [of public i, OF assms(1)] by (simp add: dict_index_def)
  qed simp
  then show ?thesis by simp
qed

lemma state_checker_Valid:
  "state_checker public ms gs = Inr Valid \<longleftrightarrow>
     (\<forall>(n, g)\<in>set gs. \<exists>m. map_of ms n = Some m \<and> compare_instances public n m g = Inr True)"
  by (induction gs) (auto simp: dict_index_def rbind_def split: option.splits sum.splits prod.splits if_splits)

section \<open>Execution in steps\<close>

lemma execute_loop_append:
  "execute_loop f (a @ b) s =
     (case execute_loop f a s of (r1, s1) \<Rightarrow> case execute_loop f b s1 of (r2, s2) \<Rightarrow> (r1 @ r2, s2))"
  by (induction a arbitrary: s) (auto split: prod.splits)

text \<open>What Python guarantees of a call: it does not change which methods the instances have.\<close>

definition keeps_methods :: "('inst \<Rightarrow> string list) \<Rightarrow> 'inst evaluator \<Rightarrow> bool" where
  "keeps_methods methods py_eval \<longleftrightarrow> (\<forall>c is. map fst (snd (py_eval c is)) = map fst is
      \<and> build_method_mapping methods (snd (py_eval c is)) = build_method_mapping methods is)"

lemma execute_loop_methods:
  assumes "keeps_methods methods py_eval"
  shows "build_method_mapping methods (snd (execute_loop (execute_call sf py_eval m) cs s)) = build_method_mapping methods s
    \<and> map fst (snd (execute_loop (execute_call sf py_eval m) cs s)) = map fst s"
proof (induction cs arbitrary: s)
  case (Cons c cs)
  have "build_method_mapping methods (snd (execute_call sf py_eval m c s)) = build_method_mapping methods s
      \<and> map fst (snd (execute_call sf py_eval m c s)) = map fst s"
    using assms by (auto simp: execute_call_def keeps_methods_def Let_def split: prod.splits)
      (metis snd_conv)+
  then show ?case
    using Cons.IH [of "snd (execute_call sf py_eval m c s)"] by (simp add: split_def)
qed simp

lemma execute_calls_append:
  assumes "keeps_methods methods py_eval"
  shows "execute_calls sf methods py_eval (a @ b) s =
     (case execute_calls sf methods py_eval a s of (r1, s1) \<Rightarrow>
        case execute_calls sf methods py_eval b s1 of (r2, s2) \<Rightarrow> (r1 @ r2, s2))"
  using execute_loop_methods [OF assms, of sf "build_method_mapping methods s" a s]
  by (auto simp: execute_calls_def execute_loop_append split: prod.splits)

lemma run_steps_concat:
  assumes "keeps_methods methods py_eval"
  shows "run_steps (execute_calls sf methods py_eval) steps s = execute_calls sf methods py_eval (concat steps) s"
proof (induction steps arbitrary: s)
  case Nil
  then show ?case by (simp add: execute_calls_def)
next
  case (Cons step steps)
  then show ?case by (simp add: execute_calls_append [OF assms])
qed

lemma make_instances_distinct:
  "make_instances new_instance cs is = Inr js \<Longrightarrow> distinct (map fst is) \<Longrightarrow> distinct (map fst js)"
  by (induction new_instance cs "is" rule: make_instances.induct)
    (auto simp: distinct_dict_set split: option.splits)

lemma make_instances_Inr:
  "\<forall>c\<in>set cs. new_instance c \<noteq> None \<Longrightarrow> \<exists>js. make_instances new_instance cs is = Inr js"
  by (induction new_instance cs "is" rule: make_instances.induct) auto

lemma turn_loop_self:
  assumes "keeps_methods methods py_eval" and "\<And>i. distinct (map fst (public i))"
    and "list_all2 (\<lambda>response truth. concat response = truth) model truths" and "distinct (map fst s)"
  shows "turn_loop (execute_calls sf methods py_eval) public turn model truths s s results = Inr Valid"
  using assms(3,4)
proof (induction model truths arbitrary: turn s results rule: list_all2_induct)
  case (Cons response model truth truths)
  let ?exec = "execute_calls sf methods py_eval"
  obtain rs t where ex: "?exec truth s = (rs, t)" by (cases "?exec truth s")
  then have steps: "run_steps ?exec response s = (rs, t)"
    using Cons.hyps(1) run_steps_concat [OF assms(1)] by simp
  have t: "distinct (map fst t)"
    using execute_loop_methods [OF assms(1), of sf "build_method_mapping methods s" truth s] ex Cons.prems
    by (simp add: execute_calls_def)
  have "response_checker (results @ rs) rs turn = Valid"
    by (simp add: response_checker_def missing_items_Nil)
  moreover have "truth \<noteq> [] \<Longrightarrow> response \<noteq> [] \<and> \<not> is_empty_execute_response response"
    using Cons.hyps(1) by (cases response) (auto simp: is_empty_execute_response_def)
  ultimately show ?case
    using Cons.IH [OF t] ex steps state_checker_refl [OF assms(2) t] by (auto simp: Let_def)
qed simp

text \<open>C17: a model that makes exactly the ground-truth calls of every turn, split into steps in any way, passes the
  checker, provided every involved class exists, attributes have unique names, and a call does not change which
  methods the instances have (what Python guarantees for these classes).\<close>

theorem ground_truth_passes:
  assumes "keeps_methods methods py_eval" and "\<And>i. distinct (map fst (public i))"
    and "\<forall>c\<in>set involved_classes. new_instance c \<noteq> None"
    and "list_all2 (\<lambda>response truth. concat response = truth) model_decoded ground_truth"
  shows "multi_turn_checker show_float methods py_eval public new_instance model_decoded ground_truth involved_classes
       = Inr Valid"
proof -
  obtain insts where insts: "make_instances new_instance involved_classes [] = Inr insts"
    using make_instances_Inr [OF assms(3)] by blast
  then have "distinct (map fst insts)" by (auto dest: make_instances_distinct)
  then show ?thesis
    using insts turn_loop_self [OF assms(1,2,4)] by (simp add: multi_turn_checker_def)
qed

text \<open>A backend with one counter, whose only method adds one.\<close>

definition tick_eval :: "int evaluator" where
  "tick_eval c is = (if c = ''Clock.tick()'' then (Inr (PInt 7), map (\<lambda>(n, i). (n, i + 1)) is)
     else (Inl (PlainException ''bad call''), is))"

theorem ground_truth_passes_witness:
  "multi_turn_checker (\<lambda>_. []) (\<lambda>_. [''tick'']) tick_eval (\<lambda>i. [(''count'', i)])
     (\<lambda>c. if c = ''Clock'' then Some (0 :: int) else None)
     [[[''tick()''], [''tick()'', ''tick()'']], []] [[''tick()'', ''tick()'', ''tick()''], []] [''Clock''] = Inr Valid"
proof (rule ground_truth_passes)
  have "build_method_mapping (\<lambda>_. [''tick'']) (map (\<lambda>(n, i). (n, i + 1)) is)
      = build_method_mapping (\<lambda>_. [''tick'']) is" for "is" :: "(string \<times> int) list"
    unfolding build_method_mapping_def foldl_map by (rule foldl_cong) auto
  then show "keeps_methods (\<lambda>_. [''tick'']) tick_eval"
    by (auto simp: keeps_methods_def tick_eval_def)
qed auto

lemma turn_loop_Valid:
  assumes "turn_loop exec public turn model truths ms gs results = Inr Valid"
    and "k < length truths" and "truths ! k \<noteq> []"
  shows "state_checker public (snd (run_steps exec (concat (take (Suc k) model)) ms))
       (snd (run_steps exec (take (Suc k) truths) gs)) = Inr Valid"
  using assms
proof (induction truths arbitrary: turn model ms gs results k)
  case (Cons truth truths)
  define response where "response = (case model of [] \<Rightarrow> [] | r # _ \<Rightarrow> r)"
  obtain mr ms' where ms': "run_steps exec response ms = (mr, ms')" by (cases "run_steps exec response ms")
  obtain tr gs' where gs': "exec truth gs = (tr, gs')" by (cases "exec truth gs")
  have split: "snd (run_steps exec (concat (take (Suc k) model)) ms)
      = snd (run_steps exec (concat (take k (tl model))) ms')" for k
  proof -
    have app: "snd (run_steps exec (a @ b) s) = snd (run_steps exec b (snd (run_steps exec a s)))" for a b s
      by (induction a arbitrary: s) (auto simp: split_def)
    show ?thesis using ms' by (cases model) (simp_all add: app response_def)
  qed
  have split': "snd (run_steps exec (take (Suc k) (truth # truths)) gs) = snd (run_steps exec (take k truths) gs')" for k
    using gs' by (simp split: prod.splits)
  have here: "truth \<noteq> [] \<Longrightarrow> state_checker public ms' gs' = Inr Valid"
    using Cons.prems(1) ms' gs' unfolding response_def [symmetric]
    by (auto simp: Let_def rbind_def response_def [symmetric] split: sum.splits if_splits)
  have rest: "turn_loop exec public (Suc turn) (tl model) truths ms' gs' (results @ mr) = Inr Valid"
    using Cons.prems(1) ms' gs'
    by (auto simp: Let_def rbind_def response_def [symmetric] split: sum.splits if_splits verdict.splits)
  show ?case
  proof (cases k)
    case 0
    then show ?thesis using here Cons.prems(3) split [of 0] split' [of 0] by simp
  next
    case (Suc j)
    then show ?thesis
      using Cons.IH [OF rest, of j] Cons.prems(2,3) split [of "Suc j"] split' [of "Suc j"] by simp
  qed
qed simp

text \<open>C13: the checker is sound: when it accepts, then after every turn that has ground-truth calls each
  backend of the model agrees with the ground truth on the public attributes.\<close>

theorem accepted_states_agree:
  assumes "multi_turn_checker show_float methods py_eval public new_instance model_decoded ground_truth involved_classes
       = Inr Valid"
    and "make_instances new_instance involved_classes [] = Inr insts"
    and "k < length ground_truth" and "ground_truth ! k \<noteq> []"
    and "(class_name, g) \<in> set (snd (run_steps (execute_calls show_float methods py_eval) (take (Suc k) ground_truth) insts))"
  shows "\<exists>m. map_of (snd (run_steps (execute_calls show_float methods py_eval)
                (concat (take (Suc k) model_decoded)) insts)) class_name = Some m \<and> compare_instances public class_name m g = Inr True"
proof -
  have "turn_loop (execute_calls show_float methods py_eval) public 0 model_decoded ground_truth insts insts [] = Inr Valid"
    using assms(1,2) by (simp add: multi_turn_checker_def)
  from turn_loop_Valid [OF this assms(3,4)] show ?thesis
    using assms(5) unfolding state_checker_Valid by blast
qed

theorem accepted_states_agree_witness:
  "\<exists>m. map_of (snd (run_steps (execute_calls (\<lambda>_. []) (\<lambda>_. [''tick'']) tick_eval)
                (concat (take (Suc 0) [[[''tick()'']]])) [(''Clock'', 0)])) ''Clock'' = Some m
     \<and> compare_instances (\<lambda>i. [(''count'', i)]) ''Clock'' m 1 = Inr True"
proof (rule accepted_states_agree)
  show "multi_turn_checker (\<lambda>_. []) (\<lambda>_. [''tick'']) tick_eval (\<lambda>i. [(''count'', i)])
     (\<lambda>c. if c = ''Clock'' then Some (0 :: int) else None) [[[''tick()'']]] [[''tick()'']] [''Clock''] = Inr Valid"
    by code_simp
  show "make_instances (\<lambda>c. if c = ''Clock'' then Some (0 :: int) else None) [''Clock''] [] = Inr [(''Clock'', 0)]"
    by simp
  show "(''Clock'', 1) \<in> set (snd (run_steps (execute_calls (\<lambda>_. []) (\<lambda>_. [''tick'']) tick_eval)
       (take (Suc 0) [[''tick()'']]) [(''Clock'', 0)]))"
    by code_simp
qed simp_all

text \<open>The rewriting of method names also changes the text inside string literals: it drops the white
  space before a parenthesis and inserts a class name before a word that is a method name.\<close>

theorem rewriting_changes_literals:
  "process_method_calls [(''post'', ''Api''), (''pwd'', ''Fs'')] False
     (''post('' @ [CHR 0x22] @ ''see you (soon) pwd(x)'' @ [CHR 0x22] @ '')'')
   = ''Api.post('' @ [CHR 0x22] @ ''see you(soon) Fs.pwd(x)'' @ [CHR 0x22] @ '')''"
  by code_simp

text \<open>The response check accepts exactly when the execution results of the ground truth, counted with
  multiplicity, are among those of the model.\<close>

lemma response_checker_Valid: "response_checker model truth turn = Valid \<longleftrightarrow> mset truth \<subseteq># mset model"
  by (simp add: response_checker_def missing_items_Nil Let_def)

end
