(* ===== verification/PyText.thy ===== *)
theory PyText
  imports PyValue
begin

text \<open>More string methods of Python, for the file system and the other text-heavy backends. ASCII only.\<close>

section \<open>Stripping and splitting\<close>

definition rstrip_char :: "char \<Rightarrow> string \<Rightarrow> string" where
  "rstrip_char c s = rev (dropWhile (\<lambda>x. x = c) (rev s))"

definition strip_char :: "char \<Rightarrow> string \<Rightarrow> string" where
  "strip_char c s = dropWhile (\<lambda>x. x = c) (rstrip_char c s)"

text \<open>\<open>s.split(c)\<close> for one character: always at least one part.\<close>

fun split_char :: "char \<Rightarrow> string \<Rightarrow> string list" where
  "split_char c [] = [[]]"
| "split_char c (x # xs) =
     (if x = c then [] # split_char c xs
      else case split_char c xs of [] \<Rightarrow> [[x]] | w # ws \<Rightarrow> (x # w) # ws)"

text \<open>\<open>s.split()\<close>: the maximal runs of characters that are not white space.\<close>

function split_ws :: "string \<Rightarrow> string list" where
  "split_ws s =
     (let t = dropWhile is_space s
      in if t = [] then []
         else takeWhile (\<lambda>c. \<not> is_space c) t # split_ws (dropWhile (\<lambda>c. \<not> is_space c) t))"
  by pat_completeness auto
termination
proof (relation "measure length", goal_cases)
  case (2 s t)
  have "t \<noteq> []" using 2 by simp
  then have "\<not> is_space (hd t)" using 2(1) hd_dropWhile [of is_space s] by simp
  with \<open>t \<noteq> []\<close> obtain c cs where t: "t = c # cs" and c: "\<not> is_space c" by (metis list.collapse)
  have "length (dropWhile (\<lambda>c. \<not> is_space c) t) < length t"
    unfolding t using c by (simp add: length_dropWhile_le less_Suc_eq_le)
  also have "length t \<le> length s" using 2(1) by (simp add: length_dropWhile_le)
  finally show ?case by simp
qed simp

declare split_ws.simps [simp del]

text \<open>\<open>s.splitlines()\<close>; \<open>\r\n\<close> is one line boundary, and a final boundary adds no line.\<close>

definition is_line_end :: "char \<Rightarrow> bool" where
  "is_line_end c \<longleftrightarrow> of_char c \<in> {10, 11, 12, 13, 28, 29, 30 :: nat}"

fun splitlines_from :: "string \<Rightarrow> string \<Rightarrow> string list" where
  "splitlines_from cur [] = (if cur = [] then [] else [rev cur])"
| "splitlines_from cur (c # cs) =
     (if of_char c = (13 :: nat) \<and> take 1 cs = [char_of (10 :: nat)] then rev cur # splitlines_from [] (tl cs)
      else if is_line_end c then rev cur # splitlines_from [] cs
      else splitlines_from (c # cur) cs)"

definition splitlines :: "string \<Rightarrow> string list" where
  "splitlines s = splitlines_from [] s"

definition newline :: string where
  "newline = [char_of (10 :: nat)]"

section \<open>Searching and slicing\<close>

text \<open>\<open>s.replace(old, new, 1)\<close> for a text that starts with \<open>old\<close>.\<close>

definition replace_prefix :: "string \<Rightarrow> string \<Rightarrow> string \<Rightarrow> string" where
  "replace_prefix old new s = (if prefix old s then new @ drop (length old) s else s)"

text \<open>\<open>xs[i:]\<close> for an integer \<open>i\<close>: a negative one counts from the end.\<close>

definition slice_from :: "int \<Rightarrow> 'a list \<Rightarrow> 'a list" where
  "slice_from i xs = drop (nat (if i < 0 then max 0 (int (length xs) + i) else i)) xs"

section \<open>Numbers with two decimals\<close>

text \<open>\<open>f"{r:.2f}"\<close> for a non-negative number: the nearest hundredth, ties to even.\<close>

definition hundredths :: "rat \<Rightarrow> int" where
  "hundredths r =
     (let x = r * 100; f = floor x; d = x - rat_of_int f
      in if d < 1 / 2 then f else if 1 / 2 < d then f + 1 else if even f then f else f + 1)"

definition fmt2 :: "rat \<Rightarrow> string" where
  "fmt2 r = (let h = hundredths r
     in show_int (h div 100) @ ''.'' @ [digit_char (nat (h mod 100 div 10)), digit_char (nat (h mod 10))])"

end
