(* ===== verification/FileSystem.thy ===== *)
theory FileSystem
  imports PyText
begin

text \<open>
  The simulated file system \<open>gorilla_file_system.py\<close>. Python objects live in a heap: \<open>nodes\<close> are the
  \<open>File\<close> and \<open>Directory\<close> objects, \<open>tables\<close> the \<open>contents\<close> dictionaries, both addressed by position. The
  dictionaries are objects of their own because moving a directory makes the new directory share the
  dictionary of the old one, and copying copies the dictionary but not the objects in it. The
  modification times (private, wall clock) are not modelled.
\<close>

section \<open>Objects\<close>

datatype node =
    FileNode (node_name: string) (content: string)
  | DirNode (node_name: string) (parent: "nat option") (table: nat)

record heap =
  nodes :: "node list"
  tables :: "(string \<times> nat) list list"

definition node_at :: "heap \<Rightarrow> nat \<Rightarrow> node" where
  "node_at h a = nodes h ! a"

definition is_dir :: "heap \<Rightarrow> nat \<Rightarrow> bool" where
  "is_dir h a = (case node_at h a of DirNode _ _ _ \<Rightarrow> True | _ \<Rightarrow> False)"

definition contents :: "heap \<Rightarrow> nat \<Rightarrow> (string \<times> nat) list" where
  "contents h d = tables h ! table (node_at h d)"

definition set_contents :: "nat \<Rightarrow> (string \<times> nat) list \<Rightarrow> heap \<Rightarrow> heap" where
  "set_contents d entries h = h\<lparr>tables := (tables h)[table (node_at h d) := entries]\<rparr>"

text \<open>\<open>Directory(name, parent)\<close>: a new object with a new empty dictionary.\<close>

definition new_directory :: "string \<Rightarrow> nat option \<Rightarrow> heap \<Rightarrow> nat \<times> heap" where
  "new_directory name par h =
     (length (nodes h),
      h\<lparr>nodes := nodes h @ [DirNode name par (length (tables h))], tables := tables h @ [[]]\<rparr>)"

definition new_file :: "string \<Rightarrow> string \<Rightarrow> heap \<Rightarrow> nat \<times> heap" where
  "new_file name text h = (length (nodes h), h\<lparr>nodes := nodes h @ [FileNode name text]\<rparr>)"

definition file_write :: "nat \<Rightarrow> string \<Rightarrow> heap \<Rightarrow> heap" where
  "file_write a text h = h\<lparr>nodes := (nodes h)[a := FileNode (node_name (node_at h a)) text]\<rparr>"

section \<open>The methods of \<open>Directory\<close>\<close>

definition exists_message :: "string \<Rightarrow> string \<Rightarrow> string \<Rightarrow> string" where
  "exists_message kind name dir =
     kind @ '' '' @ quoted name @ '' already exists in directory '' @ quoted dir @ ''.''"

definition add_file :: "nat \<Rightarrow> string \<Rightarrow> string \<Rightarrow> heap \<Rightarrow> heap result" where
  "add_file d file_name text h =
     (if map_of (contents h d) file_name \<noteq> None
      then Inl (ValueError (exists_message ''File'' file_name (node_name (node_at h d))))
      else let (a, h') = new_file file_name text h
           in Inr (set_contents d (dict_set file_name a (contents h' d)) h'))"

definition add_directory :: "nat \<Rightarrow> string \<Rightarrow> heap \<Rightarrow> (nat \<times> heap) result" where
  "add_directory d dir_name h =
     (if map_of (contents h d) dir_name \<noteq> None
      then Inl (ValueError (exists_message ''Directory'' dir_name (node_name (node_at h d))))
      else let (a, h') = new_directory dir_name (Some d) h
           in Inr (a, set_contents d (dict_set dir_name a (contents h' d)) h'))"

definition get_item :: "heap \<Rightarrow> nat \<Rightarrow> string \<Rightarrow> nat option" where
  "get_item h d item_name = (if item_name = ''.'' then Some d else map_of (contents h d) item_name)"

text \<open>\<open>d.contents = e.contents\<close> and \<open>d.contents = e.contents.copy()\<close>.\<close>

definition share_contents :: "nat \<Rightarrow> nat \<Rightarrow> heap \<Rightarrow> heap" where
  "share_contents d t h =
     (case node_at h d of
        DirNode n p _ \<Rightarrow> h\<lparr>nodes := (nodes h)[d := DirNode n p t]\<rparr>
      | FileNode _ _ \<Rightarrow> h)"

definition copy_contents :: "nat \<Rightarrow> nat \<Rightarrow> heap \<Rightarrow> heap" where
  "copy_contents d t h =
     share_contents d (length (tables h)) (h\<lparr>tables := tables h @ [tables h ! t]\<rparr>)"

section \<open>Loading a scenario\<close>

datatype scenario = ScFile string | ScDir "(string \<times> scenario) list"

text \<open>The constants of \<open>long_context.py\<close>, used only when \<open>long_context\<close> is set.\<close>

record long_context_data =
  file_content_extension :: string
  files_tail_used :: "string list"
  populate_file_extension :: "string list"

text \<open>
  \<open>_load_directory\<close>: the entries are loaded in order into the directory \<open>d\<close>; a directory without
  subdirectories is filled with empty files when \<open>long_context\<close> is set.
\<close>

definition populate_directory :: "string list \<Rightarrow> nat \<Rightarrow> heap \<Rightarrow> heap result" where
  "populate_directory names d = for_each (\<lambda>name. add_file d name []) names"

definition put_entry :: "nat \<Rightarrow> string \<Rightarrow> nat \<Rightarrow> heap \<Rightarrow> heap" where
  "put_entry d name a h = set_contents d (dict_set name a (contents h d)) h"

fun load_entries :: "long_context_data option \<Rightarrow> (string \<times> scenario) list \<Rightarrow> nat \<Rightarrow> bool \<Rightarrow> heap \<Rightarrow> heap result" where
  "load_entries long [] d is_bottommost h =
     (case long of
        Some data \<Rightarrow> (if is_bottommost then populate_directory (populate_file_extension data) d h else Inr h)
      | None \<Rightarrow> Inr h)"
| "load_entries long ((name, ScDir entries) # rest) d is_bottommost h =
     (let (a, h1) = new_directory name (Some d) h
      in rbind (load_entries long entries a True h1) (\<lambda>h2.
           load_entries long rest d False (put_entry d name a h2)))"
| "load_entries long ((name, ScFile text) # rest) d is_bottommost h =
     (let text' = (case long of
            Some data \<Rightarrow> (if name \<in> set (files_tail_used data) then text else text @ file_content_extension data)
          | None \<Rightarrow> text);
          (a, h1) = new_file name text' h
      in load_entries long rest d is_bottommost (put_entry d name a h1))"

record gfs =
  fs_heap :: heap
  root :: nat
  current_dir :: nat

definition empty_heap :: heap where
  "empty_heap = \<lparr>nodes = [], tables = []\<rparr>"

text \<open>\<open>None\<close>: a scenario without \<open>root\<close>; otherwise the name of the root and its entries.\<close>

definition load_scenario ::
    "long_context_data option \<Rightarrow> (string \<times> (string \<times> scenario) list) option \<Rightarrow> gfs result" where
  "load_scenario long sc =
     (case sc of
        None \<Rightarrow> (let (r, h) = new_directory ''/'' None empty_heap
                 in Inr \<lparr>fs_heap = h, root = r, current_dir = r\<rparr>)
      | Some (name, entries) \<Rightarrow>
          (let (r, h) = new_directory name None empty_heap
           in rbind (load_entries long entries r True h)
                (\<lambda>h. Inr \<lparr>fs_heap = h, root = r, current_dir = r\<rparr>)))"

end
