(* ===== verification/FileOps.thy ===== *)
theory FileOps
  imports FileSystem "HOL-Library.List_Lexorder" "HOL-Library.Char_ord"
begin

text \<open>
  The operations of \<open>GorillaFileSystem\<close> (\<open>gorilla_file_system.py\<close>) on the objects of \<open>FileSystem\<close>,
  one definition per method, and the step function that dispatches a call to its method.
\<close>

section \<open>Navigation\<close>

text \<open>The loop of \<open>pwd\<close>: it compares names with a \<open>Directory\<close>, so only a missing parent ends it.\<close>

partial_function (option) path_names :: "heap \<Rightarrow> nat option \<Rightarrow> string list \<Rightarrow> string list option" where
  "path_names h d path =
     (case d of None \<Rightarrow> Some path
      | Some a \<Rightarrow> path_names h (parent (node_at h a)) (node_name (node_at h a) # path))"

definition pwd :: "gfs \<Rightarrow> pyval result option" where
  "pwd s = map_option (\<lambda>path. Inr (PDict [(''current_working_directory'', PStr (''/'' @ join ''/'' path))]))
     (path_names (fs_heap s) (Some (current_dir s)) [])"

definition here :: "gfs \<Rightarrow> (string \<times> nat) list" where
  "here s = contents (fs_heap s) (current_dir s)"

definition string_list :: "string list \<Rightarrow> pyval" where
  "string_list xs = PList (map PStr xs)"

definition ls :: "bool \<Rightarrow> gfs \<Rightarrow> pyval" where
  "ls a s =
     (let names = map fst (here s);
          shown = (if a then names else filter (\<lambda>n. \<not> prefix ''.'' n) names)
      in PDict [(''current_directory_content'', string_list shown)])"

text \<open>\<open>_navigate_to_directory\<close>: the message of the error, or the directory.\<close>

fun walk :: "heap \<Rightarrow> nat \<Rightarrow> string list \<Rightarrow> nat option" where
  "walk h d [] = Some d"
| "walk h d (n # ns) =
     (case get_item h d n of
        Some a \<Rightarrow> (if is_dir h a then walk h a ns else None)
      | None \<Rightarrow> None)"

definition navigate_to_directory :: "string option \<Rightarrow> gfs \<Rightarrow> string + nat" where
  "navigate_to_directory path s =
     (case path of
        None \<Rightarrow> Inr (current_dir s)
      | Some p \<Rightarrow>
          if p = ''.'' then Inr (current_dir s)
          else if p = ''/'' then Inr (root s)
          else case walk (fs_heap s) (if prefix ''/'' p then root s else current_dir s)
                      (split_char CHR ''/'' (strip_char CHR ''/'' p)) of
                 Some d \<Rightarrow> Inr d
               | None \<Rightarrow> Inl (''cd: '' @ quoted p @ '': No such file or directory''))"

definition cd :: "string \<Rightarrow> gfs \<Rightarrow> pyval \<times> gfs" where
  "cd folder s =
     (let stripped = rstrip_char CHR ''/'' folder;
          target = (if stripped = [] then ''/'' else stripped)
      in if target \<notin> {''.'', ''..'', ''/''} \<and> CHR ''/'' \<in> set target
         then (error_dict (''cd: '' @ target @ '': Unsupported path. Only one folder level at a time is supported.''), s)
         else if target = ''..''
         then (case parent (node_at (fs_heap s) (current_dir s)) of
                 Some p \<Rightarrow> (PDict [], s\<lparr>current_dir := p\<rparr>)
               | None \<Rightarrow>
                   if root s = current_dir s
                   then (error_dict ''Current directory is already the root. Cannot go back.'', s)
                   else (error_dict ''cd: ..: No such directory'', s))
         else case navigate_to_directory (Some target) s of
                Inl m \<Rightarrow> (error_dict m, s)
              | Inr d \<Rightarrow> (PDict [(''current_working_directory'', PStr (node_name (node_at (fs_heap s) d)))],
                         s\<lparr>current_dir := d\<rparr>))"

section \<open>Files\<close>

definition valid_name :: "string \<Rightarrow> bool" where
  "valid_name n \<longleftrightarrow> (\<forall>c \<in> set n. c \<notin> set (CHR 0x5C # CHR 0x22 # ''|/?%*:><''))"

definition mkdir :: "string \<Rightarrow> gfs \<Rightarrow> pyval result \<times> gfs" where
  "mkdir dir_name s =
     (let failed = ''mkdir: cannot create directory '' @ quoted dir_name
      in if \<not> valid_name dir_name then (Inr (error_dict (failed @ '': Invalid character'')), s)
         else if map_of (here s) dir_name \<noteq> None then (Inr (error_dict (failed @ '': File exists'')), s)
         else case add_directory (current_dir s) dir_name (fs_heap s) of
                Inl e \<Rightarrow> (Inl e, s)
              | Inr (_, h) \<Rightarrow> (Inr PNone, s\<lparr>fs_heap := h\<rparr>))"

definition touch :: "string \<Rightarrow> gfs \<Rightarrow> pyval result \<times> gfs" where
  "touch file_name s =
     (let failed = ''touch: cannot touch '' @ quoted file_name
      in if \<not> valid_name file_name then (Inr (error_dict (failed @ '': Invalid character'')), s)
         else if map_of (here s) file_name \<noteq> None then (Inr (error_dict (failed @ '': File exists'')), s)
         else case add_file (current_dir s) file_name [] (fs_heap s) of
                Inl e \<Rightarrow> (Inl e, s)
              | Inr h \<Rightarrow> (Inr PNone, s\<lparr>fs_heap := h\<rparr>))"

definition local_item :: "gfs \<Rightarrow> string \<Rightarrow> nat option" where
  "local_item s name =
     (if map_of (here s) name = None then None else get_item (fs_heap s) (current_dir s) name)"

definition echo :: "string \<Rightarrow> string option \<Rightarrow> gfs \<Rightarrow> pyval result \<times> gfs" where
  "echo text file_name s =
     (case file_name of
        None \<Rightarrow> (Inr (PDict [(''terminal_output'', PStr text)]), s)
      | Some f \<Rightarrow>
          if \<not> valid_name f
          then (Inr (error_dict (''echo: cannot write to '' @ quoted f @ '': Invalid character'')), s)
          else if f = [] then (Inr (PDict [(''terminal_output'', PStr text)]), s)
          else case local_item s f of
                 None \<Rightarrow> (Inr (error_dict (''echo: cannot write to '' @ quoted f @ '': No such file'')), s)
               | Some a \<Rightarrow>
                   if is_dir (fs_heap s) a
                   then (Inl (AttributeError (quoted ''Directory'' @ '' object has no attribute '' @ quoted ''_write'')), s)
                   else (Inr PNone, s\<lparr>fs_heap := file_write a text (fs_heap s)\<rparr>))"

text \<open>The text of a file of the current directory; \<open>None\<close> for a missing name and for a directory.\<close>

definition local_file :: "gfs \<Rightarrow> string \<Rightarrow> string option" where
  "local_file s name =
     (case local_item s name of
        None \<Rightarrow> None
      | Some a \<Rightarrow> (case node_at (fs_heap s) a of FileNode _ text \<Rightarrow> Some text | DirNode _ _ _ \<Rightarrow> None))"

definition cat :: "string \<Rightarrow> gfs \<Rightarrow> pyval" where
  "cat f s =
     (if \<not> valid_name f then error_dict (''cat: '' @ quoted f @ '': Invalid character'')
      else case local_item s f of
             None \<Rightarrow> error_dict (''cat: '' @ quoted f @ '': No such file or directory'')
           | Some a \<Rightarrow>
               (case node_at (fs_heap s) a of
                  FileNode _ text \<Rightarrow> PDict [(''file_content'', PStr text)]
                | DirNode _ _ _ \<Rightarrow> error_dict (''cat: '' @ quoted f @ '': Is a directory'')))"

definition file_report :: "string \<Rightarrow> string \<Rightarrow> (string \<Rightarrow> (string \<times> pyval) list) \<Rightarrow> gfs \<Rightarrow> pyval" where
  "file_report tool f report s =
     (case local_file s f of
        Some text \<Rightarrow> PDict (report text)
      | None \<Rightarrow> error_dict (tool @ '': '' @ f @ '': No such file or directory''))"

definition wc :: "string \<Rightarrow> string \<Rightarrow> gfs \<Rightarrow> pyval" where
  "wc f mode s =
     (if mode \<notin> {''l'', ''w'', ''c''} then error_dict (''wc: invalid mode '' @ quoted mode)
      else file_report ''wc'' f (\<lambda>text.
             if mode = ''l'' then [(''count'', PInt (int (length (splitlines text)))), (''type'', PStr ''lines'')]
             else if mode = ''w'' then [(''count'', PInt (int (length (split_ws text)))), (''type'', PStr ''words'')]
             else [(''count'', PInt (int (length text))), (''type'', PStr ''characters'')]) s)"

definition sort_file :: "string \<Rightarrow> gfs \<Rightarrow> pyval" where
  "sort_file f = file_report ''sort'' f (\<lambda>text.
     [(''sorted_content'', PStr (join newline (sort (splitlines text))))])"

definition grep :: "string \<Rightarrow> string \<Rightarrow> gfs \<Rightarrow> pyval" where
  "grep f pattern = file_report ''grep'' f (\<lambda>text.
     [(''matching_lines'', string_list (filter (contains pattern) (splitlines text)))])"

definition tail :: "string \<Rightarrow> int \<Rightarrow> gfs \<Rightarrow> pyval" where
  "tail f lines = file_report ''tail'' f (\<lambda>text.
     let content = splitlines text; n = min lines (int (length content))
     in [(''last_lines'', PStr (join newline (slice_from (- n) content)))])"

definition diff_line :: "string \<times> string \<Rightarrow> string" where
  "diff_line p = ''- '' @ fst p @ newline @ ''+ '' @ snd p"

definition diff :: "string \<Rightarrow> string \<Rightarrow> gfs \<Rightarrow> pyval" where
  "diff file_name1 file_name2 s =
     (case (local_file s file_name1, local_file s file_name2) of
        (Some t1, Some t2) \<Rightarrow>
          PDict [(''diff_lines'', PStr (join newline
            (map diff_line (filter (\<lambda>p. fst p \<noteq> snd p) (zip (splitlines t1) (splitlines t2))))))]
      | _ \<Rightarrow> error_dict (''diff: '' @ file_name1 @ '' or '' @ file_name2 @ '': No such file or directory''))"

section \<open>Recursive searches\<close>

text \<open>
  Both searches recurse once per level and raise when the depth passes the recursion limit, which
  the first argument is. Directories may share their dictionaries, so the search may have no end.
\<close>

definition too_deep :: pyexn where
  "too_deep = RecursionError ''maximum recursion depth exceeded''"

fun search_entries :: "(nat \<Rightarrow> string \<Rightarrow> string list result) \<Rightarrow> heap \<Rightarrow> string option \<Rightarrow> string
    \<Rightarrow> (string \<times> nat) list \<Rightarrow> string list result" where
  "search_entries sub h name base [] = Inr []"
| "search_entries sub h name base ((n, a) # rest) =
     (let path = base @ ''/'' @ n;
          found = (if name = None \<or> contains (the name) n then [path] else [])
      in rbind (if is_dir h a then sub a path else Inr []) (\<lambda>inner.
           rbind (search_entries sub h name base rest) (\<lambda>others. Inr (found @ inner @ others))))"

fun recursive_search :: "nat \<Rightarrow> heap \<Rightarrow> string option \<Rightarrow> nat \<Rightarrow> string \<Rightarrow> string list result" where
  "recursive_search 0 h name d base = Inl too_deep"
| "recursive_search (Suc limit) h name d base =
     search_entries (recursive_search limit h name) h name base (contents h d)"

definition find_files :: "nat \<Rightarrow> string \<Rightarrow> string option \<Rightarrow> gfs \<Rightarrow> pyval result" where
  "find_files limit path name s =
     (case navigate_to_directory (Some path) s of
        Inl m \<Rightarrow> Inr (error_dict (replace_prefix ''cd:'' ''find:'' m))
      | Inr d \<Rightarrow> rbind (recursive_search limit (fs_heap s) name d (rstrip_char CHR ''/'' path))
                 (\<lambda>matches. Inr (PDict [(''matches'', string_list matches)])))"

fun get_size :: "nat \<Rightarrow> heap \<Rightarrow> nat \<Rightarrow> int result" where
  "get_size 0 h a = Inl too_deep"
| "get_size (Suc limit) h a =
     (case node_at h a of
        FileNode _ text \<Rightarrow> Inr (int (length text))
      | DirNode _ _ t \<Rightarrow>
          foldl (\<lambda>acc e. rbind acc (\<lambda>n. rbind (get_size limit h (snd e)) (\<lambda>m. Inr (n + m)))) (Inr 0) (tables h ! t))"

fun human_size :: "string list \<Rightarrow> rat \<Rightarrow> string" where
  "human_size [] used = fmt2 used @ '' PB''"
| "human_size (u # us) used = (if used < 1024 then fmt2 used @ '' '' @ u else human_size us (used / 1024))"

definition du :: "nat \<Rightarrow> bool \<Rightarrow> gfs \<Rightarrow> pyval result" where
  "du limit human_readable s =
     (case navigate_to_directory None s of
        Inl m \<Rightarrow> Inr (error_dict m)
      | Inr d \<Rightarrow> rbind (get_size limit (fs_heap s) d) (\<lambda>used.
          Inr (PDict [(''disk_usage'', PStr
            (if human_readable then human_size [''B'', ''KB'', ''MB'', ''GB'', ''TB''] (rat_of_int used)
             else show_int used @ '' bytes''))])))"

section \<open>Moving, copying, removing\<close>

definition pop_name :: "nat \<Rightarrow> string \<Rightarrow> heap \<Rightarrow> heap" where
  "pop_name d name h = set_contents d (dict_del name (contents h d)) h"

text \<open>A new entry with the text of a file; a new directory with the dictionary of a directory.\<close>

definition add_moved :: "nat \<Rightarrow> nat \<Rightarrow> string \<Rightarrow> heap \<Rightarrow> heap result" where
  "add_moved item d name h =
     (case node_at h item of
        FileNode _ text \<Rightarrow> add_file d name text h
      | DirNode _ _ t \<Rightarrow> rbind (add_directory d name h) (\<lambda>(a, h'). Inr (share_contents a t h')))"

definition add_copied :: "nat \<Rightarrow> nat \<Rightarrow> string \<Rightarrow> heap \<Rightarrow> heap result" where
  "add_copied item d name h =
     (case node_at h item of
        FileNode _ text \<Rightarrow> add_file d name text h
      | DirNode _ _ t \<Rightarrow> rbind (add_directory d name h) (\<lambda>(a, h'). Inr (copy_contents a t h')))"

definition finish :: "string \<Rightarrow> heap result \<Rightarrow> gfs \<Rightarrow> pyval result \<times> gfs" where
  "finish message r s =
     (case r of Inl e \<Rightarrow> (Inl e, s)
      | Inr h \<Rightarrow> (Inr (PDict [(''result'', PStr message)]), s\<lparr>fs_heap := h\<rparr>))"

text \<open>In \<open>mv\<close> the entry is popped before the new one is added.\<close>

definition move_entry :: "string \<Rightarrow> string \<Rightarrow> nat \<Rightarrow> nat \<Rightarrow> string \<Rightarrow> gfs \<Rightarrow> pyval result \<times> gfs" where
  "move_entry message source item d name s =
     (let popped = s\<lparr>fs_heap := pop_name (current_dir s) source (fs_heap s)\<rparr>
      in finish message (add_moved item d name (fs_heap popped)) popped)"

definition mv :: "string \<Rightarrow> string \<Rightarrow> gfs \<Rightarrow> pyval result \<times> gfs" where
  "mv source destination s =
     (let to = quoted (destination @ ''/'' @ source)
      in case local_item s source of
           None \<Rightarrow> (Inr (error_dict (''mv: cannot move '' @ quoted source @ '': No such file or directory'')), s)
         | Some item \<Rightarrow>
             if CHR ''/'' \<in> set destination
             then (Inr (error_dict ''mv: path not allowed in destination. Provide only a file or directory name.''), s)
             else (case local_item s destination of
                 Some dest_item \<Rightarrow>
                   if \<not> is_dir (fs_heap s) dest_item
                   then (Inr (error_dict (''mv: cannot move '' @ quoted source @ '' to '' @ quoted destination
                              @ '': Not a directory'')), s)
                   else if map_of (contents (fs_heap s) dest_item) source \<noteq> None
                   then (Inr (error_dict (''mv: cannot move '' @ quoted source @ '' to '' @ to @ '': File exists'')), s)
                   else move_entry (quoted source @ '' moved to '' @ to) source item dest_item source s
               | None \<Rightarrow> move_entry (quoted source @ '' moved to '' @ quoted destination)
                           source item (current_dir s) destination s))"

definition rm :: "string \<Rightarrow> gfs \<Rightarrow> pyval result \<times> gfs" where
  "rm f s =
     (case local_item s f of
        None \<Rightarrow> (Inr (error_dict (''rm: cannot remove '' @ quoted f @ '': No such file or directory'')), s)
      | Some _ \<Rightarrow> finish (quoted f @ '' removed'') (Inr (pop_name (current_dir s) f (fs_heap s))) s)"

definition rmdir :: "string \<Rightarrow> gfs \<Rightarrow> pyval result \<times> gfs" where
  "rmdir d s =
     (let failed = ''rmdir: cannot remove '' @ quoted d
      in case local_item s d of
           None \<Rightarrow> (Inr (error_dict (failed @ '': No such file or directory'')), s)
         | Some item \<Rightarrow>
             if \<not> is_dir (fs_heap s) item then (Inr (error_dict (failed @ '': Not a directory'')), s)
             else if contents (fs_heap s) item \<noteq> [] then (Inr (error_dict (failed @ '': Directory not empty'')), s)
             else finish (quoted d @ '' removed'') (Inr (pop_name (current_dir s) d (fs_heap s))) s)"

definition cp :: "string \<Rightarrow> string \<Rightarrow> gfs \<Rightarrow> pyval result \<times> gfs" where
  "cp source destination s =
     (let to = destination @ ''/'' @ source
      in case local_item s source of
           None \<Rightarrow> (Inr (error_dict (''cp: cannot copy '' @ quoted source @ '': No such file or directory'')), s)
         | Some item \<Rightarrow>
             if CHR ''/'' \<in> set destination
             then (Inr (error_dict ''cp: path not allowed in destination. Provide only a file or directory name.''), s)
             else (case local_item s destination of
                 Some dest_item \<Rightarrow>
                   if \<not> is_dir (fs_heap s) dest_item
                   then (Inr (error_dict (''cp: cannot copy '' @ quoted source @ '' to '' @ quoted destination
                              @ '': Not a directory'')), s)
                   else if map_of (contents (fs_heap s) dest_item) to \<noteq> None
                   then (Inr (error_dict (''cp: cannot copy '' @ quoted source @ '' to '' @ quoted to
                              @ '': File exists'')), s)
                   else finish (quoted source @ '' copied to '' @ quoted to)
                          (add_copied item dest_item source (fs_heap s)) s
               | None \<Rightarrow> finish (quoted source @ '' copied to '' @ quoted destination)
                           (add_copied item (current_dir s) destination (fs_heap s)) s))"

section \<open>Calls\<close>

datatype fs_call =
    Pwd | Ls bool | Cd string | Mkdir string | Touch string | Echo string "string option"
  | Cat string | Find string "string option" | Wc string string | SortFile string
  | Grep string string | Du bool | Tail string int | Diff string string
  | Mv string string | Rm string | Rmdir string | Cp string string

fun fs_step :: "nat \<Rightarrow> fs_call \<Rightarrow> gfs \<Rightarrow> (pyval result \<times> gfs) option" where
  "fs_step limit Pwd s = map_option (\<lambda>r. (r, s)) (pwd s)"
| "fs_step limit (Ls a) s = Some (Inr (ls a s), s)"
| "fs_step limit (Cd folder) s = (case cd folder s of (v, t) \<Rightarrow> Some (Inr v, t))"
| "fs_step limit (Mkdir d) s = Some (mkdir d s)"
| "fs_step limit (Touch f) s = Some (touch f s)"
| "fs_step limit (Echo text f) s = Some (echo text f s)"
| "fs_step limit (Cat f) s = Some (Inr (cat f s), s)"
| "fs_step limit (Find path name) s = Some (find_files limit path name s, s)"
| "fs_step limit (Wc f mode) s = Some (Inr (wc f mode s), s)"
| "fs_step limit (SortFile f) s = Some (Inr (sort_file f s), s)"
| "fs_step limit (Grep f pattern) s = Some (Inr (grep f pattern s), s)"
| "fs_step limit (Du human_readable) s = Some (du limit human_readable s, s)"
| "fs_step limit (Tail f lines) s = Some (Inr (tail f lines s), s)"
| "fs_step limit (Diff f g) s = Some (Inr (diff f g s), s)"
| "fs_step limit (Mv source destination) s = Some (mv source destination s)"
| "fs_step limit (Rm f) s = Some (rm f s)"
| "fs_step limit (Rmdir d) s = Some (rmdir d s)"
| "fs_step limit (Cp source destination) s = Some (cp source destination s)"

end
