(* ===== verification/FileFacts.thy ===== *)
theory FileFacts
  imports FileOps
begin

text \<open>
  What the file system of \<open>FileOps\<close> guarantees: the invariant of the heap and its preservation by every
  operation, calls that return, failing calls that change nothing, writing, renaming and copying files,
  and the ways in which directories become cyclic.
\<close>

section \<open>Well-formed heaps\<close>

text \<open>
  Every directory has a dictionary and its parent is an older directory; the entries of the
  dictionaries are existing objects under distinct names. Parents being older is what makes
  \<open>pwd\<close> return, although the directories may form cycles downwards.
\<close>

definition node_ok :: "heap \<Rightarrow> nat \<Rightarrow> bool" where
  "node_ok h a = (case node_at h a of
     FileNode _ _ \<Rightarrow> True
   | DirNode _ p t \<Rightarrow> t < length (tables h) \<and> (case p of None \<Rightarrow> True | Some q \<Rightarrow> q < a \<and> is_dir h q))"

definition table_ok :: "nat \<Rightarrow> (string \<times> nat) list \<Rightarrow> bool" where
  "table_ok n t \<longleftrightarrow> distinct (map fst t) \<and> (\<forall>a \<in> snd ` set t. a < n)"

definition wf_heap :: "heap \<Rightarrow> bool" where
  "wf_heap h \<longleftrightarrow> (\<forall>a < length (nodes h). node_ok h a) \<and> (\<forall>t \<in> set (tables h). table_ok (length (nodes h)) t)"

definition dir_ok :: "heap \<Rightarrow> nat \<Rightarrow> bool" where
  "dir_ok h d \<longleftrightarrow> d < length (nodes h) \<and> is_dir h d"

definition gfs_inv :: "gfs \<Rightarrow> bool" where
  "gfs_inv s \<longleftrightarrow> wf_heap (fs_heap s) \<and> dir_ok (fs_heap s) (root s) \<and> dir_ok (fs_heap s) (current_dir s)"

text \<open>What every update of the heap keeps: well-formedness, the objects, and which of them are directories.\<close>

definition grows :: "heap \<Rightarrow> heap \<Rightarrow> bool" where
  "grows h h' \<longleftrightarrow> wf_heap h' \<and> length (nodes h) \<le> length (nodes h')
     \<and> (\<forall>a < length (nodes h). is_dir h' a = is_dir h a)"

lemma growsD:
  "grows h h' \<Longrightarrow> wf_heap h'"
  "grows h h' \<Longrightarrow> dir_ok h d \<Longrightarrow> dir_ok h' d"
  "grows h h' \<Longrightarrow> a < length (nodes h) \<Longrightarrow> a < length (nodes h')"
  by (auto simp: grows_def dir_ok_def)

lemma grows_refl: "wf_heap h \<Longrightarrow> grows h h"
  by (simp add: grows_def)

lemma grows_trans: "grows h h' \<Longrightarrow> grows h' h'' \<Longrightarrow> grows h h''"
  by (auto simp: grows_def)

lemma table_ok_mono: "table_ok n t \<Longrightarrow> n \<le> m \<Longrightarrow> table_ok m t"
  by (auto simp: table_ok_def)

lemma table_ok_set: "table_ok n t \<Longrightarrow> a < n \<Longrightarrow> table_ok n (dict_set name a t)"
proof -
  assume t: "table_ok n t" and a: "a < n"
  have "snd ` set (dict_set name a t) \<subseteq> insert a (snd ` set t)"
    by (induction name a t rule: dict_set.induct) auto
  then have "\<forall>b \<in> snd ` set (dict_set name a t). b < n" using t a unfolding table_ok_def by blast
  then show ?thesis using t by (simp add: table_ok_def distinct_dict_set)
qed

lemma table_ok_del: "table_ok n t \<Longrightarrow> table_ok n (dict_del name t)"
  using distinct_dict_del [of t name] by (auto simp: table_ok_def dict_del_def)

lemma contents_ok:
  assumes "wf_heap h" and "dir_ok h d"
  shows "table (node_at h d) < length (tables h)" and "contents h d \<in> set (tables h)"
    and "table_ok (length (nodes h)) (contents h d)"
proof -
  have "node_ok h d" using assms by (simp add: wf_heap_def dir_ok_def)
  then show t: "table (node_at h d) < length (tables h)"
    using assms by (cases "node_at h d") (simp_all add: node_ok_def dir_ok_def is_dir_def)
  then show "contents h d \<in> set (tables h)" by (simp add: contents_def)
  then show "table_ok (length (nodes h)) (contents h d)" using assms by (simp add: wf_heap_def)
qed

lemma lookup_ok:
  assumes "wf_heap h" and "dir_ok h d" and "map_of (contents h d) n = Some a"
  shows "a < length (nodes h)"
  using contents_ok(3) [OF assms(1,2)] map_of_SomeD [OF assms(3)] by (force simp: table_ok_def)

lemma get_item_ok:
  assumes "wf_heap h" and "dir_ok h d" and "get_item h d n = Some a"
  shows "a < length (nodes h)"
  using assms lookup_ok [OF assms(1,2)] by (auto simp: get_item_def dir_ok_def split: if_splits)

lemma node_ok_old:
  assumes "node_at h' a = node_at h a" and "length (tables h) \<le> length (tables h')"
    and "\<And>q. q < a \<Longrightarrow> is_dir h' q = is_dir h q" and "node_ok h a"
  shows "node_ok h' a"
  using assms by (auto simp: node_ok_def split: node.splits option.splits)

section \<open>The primitive updates\<close>

lemma new_directory_grows:
  assumes wf: "wf_heap h" and par: "case par of None \<Rightarrow> True | Some q \<Rightarrow> dir_ok h q"
    and new: "new_directory name par h = (a, h')"
  shows "grows h h'" and "dir_ok h' a" and "a = length (nodes h)" and "contents h' a = []"
proof -
  have h': "h' = h\<lparr>nodes := nodes h @ [DirNode name par (length (tables h))], tables := tables h @ [[]]\<rparr>"
    and a: "a = length (nodes h)" using new by (simp_all add: new_directory_def)
  have old: "node_at h' b = node_at h b" if "b < length (nodes h)" for b
    using that by (simp add: h' node_at_def nth_append)
  then have dirs: "is_dir h' b = is_dir h b" if "b < length (nodes h)" for b
    using that by (simp add: is_dir_def)
  have at: "node_at h' a = DirNode name par (length (tables h))" by (simp add: h' a node_at_def)
  have "node_ok h' b" if "b < length (nodes h')" for b
  proof (cases "b = length (nodes h)")
    case True
    then show ?thesis using par at dirs a
      by (auto simp: node_ok_def h' dir_ok_def split: option.splits)
  next
    case False
    then have b: "b < length (nodes h)" using that by (simp add: h')
    show ?thesis by (rule node_ok_old [OF old [OF b]]) (use b dirs wf in \<open>auto simp: h' wf_heap_def\<close>)
  qed
  moreover have "table_ok (length (nodes h')) t" if "t \<in> set (tables h')" for t
    using that wf by (auto simp: h' wf_heap_def table_ok_def less_Suc_eq)
  ultimately show "grows h h'" using dirs by (simp add: grows_def wf_heap_def) (simp add: h')
  show "dir_ok h' a" using at by (simp add: dir_ok_def is_dir_def h' a)
  show "a = length (nodes h)" by (fact a)
  show "contents h' a = []" using at by (simp add: contents_def h')
qed

lemma new_file_grows:
  assumes wf: "wf_heap h" and new: "new_file name t h = (a, h')"
  shows "grows h h'" and "a = length (nodes h)" and "a < length (nodes h')" and "tables h' = tables h"
    and "node_at h' a = FileNode name t"
    and "\<And>b. b < length (nodes h) \<Longrightarrow> node_at h' b = node_at h b"
proof -
  have h': "h' = h\<lparr>nodes := nodes h @ [FileNode name t]\<rparr>"
    and a: "a = length (nodes h)" using new by (simp_all add: new_file_def)
  show old: "node_at h' b = node_at h b" if "b < length (nodes h)" for b
    using that by (simp add: h' node_at_def nth_append)
  then have dirs: "is_dir h' b = is_dir h b" if "b < length (nodes h)" for b
    using that by (simp add: is_dir_def)
  show at: "node_at h' a = FileNode name t" by (simp add: h' a node_at_def)
  have "node_ok h' b" if "b < length (nodes h')" for b
  proof (cases "b = length (nodes h)")
    case True
    then show ?thesis using at a by (simp add: node_ok_def)
  next
    case False
    then have b: "b < length (nodes h)" using that by (simp add: h')
    show ?thesis by (rule node_ok_old [OF old [OF b]]) (use b dirs wf in \<open>auto simp: h' wf_heap_def\<close>)
  qed
  moreover have "table_ok (length (nodes h')) u" if "u \<in> set (tables h')" for u
    using that wf by (auto simp: h' wf_heap_def table_ok_def less_Suc_eq)
  ultimately show "grows h h'" using dirs by (simp add: grows_def wf_heap_def) (simp add: h')
  show "a = length (nodes h)" by (fact a)
  show "a < length (nodes h')" "tables h' = tables h" by (simp_all add: h' a)
qed

lemma set_contents_grows:
  assumes wf: "wf_heap h" and t: "table_ok (length (nodes h)) t"
  shows "grows h (set_contents d t h)"
proof -
  have at: "node_at (set_contents d t h) b = node_at h b" for b by (simp add: set_contents_def node_at_def)
  then have dirs: "is_dir (set_contents d t h) b = is_dir h b" for b by (simp add: is_dir_def)
  have "node_ok (set_contents d t h) b" if "b < length (nodes h)" for b
    by (rule node_ok_old [OF at]) (use that wf dirs in \<open>auto simp: wf_heap_def set_contents_def\<close>)
  moreover have "table_ok (length (nodes h)) u" if "u \<in> set (tables (set_contents d t h))" for u
    using that wf t set_update_subset_insert [of "tables h" "table (node_at h d)" t]
    by (auto simp: set_contents_def wf_heap_def)
  ultimately show ?thesis using dirs by (simp add: grows_def wf_heap_def) (simp add: set_contents_def)
qed

lemma file_write_grows:
  assumes wf: "wf_heap h" and a: "a < length (nodes h)" "\<not> is_dir h a"
  shows "grows h (file_write a t h)"
proof -
  have at: "node_at (file_write a t h) b = (if b = a then FileNode (node_name (node_at h a)) t else node_at h b)" for b
    using a by (simp add: file_write_def node_at_def)
  have dirs: "is_dir (file_write a t h) b = is_dir h b" for b using a by (simp add: at is_dir_def)
  have "node_ok (file_write a t h) b" if "b < length (nodes h)" for b
  proof (cases "b = a")
    case True
    then show ?thesis by (simp add: node_ok_def at)
  next
    case False
    then have "node_at (file_write a t h) b = node_at h b" by (simp add: at)
    then show ?thesis by (rule node_ok_old) (use that wf dirs in \<open>auto simp: wf_heap_def file_write_def\<close>)
  qed
  then show ?thesis using dirs wf by (simp add: grows_def wf_heap_def) (simp add: file_write_def)
qed

lemma share_contents_grows:
  assumes wf: "wf_heap h" and t: "t < length (tables h)"
  shows "grows h (share_contents d t h)"
proof (cases "node_at h d")
  case (FileNode n u)
  then show ?thesis using wf by (simp add: share_contents_def grows_refl)
next
  case (DirNode n p u)
  let ?h = "share_contents d t h"
  have h': "?h = h\<lparr>nodes := (nodes h)[d := DirNode n p t]\<rparr>" by (simp add: share_contents_def DirNode)
  have at: "node_at ?h b = (if b = d then DirNode n p t else node_at h b)" if "b < length (nodes h)" for b
    using that by (simp add: h' node_at_def)
  have dirs: "is_dir ?h b = is_dir h b" if "b < length (nodes h)" for b
    using that at DirNode by (simp add: is_dir_def)
  have "node_ok ?h b" if b: "b < length (nodes h)" for b
  proof (cases "b = d")
    case True
    have "node_ok h b" using wf b by (simp add: wf_heap_def)
    then show ?thesis using True b t at dirs DirNode
      by (auto simp: node_ok_def h' split: option.splits)
  next
    case False
    then have "node_at ?h b = node_at h b" using at b by simp
    then show ?thesis by (rule node_ok_old) (use wf dirs b in \<open>auto simp: wf_heap_def h'\<close>)
  qed
  then show ?thesis using dirs wf by (simp add: grows_def wf_heap_def) (simp add: h')
qed

lemma append_table_grows:
  assumes wf: "wf_heap h" and t: "table_ok (length (nodes h)) t"
  shows "grows h (h\<lparr>tables := tables h @ [t]\<rparr>)"
proof -
  let ?h = "h\<lparr>tables := tables h @ [t]\<rparr>"
  have at: "node_at ?h b = node_at h b" for b by (simp add: node_at_def)
  then have dirs: "is_dir ?h b = is_dir h b" for b by (simp add: is_dir_def)
  have "node_ok ?h b" if "b < length (nodes h)" for b
    by (rule node_ok_old [OF at]) (use that wf dirs in \<open>auto simp: wf_heap_def\<close>)
  then show ?thesis using dirs wf t by (auto simp: grows_def wf_heap_def)
qed

lemma copy_contents_grows:
  assumes wf: "wf_heap h" and t: "t < length (tables h)"
  shows "grows h (copy_contents d t h)"
proof -
  have "table_ok (length (nodes h)) (tables h ! t)" using wf t by (simp add: wf_heap_def)
  from append_table_grows [OF wf this] have g: "grows h (h\<lparr>tables := tables h @ [tables h ! t]\<rparr>)" .
  show ?thesis unfolding copy_contents_def
    by (rule grows_trans [OF g share_contents_grows [OF growsD(1) [OF g]]]) simp
qed

lemma add_file_grows:
  assumes wf: "wf_heap h" and d: "dir_ok h d" and add: "add_file d name t h = Inr h'"
  shows "grows h h'"
proof -
  obtain a g where new: "new_file name t h = (a, g)" by (cases "new_file name t h")
  note n = new_file_grows [OF wf new]
  have h': "h' = set_contents d (dict_set name a (contents g d)) g"
    using add new by (simp add: add_file_def split: if_splits)
  have "table_ok (length (nodes g)) (contents g d)" using contents_ok(3) n(1) d growsD by blast
  then show ?thesis unfolding h'
    using n(1,3) by (meson growsD(1) grows_trans set_contents_grows table_ok_set)
qed

lemma add_directory_grows:
  assumes wf: "wf_heap h" and d: "dir_ok h d" and add: "add_directory d name h = Inr (a, h')"
  shows "grows h h'" and "dir_ok h' a" and "a = length (nodes h)"
proof -
  obtain b g where new: "new_directory name (Some d) h = (b, g)" by (cases "new_directory name (Some d) h")
  have par: "case Some d of None \<Rightarrow> True | Some q \<Rightarrow> dir_ok h q" using d by simp
  note n = new_directory_grows [OF wf par new]
  have h': "h' = set_contents d (dict_set name a (contents g d)) g" and a: "a = b"
    using add new by (auto simp: add_directory_def split: if_splits)
  have "table_ok (length (nodes g)) (contents g d)" using contents_ok(3) n(1) d growsD by blast
  then have g: "grows g h'" unfolding h'
    using n(1,2) a by (meson dir_ok_def growsD(1) set_contents_grows table_ok_set)
  show "grows h h'" by (rule grows_trans [OF n(1) g])
  show "dir_ok h' a" using growsD(2) [OF g] n(2) a by simp
  show "a = length (nodes h)" using n(3) a by simp
qed

section \<open>The invariant under loading and calls\<close>

lemma populate_grows:
  assumes "wf_heap h" and "dir_ok h d" and "populate_directory ns d h = Inr h'"
  shows "grows h h'"
  using assms unfolding populate_directory_def
proof (induction ns arbitrary: h)
  case (Cons n ns)
  then obtain g where g: "add_file d n [] h = Inr g" and rest: "for_each (\<lambda>name. add_file d name []) ns g = Inr h'"
    by (cases "add_file d n [] h") auto
  have hg: "grows h g" by (rule add_file_grows [OF Cons.prems(1,2) g])
  have "grows g h'" by (rule Cons.IH [OF growsD(1) [OF hg] growsD(2) [OF hg Cons.prems(2)] rest])
  with hg show ?case by (rule grows_trans)
qed (simp add: grows_refl)

lemma put_entry_grows:
  assumes "wf_heap h" and "dir_ok h d" and "a < length (nodes h)"
  shows "grows h (put_entry d name a h)"
  unfolding put_entry_def
  by (rule set_contents_grows [OF assms(1) table_ok_set [OF contents_ok(3) [OF assms(1,2)] assms(3)]])

lemma load_entries_grows:
  "wf_heap h \<Longrightarrow> dir_ok h d \<Longrightarrow> load_entries long es d bt h = Inr h' \<Longrightarrow> grows h h'"
proof (induction long es d bt h arbitrary: h' rule: load_entries.induct)
  case (1 long d bt h)
  then show ?case by (auto split: option.splits if_splits intro: grows_refl populate_grows)
next
  case (2 long name es rest d bt h)
  obtain a h1 where new: "new_directory name (Some d) h = (a, h1)" by (cases "new_directory name (Some d) h")
  have par: "case Some d of None \<Rightarrow> True | Some q \<Rightarrow> dir_ok h q" using 2 by simp
  note n = new_directory_grows [OF 2(3) par new]
  from 2(5) new obtain h2 where h2: "load_entries long es a True h1 = Inr h2"
    and rest: "load_entries long rest d False (put_entry d name a h2) = Inr h'"
    by (cases "load_entries long es a True h1") auto
  have g12: "grows h1 h2" by (rule 2(1) [OF new [symmetric] refl growsD(1) [OF n(1)] n(2) h2])
  have g2: "grows h h2" by (rule grows_trans [OF n(1) g12])
  have a: "a < length (nodes h2)" using growsD(3) [OF g12] n(2) by (simp add: dir_ok_def)
  have gp: "grows h2 (put_entry d name a h2)"
    by (rule put_entry_grows [OF growsD(1) [OF g2] growsD(2) [OF g2 2(4)] a])
  have g: "grows h (put_entry d name a h2)" by (rule grows_trans [OF g2 gp])
  have "grows (put_entry d name a h2) h'"
    by (rule 2(2) [OF new [symmetric] refl h2 growsD(1) [OF g] growsD(2) [OF g 2(4)] rest])
  with g show ?case by (rule grows_trans)
next
  case (3 long name u rest d bt h)
  let ?t = "case long of None \<Rightarrow> u
     | Some data \<Rightarrow> if name \<in> set (files_tail_used data) then u else u @ file_content_extension data"
  obtain a h1 where new: "new_file name ?t h = (a, h1)" by (cases "new_file name ?t h")
  note n = new_file_grows [OF 3(2) new]
  have rest: "load_entries long rest d bt (put_entry d name a h1) = Inr h'"
    using 3(4) new by (simp add: Let_def split: option.splits)
  have gp: "grows h1 (put_entry d name a h1)"
    by (rule put_entry_grows [OF growsD(1) [OF n(1)] growsD(2) [OF n(1) 3(3)] n(3)])
  have g: "grows h (put_entry d name a h1)" by (rule grows_trans [OF n(1) gp])
  have "grows (put_entry d name a h1) h'"
    by (rule 3(1) [OF refl new [symmetric] refl growsD(1) [OF g] growsD(2) [OF g 3(3)] rest])
  with g show ?case by (rule grows_trans)
qed

lemma load_scenario_inv:
  assumes "load_scenario long sc = Inr s"
  shows "gfs_inv s"
proof -
  have wf0: "wf_heap empty_heap" by (simp add: wf_heap_def empty_heap_def)
  have top: "wf_heap h \<and> dir_ok h r" if "new_directory n None empty_heap = (r, h)" for n r h
    using new_directory_grows [OF wf0 _ that] growsD(1) by simp
  show ?thesis
  proof (cases sc)
    case None
    then show ?thesis using assms top [of "''/''"]
      by (auto simp: load_scenario_def gfs_inv_def split: prod.splits)
  next
    case (Some p)
    obtain n es where p: "p = (n, es)" by (cases p)
    obtain r h where new: "new_directory n None empty_heap = (r, h)" by (cases "new_directory n None empty_heap")
    obtain h' where load: "load_entries long es r True h = Inr h'"
      and s: "s = \<lparr>fs_heap = h', root = r, current_dir = r\<rparr>"
      using assms new by (cases "load_entries long es r True h") (auto simp: load_scenario_def Some p)
    have g: "grows h h'" using load_entries_grows [OF _ _ load] top [OF new] by blast
    show ?thesis using growsD(1) [OF g] growsD(2) [OF g] top [OF new] by (simp add: gfs_inv_def s)
  qed
qed

lemma inv_grows:
  "gfs_inv s \<Longrightarrow> grows (fs_heap s) h \<Longrightarrow> gfs_inv (s\<lparr>fs_heap := h\<rparr>)"
  by (simp add: gfs_inv_def growsD)

lemma parent_ok:
  assumes "wf_heap h" and "dir_ok h d" and "parent (node_at h d) = Some p"
  shows "p < d" and "dir_ok h p"
proof -
  have "node_ok h d" using assms by (simp add: wf_heap_def dir_ok_def)
  then show "p < d" and "dir_ok h p"
    using assms by (auto simp: node_ok_def dir_ok_def is_dir_def split: node.splits)
qed

text \<open>The loop of \<open>pwd\<close> returns: parents are older than their children.\<close>

lemma path_names_returns:
  "wf_heap h \<Longrightarrow> dir_ok h d \<Longrightarrow> \<exists>p. path_names h (Some d) acc = Some p"
proof (induction d arbitrary: acc rule: less_induct)
  case (less d)
  show ?case
  proof (cases "parent (node_at h d)")
    case None
    then show ?thesis by (simp add: path_names.simps)
  next
    case (Some p)
    from less.IH [OF parent_ok(1) [OF less.prems Some] less.prems(1) parent_ok(2) [OF less.prems Some]]
    show ?thesis using Some by (subst path_names.simps) simp
  qed
qed

lemma walk_ok:
  "wf_heap h \<Longrightarrow> dir_ok h d \<Longrightarrow> walk h d ns = Some e \<Longrightarrow> dir_ok h e"
proof (induction ns arbitrary: d)
  case (Cons n ns)
  then obtain a where a: "get_item h d n = Some a" "is_dir h a" "walk h a ns = Some e"
    by (auto split: option.splits if_splits)
  then have "dir_ok h a" using get_item_ok [OF Cons.prems(1,2) a(1)] by (simp add: dir_ok_def)
  from Cons.IH [OF Cons.prems(1) this a(3)] show ?case .
qed simp

lemma navigate_ok:
  assumes "gfs_inv s" and "navigate_to_directory path s = Inr d"
  shows "dir_ok (fs_heap s) d"
  using assms walk_ok [of "fs_heap s"]
  by (auto simp: navigate_to_directory_def gfs_inv_def split: option.splits if_splits)

lemma local_item_ok:
  assumes "gfs_inv s" and "local_item s n = Some a"
  shows "a < length (nodes (fs_heap s))" and "map_of (here s) n \<noteq> None"
  using assms get_item_ok [of "fs_heap s" "current_dir s" n a]
  by (auto simp: local_item_def gfs_inv_def here_def split: if_splits)

lemma pop_name_grows:
  assumes "wf_heap h" and "dir_ok h d"
  shows "grows h (pop_name d n h)"
  unfolding pop_name_def
  by (rule set_contents_grows [OF assms(1) table_ok_del [OF contents_ok(3) [OF assms]]])

lemma table_bound:
  assumes "wf_heap h" and "a < length (nodes h)" and "node_at h a = DirNode n p t"
  shows "t < length (tables h)"
  using assms by (auto simp: wf_heap_def node_ok_def)

lemma add_directory_tables:
  assumes "add_directory d n h = Inr (a, h')"
  shows "length (tables h) \<le> length (tables h')"
  using assms by (auto simp: add_directory_def new_directory_def set_contents_def split: if_splits)

lemma add_moved_grows:
  assumes wf: "wf_heap h" and d: "dir_ok h d" and item: "item < length (nodes h)"
    and add: "add_moved item d name h = Inr h'"
  shows "grows h h'"
proof (cases "node_at h item")
  case (FileNode m u)
  then show ?thesis using add add_file_grows [OF wf d] by (simp add: add_moved_def)
next
  case (DirNode m p t)
  then obtain a g where a: "add_directory d name h = Inr (a, g)" and h': "h' = share_contents a t g"
    using add by (cases "add_directory d name h") (auto simp: add_moved_def)
  have "t < length (tables g)" using table_bound [OF wf item DirNode] add_directory_tables [OF a] by simp
  then show ?thesis unfolding h'
    using add_directory_grows(1) [OF wf d a] by (meson growsD(1) grows_trans share_contents_grows)
qed

lemma add_copied_grows:
  assumes wf: "wf_heap h" and d: "dir_ok h d" and item: "item < length (nodes h)"
    and add: "add_copied item d name h = Inr h'"
  shows "grows h h'"
proof (cases "node_at h item")
  case (FileNode m u)
  then show ?thesis using add add_file_grows [OF wf d] by (simp add: add_copied_def)
next
  case (DirNode m p t)
  then obtain a g where a: "add_directory d name h = Inr (a, g)" and h': "h' = copy_contents a t g"
    using add by (cases "add_directory d name h") (auto simp: add_copied_def)
  have "t < length (tables g)" using table_bound [OF wf item DirNode] add_directory_tables [OF a] by simp
  then show ?thesis unfolding h'
    using add_directory_grows(1) [OF wf d a] by (meson growsD(1) grows_trans copy_contents_grows)
qed

lemma finish_grows:
  assumes "gfs_inv s" and "\<And>h. r = Inr h \<Longrightarrow> grows (fs_heap s) h"
  shows "gfs_inv (snd (finish m r s))"
  using assms by (cases r) (simp_all add: finish_def inv_grows)

lemma add_file_inv:
  "gfs_inv s \<Longrightarrow> add_file (current_dir s) n t (fs_heap s) = Inr h \<Longrightarrow> gfs_inv (s\<lparr>fs_heap := h\<rparr>)"
  by (rule inv_grows) (auto simp: gfs_inv_def intro: add_file_grows)

lemma add_directory_inv:
  "gfs_inv s \<Longrightarrow> add_directory (current_dir s) n (fs_heap s) = Inr (a, h) \<Longrightarrow> gfs_inv (s\<lparr>fs_heap := h\<rparr>)"
  by (rule inv_grows) (auto simp: gfs_inv_def intro: add_directory_grows)

lemma mkdir_inv: "gfs_inv s \<Longrightarrow> gfs_inv (snd (mkdir d s))"
  by (auto simp: mkdir_def Let_def split: sum.splits intro: add_directory_inv)

lemma touch_inv: "gfs_inv s \<Longrightarrow> gfs_inv (snd (touch f s))"
  by (auto simp: touch_def Let_def split: sum.splits intro: add_file_inv)

lemma write_inv:
  assumes "gfs_inv s" and "local_item s f = Some a" and "\<not> is_dir (fs_heap s) a"
  shows "gfs_inv (s\<lparr>fs_heap := file_write a t (fs_heap s)\<rparr>)"
  using assms local_item_ok(1) [OF assms(1,2)]
  by (intro inv_grows file_write_grows) (simp_all add: gfs_inv_def)

lemma echo_inv: "gfs_inv s \<Longrightarrow> gfs_inv (snd (echo t f s))"
  by (auto simp: echo_def split: option.splits intro: write_inv)

lemma cd_inv:
  assumes inv: "gfs_inv s"
  shows "gfs_inv (snd (cd folder s))"
proof -
  have up: "gfs_inv (s\<lparr>current_dir := p\<rparr>)" if "parent (node_at (fs_heap s) (current_dir s)) = Some p" for p
    using inv parent_ok(2) [OF _ _ that] by (simp add: gfs_inv_def)
  have to: "gfs_inv (s\<lparr>current_dir := d\<rparr>)" if "navigate_to_directory path s = Inr d" for path d
    using inv navigate_ok [OF inv that] by (simp add: gfs_inv_def)
  show ?thesis using inv up to by (auto simp: cd_def Let_def split: option.splits sum.splits)
qed

lemma move_entry_inv:
  assumes inv: "gfs_inv s" and item: "item < length (nodes (fs_heap s))" and d: "dir_ok (fs_heap s) d"
  shows "gfs_inv (snd (move_entry m source item d name s))"
proof -
  let ?h = "pop_name (current_dir s) source (fs_heap s)"
  have g: "grows (fs_heap s) ?h" using inv pop_name_grows by (simp add: gfs_inv_def)
  have "gfs_inv (s\<lparr>fs_heap := ?h\<rparr>)" by (rule inv_grows [OF inv g])
  moreover have "grows ?h h" if "add_moved item d name ?h = Inr h" for h
    by (rule add_moved_grows [OF growsD(1) [OF g] growsD(2) [OF g d] growsD(3) [OF g item] that])
  ultimately show ?thesis unfolding move_entry_def Let_def by (intro finish_grows) simp_all
qed

lemma add_copied_inv:
  assumes inv: "gfs_inv s" and item: "item < length (nodes (fs_heap s))" and d: "dir_ok (fs_heap s) d"
  shows "gfs_inv (snd (finish m (add_copied item d name (fs_heap s)) s))"
  using finish_grows [OF inv] add_copied_grows [OF _ d item] inv by (simp add: gfs_inv_def)

lemma local_dir_ok:
  "gfs_inv s \<Longrightarrow> local_item s n = Some a \<Longrightarrow> is_dir (fs_heap s) a \<Longrightarrow> dir_ok (fs_heap s) a"
  by (simp add: dir_ok_def local_item_ok(1))

lemma here_ok: "gfs_inv s \<Longrightarrow> dir_ok (fs_heap s) (current_dir s)"
  by (simp add: gfs_inv_def)

lemma mv_inv: "gfs_inv s \<Longrightarrow> gfs_inv (snd (mv source destination s))"
  by (auto simp: mv_def Let_def split: option.splits intro!: move_entry_inv intro: local_item_ok local_dir_ok here_ok)

lemma cp_inv: "gfs_inv s \<Longrightarrow> gfs_inv (snd (cp source destination s))"
  by (auto simp: cp_def Let_def split: option.splits intro!: add_copied_inv intro: local_item_ok local_dir_ok here_ok)

lemma pop_inv: "gfs_inv s \<Longrightarrow> gfs_inv (snd (finish m (Inr (pop_name (current_dir s) f (fs_heap s))) s))"
  by (rule finish_grows) (auto simp: gfs_inv_def pop_name_grows)

lemma rm_inv: "gfs_inv s \<Longrightarrow> gfs_inv (snd (rm f s))"
  by (auto simp: rm_def split: option.splits intro: pop_inv)

lemma rmdir_inv: "gfs_inv s \<Longrightarrow> gfs_inv (snd (rmdir f s))"
  by (auto simp: rmdir_def Let_def split: option.splits intro: pop_inv)

lemma fs_step_inv:
  assumes inv: "gfs_inv s" and step: "fs_step limit c s = Some (r, t)"
  shows "gfs_inv t"
  using assms mkdir_inv [OF inv] touch_inv [OF inv] echo_inv [OF inv] cd_inv [OF inv] mv_inv [OF inv]
    cp_inv [OF inv] rm_inv [OF inv] rmdir_inv [OF inv]
  by (cases c) (auto split: prod.splits, (metis snd_conv)+)

lemma fs_step_returns:
  assumes inv: "gfs_inv s"
  shows "fs_step limit c s \<noteq> None"
  using path_names_returns [of "fs_heap s" "current_dir s" "[]"] inv
  by (cases c) (auto simp: gfs_inv_def pwd_def split: prod.splits)

interpretation file_system: looping_backend "fs_step limit" gfs_inv for limit
  by unfold_locales (rule fs_step_inv)

text \<open>C6: Whatever scenario is loaded and whatever calls are made, every call returns (a search of a
  cyclic directory ends with the exception of the recursion limit, whatever the limit is), and the
  file system stays well formed: the current directory and the parents of all directories are
  directories of the file system, and names are unique in every directory.\<close>

theorem file_system_runs:
  assumes "load_scenario long sc = Inr s"
  shows "\<exists>responses t. run_some (fs_step limit) calls s = Some (responses, t) \<and> gfs_inv t"
  by (rule file_system.run_returns [OF fs_step_returns load_scenario_inv [OF assms]])

lemma file_system_runs_witness:
  "\<exists>s. load_scenario None (Some (''w'', [(''f'', ScFile ''x''), (''d'', ScDir [])])) = Inr s \<and>
     (\<exists>responses t. run_some (fs_step 100) [Pwd, Cp ''d'' ''d'', Find ''.'' None] s = Some (responses, t) \<and> gfs_inv t)"
proof -
  have "\<not> isl (load_scenario None (Some (''w'', [(''f'', ScFile ''x''), (''d'', ScDir [])])))"
    by code_simp
  then obtain s where s: "load_scenario None (Some (''w'', [(''f'', ScFile ''x''), (''d'', ScDir [])])) = Inr s"
    by (auto simp: isl_def) (metis obj_sumE)
  from file_system_runs [OF s] s show ?thesis by blast
qed

section \<open>Failing calls\<close>

lemma local_item_None: "local_item s n = None \<longleftrightarrow> map_of (here s) n = None"
  by (auto simp: local_item_def get_item_def here_def)

lemma contents_pop:
  "map_of (contents h e) k = None \<Longrightarrow> map_of (contents (pop_name d n h) e) k = None"
  by (cases "table (node_at h e) = table (node_at h d) \<and> table (node_at h d) < length (tables h)")
     (auto simp: pop_name_def contents_def set_contents_def node_at_def map_of_dict_del list_update_beyond)

lemma node_at_pop [simp]: "node_at (pop_name d n h) a = node_at h a"
  by (simp add: pop_name_def set_contents_def node_at_def)

lemma add_moved_succeeds: "map_of (contents h d) name = None \<Longrightarrow> \<exists>h'. add_moved item d name h = Inr h'"
  by (cases "node_at h item") (auto simp: add_moved_def add_file_def add_directory_def split_def Let_def)

lemma move_entry_succeeds:
  assumes "map_of (contents (fs_heap s) d) name = None"
  shows "\<not> is_error (fst (move_entry m source item d name s))"
proof -
  obtain h where "add_moved item d name (pop_name (current_dir s) source (fs_heap s)) = Inr h"
    using add_moved_succeeds [OF contents_pop [OF assms]] by blast
  then show ?thesis by (simp add: move_entry_def finish_def)
qed

lemma finish_atomic: "is_error (fst (finish m r s)) \<Longrightarrow> snd (finish m r s) = s"
  by (cases r) (simp_all add: finish_def)

lemma not_error_PNone [simp]: "\<not> is_error (Inr PNone)"
  by (simp add: is_error_def)

lemma mv_atomic: "is_error (fst (mv source destination s)) \<Longrightarrow> snd (mv source destination s) = s"
  using move_entry_succeeds [of s] local_item_None [of s destination]
  by (auto simp: mv_def Let_def here_def split: option.splits)

lemma cp_atomic: "is_error (fst (cp source destination s)) \<Longrightarrow> snd (cp source destination s) = s"
  using finish_atomic by (auto simp: cp_def Let_def split: option.splits)

lemma remove_atomic:
  "is_error (fst (rm f s)) \<Longrightarrow> snd (rm f s) = s"
  "is_error (fst (rmdir f s)) \<Longrightarrow> snd (rmdir f s) = s"
  using finish_atomic by (auto simp: rm_def rmdir_def Let_def split: option.splits)

lemma create_atomic:
  "is_error (fst (mkdir d s)) \<Longrightarrow> snd (mkdir d s) = s"
  "is_error (fst (touch f s)) \<Longrightarrow> snd (touch f s) = s"
  "is_error (fst (echo t g s)) \<Longrightarrow> snd (echo t g s) = s"
  by (auto simp: mkdir_def touch_def echo_def Let_def split: option.splits sum.splits if_splits)

lemma cd_atomic: "is_error (Inr (fst (cd f s))) \<Longrightarrow> snd (cd f s) = s"
  by (auto simp: cd_def Let_def split: option.splits sum.splits if_splits)

lemma fs_step_atomic:
  assumes "fs_step limit c s = Some (r, t)" and "is_error r"
  shows "t = s"
  using assms mv_atomic cp_atomic remove_atomic create_atomic cd_atomic
  by (cases c) (auto split: prod.splits, (metis fst_conv snd_conv)+)

text \<open>C39: A call that raises or answers with an error leaves the file system alone, so a sequence of
  failing calls does nothing. For \<open>mv\<close> this says that the removed entry can always be added again
  under its new name.\<close>

theorem file_system_errors_atomic:
  assumes "load_scenario long sc = Inr s"
    and "run_some (fs_step limit) (calls @ failing) s = Some (responses @ errors, u)"
    and "run_some (fs_step limit) calls s = Some (responses, t)" and "list_all is_error errors"
  shows "u = t"
proof -
  have inv: "gfs_inv t" by (rule file_system.run_inv [OF load_scenario_inv [OF assms(1)] assms(3)])
  have "run_some (fs_step limit) failing t = Some (errors, u)"
    using assms(2,3) by (simp add: run_some_append)
  from file_system.run_atomic [OF fs_step_atomic inv this assms(4)] show ?thesis .
qed

section \<open>Writing and reading\<close>

definition file_text :: "heap \<Rightarrow> nat \<Rightarrow> string option" where
  "file_text h a = (case node_at h a of FileNode _ t \<Rightarrow> Some t | DirNode _ _ _ \<Rightarrow> None)"

lemma local_file_eq: "local_file s n = Option.bind (local_item s n) (file_text (fs_heap s))"
  by (simp add: local_file_def file_text_def split: option.splits)

lemma local_item_eq: "n \<noteq> ''.'' \<Longrightarrow> local_item s n = map_of (here s) n"
  by (simp add: local_item_def get_item_def here_def)

lemma local_file_frame:
  assumes inv: "gfs_inv s" and cur: "current_dir t = current_dir s"
    and name: "map_of (here t) n = map_of (here s) n"
    and old: "\<And>a. a < length (nodes (fs_heap s)) \<Longrightarrow> file_text (fs_heap t) a = file_text (fs_heap s) a"
  shows "local_file t n = local_file s n"
proof -
  have "local_item t n = local_item s n"
    using name cur by (simp add: local_item_def get_item_def here_def)
  then show ?thesis using old local_item_ok(1) [OF inv, of n] by (cases "local_item s n") (auto simp: local_file_eq)
qed

lemma add_file_effect:
  assumes wf: "wf_heap h" and d: "dir_ok h d" and fresh: "map_of (contents h d) n = None"
  obtains h' where "add_file d n t h = Inr h'" and "contents h' d = dict_set n (length (nodes h)) (contents h d)"
    and "node_at h' (length (nodes h)) = FileNode n t"
    and "\<And>b. b < length (nodes h) \<Longrightarrow> node_at h' b = node_at h b" and "grows h h'"
proof -
  obtain a g where new: "new_file n t h = (a, g)" by (cases "new_file n t h")
  note f = new_file_grows [OF wf new]
  let ?h = "set_contents d (dict_set n a (contents g d)) g"
  have add: "add_file d n t h = Inr ?h" using fresh new by (simp add: add_file_def)
  have dl: "d < length (nodes h)" using d by (simp add: dir_ok_def)
  have "contents g d = contents h d" using f(4,6) dl by (simp add: contents_def)
  moreover have "table (node_at g d) < length (tables g)"
    using contents_ok(1) [OF growsD(1) [OF f(1)] growsD(2) [OF f(1) d]] .
  ultimately have "contents ?h d = dict_set n (length (nodes h)) (contents h d)"
    using f(2) by (simp add: contents_def set_contents_def node_at_def)
  moreover have "node_at ?h b = node_at g b" for b by (simp add: set_contents_def node_at_def)
  ultimately show thesis using that [OF add] f add_file_grows [OF wf d add] by simp
qed

definition empty_gfs :: gfs where
  "empty_gfs = \<lparr>fs_heap = \<lparr>nodes = [DirNode ''/'' None 0], tables = [[]]\<rparr>, root = 0, current_dir = 0\<rparr>"

lemma load_nothing: "load_scenario long None = Inr empty_gfs"
  by (simp add: load_scenario_def new_directory_def empty_heap_def empty_gfs_def)

lemma file_system_errors_atomic_witness:
  "\<exists>t. run_some (fs_step 50) [Mkdir ''a'', Mkdir ''a'', Mv ''b'' ''c''] empty_gfs =
      Some ([Inr PNone, Inr (error_dict (''mkdir: cannot create directory '' @ quoted ''a'' @ '': File exists'')),
        Inr (error_dict (''mv: cannot move '' @ quoted ''b'' @ '': No such file or directory''))], t)
    \<and> run_some (fs_step 50) [Mkdir ''a''] empty_gfs = Some ([Inr PNone], t)"
proof -
  let ?e = "[Inr (error_dict (''mkdir: cannot create directory '' @ quoted ''a'' @ '': File exists'')),
        Inr (error_dict (''mv: cannot move '' @ quoted ''b'' @ '': No such file or directory''))]"
  have "map_option fst (run_some (fs_step 50) [Mkdir ''a'', Mkdir ''a'', Mv ''b'' ''c''] empty_gfs)
      = Some ([Inr PNone] @ ?e)" by code_simp
  then obtain u where u: "run_some (fs_step 50) ([Mkdir ''a''] @ [Mkdir ''a'', Mv ''b'' ''c'']) empty_gfs
      = Some ([Inr PNone] @ ?e, u)" by auto
  have "map_option fst (run_some (fs_step 50) [Mkdir ''a''] empty_gfs) = Some [Inr PNone]" by code_simp
  then obtain t where t: "run_some (fs_step 50) [Mkdir ''a''] empty_gfs = Some ([Inr PNone], t)" by auto
  have "u = t" by (rule file_system_errors_atomic [OF load_nothing u t]) simp
  then show ?thesis using u t by simp
qed

lemma file_text_old: "node_at h' a = node_at h a \<Longrightarrow> file_text h' a = file_text h a"
  by (simp add: file_text_def)

text \<open>A file created by \<open>touch\<close> and written by \<open>echo\<close> is what \<open>cat\<close> shows; the name is added at the
  end of the listing, and no other file of the current directory changes. The name \<open>.\<close> is excluded:
  \<open>touch\<close> accepts it, but every later access to it finds the directory itself.\<close>

theorem touch_echo_cat:
  assumes inv: "gfs_inv s" and name: "valid_name f" "f \<noteq> []" "f \<noteq> ''.''" and fresh: "map_of (here s) f = None"
  shows "\<exists>t. run_some (fs_step limit) [Touch f, Echo body (Some f), Cat f] s
        = Some ([Inr PNone, Inr PNone, Inr (PDict [(''file_content'', PStr body)])], t)
      \<and> map fst (here t) = map fst (here s) @ [f]
      \<and> (\<forall>g. g \<noteq> f \<longrightarrow> local_file t g = local_file s g)"
proof -
  let ?h = "fs_heap s" and ?d = "current_dir s" and ?a = "length (nodes (fs_heap s))"
  have wf: "wf_heap ?h" and d: "dir_ok ?h ?d" and none: "map_of (contents ?h ?d) f = None"
    using inv fresh by (simp_all add: gfs_inv_def here_def)
  obtain h where add: "add_file ?d f [] ?h = Inr h" and c: "contents h ?d = dict_set f ?a (contents ?h ?d)"
    and a: "node_at h ?a = FileNode f []"
    and old: "\<And>b. b < ?a \<Longrightarrow> node_at h b = node_at ?h b" and g: "grows ?h h"
    by (rule add_file_effect [OF wf d none]) blast
  have al: "?a < length (nodes h)"
    by (rule lookup_ok [OF growsD(1) [OF g] growsD(2) [OF g d], of f]) (simp add: c map_of_dict_set)
  let ?s1 = "s\<lparr>fs_heap := h\<rparr>" and ?h2 = "file_write ?a body h"
  let ?t = "s\<lparr>fs_heap := ?h2\<rparr>"
  have here1: "here ?s1 = dict_set f ?a (here s)" using c by (simp add: here_def)
  have at2: "node_at ?h2 b = (if b = ?a then FileNode f body else node_at h b)" for b
    using al a by (simp add: file_write_def node_at_def)
  have dl: "?d < ?a" using d by (simp add: dir_ok_def)
  have here2: "here ?t = dict_set f ?a (here s)"
    using here1 at2 [of ?d] dl by (simp add: here_def contents_def file_write_def)
  have touch: "touch f s = (Inr PNone, ?s1)" using name fresh add by (simp add: touch_def)
  have item: "local_item u f = Some ?a" if "here u = dict_set f ?a (here s)" for u
    using that name by (simp add: local_item_eq map_of_dict_set)
  have echo: "echo body (Some f) ?s1 = (Inr PNone, ?t)"
    using name item [OF here1] a by (simp add: echo_def is_dir_def)
  have cat: "cat f ?t = PDict [(''file_content'', PStr body)]"
    using name item [OF here2] at2 by (simp add: cat_def)
  have "local_file ?t n = local_file s n" if "n \<noteq> f" for n
    by (rule local_file_frame [OF inv]) (use that here2 at2 old in \<open>auto simp: map_of_dict_set intro!: file_text_old\<close>)
  moreover have "map fst (here ?t) = map fst (here s) @ [f]"
    using here2 fresh by (simp add: dict_set_keys map_of_eq_None_iff)
  ultimately show ?thesis using touch echo cat by (intro exI [of _ ?t]) simp
qed

lemma touch_echo_cat_witness:
  "\<exists>t. run_some (fs_step 9) [Touch ''f'', Echo ''hi'' (Some ''f''), Cat ''f''] empty_gfs
        = Some ([Inr PNone, Inr PNone, Inr (PDict [(''file_content'', PStr ''hi'')])], t)
      \<and> map fst (here t) = [''f'']"
proof -
  have "valid_name ''f''" by code_simp
  moreover have "here empty_gfs = []" by code_simp
  ultimately show ?thesis
    using touch_echo_cat [OF load_scenario_inv [OF load_nothing], of "''f''" 9 "''hi''"] by auto
qed

lemma file_result:
  assumes inv: "gfs_inv s" and fresh: "map_of (contents h (current_dir s)) n = None"
    and g: "grows (fs_heap s) h" and old: "\<And>a. node_at h a = node_at (fs_heap s) a"
    and cnt: "length (nodes h) = length (nodes (fs_heap s))" and name: "n \<noteq> ''.''"
  obtains h' where "add_file (current_dir s) n t h = Inr h'"
    and "local_file (s\<lparr>fs_heap := h'\<rparr>) n = Some t"
    and "here (s\<lparr>fs_heap := h'\<rparr>) = dict_set n (length (nodes h)) (contents h (current_dir s))"
    and "\<And>k. k \<noteq> n \<Longrightarrow> map_of (contents h (current_dir s)) k = map_of (here s) k
            \<Longrightarrow> local_file (s\<lparr>fs_heap := h'\<rparr>) k = local_file s k"
proof -
  have d: "dir_ok h (current_dir s)" using growsD(2) [OF g here_ok [OF inv]] .
  obtain h' where add: "add_file (current_dir s) n t h = Inr h'"
    and c: "contents h' (current_dir s) = dict_set n (length (nodes h)) (contents h (current_dir s))"
    and a: "node_at h' (length (nodes h)) = FileNode n t"
    and keep: "\<And>b. b < length (nodes h) \<Longrightarrow> node_at h' b = node_at h b"
    by (rule add_file_effect [OF growsD(1) [OF g] d fresh]) blast
  let ?t = "s\<lparr>fs_heap := h'\<rparr>"
  have here: "here ?t = dict_set n (length (nodes h)) (contents h (current_dir s))"
    using c by (simp add: here_def)
  have "local_file ?t n = Some t"
    using name a by (simp add: local_file_eq local_item_eq here map_of_dict_set file_text_def)
  moreover have "local_file ?t k = local_file s k"
    if "k \<noteq> n" "map_of (contents h (current_dir s)) k = map_of (here s) k" for k
    by (rule local_file_frame [OF inv]) (use that keep old cnt in \<open>auto simp: here map_of_dict_set intro!: file_text_old\<close>)
  ultimately show thesis using that [OF add _ here] by blast
qed

text \<open>Renaming a file with \<open>mv\<close> gives the new name the text of the file and removes the old name;
  copying it with \<open>cp\<close> gives the new name the same text and keeps the old one. No other file of the
  current directory changes.\<close>

theorem rename_and_copy_file:
  assumes inv: "gfs_inv s" and src: "local_item s src = Some a" "node_at (fs_heap s) a = FileNode n body"
    and dst: "map_of (here s) dst = None" "CHR ''/'' \<notin> set dst" "dst \<noteq> ''.''"
  shows "(\<exists>t. mv src dst s = (Inr (PDict [(''result'', PStr (quoted src @ '' moved to '' @ quoted dst))]), t)
      \<and> local_file t dst = Some body \<and> map_of (here t) src = None
      \<and> (\<forall>g. g \<noteq> src \<and> g \<noteq> dst \<longrightarrow> local_file t g = local_file s g))
    \<and> (\<exists>t. cp src dst s = (Inr (PDict [(''result'', PStr (quoted src @ '' copied to '' @ quoted dst))]), t)
      \<and> local_file t dst = Some body \<and> (\<forall>g. g \<noteq> dst \<longrightarrow> local_file t g = local_file s g))" (is "?moved \<and> ?copied")
proof -
  let ?d = "current_dir s"
  let ?p = "pop_name ?d src (fs_heap s)"
  have wf: "wf_heap (fs_heap s)" and d: "dir_ok (fs_heap s) ?d" using inv by (simp_all add: gfs_inv_def)
  have none: "local_item s dst = None" using dst by (simp add: local_item_None)
  have ne: "src \<noteq> dst" using src(1) none by auto
  have pop: "contents ?p ?d = dict_del src (here s)"
    using contents_ok(1) [OF wf d]
    by (simp add: pop_name_def contents_def set_contents_def node_at_def here_def)
  have fresh: "map_of (contents ?p ?d) dst = None" using dst by (simp add: pop map_of_dict_del)
  have cnt: "length (nodes ?p) = length (nodes (fs_heap s))" by (simp add: pop_name_def set_contents_def)
  obtain h where add: "add_file ?d dst body ?p = Inr h"
    and new: "local_file (s\<lparr>fs_heap := h\<rparr>) dst = Some body"
    and here: "here (s\<lparr>fs_heap := h\<rparr>) = dict_set dst (length (nodes ?p)) (contents ?p ?d)"
    and rest: "\<And>k. k \<noteq> dst \<Longrightarrow> map_of (contents ?p ?d) k = map_of (here s) k
            \<Longrightarrow> local_file (s\<lparr>fs_heap := h\<rparr>) k = local_file s k"
    by (rule file_result [OF inv fresh pop_name_grows [OF wf d] node_at_pop cnt dst(3)]) blast
  have "mv src dst s = (Inr (PDict [(''result'', PStr (quoted src @ '' moved to '' @ quoted dst))]), s\<lparr>fs_heap := h\<rparr>)"
    using src dst(2) none add by (simp add: mv_def move_entry_def add_moved_def finish_def)
  moreover have "map_of (here (s\<lparr>fs_heap := h\<rparr>)) src = None"
    using ne by (simp add: here map_of_dict_set pop map_of_dict_del)
  ultimately have ?moved
    using new rest by (intro exI [of _ "s\<lparr>fs_heap := h\<rparr>"]) (simp add: pop map_of_dict_del)
  have fresh': "map_of (contents (fs_heap s) ?d) dst = None" using dst by (simp add: here_def)
  obtain h' where add': "add_file ?d dst body (fs_heap s) = Inr h'"
    and new': "local_file (s\<lparr>fs_heap := h'\<rparr>) dst = Some body"
    and rest': "\<And>k. k \<noteq> dst \<Longrightarrow> map_of (contents (fs_heap s) ?d) k = map_of (here s) k
            \<Longrightarrow> local_file (s\<lparr>fs_heap := h'\<rparr>) k = local_file s k"
    by (rule file_result [OF inv fresh' grows_refl [OF wf] refl refl dst(3)]) blast
  have "cp src dst s = (Inr (PDict [(''result'', PStr (quoted src @ '' copied to '' @ quoted dst))]), s\<lparr>fs_heap := h'\<rparr>)"
    using src dst(2) none add' by (simp add: cp_def add_copied_def finish_def)
  then have ?copied
    using new' rest' by (intro exI [of _ "s\<lparr>fs_heap := h'\<rparr>"]) (simp add: here_def)
  with \<open>?moved\<close> show ?thesis by (rule conjI)
qed

lemma rename_and_copy_file_witness:
  "\<exists>s t u. run_some (fs_step 9) [Touch ''f'', Echo ''hi'' (Some ''f'')] empty_gfs = Some ([Inr PNone, Inr PNone], s)
    \<and> mv ''f'' ''g'' s = (Inr (PDict [(''result'', PStr (quoted ''f'' @ '' moved to '' @ quoted ''g''))]), t)
    \<and> local_file t ''g'' = Some ''hi''
    \<and> cp ''f'' ''g'' s = (Inr (PDict [(''result'', PStr (quoted ''f'' @ '' copied to '' @ quoted ''g''))]), u)
    \<and> local_file u ''g'' = Some ''hi''"
proof -
  let ?s = "\<lparr>fs_heap = \<lparr>nodes = [DirNode ''/'' None 0, FileNode ''f'' ''hi''], tables = [[(''f'', 1)]]\<rparr>,
    root = 0, current_dir = 0\<rparr>"
  have run: "run_some (fs_step 9) [Touch ''f'', Echo ''hi'' (Some ''f'')] empty_gfs = Some ([Inr PNone, Inr PNone], ?s)"
    by code_simp
  have inv: "gfs_inv ?s" by (rule file_system.run_inv [OF load_scenario_inv [OF load_nothing] run])
  have src: "local_item ?s ''f'' = Some 1" "node_at (fs_heap ?s) 1 = FileNode ''f'' ''hi''"
    and dst: "map_of (here ?s) ''g'' = None" by code_simp+
  have "CHR ''/'' \<notin> set ''g''" "''g'' \<noteq> ''.''" by simp_all
  from rename_and_copy_file [OF inv src dst this] obtain t u where
    "mv ''f'' ''g'' ?s = (Inr (PDict [(''result'', PStr (quoted ''f'' @ '' moved to '' @ quoted ''g''))]), t)"
    "local_file t ''g'' = Some ''hi''"
    "cp ''f'' ''g'' ?s = (Inr (PDict [(''result'', PStr (quoted ''f'' @ '' copied to '' @ quoted ''g''))]), u)"
    "local_file u ''g'' = Some ''hi''" by blast
  with run show ?thesis by blast
qed

section \<open>Cyclic directories\<close>

text \<open>The directory 1 contains the directory 2, whose dictionary contains 2 itself.\<close>

definition cyclic_heap :: heap where
  "cyclic_heap = \<lparr>nodes = [DirNode ''/'' None 0, DirNode ''d'' (Some 0) 1, DirNode ''d'' (Some 1) 3],
     tables = [[(''d'', 1)], [(''d'', 2)], [], [(''d'', 2)]]\<rparr>"

lemma cyclic_search: "a < 3 \<Longrightarrow> recursive_search limit cyclic_heap name a base = Inl too_deep"
proof (induction limit arbitrary: a base)
  case (Suc limit)
  have "contents cyclic_heap a = [(''d'', 1)] \<or> contents cyclic_heap a = [(''d'', 2)]"
    using Suc.prems by (auto simp: cyclic_heap_def contents_def node_at_def less_Suc_eq numeral_3_eq_3)
  moreover have "is_dir cyclic_heap 1" "is_dir cyclic_heap 2" by (simp_all add: cyclic_heap_def is_dir_def node_at_def)
  ultimately show ?case using Suc.IH [of 1] Suc.IH [of 2] by (auto simp: Let_def)
qed simp

lemma cyclic_size: "a < 3 \<Longrightarrow> get_size limit cyclic_heap a = Inl too_deep"
proof (induction limit arbitrary: a)
  case (Suc limit)
  have "a = 0 \<or> a = 1 \<or> a = 2" using Suc.prems by auto
  then show ?case using Suc.IH [of 1] Suc.IH [of 2]
    by (auto simp: cyclic_heap_def node_at_def)
qed simp

text \<open>Copying a directory into itself is accepted and makes it contain itself: afterwards \<open>find\<close> and
  \<open>du\<close> raise \<open>RecursionError\<close>, whatever the recursion limit is.\<close>

theorem copy_into_itself_breaks_searches:
  "\<exists>t. run_some (fs_step limit) [Mkdir ''d'', Cp ''d'' ''d'', Find ''.'' None, Du False] empty_gfs =
    Some ([Inr PNone, Inr (PDict [(''result'', PStr (quoted ''d'' @ '' copied to '' @ quoted ''d/d''))]),
      Inl too_deep, Inl too_deep], t)"
proof -
  let ?t = "\<lparr>fs_heap = cyclic_heap, root = 0, current_dir = 0\<rparr>"
  have "run_some (fs_step limit) [Mkdir ''d'', Cp ''d'' ''d''] empty_gfs =
    Some ([Inr PNone, Inr (PDict [(''result'', PStr (quoted ''d'' @ '' copied to '' @ quoted ''d/d''))])], ?t)"
    by code_simp
  moreover have "find_files limit ''.'' None ?t = Inl too_deep" "du limit False ?t = Inl too_deep"
    by (simp_all add: find_files_def du_def navigate_to_directory_def cyclic_search cyclic_size)
  ultimately show ?thesis
    using run_some_append [of "fs_step limit" "[Mkdir ''d'', Cp ''d'' ''d'']" "[Find ''.'' None, Du False]" empty_gfs]
    by simp
qed

section \<open>Differences from the documentation\<close>

definition responses_of :: "fs_call list \<Rightarrow> pyval result list option" where
  "responses_of calls = map_option fst (run_some (fs_step 50) calls empty_gfs)"

text \<open>Where the operations differ from what they say: \<open>tail\<close> with 0 lines returns every line; \<open>cp\<close> onto
  a file that exists in the destination directory raises instead of answering with the error \<open>File exists\<close>
  (the check looks for the wrong key); a copied directory shares its files with the original, so writing
  one changes the other; moving a directory into itself answers with success and loses it.\<close>

theorem file_system_divergences:
  "responses_of [Touch ''f'', Echo (''1'' @ newline @ ''2'') (Some ''f''), Tail ''f'' 0]
     = Some [Inr PNone, Inr PNone, Inr (PDict [(''last_lines'', PStr (''1'' @ newline @ ''2''))])]
   \<and> map_option last (responses_of [Touch ''f'', Mkdir ''d'', Cp ''f'' ''d'', Cp ''f'' ''d''])
     = Some (Inl (ValueError (exists_message ''File'' ''f'' ''d'')))
   \<and> map_option last (responses_of [Mkdir ''a'', Cd ''a'', Touch ''f'', Cd ''..'', Cp ''a'' ''b'', Cd ''b'',
       Echo ''new'' (Some ''f''), Cd ''..'', Cd ''a'', Cat ''f''])
     = Some (Inr (PDict [(''file_content'', PStr ''new'')]))
   \<and> responses_of [Mkdir ''d'', Mv ''d'' ''d'', Ls True]
     = Some [Inr PNone, Inr (PDict [(''result'', PStr (quoted ''d'' @ '' moved to '' @ quoted ''d/d''))]),
         Inr (PDict [(''current_directory_content'', string_list [])])]"
  by (intro conjI) code_simp+

end
