(* ===== verification/DataProto.thy ===== *)
theory DataProto
  imports PyValue
begin

text \<open>
  The data container of \<open>verl/protocol.py\<close>. A tensor or array is the list of its rows (dimension 0),
  with rows of an arbitrary type, so what is modelled is how rows are selected, split, joined and
  repeated; devices and dtypes are not. Rows and meta values are compared with \<open>=\<close>, there is no NaN.
  The text of exceptions raised inside torch, tensordict and numpy is abbreviated.
\<close>

section \<open>The container\<close>

text \<open>A \<open>TensorDict\<close> with one batch dimension, which it keeps without any tensor in it.\<close>

record 'r tensordict =
  td_size :: nat
  td_items :: "(string \<times> 'r list) list"

record ('r, 'a) data_proto =
  batch :: "'r tensordict option"
  non_tensor_batch :: "(string \<times> 'a list) list"
  meta_info :: "pyval pydict"

text \<open>\<open>check_consistency\<close>, which runs on every construction.\<close>

fun check_arrays :: "nat \<Rightarrow> (string \<times> 'a list) list \<Rightarrow> unit result" where
  "check_arrays n [] = Inr ()"
| "check_arrays n ((key, val) # rest) =
     passert (length val = n)
       (''key '' @ key @ '' length '' @ show_nat (length val) @ '' is not equal to batch size '' @ show_nat n)
       (check_arrays n rest)"

definition check_consistency :: "('r, 'a) data_proto \<Rightarrow> unit result" where
  "check_consistency d =
     (case batch d of None \<Rightarrow> Inr () | Some td \<Rightarrow> check_arrays (td_size td) (non_tensor_batch d))"

definition new_proto :: "'r tensordict option \<Rightarrow> (string \<times> 'a list) list \<Rightarrow> pyval pydict \<Rightarrow> ('r, 'a) data_proto result" where
  "new_proto b nt meta =
     (let d = \<lparr>batch = b, non_tensor_batch = nt, meta_info = meta\<rparr>
      in rbind (check_consistency d) (\<lambda>_. Inr d))"

definition dlen :: "('r, 'a) data_proto \<Rightarrow> nat" where
  "dlen d = (case batch d of
     Some td \<Rightarrow> td_size td
   | None \<Rightarrow> (case non_tensor_batch d of [] \<Rightarrow> 0 | (_, val) # _ \<Rightarrow> length val))"

text \<open>The same change of rows for every tensor and every array.\<close>

definition map_items :: "('a list \<Rightarrow> 'b list) \<Rightarrow> (string \<times> 'a list) list \<Rightarrow> (string \<times> 'b list) list" where
  "map_items f = map (\<lambda>(k, v). (k, f v))"

fun map_items_result :: "('a list \<Rightarrow> 'a list result) \<Rightarrow> (string \<times> 'a list) list \<Rightarrow> (string \<times> 'a list) list result" where
  "map_items_result f [] = Inr []"
| "map_items_result f ((k, v) # rest) =
     rbind (f v) (\<lambda>w. rbind (map_items_result f rest) (\<lambda>ws. Inr ((k, w) # ws)))"

text \<open>\<open>from_dict\<close> for one batch dimension.\<close>

fun check_sizes :: "string \<Rightarrow> nat \<Rightarrow> (string \<times> 'r list) list \<Rightarrow> unit result" where
  "check_sizes pivot n [] = Inr ()"
| "check_sizes pivot n ((key, t) # rest) =
     passert (n = length t)
       (''Not all the tensor in tensors have the same batch size with batch_dims=1. Got '' @ pivot @ '' has torch.Size(['' @
        show_nat n @ '']), '' @ key @ '' has torch.Size(['' @ show_nat (length t) @ ''])'')
       (check_sizes pivot n rest)"

definition auto_padding_key :: string where
  "auto_padding_key = ''_verl_auto_padding''"

definition from_dict ::
    "(string \<times> 'r list) list \<Rightarrow> (string \<times> 'a list) list \<Rightarrow> pyval pydict \<Rightarrow> bool \<Rightarrow> ('r, 'a) data_proto result" where
  "from_dict tensors non_tensors meta auto_padding =
     (let meta' = (if auto_padding then dict_set auto_padding_key (PBool True) meta else meta)
      in case tensors of
           [] \<Rightarrow> new_proto None non_tensors meta'
         | (pivot, t) # rest \<Rightarrow>
             rbind (check_sizes pivot (length t) rest) (\<lambda>_.
               new_proto (Some \<lparr>td_size = length t, td_items = tensors\<rparr>) non_tensors meta'))"

section \<open>Slices and selections\<close>

text \<open>\<open>range(a, b, s)\<close> for a step that is not zero, and the positions \<open>slice(start, stop, step)\<close> takes.\<close>

definition py_range :: "int \<Rightarrow> int \<Rightarrow> int \<Rightarrow> int list" where
  "py_range a b s =
     map (\<lambda>i. a + s * int i)
       [0..<nat (if 0 < s then (b - a + s - 1) div s else (a - b - s - 1) div (- s))]"

definition adjust :: "int \<Rightarrow> int \<Rightarrow> int \<Rightarrow> int \<Rightarrow> int" where
  "adjust n lo hi x = (if x < 0 then max lo (x + n) else min hi x)"

definition slice_positions :: "int option \<Rightarrow> int option \<Rightarrow> int \<Rightarrow> nat \<Rightarrow> nat list" where
  "slice_positions start stop s len =
     (let n = int len;
          bound = (\<lambda>x d. case x of None \<Rightarrow> d | Some i \<Rightarrow> if 0 < s then adjust n 0 n i else adjust n (- 1) (n - 1) i)
      in map nat (if 0 < s then py_range (bound start 0) (bound stop n) s
                  else py_range (bound start (n - 1)) (bound stop (- 1)) s))"

definition pick_rows :: "nat list \<Rightarrow> 'a list \<Rightarrow> 'a list" where
  "pick_rows positions xs = map (\<lambda>i. xs ! i) positions"

definition slice_rows :: "int option \<Rightarrow> int option \<Rightarrow> int \<Rightarrow> 'a list \<Rightarrow> 'a list" where
  "slice_rows start stop s xs = pick_rows (slice_positions start stop s (length xs)) xs"

text \<open>Tensors refuse steps that are not positive, arrays only refuse zero.\<close>

definition dslice :: "int option \<Rightarrow> int option \<Rightarrow> int option \<Rightarrow> ('r, 'a) data_proto \<Rightarrow> ('r, 'a) data_proto result" where
  "dslice start stop step d =
     (let s = (case step of None \<Rightarrow> 1 | Some s \<Rightarrow> s)
      in if batch d \<noteq> None \<and> s \<le> 0 then Inl (ValueError ''step must be greater than zero'')
         else if non_tensor_batch d \<noteq> [] \<and> s = 0 then Inl (ValueError ''slice step cannot be zero'')
         else new_proto
           (map_option (\<lambda>td. \<lparr>td_size = length (slice_positions start stop s (td_size td)),
                             td_items = map_items (slice_rows start stop s) (td_items td)\<rparr>) (batch d))
           (map_items (slice_rows start stop s) (non_tensor_batch d)) (meta_info d))"

text \<open>Index lists: integers, where negative ones count from the end, or a mask.\<close>

datatype indices = Ints "int list" | Mask "bool list"

definition in_bounds :: "nat \<Rightarrow> int \<Rightarrow> bool" where
  "in_bounds n i \<longleftrightarrow> - int n \<le> i \<and> i < int n"

definition position :: "nat \<Rightarrow> int \<Rightarrow> nat" where
  "position n i = nat (if i < 0 then i + int n else i)"

fun gather :: "indices \<Rightarrow> 'a list \<Rightarrow> 'a list result" where
  "gather (Ints is) xs =
     (if list_all (in_bounds (length xs)) is
      then Inr (pick_rows (map (position (length xs)) is) xs) else Inl (IndexError ''index out of range''))"
| "gather (Mask bs) xs =
     (if length bs = length xs then Inr (map fst (filter snd (zip xs bs)))
      else Inl (IndexError ''boolean index did not match''))"

fun index_count :: "indices \<Rightarrow> nat" where
  "index_count (Ints is) = length is"
| "index_count (Mask bs) = length (filter id bs)"

definition select_idxs :: "indices \<Rightarrow> ('r, 'a) data_proto \<Rightarrow> ('r, 'a) data_proto result" where
  "select_idxs idxs d =
     rbind (case batch d of
              None \<Rightarrow> Inr None
            | Some td \<Rightarrow> rbind (map_items_result (gather idxs) (td_items td)) (\<lambda>items.
                Inr (Some \<lparr>td_size = index_count idxs, td_items = items\<rparr>))) (\<lambda>b.
     rbind (map_items_result (gather idxs) (non_tensor_batch d)) (\<lambda>nt. new_proto b nt (meta_info d)))"

text \<open>\<open>reorder\<close> changes the container in place, without a new check.\<close>

definition reorder :: "int list \<Rightarrow> ('r, 'a) data_proto \<Rightarrow> ('r, 'a) data_proto result" where
  "reorder idxs d =
     (case batch d of
        None \<Rightarrow> Inl (TypeError (quoted ''NoneType'' @ '' object is not subscriptable''))
      | Some td \<Rightarrow>
          rbind (map_items_result (gather (Ints idxs)) (td_items td)) (\<lambda>items.
          rbind (map_items_result (gather (Ints idxs)) (non_tensor_batch d)) (\<lambda>nt.
            Inr (d\<lparr>batch := Some \<lparr>td_size = length idxs, td_items = items\<rparr>, non_tensor_batch := nt\<rparr>))))"

definition repeat_rows :: "nat \<Rightarrow> bool \<Rightarrow> 'a list \<Rightarrow> 'a list" where
  "repeat_rows reps interleave xs =
     (if interleave then concat (map (replicate reps) xs) else concat (replicate reps xs))"

definition drepeat :: "nat \<Rightarrow> bool \<Rightarrow> ('r, 'a) data_proto \<Rightarrow> ('r, 'a) data_proto result" where
  "drepeat reps interleave d =
     new_proto
       (map_option (\<lambda>td. \<lparr>td_size = td_size td * reps, td_items = map_items (repeat_rows reps interleave) (td_items td)\<rparr>)
         (batch d))
       (map_items (repeat_rows reps interleave) (non_tensor_batch d)) (meta_info d)"

section \<open>Joining\<close>

text \<open>\<open>list_of_dict_to_dict_of_list\<close>: the keys of the first dictionary; other keys are refused, missing ones are not.\<close>

fun push_items :: "(string \<times> 'v) list \<Rightarrow> (string \<times> 'v list) list \<Rightarrow> (string \<times> 'v list) list result" where
  "push_items [] out = Inr out"
| "push_items ((key, item) # rest) out =
     (case map_of out key of
        None \<Rightarrow> Inl (AssertionError (''Key '' @ quoted key @ '' is not present in the keys of the first dictionary in the list.''))
      | Some items \<Rightarrow> push_items rest (dict_set key (items @ [item]) out))"

definition list_of_dict_to_dict_of_list :: "(string \<times> 'v) list list \<Rightarrow> (string \<times> 'v list) list result" where
  "list_of_dict_to_dict_of_list ds =
     (case ds of [] \<Rightarrow> Inr []
      | d # _ \<Rightarrow> for_each push_items ds (map (\<lambda>(k, _). (k, [])) d))"

text \<open>\<open>==\<close> on values: numbers across their types, dictionaries without their order.\<close>

fun as_number :: "pyval \<Rightarrow> rat option" where
  "as_number (PBool b) = Some (if b then 1 else 0)"
| "as_number (PInt i) = Some (rat_of_int i)"
| "as_number (PFloat r) = Some r"
| "as_number _ = None"

lemma map_of_size: "map_of d k = Some x \<Longrightarrow> size x \<le> size_list (size_prod (\<lambda>_. 0) size) d"
  by (induction d) (auto split: if_splits)

function py_eq :: "pyval \<Rightarrow> pyval \<Rightarrow> bool" where
  "py_eq v w =
     (case (v, w) of
        (PList xs, PList ys) \<Rightarrow> length xs = length ys \<and> list_all (\<lambda>(x, y). py_eq x y) (zip xs ys)
      | (PDict d, PDict e) \<Rightarrow> length d = length e \<and>
          list_all (\<lambda>k. case (map_of d k, map_of e k) of (Some x, Some y) \<Rightarrow> py_eq x y | _ \<Rightarrow> False) (map fst d)
      | _ \<Rightarrow> v = w \<or> as_number v \<noteq> None \<and> as_number v = as_number w)"
  by pat_completeness auto
termination
proof (relation "measure (\<lambda>(v, w). size v)", goal_cases)
  case (2 v w v' w' xs ys p x y)
  then have v: "v = PList xs" and p: "p = (x, y)" by auto
  then have "x \<in> set xs" using 2 by (auto dest: set_zip_leftD)
  then show ?case using v p size_list_estimation' [of x xs "size x" size] by auto
next
  case (3 v w v' w' d e k o1 o2 x y)
  then have "v = PDict d" and "map_of d k = Some x" by auto
  then show ?case using map_of_size [of d k x] by auto
qed simp

declare py_eq.simps [simp del]


text \<open>\<open>torch.cat\<close> of tensor dictionaries, which must have the same keys.\<close>

fun cat_items :: "'r tensordict option list \<Rightarrow> string \<Rightarrow> 'r list result" where
  "cat_items [] key = Inr []"
| "cat_items (None # rest) key = Inl (TypeError ''expected a TensorDict'')"
| "cat_items (Some td # rest) key =
     (case map_of (td_items td) key of
        None \<Rightarrow> Inl (KeyError key)
      | Some rows \<Rightarrow> rbind (cat_items rest key) (\<lambda>rows'. Inr (rows @ rows')))"

fun cat_size :: "nat \<Rightarrow> 'r tensordict option list \<Rightarrow> nat result" where
  "cat_size n [] = Inr 0"
| "cat_size n (None # rest) = Inl (TypeError ''expected a TensorDict'')"
| "cat_size n (Some td # rest) =
     (if length (td_items td) = n then rbind (cat_size n rest) (\<lambda>m. Inr (td_size td + m)) else Inl (KeyError ''keys differ''))"

fun cat_keys :: "'r tensordict option list \<Rightarrow> string list \<Rightarrow> (string \<times> 'r list) list result" where
  "cat_keys tds [] = Inr []"
| "cat_keys tds (key # keys) =
     rbind (cat_items tds key) (\<lambda>rows. rbind (cat_keys tds keys) (\<lambda>items. Inr ((key, rows) # items)))"

definition torch_cat :: "'r tensordict option list \<Rightarrow> 'r tensordict result" where
  "torch_cat tds =
     (case tds of
        Some td # _ \<Rightarrow>
          rbind (cat_size (length (td_items td)) tds) (\<lambda>n.
          rbind (cat_keys tds (map fst (td_items td))) (\<lambda>items. Inr \<lparr>td_size = n, td_items = items\<rparr>))
      | _ \<Rightarrow> Inl (TypeError ''expected a TensorDict''))"

text \<open>The meta entries of the parts: the metrics of all parts are collected, other entries must agree.\<close>

definition conflict :: "string \<Rightarrow> string" where
  "conflict k = ''Conflicting values for meta_info key '' @ quoted k"

fun merge_meta :: "pyval pydict \<Rightarrow> pyval pydict \<times> pyval list \<Rightarrow> (pyval pydict \<times> pyval list) result" where
  "merge_meta [] acc = Inr acc"
| "merge_meta ((k, v) # rest) (merged, metrics) =
     (if k = ''metrics''
      then merge_meta rest (merged, (case v of PNone \<Rightarrow> metrics | PList vs \<Rightarrow> metrics @ vs | _ \<Rightarrow> metrics @ [v]))
      else case map_of merged k of
             Some w \<Rightarrow> passert (py_eq w v) (conflict k) (merge_meta rest (merged, metrics))
           | None \<Rightarrow> merge_meta rest (dict_set k v merged, metrics))"

fun as_dicts :: "pyval list \<Rightarrow> pyval pydict list result" where
  "as_dicts [] = Inr []"
| "as_dicts (PDict d # vs) = rbind (as_dicts vs) (\<lambda>ds. Inr (d # ds))"
| "as_dicts (_ # vs) = Inl (AttributeError (''object has no attribute '' @ quoted ''items''))"

definition flatten_metrics :: "pyval list \<Rightarrow> pyval pydict \<Rightarrow> pyval pydict result" where
  "flatten_metrics metrics merged =
     (if metrics = [] then Inr merged
      else rbind (as_dicts metrics) (\<lambda>ds. rbind (list_of_dict_to_dict_of_list ds) (\<lambda>m.
             Inr (dict_set ''metrics'' (PDict (map (\<lambda>(k, vs). (k, PList vs)) m)) merged))))"

definition dconcat :: "('r, 'a) data_proto list \<Rightarrow> ('r, 'a) data_proto result" where
  "dconcat ds =
     (case ds of
        [] \<Rightarrow> Inl (IndexError ''list index out of range'')
      | d # _ \<Rightarrow>
          rbind (if batch d = None then Inr None
                 else rbind (torch_cat (map batch ds)) (\<lambda>td. Inr (Some td))) (\<lambda>b.
          rbind (list_of_dict_to_dict_of_list (map non_tensor_batch ds)) (\<lambda>arrays.
          rbind (for_each (\<lambda>d. merge_meta (meta_info d)) ds ([], [])) (\<lambda>(merged, metrics).
          rbind (flatten_metrics metrics merged) (\<lambda>meta.
            new_proto b (map (\<lambda>(k, parts). (k, concat parts)) arrays) meta)))))"

section \<open>Splitting\<close>

fun map_all :: "('a \<Rightarrow> 'b result) \<Rightarrow> 'a list \<Rightarrow> 'b list result" where
  "map_all f [] = Inr []"
| "map_all f (x # xs) = rbind (f x) (\<lambda>y. rbind (map_all f xs) (\<lambda>ys. Inr (y # ys)))"

definition split_proto :: "int \<Rightarrow> ('r, 'a) data_proto \<Rightarrow> ('r, 'a) data_proto list result" where
  "split_proto split_size d =
     (if split_size = 0 then Inl (ValueError ''range() arg 3 must not be zero'')
      else map_all (\<lambda>i. dslice (Some i) (Some (i + split_size)) None d) (py_range 0 (int (dlen d)) split_size))"

text \<open>
  The sizes of the parts: tensors are cut into parts of \<open>ceil(n / k)\<close> rows, which may be fewer than
  \<open>k\<close>; arrays without a tensor batch into \<open>k\<close> parts whose sizes differ by at most one. An empty batch has
  \<open>k\<close> empty parts, as \<open>torch.chunk\<close> has it; no theorem rests on that case.
\<close>

function cut_sizes :: "nat \<Rightarrow> nat \<Rightarrow> nat list" where
  "cut_sizes n split_size =
     (if n = 0 \<or> split_size = 0 then [] else min split_size n # cut_sizes (n - split_size) split_size)"
  by pat_completeness auto
termination
  by (relation "measure fst") auto

declare cut_sizes.simps [simp del]

definition chunk_sizes :: "nat \<Rightarrow> nat \<Rightarrow> nat list" where
  "chunk_sizes n k = (if n = 0 then replicate k 0 else cut_sizes n ((n + k - 1) div k))"

definition array_split_sizes :: "nat \<Rightarrow> nat \<Rightarrow> nat list" where
  "array_split_sizes n k = replicate (n mod k) (n div k + 1) @ replicate (k - n mod k) (n div k)"

fun cut_at :: "nat list \<Rightarrow> 'a list \<Rightarrow> 'a list list" where
  "cut_at [] xs = []"
| "cut_at [n] xs = [xs]"
| "cut_at (n # m # ns) xs = take n xs # cut_at (m # ns) (drop n xs)"

fun truthy :: "pyval \<Rightarrow> bool" where
  "truthy PNone = False"
| "truthy (PBool b) = b"
| "truthy (PInt i) = (i \<noteq> 0)"
| "truthy (PFloat r) = (r \<noteq> 0)"
| "truthy (PStr s) = (s \<noteq> [])"
| "truthy (PList xs) = (xs \<noteq> [])"
| "truthy (PDict d) = (d \<noteq> [])"

definition is_padding_enabled :: "bool \<Rightarrow> ('r, 'a) data_proto \<Rightarrow> bool" where
  "is_padding_enabled global d \<longleftrightarrow>
     truthy (dict_get_or (meta_info d) auto_padding_key (PBool False)) \<or> global"

definition nth_proto :: "('r, 'a) data_proto \<Rightarrow> nat list \<Rightarrow> nat \<Rightarrow> ('r, 'a) data_proto result" where
  "nth_proto d sizes i =
     new_proto
       (map_option (\<lambda>td. \<lparr>td_size = sizes ! i, td_items = map_items (\<lambda>xs. cut_at sizes xs ! i) (td_items td)\<rparr>) (batch d))
       (map_items (\<lambda>xs. cut_at (if batch d = None then array_split_sizes (length xs) (length sizes) else sizes) xs ! i)
          (non_tensor_batch d))
       (meta_info d)"

definition chunk_proto :: "bool \<Rightarrow> nat \<Rightarrow> ('r, 'a) data_proto \<Rightarrow> ('r, 'a) data_proto list result" where
  "chunk_proto global chunks d =
     (if \<not> is_padding_enabled global d \<and> chunks = 0 then Inl (ZeroDivisionError ''integer modulo by zero'')
      else if chunks = 0 \<and> (batch d \<noteq> None \<or> non_tensor_batch d \<noteq> []) then Inl (ValueError ''number sections must be larger than 0'')
      else passert (is_padding_enabled global d \<or> dlen d mod chunks = 0)
       (''only support equal chunk. Got size of DataProto '' @ show_nat (dlen d) @ '' and chunk '' @ show_nat chunks @ ''.'')
       (case batch d of
          Some td \<Rightarrow>
            let sizes = chunk_sizes (td_size td) chunks in
            if non_tensor_batch d \<noteq> [] \<and> length sizes \<noteq> chunks then Inl (AssertionError [])
            else if length sizes < chunks then Inl (IndexError ''list index out of range'')
            else map_all (nth_proto d sizes) [0..<chunks]
        | None \<Rightarrow> map_all (nth_proto d (replicate chunks 0)) [0..<chunks]))"

section \<open>Padding\<close>

text \<open>The sizes of the padding slices of \<open>pad_dataproto_to_divisor\<close>; \<open>n\<close> is not 0 there.\<close>

function pad_sizes :: "nat \<Rightarrow> nat \<Rightarrow> nat list" where
  "pad_sizes n remaining =
     (if remaining = 0 \<or> n = 0 then [] else min remaining n # pad_sizes n (remaining - min remaining n))"
  by pat_completeness auto
termination
  by (relation "measure snd") auto

declare pad_sizes.simps [simp del]

definition pad_dataproto_to_divisor :: "nat \<Rightarrow> ('r, 'a) data_proto \<Rightarrow> (('r, 'a) data_proto \<times> nat) result" where
  "pad_dataproto_to_divisor size_divisor d =
     (if size_divisor = 0 then Inl (ZeroDivisionError ''integer modulo by zero'')
      else if dlen d mod size_divisor = 0 then Inr (d, 0)
      else let pad_size = size_divisor - dlen d mod size_divisor
           in rbind (map_all (\<lambda>n. dslice None (Some (int n)) None d) (pad_sizes (dlen d) pad_size)) (\<lambda>padding.
              rbind (dconcat (d # padding)) (\<lambda>padded. Inr (padded, pad_size))))"

definition unpad_dataproto :: "nat \<Rightarrow> ('r, 'a) data_proto \<Rightarrow> ('r, 'a) data_proto result" where
  "unpad_dataproto pad_size d = (if pad_size \<noteq> 0 then dslice None (Some (- int pad_size)) None d else Inr d)"

definition padding :: "nat \<Rightarrow> string \<Rightarrow> ('r, 'a) data_proto \<Rightarrow> ('r, 'a) data_proto result" where
  "padding padding_size padding_candidate d =
     (if padding_size = 0 then Inr d
      else rbind (select_idxs (Ints [if padding_candidate = ''first'' then 0 else int (dlen d) - 1]) d) (\<lambda>candidate.
           rbind (drepeat padding_size True candidate) (\<lambda>part.
           rbind (dconcat [d, part]) (\<lambda>padded.
             Inr (d\<lparr>batch := batch padded, non_tensor_batch := non_tensor_batch padded\<rparr>)))))"

section \<open>Keys\<close>

text \<open>
  The code adds the entries to the first container in place. An exception is the value \<open>Inl\<close> here: the entries that
  were added before it are not a value of the model. No caller in the repository uses the container after that.
\<close>

fun union_tensors :: "(string \<times> 'r list) list \<Rightarrow> (string \<times> 'r list) list \<Rightarrow> (string \<times> 'r list) list result" where
  "union_tensors items [] = Inr items"
| "union_tensors items ((key, t) # rest) =
     (case map_of items key of
        None \<Rightarrow> union_tensors (items @ [(key, t)]) rest
      | Some u \<Rightarrow> passert (u = t) (key @ '' in tensor_dict1 and tensor_dict2 are not the same object'') (union_tensors items rest))"

definition union_tensor_dict :: "'r tensordict option \<Rightarrow> 'r tensordict option \<Rightarrow> 'r tensordict result" where
  "union_tensor_dict t1 t2 =
     (case (t1, t2) of
        (Some td1, Some td2) \<Rightarrow>
          passert (td_size td1 = td_size td2)
            (''Two tensor dict must have identical batch size. Got torch.Size(['' @ show_nat (td_size td1) @
             '']) and torch.Size(['' @ show_nat (td_size td2) @ ''])'')
            (rbind (union_tensors (td_items td1) (td_items td2)) (\<lambda>items. Inr (td1\<lparr>td_items := items\<rparr>)))
      | _ \<Rightarrow> Inl (AttributeError (quoted ''NoneType'' @ '' object has no attribute '' @ quoted ''batch_size'')))"

fun union_numpy_dict :: "(string \<times> 'a list) list \<Rightarrow> (string \<times> 'a list) list \<Rightarrow> (string \<times> 'a list) list result" where
  "union_numpy_dict items [] = Inr items"
| "union_numpy_dict items ((key, val) # rest) =
     passert (map_of items key \<in> {None, Some val})
       (''`'' @ key @ ''` in tensor_dict1 and tensor_dict2 are not the same object.'')
       (union_numpy_dict (dict_set key val items) rest)"

fun union_two_dict :: "pyval pydict \<Rightarrow> pyval pydict \<Rightarrow> pyval pydict result" where
  "union_two_dict dict1 [] = Inr dict1"
| "union_two_dict dict1 ((key, val) # rest) =
     passert (case map_of dict1 key of None \<Rightarrow> True | Some v \<Rightarrow> py_eq val v)
       (key @ '' in meta_dict1 and meta_dict2 are not the same object'')
       (union_two_dict (dict_set key val dict1) rest)"

definition union_proto :: "('r, 'a) data_proto \<Rightarrow> ('r, 'a) data_proto \<Rightarrow> ('r, 'a) data_proto result" where
  "union_proto d e =
     rbind (union_tensor_dict (batch d) (batch e)) (\<lambda>td.
     rbind (union_numpy_dict (non_tensor_batch d) (non_tensor_batch e)) (\<lambda>nt.
     rbind (union_two_dict (meta_info d) (meta_info e)) (\<lambda>meta.
       Inr \<lparr>batch = Some td, non_tensor_batch = nt, meta_info = meta\<rparr>)))"

text \<open>\<open>pop\<close> moves entries out of the container: the popped container and what is left.\<close>

fun pop_keys :: "string list \<Rightarrow> (string \<times> 'v) list \<Rightarrow> (string \<times> 'v) list \<Rightarrow> ((string \<times> 'v) list \<times> (string \<times> 'v) list) result" where
  "pop_keys [] items out = Inr (out, items)"
| "pop_keys (key # keys) items out =
     (case map_of items key of
        None \<Rightarrow> Inl (AssertionError [])
      | Some v \<Rightarrow> pop_keys keys (dict_del key items) (dict_set key v out))"

definition pop_proto ::
    "string list \<Rightarrow> string list \<Rightarrow> string list \<Rightarrow> ('r, 'a) data_proto \<Rightarrow> (('r, 'a) data_proto \<times> ('r, 'a) data_proto) result" where
  "pop_proto batch_keys non_tensor_keys meta_keys d =
     rbind (case batch d of
              Some td \<Rightarrow> rbind (pop_keys batch_keys (td_items td) []) (\<lambda>(out, rest). Inr (out, Some (td\<lparr>td_items := rest\<rparr>)))
            | None \<Rightarrow> if batch_keys = [] then Inr ([], None)
                      else Inl (AttributeError (quoted ''NoneType'' @ '' object has no attribute '' @ quoted ''keys''))) (\<lambda>(tensors, b).
     rbind (pop_keys non_tensor_keys (non_tensor_batch d) []) (\<lambda>(non_tensors, nt).
     rbind (pop_keys meta_keys (meta_info d) []) (\<lambda>(meta, ms).
     rbind (from_dict tensors non_tensors meta False) (\<lambda>popped.
       Inr (popped, \<lparr>batch = b, non_tensor_batch = nt, meta_info = ms\<rparr>)))))"

definition select_proto ::
    "string list option \<Rightarrow> string list option \<Rightarrow> string list option \<Rightarrow> ('r, 'a) data_proto \<Rightarrow> ('r, 'a) data_proto result" where
  "select_proto batch_keys non_tensor_keys meta_keys d =
     rbind (case batch_keys of
              None \<Rightarrow> Inr (batch d)
            | Some keys \<Rightarrow>
                (case batch d of
                   None \<Rightarrow> Inl (AttributeError (quoted ''NoneType'' @ '' object has no attribute '' @ quoted ''select''))
                 | Some td \<Rightarrow>
                     rbind (map_all (\<lambda>k. rbind (dict_index (td_items td) k) (\<lambda>v. Inr (k, v))) keys) (\<lambda>items.
                       Inr (Some (td\<lparr>td_items := items\<rparr>))))) (\<lambda>b.
       new_proto b
         (case non_tensor_keys of None \<Rightarrow> non_tensor_batch d | Some ks \<Rightarrow> filter (\<lambda>(k, _). k \<in> set ks) (non_tensor_batch d))
         (case meta_keys of None \<Rightarrow> meta_info d | Some ks \<Rightarrow> filter (\<lambda>(k, _). k \<in> set ks) (meta_info d)))"

end
