(* ===== verification/Dispatch.thy ===== *)
theory Dispatch
  imports DataProto
begin

text \<open>
  Calls of a method on all workers of a worker group (\<open>single_controller/base/decorator.py\<close>,
  \<open>single_controller/base/worker.py\<close> and \<open>single_controller/ray/base.py\<close>): the arguments are split,
  each worker runs the method on its parts, the outputs are joined. The method is a parameter.
  Futures, tensor dictionaries and metadata objects as arguments are not modelled, nor are one
  object passed twice and methods that change their worker.
\<close>

section \<open>Splitting the arguments\<close>

text \<open>
  \<open>_padding_and_split_data\<close>: the padding changes the argument itself, so the changed object is returned with
  the parts. The last component is \<open>(data_proto_len, padding_size)\<close> of the enclosing function.
\<close>

definition padding_and_split ::
    "bool \<Rightarrow> nat \<Rightarrow> (nat \<times> nat) option \<Rightarrow> ('r, 'a) data_proto
     \<Rightarrow> (('r, 'a) data_proto list \<times> ('r, 'a) data_proto \<times> (nat \<times> nat) option) result" where
  "padding_and_split global chunks seen obj =
     rbind (if is_padding_enabled global obj
            then rbind (case seen of
                   None \<Rightarrow> if chunks = 0 then Inl (ZeroDivisionError ''integer modulo by zero'')
                           else Inr (dlen obj, if 0 < dlen obj mod chunks then chunks - dlen obj mod chunks else 0)
                 | Some (data_proto_len, padding_size) \<Rightarrow>
                     passert (data_proto_len = dlen obj)
                       (''expecting all arg share same length of '' @ show_nat data_proto_len @ '', but got '' @ show_nat (dlen obj))
                       (Inr (data_proto_len, padding_size))) (\<lambda>(n, p).
                 rbind (DataProto.padding p [] obj) (\<lambda>padded. Inr (padded, Some (n, p))))
            else Inr (obj, seen)) (\<lambda>(obj', seen').
     rbind (chunk_proto global chunks obj') (\<lambda>parts. Inr (parts, obj', seen')))"

fun split_all ::
    "bool \<Rightarrow> nat \<Rightarrow> (nat \<times> nat) option \<Rightarrow> ('r, 'a) data_proto list
     \<Rightarrow> (('r, 'a) data_proto list list \<times> ('r, 'a) data_proto list \<times> (nat \<times> nat) option) result" where
  "split_all global chunks seen [] = Inr ([], [], seen)"
| "split_all global chunks seen (d # ds) =
     rbind (padding_and_split global chunks seen d) (\<lambda>(parts, d', seen').
     rbind (split_all global chunks seen' ds) (\<lambda>(rest, ds', seen''). Inr (parts # rest, d' # ds', seen'')))"

text \<open>\<open>dispatch_dp_compute_data_proto\<close>: the split arguments, the padding size and the changed arguments.\<close>

definition dispatch_dp_compute_data_proto ::
    "bool \<Rightarrow> nat \<Rightarrow> ('r, 'a) data_proto list \<Rightarrow> (string \<times> ('r, 'a) data_proto) list
     \<Rightarrow> (('r, 'a) data_proto list list \<times> (string \<times> ('r, 'a) data_proto list) list \<times> nat option
         \<times> ('r, 'a) data_proto list \<times> (string \<times> ('r, 'a) data_proto) list) result" where
  "dispatch_dp_compute_data_proto global world_size args kwargs =
     rbind (split_all global world_size None args) (\<lambda>(splitted_args, args', seen).
     rbind (split_all global world_size seen (map snd kwargs)) (\<lambda>(splitted, vals', seen').
       Inr (splitted_args, zip (map fst kwargs) splitted, map_option snd seen', args', zip (map fst kwargs) vals')))"

text \<open>\<open>_split_args_kwargs_data_proto\<close>, without padding.\<close>

definition split_args_kwargs_data_proto ::
    "bool \<Rightarrow> nat \<Rightarrow> ('r, 'a) data_proto list \<Rightarrow> (string \<times> ('r, 'a) data_proto) list
     \<Rightarrow> (('r, 'a) data_proto list list \<times> (string \<times> ('r, 'a) data_proto list) list) result" where
  "split_args_kwargs_data_proto global chunks args kwargs =
     rbind (map_all (\<lambda>d. rbind (chunk_proto global chunks d) (\<lambda>parts. passert (length parts = chunks) [] (Inr parts))) args) (\<lambda>as.
     rbind (map_all (\<lambda>(k, d). rbind (chunk_proto global chunks d) (\<lambda>parts. passert (length parts = chunks) [] (Inr (k, parts)))) kwargs)
       (\<lambda>kws. Inr (as, kws)))"

definition dispatch_one_to_all :: "nat \<Rightarrow> 'd list \<Rightarrow> (string \<times> 'd) list \<Rightarrow> 'd list list \<times> (string \<times> 'd list) list" where
  "dispatch_one_to_all world_size args kwargs =
     (map (replicate world_size) args, map (\<lambda>(k, v). (k, replicate world_size v)) kwargs)"

definition dispatch_dp_compute :: "nat \<Rightarrow> 'd list list \<Rightarrow> (string \<times> 'd list) list \<Rightarrow> ('d list list \<times> (string \<times> 'd list) list) result" where
  "dispatch_dp_compute world_size args kwargs =
     passert (list_all (\<lambda>arg. length arg = world_size) args \<and> list_all (\<lambda>(k, v). length v = world_size) kwargs) []
       (Inr (args, kwargs))"

section \<open>Running the method\<close>

text \<open>A worker gets its items of the lists, or the whole lists when a length does not fit.\<close>

datatype 'd arg = Item 'd | Whole "'d list"

type_synonym ('d, 'o) remote_method = "nat \<Rightarrow> 'd arg list \<Rightarrow> (string \<times> 'd arg) list \<Rightarrow> 'o result"

definition execute_all :: "nat \<Rightarrow> ('d, 'o) remote_method \<Rightarrow> 'd list list \<Rightarrow> (string \<times> 'd list) list \<Rightarrow> 'o list result" where
  "execute_all world_size f args kwargs =
     (if list_all (\<lambda>arg. length arg = world_size) args \<and> list_all (\<lambda>(k, v). length v = world_size) kwargs
      then map_all (\<lambda>i. f i (map (\<lambda>arg. Item (arg ! i)) args) (map (\<lambda>(k, v). (k, Item (v ! i))) kwargs)) [0..<world_size]
      else map_all (\<lambda>i. f i (map Whole args) (map (\<lambda>(k, v). (k, Whole v)) kwargs)) [0..<world_size])"

section \<open>Joining the outputs\<close>

definition collect_dp_compute :: "nat \<Rightarrow> 'o list \<Rightarrow> 'o list result" where
  "collect_dp_compute world_size output = passert (length output = world_size) [] (Inr output)"

definition not_concatable :: string where
  "not_concatable = ''expecting concatable output, but got element type empty''"

definition collect_dp_compute_data_proto :: "nat \<Rightarrow> ('r, 'a) data_proto list \<Rightarrow> ('r, 'a) data_proto result" where
  "collect_dp_compute_data_proto world_size output =
     passert (output \<noteq> []) not_concatable (rbind (collect_dp_compute world_size output) dconcat)"

text \<open>The end of a call in \<open>func_generator\<close>: the padded rows, or the last outputs of a list, are removed.\<close>

definition strip_padding :: "nat \<Rightarrow> ('r, 'a) data_proto \<Rightarrow> ('r, 'a) data_proto result" where
  "strip_padding padding_count output =
     (if 0 < padding_count then select_idxs (Ints (map int [0..<dlen output - padding_count])) output else Inr output)"

definition strip_outputs :: "nat \<Rightarrow> 'o list \<Rightarrow> 'o list" where
  "strip_outputs padding_count output = (if 0 < padding_count then take (length output - padding_count) output else output)"

text \<open>A call in the modes \<open>DP_COMPUTE_PROTO\<close> and \<open>DP_COMPUTE_METRIC\<close>; the changed arguments are returned too.\<close>

definition call_dp_compute_proto ::
    "bool \<Rightarrow> nat \<Rightarrow> (('r, 'a) data_proto, ('q, 'b) data_proto) remote_method \<Rightarrow> ('r, 'a) data_proto list
     \<Rightarrow> (string \<times> ('r, 'a) data_proto) list
     \<Rightarrow> (('q, 'b) data_proto \<times> ('r, 'a) data_proto list \<times> (string \<times> ('r, 'a) data_proto) list) result" where
  "call_dp_compute_proto global world_size f args kwargs =
     rbind (dispatch_dp_compute_data_proto global world_size args kwargs) (\<lambda>(as, kws, padding_count, args', kwargs').
     rbind (execute_all world_size f as kws) (\<lambda>outputs.
     rbind (collect_dp_compute_data_proto world_size outputs) (\<lambda>output.
     rbind (strip_padding (case padding_count of None \<Rightarrow> 0 | Some p \<Rightarrow> p) output) (\<lambda>stripped.
       Inr (stripped, args', kwargs')))))"

definition call_dp_compute_metric ::
    "bool \<Rightarrow> nat \<Rightarrow> (('r, 'a) data_proto, 'o) remote_method \<Rightarrow> ('r, 'a) data_proto list
     \<Rightarrow> (string \<times> ('r, 'a) data_proto) list \<Rightarrow> 'o list result" where
  "call_dp_compute_metric global world_size f args kwargs =
     rbind (dispatch_dp_compute_data_proto global world_size args kwargs) (\<lambda>(as, kws, padding_count, _).
     rbind (execute_all world_size f as kws) (\<lambda>outputs.
     rbind (collect_dp_compute world_size outputs) (\<lambda>output.
       Inr (strip_outputs (case padding_count of None \<Rightarrow> 0 | Some p \<Rightarrow> p) output))))"

section \<open>Meshes\<close>

text \<open>What a worker knows of its place in the meshes, and what the worker group remembers of it.\<close>

record worker =
  dispatch_dp_rank :: "(string \<times> nat) list"
  collect_dp_rank :: "(string \<times> bool) list"

definition register_dispatch_collect_info :: "string \<Rightarrow> nat \<Rightarrow> bool \<Rightarrow> worker \<Rightarrow> worker result" where
  "register_dispatch_collect_info mesh_name dp_rank is_collect w =
     (if map_of (dispatch_dp_rank w) mesh_name \<noteq> None \<or> map_of (collect_dp_rank w) mesh_name \<noteq> None
      then Inl (ValueError (''mesh_name '' @ mesh_name @ '' has been registered''))
      else Inr (w\<lparr>dispatch_dp_rank := dict_set mesh_name dp_rank (dispatch_dp_rank w),
                  collect_dp_rank := dict_set mesh_name is_collect (collect_dp_rank w)\<rparr>))"

definition query_dispatch_info :: "string \<Rightarrow> worker \<Rightarrow> nat result" where
  "query_dispatch_info mesh_name w =
     (case map_of (dispatch_dp_rank w) mesh_name of
        None \<Rightarrow> Inl (AssertionError (mesh_name @ '' is not registered in Worker''))
      | Some r \<Rightarrow> Inr r)"

definition query_collect_info :: "string \<Rightarrow> worker \<Rightarrow> bool result" where
  "query_collect_info mesh_name w =
     (case map_of (collect_dp_rank w) mesh_name of
        None \<Rightarrow> Inl (AssertionError (mesh_name @ '' is not registered in Worker''))
      | Some b \<Rightarrow> Inr b)"

record worker_group =
  workers :: "worker list"
  dispatch_info :: "(string \<times> nat list) list"
  collect_info :: "(string \<times> bool list) list"

definition world_size :: "worker_group \<Rightarrow> nat" where
  "world_size g = length (workers g)"

text \<open>\<open>dispatch_nd_compute\<close>: every worker gets the part of its data-parallel rank.\<close>

definition pick_ranks :: "nat list \<Rightarrow> nat \<Rightarrow> nat \<Rightarrow> 'd list \<Rightarrow> 'd list result" where
  "pick_ranks dp_rank_mapping dp_size n arg =
     passert (length arg = dp_size) []
       (if n \<le> length dp_rank_mapping \<and> list_all (\<lambda>r. r < length arg) (take n dp_rank_mapping)
        then Inr (map (\<lambda>r. arg ! r) (take n dp_rank_mapping)) else Inl (IndexError ''list index out of range''))"

definition dispatch_nd_compute ::
    "nat list \<Rightarrow> nat \<Rightarrow> nat \<Rightarrow> 'd list list \<Rightarrow> (string \<times> 'd list) list \<Rightarrow> ('d list list \<times> (string \<times> 'd list) list) result" where
  "dispatch_nd_compute dp_rank_mapping dp_size n args kwargs =
     (if args = [] then Inl (IndexError ''tuple index out of range'')
      else rbind (map_all (pick_ranks dp_rank_mapping dp_size n) args) (\<lambda>as.
           rbind (map_all (\<lambda>(k, v). rbind (pick_ranks dp_rank_mapping dp_size n v) (\<lambda>w. Inr (k, w))) kwargs) (\<lambda>kws.
             Inr (as, kws))))"

definition collect_nd_compute :: "bool list \<Rightarrow> nat \<Rightarrow> 'o list \<Rightarrow> 'o list result" where
  "collect_nd_compute collect_mask n output =
     passert (length output = n) []
       (if n \<le> length collect_mask then Inr (map fst (filter snd (zip output collect_mask)))
        else Inl (IndexError ''list index out of range''))"

definition dispatch_lazy_compute_data_proto ::
    "bool \<Rightarrow> string \<Rightarrow> worker_group \<Rightarrow> ('r, 'a) data_proto list \<Rightarrow> (string \<times> ('r, 'a) data_proto) list
     \<Rightarrow> ((('r, 'a) data_proto list list \<times> (string \<times> ('r, 'a) data_proto list) list) \<times> worker_group) result" where
  "dispatch_lazy_compute_data_proto global mesh_name g args kwargs =
     rbind (case map_of (dispatch_info g) mesh_name of
              Some mapping \<Rightarrow> Inr (mapping, g)
            | None \<Rightarrow> rbind (map_all (query_dispatch_info mesh_name) (workers g)) (\<lambda>mapping.
                Inr (mapping, g\<lparr>dispatch_info := dict_set mesh_name mapping (dispatch_info g)\<rparr>))) (\<lambda>(mapping, g').
     if mapping = [] then Inl (ValueError ''max() arg is an empty sequence'')
     else let dp_size = Max (set mapping) + 1 in
       rbind (split_args_kwargs_data_proto global dp_size args kwargs) (\<lambda>(as, kws).
       rbind (dispatch_nd_compute mapping dp_size (world_size g) as kws) (\<lambda>split. Inr (split, g'))))"

definition collect_lazy_compute_data_proto ::
    "string \<Rightarrow> worker_group \<Rightarrow> ('q, 'b) data_proto list \<Rightarrow> (('q, 'b) data_proto \<times> worker_group) result" where
  "collect_lazy_compute_data_proto mesh_name g output =
     passert (map_of (dispatch_info g) mesh_name \<noteq> None) []
       (rbind (case map_of (collect_info g) mesh_name of
                 Some flags \<Rightarrow> Inr (flags, g)
               | None \<Rightarrow> rbind (map_all (query_collect_info mesh_name) (workers g)) (\<lambda>flags.
                   Inr (flags, g\<lparr>collect_info := dict_set mesh_name flags (collect_info g)\<rparr>))) (\<lambda>(flags, g').
        rbind (collect_nd_compute flags (world_size g) output) (\<lambda>outputs.
        passert (outputs \<noteq> []) not_concatable (rbind (dconcat outputs) (\<lambda>joined. Inr (joined, g'))))))"

text \<open>A call of a method registered with \<open>make_nd_compute_dataproto_dispatch_fn(mesh_name)\<close>.\<close>

definition call_nd_compute ::
    "bool \<Rightarrow> string \<Rightarrow> worker_group \<Rightarrow> (('r, 'a) data_proto, ('q, 'b) data_proto) remote_method \<Rightarrow> ('r, 'a) data_proto list
     \<Rightarrow> (string \<times> ('r, 'a) data_proto) list \<Rightarrow> (('q, 'b) data_proto \<times> worker_group) result" where
  "call_nd_compute global mesh_name g f args kwargs =
     rbind (dispatch_lazy_compute_data_proto global mesh_name g args kwargs) (\<lambda>((as, kws), g').
     rbind (execute_all (world_size g) f as kws) (\<lambda>outputs. collect_lazy_compute_data_proto mesh_name g' outputs))"

end
