(* ===== verification/DataProtoFacts.thy ===== *)
theory DataProtoFacts
  imports DataProto Microbatch
begin

text \<open>
  Every row operation of \<open>DataProto\<close> is a selection of rows at computed positions, \<open>rows_at\<close>; splitting,
  joining, padding and reordering are related through the positions.
\<close>

section \<open>Values\<close>

lemma py_eq_refl [simp]: "py_eq v v"
proof (induction v)
  case (PList xs)
  then show ?case by (auto simp: py_eq.simps list_all_iff zip_same)
next
  case (PDict d)
  have "case (map_of d k, map_of d k) of (Some x, Some y) \<Rightarrow> py_eq x y | _ \<Rightarrow> False" if "k \<in> set (map fst d)" for k
  proof -
    have "map_of d k \<noteq> None" using that by (simp add: map_of_eq_None_iff)
    then obtain x where x: "map_of d k = Some x" by auto
    then have "py_eq x x" using PDict [of "(k, x)" x] map_of_SomeD [OF x] by simp
    then show ?thesis using x by simp
  qed
  then show ?case by (simp add: py_eq.simps list_all_iff)
qed (simp_all add: py_eq.simps)

section \<open>Rows\<close>

text \<open>The abstract operation: the container with the rows at the given positions.\<close>

definition rows_at :: "nat list \<Rightarrow> ('r, 'a) data_proto \<Rightarrow> ('r, 'a) data_proto" where
  "rows_at ps d =
     \<lparr>batch = map_option (\<lambda>td. \<lparr>td_size = length ps, td_items = map_items (pick_rows ps) (td_items td)\<rparr>) (batch d),
      non_tensor_batch = map_items (pick_rows ps) (non_tensor_batch d), meta_info = meta_info d\<rparr>"

text \<open>A well-formed container: not empty of keys, unique keys, all tensors and arrays of the same length.\<close>

definition ok_items :: "nat \<Rightarrow> (string \<times> 'a list) list \<Rightarrow> bool" where
  "ok_items n items \<longleftrightarrow> distinct (map fst items) \<and> (\<forall>v \<in> snd ` set items. length v = n)"

definition ok_proto :: "('r, 'a) data_proto \<Rightarrow> bool" where
  "ok_proto d \<longleftrightarrow> (batch d \<noteq> None \<or> non_tensor_batch d \<noteq> [])
     \<and> (\<forall>td. batch d = Some td \<longrightarrow> ok_items (td_size td) (td_items td))
     \<and> ok_items (dlen d) (non_tensor_batch d) \<and> distinct (map fst (meta_info d))"

lemma map_items_simps [simp]:
  "map_items f [] = []" "map_items f ((k, v) # items) = (k, f v) # map_items f items"
  "map fst (map_items f items) = map fst items" "map_items f items = [] \<longleftrightarrow> items = []"
  "length (map_items f items) = length items" "snd ` set (map_items f items) = f ` snd ` set items"
  "fst ` set (map_items f items) = fst ` set items"
  by (auto simp: map_items_def image_iff split_def) force+

lemma map_items_map_items [simp]: "map_items f (map_items g items) = map_items (f \<circ> g) items"
  by (simp add: map_items_def split_def)

lemma map_items_cong:
  "(\<And>v. v \<in> snd ` set items \<Longrightarrow> f v = g v) \<Longrightarrow> map_items f items = map_items g items"
  by (force simp: map_items_def)

lemma map_items_id: "(\<And>v. v \<in> snd ` set items \<Longrightarrow> f v = v) \<Longrightarrow> map_items f items = items"
  by (force simp: map_items_def intro!: map_idI)

lemma length_pick_rows [simp]: "length (pick_rows ps xs) = length ps"
  by (simp add: pick_rows_def)

lemma pick_rows_all: "pick_rows [0..<length xs] xs = xs"
  by (simp add: pick_rows_def map_nth)

lemma pick_pick:
  "\<forall>q \<in> set qs. q < length ps \<Longrightarrow> pick_rows qs (pick_rows ps xs) = pick_rows (map ((!) ps) qs) xs"
  by (simp add: pick_rows_def)

lemma pick_rows_concat: "concat (map (\<lambda>ps. pick_rows ps xs) pss) = pick_rows (concat pss) xs"
  by (simp add: pick_rows_def map_concat)

lemma check_arrays_ok: "(\<forall>v \<in> snd ` set nt. length v = n) \<Longrightarrow> check_arrays n nt = Inr ()"
  by (induction n nt rule: check_arrays.induct) (auto simp: passert_def)

lemma new_proto_ok [simp]:
  "new_proto None nt meta = Inr \<lparr>batch = None, non_tensor_batch = nt, meta_info = meta\<rparr>"
  "\<forall>v \<in> snd ` set nt. length v = td_size td \<Longrightarrow>
     new_proto (Some td) nt meta = Inr \<lparr>batch = Some td, non_tensor_batch = nt, meta_info = meta\<rparr>"
  by (simp_all add: new_proto_def check_consistency_def check_arrays_ok)

lemma ok_itemsD:
  "ok_items n items \<Longrightarrow> v \<in> snd ` set items \<Longrightarrow> length v = n"
  "ok_items n items \<Longrightarrow> distinct (map fst items)"
  by (auto simp: ok_items_def)

lemma ok_items_pick [simp]: "ok_items n items \<Longrightarrow> ok_items (length ps) (map_items (pick_rows ps) items)"
  by (auto simp: ok_items_def)

lemma dlen_rows_at: "ok_proto d \<Longrightarrow> dlen (rows_at ps d) = length ps"
  by (auto simp: dlen_def rows_at_def ok_proto_def split: option.splits list.splits)

lemma ok_rows_at: "ok_proto d \<Longrightarrow> ok_proto (rows_at ps d)"
  using dlen_rows_at [of d ps] by (auto simp: ok_proto_def) (auto simp: rows_at_def)

lemma rows_at_rows_at:
  assumes "\<forall>q \<in> set qs. q < length ps"
  shows "rows_at qs (rows_at ps d) = rows_at (map ((!) ps) qs) d"
  using assms by (auto simp: rows_at_def option.map_comp comp_def pick_pick intro!: map_items_cong option.map_cong)

lemma rows_at_all:
  assumes ok: "ok_proto d"
  shows "rows_at [0..<dlen d] d = d"
proof -
  have nt: "map_items (pick_rows [0..<dlen d]) (non_tensor_batch d) = non_tensor_batch d"
    using ok by (intro map_items_id) (metis ok_proto_def ok_itemsD(1) pick_rows_all)
  have "map_option (\<lambda>td. \<lparr>td_size = length [0..<dlen d], td_items = map_items (pick_rows [0..<dlen d]) (td_items td)\<rparr>) (batch d) = batch d"
  proof (cases "batch d")
    case (Some td)
    have "map_items (pick_rows [0..<td_size td]) (td_items td) = td_items td"
      using ok Some by (intro map_items_id) (metis ok_proto_def ok_itemsD(1) pick_rows_all)
    then show ?thesis using Some by (simp add: dlen_def)
  qed simp
  with nt show ?thesis by (simp add: rows_at_def)
qed

section \<open>The operations in terms of rows\<close>

lemma dslice_rows:
  assumes ok: "ok_proto d" and s: "0 < (case step of None \<Rightarrow> 1 | Some s \<Rightarrow> s)"
  shows "dslice start stop step d =
     Inr (rows_at (slice_positions start stop (case step of None \<Rightarrow> 1 | Some s \<Rightarrow> s) (dlen d)) d)"
proof -
  let ?s = "case step of None \<Rightarrow> 1 | Some s \<Rightarrow> s"
  let ?p = "\<lambda>n. slice_positions start stop ?s n"
  have rows: "map_items (slice_rows start stop ?s) items = map_items (pick_rows (?p n)) items" if "ok_items n items"
    for n and items :: "(string \<times> 'x list) list"
    using that by (intro map_items_cong) (simp add: slice_rows_def ok_itemsD(1))
  have nt: "map_items (slice_rows start stop ?s) (non_tensor_batch d) = map_items (pick_rows (?p (dlen d))) (non_tensor_batch d)"
    using ok by (intro rows) (simp add: ok_proto_def)
  show ?thesis
  proof (cases "batch d")
    case None
    then show ?thesis using s nt by (simp add: dslice_def Let_def rows_at_def)
  next
    case (Some td)
    then have td: "map_items (slice_rows start stop ?s) (td_items td) = map_items (pick_rows (?p (td_size td))) (td_items td)"
      using ok by (intro rows) (simp add: ok_proto_def)
    show ?thesis using s nt td Some by (simp add: dslice_def Let_def rows_at_def dlen_def)
  qed
qed

lemma gather_items:
  assumes "ok_items n items" and "list_all (in_bounds n) is"
  shows "map_items_result (gather (Ints is)) items = Inr (map_items (pick_rows (map (position n) is)) items)"
  using assms
proof (induction items)
  case (Cons e items)
  obtain k v where e: "e = (k, v)" by (cases e)
  have "ok_items n items" "length v = n" using Cons.prems(1) e by (auto simp: ok_items_def)
  then show ?case using Cons e by simp
qed simp

lemma select_idxs_rows:
  assumes ok: "ok_proto d" and idxs: "list_all (in_bounds (dlen d)) idxs"
  shows "select_idxs (Ints idxs) d = Inr (rows_at (map (position (dlen d)) idxs) d)"
proof -
  have nt: "map_items_result (gather (Ints idxs)) (non_tensor_batch d) =
      Inr (map_items (pick_rows (map (position (dlen d)) idxs)) (non_tensor_batch d))"
    using ok idxs by (intro gather_items) (simp_all add: ok_proto_def)
  show ?thesis
  proof (cases "batch d")
    case None
    then show ?thesis using nt by (simp add: select_idxs_def rows_at_def)
  next
    case (Some td)
    then have "map_items_result (gather (Ints idxs)) (td_items td) =
      Inr (map_items (pick_rows (map (position (dlen d)) idxs)) (td_items td))"
      using ok idxs by (intro gather_items) (simp_all add: ok_proto_def dlen_def)
    then show ?thesis using nt Some by (simp add: select_idxs_def rows_at_def)
  qed
qed

lemma reorder_rows:
  assumes ok: "ok_proto d" and b: "batch d \<noteq> None" and idxs: "list_all (in_bounds (dlen d)) idxs"
  shows "reorder idxs d = Inr (rows_at (map (position (dlen d)) idxs) d)"
proof -
  obtain td where td: "batch d = Some td" using b by auto
  have "map_items_result (gather (Ints idxs)) (non_tensor_batch d) =
      Inr (map_items (pick_rows (map (position (dlen d)) idxs)) (non_tensor_batch d))"
    using ok idxs by (intro gather_items) (simp_all add: ok_proto_def)
  moreover have "map_items_result (gather (Ints idxs)) (td_items td) =
      Inr (map_items (pick_rows (map (position (dlen d)) idxs)) (td_items td))"
    using ok idxs td by (intro gather_items) (simp_all add: ok_proto_def dlen_def)
  ultimately show ?thesis using td by (simp add: reorder_def rows_at_def)
qed

lemma repeat_rows_pick:
  "repeat_rows reps interleave xs = pick_rows (repeat_rows reps interleave [0..<length xs]) xs"
proof -
  have "repeat_rows reps interleave (map ((!) xs) [0..<length xs]) = map ((!) xs) (repeat_rows reps interleave [0..<length xs])"
    by (simp add: repeat_rows_def map_concat comp_def)
  then show ?thesis by (simp add: pick_rows_def map_nth)
qed

lemma length_repeat_rows: "length (repeat_rows reps interleave xs) = length xs * reps"
  by (simp add: repeat_rows_def length_concat comp_def sum_list_triv sum_list_replicate)

lemma drepeat_rows:
  assumes ok: "ok_proto d"
  shows "drepeat reps interleave d = Inr (rows_at (repeat_rows reps interleave [0..<dlen d]) d)"
proof -
  have rows: "map_items (repeat_rows reps interleave) items = map_items (pick_rows (repeat_rows reps interleave [0..<n])) items"
    if "ok_items n items" for n and items :: "(string \<times> 'x list) list"
    using that by (intro map_items_cong) (metis ok_itemsD(1) repeat_rows_pick)
  have nt: "map_items (repeat_rows reps interleave) (non_tensor_batch d) =
      map_items (pick_rows (repeat_rows reps interleave [0..<dlen d])) (non_tensor_batch d)"
    using ok by (intro rows) (simp add: ok_proto_def)
  show ?thesis
  proof (cases "batch d")
    case None
    then show ?thesis using nt by (simp add: drepeat_def rows_at_def)
  next
    case (Some td)
    then have "map_items (repeat_rows reps interleave) (td_items td) =
      map_items (pick_rows (repeat_rows reps interleave [0..<dlen d])) (td_items td)"
      using ok by (intro rows) (simp add: ok_proto_def dlen_def)
    then show ?thesis using nt Some
      by (simp add: drepeat_def rows_at_def length_repeat_rows dlen_def)
  qed
qed

section \<open>Concatenation\<close>

lemma push_items_step:
  assumes "distinct (map fst (done @ rest))"
  shows "push_items (map_items f rest) (map (\<lambda>(k, v). (k, g v @ [f v])) done @ map (\<lambda>(k, v). (k, g v)) rest)
     = Inr (map (\<lambda>(k, v). (k, g v @ [f v])) (done @ rest))"
  using assms
proof (induction rest arbitrary: "done")
  case (Cons e rest)
  obtain k v where e: "e = (k, v)" by (cases e)
  let ?done = "map (\<lambda>(k, v). (k, g v @ [f v])) done" and ?rest = "map (\<lambda>(k, v). (k, g v)) rest"
  have k: "k \<notin> fst ` set done" "k \<notin> fst ` set rest" using Cons.prems e by auto
  have notin: "k \<notin> fst ` set ?done" using k by (force simp: split_def)
  have "map_of (?done @ (k, g v) # ?rest) k = Some (g v)"
    using notin by (simp add: map_add_Some_iff map_of_eq_None_iff [THEN iffD2])
  moreover have "dict_set k w (?done @ (k, g v) # ?rest) = ?done @ (k, w) # ?rest" for w
    using notin by (induction "done") (auto split: prod.splits)
  ultimately show ?case using Cons.IH [of "done @ [e]"] Cons.prems e by simp
qed simp

lemma push_items_all:
  assumes "distinct (map fst nt)"
  shows "for_each push_items (map (\<lambda>f. map_items f nt) fs) (map (\<lambda>(k, v). (k, g v)) nt)
     = Inr (map (\<lambda>(k, v). (k, g v @ map (\<lambda>f. f v) fs)) nt)"
proof (induction fs arbitrary: g)
  case (Cons f fs)
  have "push_items (map_items f nt) (map (\<lambda>(k, v). (k, g v)) nt) = Inr (map (\<lambda>(k, v). (k, g v @ [f v])) nt)"
    using push_items_step [of "[]" nt f g] assms by simp
  then show ?case using Cons.IH [of "\<lambda>v. g v @ [f v]"] by simp
qed simp

lemma init_items: "map (\<lambda>(k, _). (k, [])) (map_items f nt) = map (\<lambda>(k, v). (k, [])) nt"
  by (simp add: map_items_def split_def)

lemma list_of_dict_items:
  assumes "distinct (map fst nt)" and "fs \<noteq> []"
  shows "list_of_dict_to_dict_of_list (map (\<lambda>f. map_items f nt) fs) = Inr (map (\<lambda>(k, v). (k, map (\<lambda>f. f v) fs)) nt)"
proof -
  obtain f fs' where fs: "fs = f # fs'" using assms(2) by (cases fs) auto
  then show ?thesis
    using push_items_all [OF assms(1), of fs "\<lambda>_. []"] by (simp add: list_of_dict_to_dict_of_list_def init_items)
qed

lemma cat_items_rows:
  assumes "ok_items n items" and "(k, v) \<in> set items"
  shows "cat_items (map (\<lambda>ps. Some \<lparr>td_size = length ps, td_items = map_items (pick_rows ps) items\<rparr>) pss) k
     = Inr (pick_rows (concat pss) v)"
proof -
  have "map_of (map_items f items) k = Some (f v)" for f :: "'a list \<Rightarrow> 'a list"
  proof (rule map_of_is_SomeI)
    show "distinct (map fst (map_items f items))" using assms(1) by (simp add: ok_items_def)
    show "(k, f v) \<in> set (map_items f items)" using assms(2) by (force simp: map_items_def)
  qed
  then show ?thesis by (induction pss) (simp_all add: pick_rows_def)
qed

lemma cat_size_rows:
  "cat_size (length items) (map (\<lambda>ps. Some \<lparr>td_size = length ps, td_items = map_items (pick_rows ps) items\<rparr>) pss)
     = Inr (length (concat pss))"
  by (induction pss) simp_all

lemma cat_keys_rows:
  assumes "ok_items n items" and "set part \<subseteq> set items"
  shows "cat_keys (map (\<lambda>ps. Some \<lparr>td_size = length ps, td_items = map_items (pick_rows ps) items\<rparr>) pss) (map fst part)
     = Inr (map_items (pick_rows (concat pss)) part)"
  using assms(2)
proof (induction part)
  case (Cons e part)
  obtain k v where e: "e = (k, v)" by (cases e)
  then show ?case using Cons cat_items_rows [OF assms(1), of k v pss] by simp
qed simp

lemma torch_cat_rows:
  assumes "ok_items n items" and "pss \<noteq> []"
  shows "torch_cat (map (\<lambda>ps. Some \<lparr>td_size = length ps, td_items = map_items (pick_rows ps) items\<rparr>) pss)
     = Inr \<lparr>td_size = length (concat pss), td_items = map_items (pick_rows (concat pss)) items\<rparr>"
proof -
  obtain ps pss' where pss: "pss = ps # pss'" using assms(2) by (cases pss) auto
  show ?thesis
    using cat_size_rows [of items pss] cat_keys_rows [OF assms(1) order_refl, of pss]
    by (simp add: torch_cat_def pss)
qed

lemma merge_meta_new:
  assumes "distinct (map fst (acc @ meta))" and "''metrics'' \<notin> fst ` set meta"
  shows "merge_meta meta (acc, ms) = Inr (acc @ meta, ms)"
  using assms
proof (induction meta arbitrary: acc)
  case (Cons e meta)
  obtain k v where e: "e = (k, v)" by (cases e)
  have k: "k \<notin> fst ` set acc" "k \<noteq> ''metrics''" using Cons.prems e by auto
  then have "dict_set k v acc = acc @ [(k, v)]" by (induction k v acc rule: dict_set.induct) auto
  then show ?case using Cons.IH [of "acc @ [e]"] Cons.prems e k by (simp add: map_of_eq_None_iff [THEN iffD2])
qed simp

lemma merge_meta_same:
  assumes "distinct (map fst all)" and "set meta \<subseteq> set all" and "''metrics'' \<notin> fst ` set meta"
  shows "merge_meta meta (all, ms) = Inr (all, ms)"
  using assms(2,3)
proof (induction meta)
  case (Cons e meta)
  obtain k v where e: "e = (k, v)" by (cases e)
  have "map_of all k = Some v" "k \<noteq> ''metrics''" using assms(1) Cons.prems e by (auto simp: map_of_is_SomeI)
  then show ?case using Cons e by (simp add: passert_def)
qed simp

lemma merge_meta_all:
  assumes "distinct (map fst meta)" and "''metrics'' \<notin> fst ` set meta" and "ds \<noteq> []"
    and "\<And>d. d \<in> set ds \<Longrightarrow> meta_info d = meta"
  shows "for_each (\<lambda>d. merge_meta (meta_info d)) ds ([], []) = Inr (meta, [])"
proof -
  obtain d ds' where ds: "ds = d # ds'" using assms(3) by (cases ds) auto
  have "for_each (\<lambda>d. merge_meta (meta_info d)) es (meta, []) = Inr (meta, [])" if "set es \<subseteq> set ds" for es
    using that by (induction es) (simp_all add: assms merge_meta_same)
  from this [of ds'] have "for_each (\<lambda>d. merge_meta (meta_info d)) ds' (meta, []) = Inr (meta, [])" by (auto simp: ds)
  moreover have "meta_info d = meta" by (rule assms(4)) (simp add: ds)
  ultimately show ?thesis using merge_meta_new [of "[]" meta "[]"] assms(1,2) by (simp add: ds)
qed

lemma map_concat_items:
  "map (\<lambda>(k, parts). (k, concat parts)) (map (\<lambda>(k, v). (k, map (\<lambda>f. f v) (map pick_rows pss))) items)
     = map_items (pick_rows (concat pss)) items"
  by (simp add: map_items_def split_def comp_def pick_rows_concat)

lemma dconcat_nonempty:
  "ds \<noteq> [] \<Longrightarrow> dconcat ds =
     rbind (if batch (hd ds) = None then Inr None else rbind (torch_cat (map batch ds)) (\<lambda>td. Inr (Some td))) (\<lambda>b.
     rbind (list_of_dict_to_dict_of_list (map non_tensor_batch ds)) (\<lambda>arrays.
     rbind (for_each (\<lambda>d. merge_meta (meta_info d)) ds ([], [])) (\<lambda>(merged, metrics).
     rbind (flatten_metrics metrics merged) (\<lambda>meta.
       new_proto b (map (\<lambda>(k, parts). (k, concat parts)) arrays) meta))))"
  by (cases ds) (simp_all add: dconcat_def)

lemma dconcat_rows:
  assumes ok: "ok_proto d" and m: "''metrics'' \<notin> fst ` set (meta_info d)" and ne: "pss \<noteq> []"
  shows "dconcat (map (\<lambda>ps. rows_at ps d) pss) = Inr (rows_at (concat pss) d)"
proof -
  let ?ds = "map (\<lambda>ps. rows_at ps d) pss"
  have dist: "distinct (map fst (non_tensor_batch d))" using ok by (simp add: ok_proto_def ok_items_def)
  have nt: "list_of_dict_to_dict_of_list (map non_tensor_batch ?ds)
      = Inr (map (\<lambda>(k, v). (k, map (\<lambda>f. f v) (map pick_rows pss))) (non_tensor_batch d))"
    using list_of_dict_items [OF dist, of "map pick_rows pss"] ne by (simp add: rows_at_def comp_def)
  have meta: "for_each (\<lambda>d. merge_meta (meta_info d)) ?ds ([], []) = Inr (meta_info d, [])"
    using ok m ne by (intro merge_meta_all) (auto simp: ok_proto_def rows_at_def)
  have hd: "batch (hd ?ds) = None \<longleftrightarrow> batch d = None" using ne by (cases pss) (simp_all add: rows_at_def)
  have "?ds \<noteq> []" using ne by simp
  note eq = dconcat_nonempty [OF this]
  show ?thesis
  proof (cases "batch d")
    case None
    then show ?thesis
      unfolding eq nt meta by (simp only: hd map_concat_items rbind_Inr prod.case)
        (simp add: flatten_metrics_def rows_at_def)
  next
    case (Some td)
    then have "ok_items (td_size td) (td_items td)" using ok by (simp add: ok_proto_def)
    from torch_cat_rows [OF this ne] have td: "torch_cat (map batch ?ds)
        = Inr \<lparr>td_size = length (concat pss), td_items = map_items (pick_rows (concat pss)) (td_items td)\<rparr>"
      using Some by (simp add: rows_at_def comp_def)
    show ?thesis
      unfolding eq nt meta td by (simp only: hd map_concat_items rbind_Inr prod.case)
        (simp add: flatten_metrics_def rows_at_def Some)
  qed
qed

section \<open>Positions\<close>

lemma concat_blocks: "concat (map (\<lambda>i. [i * m..<Suc i * m]) [0..<c]) = [0..<c * m]"
proof (induction c)
  case (Suc c)
  have "[0..<c * m] @ [c * m..<Suc c * m] = [0..<Suc c * m]" using upt_add_eq_append [of 0 "c * m" m] by (simp add: add.commute)
  then show ?case using Suc by simp
qed simp

lemma cut_sizes_even: "0 < m \<Longrightarrow> cut_sizes (j * m) m = replicate j m"
proof (induction j)
  case (Suc j)
  then show ?case by (subst cut_sizes.simps) simp
qed (simp add: cut_sizes.simps)

lemma even_chunks:
  assumes "0 < c" and "0 < n" and "c dvd n"
  shows "chunk_sizes n c = replicate c (n div c)" and "array_split_sizes n c = replicate c (n div c)"
proof -
  obtain m where n: "n = c * m" using assms(3) by blast
  then have m: "0 < m" using assms by auto
  have "(c * m + c - 1) div c = m"
  proof -
    have "c * m + c - 1 = (c - 1) + m * c" using assms(1) by (simp add: mult.commute)
    then have "(c * m + c - 1) div c = m + (c - 1) div c" using assms(1) by (metis div_mult_self1 less_numeral_extra(3))
    then show ?thesis using assms(1) by simp
  qed
  then show "chunk_sizes n c = replicate c (n div c)"
    using cut_sizes_even [OF m, of c] assms by (simp add: chunk_sizes_def n mult.commute)
  show "array_split_sizes n c = replicate c (n div c)" using assms by (simp add: array_split_sizes_def)
qed

lemma cut_at_even:
  "i < c \<Longrightarrow> length xs = c * m \<Longrightarrow> cut_at (replicate c m) xs ! i = pick_rows [i * m..<Suc i * m] xs"
proof (induction c arbitrary: i xs)
  case (Suc c)
  have pick: "pick_rows [a..<a + m] xs = take m (drop a xs)" if "a + m \<le> length xs" for a
    using that by (auto simp: pick_rows_def intro!: nth_equalityI)
  have bound: "i * m + m \<le> length xs" using Suc.prems mult_le_mono1 [of "Suc i" "Suc c" m] by (simp add: add.commute)
  show ?case
  proof (cases c)
    case 0
    then show ?thesis using Suc.prems pick [of 0] by simp
  next
    case (Suc c')
    then have cut: "cut_at (replicate (Suc c) m) xs = take m xs # cut_at (replicate c m) (drop m xs)" by simp
    show ?thesis
    proof (cases i)
      case 0
      then show ?thesis using cut pick [of 0] bound by (simp del: replicate_Suc)
    next
      case (Suc j)
      have "cut_at (replicate c m) (drop m xs) ! j = pick_rows [j * m..<Suc j * m] (drop m xs)"
        using Suc.prems Suc by (intro Suc.IH) auto
      also have "\<dots> = pick_rows [i * m..<Suc i * m] xs"
        using bound Suc by (auto simp: pick_rows_def intro!: nth_equalityI) (simp add: add.commute add.left_commute)
      finally show ?thesis using cut Suc by (simp del: replicate_Suc)
    qed
  qed
qed simp

lemma map_all_Inr: "(\<And>x. x \<in> set xs \<Longrightarrow> f x = Inr (g x)) \<Longrightarrow> map_all f xs = Inr (map g xs)"
  by (induction xs) auto

lemma chunk_rows:
  assumes ok: "ok_proto d" and c: "0 < c" "0 < dlen d" "c dvd dlen d"
  shows "chunk_proto global c d
    = Inr (map (\<lambda>i. rows_at [i * (dlen d div c)..<Suc i * (dlen d div c)] d) [0..<c])"
proof -
  let ?m = "dlen d div c"
  let ?g = "\<lambda>i. rows_at [i * ?m..<Suc i * ?m] d"
  have len: "c * ?m = dlen d" using c by simp
  have nt: "map_items (\<lambda>xs. cut_at (replicate c ?m) xs ! i) items = map_items (pick_rows [i * ?m..<Suc i * ?m]) items"
    if "i < c" "ok_items (dlen d) items" for i and items :: "(string \<times> 'x list) list"
    using that len by (intro map_items_cong cut_at_even) (simp_all add: ok_itemsD(1))
  have mod: "dlen d mod c = 0" using c by simp
  show ?thesis
  proof (cases "batch d")
    case None
    have "map_items (\<lambda>xs. cut_at (array_split_sizes (length xs) c) xs ! i) (non_tensor_batch d)
      = map_items (\<lambda>xs. cut_at (replicate c ?m) xs ! i) (non_tensor_batch d)" for i
    proof (rule map_items_cong)
      fix v assume "v \<in> snd ` set (non_tensor_batch d)"
      then have "length v = dlen d" using ok ok_itemsD(1) unfolding ok_proto_def by blast
      then show "cut_at (array_split_sizes (length v) c) v ! i = cut_at (replicate c ?m) v ! i"
        by (simp add: even_chunks(2) [OF c])
    qed
    then have "nth_proto d (replicate c 0) i = Inr (?g i)" if "i < c" for i
      using that ok None nt [OF that, of "non_tensor_batch d"] by (simp add: nth_proto_def rows_at_def ok_proto_def)
    then have "map_all (nth_proto d (replicate c 0)) [0..<c] = Inr (map ?g [0..<c])" by (intro map_all_Inr) simp
    then show ?thesis using None c mod by (simp add: chunk_proto_def passert_def)
  next
    case (Some td)
    then have td: "td_size td = dlen d" "ok_items (dlen d) (td_items td)"
      using ok by (simp_all add: dlen_def ok_proto_def)
    have "nth_proto d (replicate c ?m) i = Inr (?g i)" if "i < c" for i
      using that ok Some nt [OF that, of "non_tensor_batch d"] nt [OF that td(2)] td by (simp add: nth_proto_def rows_at_def ok_proto_def del: mult_Suc) simp
    then have "map_all (nth_proto d (replicate c ?m)) [0..<c] = Inr (map ?g [0..<c])" by (intro map_all_Inr) simp
    then show ?thesis using Some c mod even_chunks(1) [OF c] td by (simp add: chunk_proto_def passert_def)
  qed
qed

lemma slice_prefix: "k \<le> n \<Longrightarrow> slice_positions None (Some (int k)) 1 n = [0..<k]"
  by (simp add: slice_positions_def py_range_def adjust_def comp_def map_idI)

lemma slice_drop_last: "0 < r \<Longrightarrow> r \<le> n \<Longrightarrow> slice_positions None (Some (- int r)) 1 n = [0..<n - r]"
  by (simp add: slice_positions_def py_range_def adjust_def comp_def of_nat_diff [symmetric] map_idI del: of_nat_diff)

lemma pad_positions: "0 < n \<Longrightarrow> concat (map (\<lambda>k. [0..<k]) (pad_sizes n r)) = map (\<lambda>i. i mod n) [0..<r]"
proof (induction n r rule: pad_sizes.induct)
  case (1 n r)
  show ?case
  proof (cases "r \<le> n")
    case True
    have "map (\<lambda>i. i mod n) [0..<r] = [0..<r]" using True by (intro map_idI) simp
    then show ?thesis using True "1.prems" by (subst pad_sizes.simps) (simp add: pad_sizes.simps [of n 0])
  next
    case False
    then have r: "r = n + (r - n)" by simp
    have "map (\<lambda>i. i mod n) [0..<r] = map (\<lambda>i. i mod n) [0..<n] @ map (\<lambda>i. i mod n) [n..<r]"
      using upt_add_eq_append [of 0 n "r - n"] r by simp
    also have "map (\<lambda>i. i mod n) [0..<n] = [0..<n]" by (intro map_idI) simp
    also have "map (\<lambda>i. i mod n) [n..<r] = map (\<lambda>i. i mod n) [0..<r - n]"
    proof -
      have "[n..<r] = map (\<lambda>i. i + n) [0..<r - n]" using map_add_upt [of n "r - n"] False by simp
      then show ?thesis by simp
    qed
    finally show ?thesis using 1 False by (subst pad_sizes.simps) (simp add: min_def)
  qed
qed

lemma pad_sizes_le: "k \<in> set (pad_sizes n r) \<Longrightarrow> k \<le> n"
proof (induction n r rule: pad_sizes.induct)
  case (1 n r)
  then show ?case by (subst (asm) pad_sizes.simps) (auto split: if_splits)
qed

lemma pad_rows:
  assumes ok: "ok_proto d" and m: "''metrics'' \<notin> fst ` set (meta_info d)" and k: "0 < k" and r: "dlen d mod k \<noteq> 0"
  shows "pad_dataproto_to_divisor k d =
     Inr (rows_at (map (\<lambda>i. i mod dlen d) [0..<dlen d + (k - dlen d mod k)]) d, k - dlen d mod k)"
proof -
  let ?n = "dlen d" and ?r = "k - dlen d mod k"
  have n: "0 < ?n" using r by (cases "?n") auto
  have "dslice None (Some (int j)) None d = Inr (rows_at [0..<j] d)" if "j \<in> set (pad_sizes ?n ?r)" for j
    using dslice_rows [OF ok, of None None "Some (int j)"] slice_prefix [OF pad_sizes_le [OF that]] by simp
  then have parts: "map_all (\<lambda>n. dslice None (Some (int n)) None d) (pad_sizes ?n ?r)
      = Inr (map (\<lambda>j. rows_at [0..<j] d) (pad_sizes ?n ?r))" by (rule map_all_Inr)
  have "d # map (\<lambda>j. rows_at [0..<j] d) (pad_sizes ?n ?r)
      = map (\<lambda>ps. rows_at ps d) ([0..<?n] # map (\<lambda>j. [0..<j]) (pad_sizes ?n ?r))"
    using rows_at_all [OF ok] by simp
  then have "dconcat (d # map (\<lambda>j. rows_at [0..<j] d) (pad_sizes ?n ?r))
      = Inr (rows_at ([0..<?n] @ map (\<lambda>i. i mod ?n) [0..<?r]) d)"
    using dconcat_rows [OF ok m, of "[0..<?n] # map (\<lambda>j. [0..<j]) (pad_sizes ?n ?r)"] pad_positions [OF n, of ?r] by (simp add: comp_def)
  moreover have "[0..<?n] @ map (\<lambda>i. i mod ?n) [0..<?r] = map (\<lambda>i. i mod ?n) [0..<?n + ?r]"
  proof -
    have "[?n..<?n + ?r] = map (\<lambda>i. i + ?n) [0..<?r]" using map_add_upt [of ?n ?r] by (simp add: add.commute)
    then have "map (\<lambda>i. i mod ?n) [?n..<?n + ?r] = map (\<lambda>i. i mod ?n) [0..<?r]" by simp
    moreover have "map (\<lambda>i. i mod ?n) [0..<?n] = [0..<?n]" by (intro map_idI) simp
    ultimately show ?thesis using upt_add_eq_append [of 0 ?n ?r] by simp
  qed
  ultimately show ?thesis using k r parts by (simp add: pad_dataproto_to_divisor_def Let_def)
qed

section \<open>Round trips\<close>

lemma unpad_rows:
  assumes "ok_proto p" and "dlen p = n + r" and "0 < r"
  shows "unpad_dataproto r p = Inr (rows_at [0..<n] p)"
  using assms dslice_rows [OF assms(1), of None None "Some (- int r)"] slice_drop_last [of r "n + r"]
  by (simp add: unpad_dataproto_def)

text \<open>C7: Padding to a multiple of the divisor repeats the rows from the start, adds fewer rows than the divisor,
  and unpadding gives the original container back (whose meta information has no metrics).\<close>

theorem pad_unpad:
  assumes ok: "ok_proto d" and m: "''metrics'' \<notin> fst ` set (meta_info d)" and k: "0 < k"
  shows "\<exists>p r. pad_dataproto_to_divisor k d = Inr (p, r) \<and> k dvd dlen p \<and> dlen p = dlen d + r \<and> r < k
     \<and> p = rows_at (map (\<lambda>i. i mod dlen d) [0..<dlen p]) d \<and> unpad_dataproto r p = Inr d"
proof (cases "dlen d mod k = 0")
  case True
  have "map (\<lambda>i. i mod dlen d) [0..<dlen d] = [0..<dlen d]" by (intro map_idI) simp
  then show ?thesis using True k rows_at_all [OF ok] by (auto simp: pad_dataproto_to_divisor_def unpad_dataproto_def)
next
  case False
  let ?n = "dlen d" and ?r = "k - dlen d mod k"
  let ?p = "rows_at (map (\<lambda>i. i mod ?n) [0..<?n + ?r]) d"
  have r: "0 < ?r" "?r < k" using False k by (auto simp: mod_less_divisor diff_less)
  have len: "dlen ?p = ?n + ?r" by (simp add: dlen_rows_at [OF ok])
  have "k dvd ?n + ?r"
  proof -
    have "?n + ?r = ?n div k * k + k"
      using k mod_less_divisor [OF k, of ?n] div_mult_mod_eq [of ?n k] by linarith
    then show ?thesis by simp
  qed
  moreover have "unpad_dataproto ?r ?p = Inr d"
  proof -
    have "unpad_dataproto ?r ?p = Inr (rows_at [0..<?n] ?p)"
      by (rule unpad_rows [OF ok_rows_at [OF ok] len r(1)])
    also have "rows_at [0..<?n] ?p = rows_at (map ((!) (map (\<lambda>i. i mod ?n) [0..<?n + ?r])) [0..<?n]) d"
      by (rule rows_at_rows_at) simp
    also have "map ((!) (map (\<lambda>i. i mod ?n) [0..<?n + ?r])) [0..<?n] = [0..<?n]" by (intro map_idI) simp
    finally show ?thesis using rows_at_all [OF ok] by simp
  qed
  ultimately show ?thesis using pad_rows [OF ok m k False] r len by (intro exI conjI) simp_all
qed

definition sample_proto :: "(nat, string) data_proto" where
  "sample_proto = \<lparr>batch = Some \<lparr>td_size = 3, td_items = [(''ids'', [10, 20, 30])]\<rparr>,
     non_tensor_batch = [(''uid'', [''a'', ''b'', ''a''])], meta_info = [(''temperature'', PFloat 1)]\<rparr>"

lemma ok_sample: "ok_proto sample_proto"
  by (simp add: ok_proto_def sample_proto_def ok_items_def dlen_def)

lemma pad_unpad_witness:
  "\<exists>p. pad_dataproto_to_divisor 4 sample_proto = Inr (p, 1) \<and> dlen p = 4 \<and> unpad_dataproto 1 p = Inr sample_proto"
proof -
  have m: "''metrics'' \<notin> fst ` set (meta_info sample_proto)" by (simp add: sample_proto_def)
  have n: "dlen sample_proto = 3" by (simp add: sample_proto_def dlen_def)
  obtain p r where p: "pad_dataproto_to_divisor 4 sample_proto = Inr (p, r)" "4 dvd dlen p" "dlen p = 3 + r" "r < 4"
      "unpad_dataproto r p = Inr sample_proto"
    using pad_unpad [OF ok_sample m, of 4] n by auto
  then have "4 dvd 3 + r" by simp
  with \<open>r < 4\<close> have "r = 1" by presburger
  with p show ?thesis by auto
qed

text \<open>C8: For a well-formed container that is not empty and has no entry \<open>metrics\<close> in its meta information: when the number of
  rows is a multiple of the number of chunks, chunking returns that many containers of equal length, and
  concatenating them gives the original back, whether or not padding is enabled. (With such an entry \<open>concat\<close>
  collects the metrics of the parts in lists, so the meta information differs.)\<close>

theorem chunk_concat:
  assumes ok: "ok_proto d" and m: "''metrics'' \<notin> fst ` set (meta_info d)"
    and c: "0 < c" "0 < dlen d" "c dvd dlen d"
  shows "\<exists>parts. chunk_proto global c d = Inr parts \<and> length parts = c
     \<and> (\<forall>p \<in> set parts. ok_proto p \<and> dlen p = dlen d div c) \<and> dconcat parts = Inr d"
proof -
  let ?m = "dlen d div c"
  let ?parts = "map (\<lambda>i. rows_at [i * ?m..<Suc i * ?m] d) [0..<c]"
  have eq: "?parts = map (\<lambda>ps. rows_at ps d) (map (\<lambda>i. [i * ?m..<Suc i * ?m]) [0..<c])" by simp
  have "dconcat ?parts = Inr (rows_at (concat (map (\<lambda>i. [i * ?m..<Suc i * ?m]) [0..<c])) d)"
    unfolding eq using c by (intro dconcat_rows [OF ok m]) simp
  also have "concat (map (\<lambda>i. [i * ?m..<Suc i * ?m]) [0..<c]) = [0..<dlen d]"
    using concat_blocks [of ?m c] c by simp
  finally have "dconcat ?parts = Inr d" using rows_at_all [OF ok] by simp
  moreover have "\<forall>p \<in> set ?parts. ok_proto p \<and> dlen p = ?m"
    by (auto simp: ok_rows_at [OF ok] dlen_rows_at [OF ok])
  moreover have "length ?parts = c" by simp
  ultimately show ?thesis using chunk_rows [OF ok c, of global] by blast
qed

lemma chunk_concat_witness:
  "\<exists>a b c. chunk_proto False 3 sample_proto = Inr [a, b, c] \<and> dlen b = 1 \<and> dconcat [a, b, c] = Inr sample_proto"
proof -
  have m: "''metrics'' \<notin> fst ` set (meta_info sample_proto)" by (simp add: sample_proto_def)
  have n: "dlen sample_proto = 3" by (simp add: sample_proto_def dlen_def)
  from chunk_concat [OF ok_sample m, of 3 False] n obtain parts where p: "chunk_proto False 3 sample_proto = Inr parts"
      "length parts = 3" "\<forall>p \<in> set parts. dlen p = 1" "dconcat parts = Inr sample_proto" by auto
  then obtain a b c where "parts = [a, b, c]" by (auto simp: length_Suc_conv numeral_3_eq_3)
  with p show ?thesis by auto
qed

text \<open>Reordering a container by the concatenated micro-batch indices and then by \<open>get_reverse_idx\<close> of them
  restores every tensor and array.\<close>

theorem reorder_then_reverse:
  assumes ok: "ok_proto d" and b: "batch d \<noteq> None" and idx: "mset idx = mset [0..<dlen d]"
  shows "\<exists>e r. reorder (map int idx) d = Inr e \<and> dlen e = dlen d \<and> get_reverse_idx idx = Inr r
     \<and> reorder (map int r) e = Inr d"
proof -
  let ?e = "rows_at idx d"
  obtain r where r: "get_reverse_idx idx = Inr r" "length r = dlen d"
      "\<forall>j < dlen d. r ! j < dlen d \<and> idx ! (r ! j) = j"
    using get_reverse_idx_inverse [OF idx] by blast
  have len: "length idx = dlen d" using idx by (metis length_upt minus_nat.diff_0 size_mset)
  have set: "set idx = {0..<dlen d}" using idx by (metis set_mset_mset set_upt)
  have r_in: "\<forall>q \<in> set r. q < dlen d" using r by (auto simp: in_set_conv_nth)
  have pos: "map (position n \<circ> int) xs = xs" for n xs by (induction xs) (simp_all add: position_def)
  have "reorder (map int idx) d = Inr ?e"
    using reorder_rows [OF ok b, of "map int idx"] set by (simp add: list_all_iff in_bounds_def pos)
  moreover have "reorder (map int r) ?e = Inr (rows_at r ?e)"
    using reorder_rows [OF ok_rows_at [OF ok], of idx "map int r"] r_in b len
    by (simp add: list_all_iff in_bounds_def pos dlen_rows_at [OF ok]) (simp add: rows_at_def)
  moreover have "rows_at r ?e = d"
  proof -
    have "map ((!) idx) r = [0..<dlen d]" using r by (intro nth_equalityI) simp_all
    then show ?thesis using rows_at_rows_at [of r idx d] r_in len rows_at_all [OF ok] by simp
  qed
  ultimately show ?thesis using r(1) len dlen_rows_at [OF ok] by auto
qed

lemma reorder_then_reverse_witness:
  "\<exists>e r. reorder [2, 0, 1] sample_proto = Inr e \<and> get_reverse_idx [2, 0, 1] = Inr r
     \<and> reorder (map int r) e = Inr sample_proto"
proof -
  have "batch sample_proto \<noteq> None" "mset [2, 0, 1] = mset [0..<dlen sample_proto]"
    by (simp_all add: sample_proto_def dlen_def numeral_3_eq_3)
  from reorder_then_reverse [OF ok_sample this] show ?thesis by auto
qed

text \<open>\<open>repeat\<close> with interleaving makes row \<open>i\<close> of the result a copy of row \<open>i div k\<close>, without
  interleaving of row \<open>i mod n\<close>.\<close>

theorem repeat_positions:
  assumes ok: "ok_proto d"
  shows "drepeat k interleave d = Inr (rows_at
    (map (\<lambda>i. if interleave then i div k else i mod dlen d) [0..<dlen d * k]) d)"
proof -
  have i: "concat (map (replicate k) [0..<n]) = map (\<lambda>i. i div k) [0..<n * k]" for n
  proof (induction n)
    case (Suc n)
    have "map (\<lambda>i. i div k) [n * k..<n * k + k] = replicate k n"
      by (auto intro!: replicate_eqI div_nat_eqI simp: mult.commute)
    then show ?case using Suc upt_add_eq_append [of 0 "n * k" k] by (simp add: add.commute)
  qed simp
  have j: "concat (replicate k [0..<n]) = map (\<lambda>i. i mod n) [0..<n * k]" for n
  proof (induction k)
    case (Suc k)
    have "map (\<lambda>i. i mod n) [n * k..<n * k + n] = [0..<n]"
      by (intro nth_equalityI) simp_all
    then show ?case
      using Suc upt_add_eq_append [of 0 "n * k" n] by (simp add: add.commute replicate_append_same [symmetric] del: replicate_append_same)
  qed simp
  show ?thesis using drepeat_rows [OF ok, of k interleave] i [of "dlen d"] j [of "dlen d"]
    by (cases interleave) (simp_all add: repeat_rows_def)
qed

lemma repeat_positions_witness:
  "drepeat 2 True sample_proto = Inr (rows_at [0, 0, 1, 1, 2, 2] sample_proto)
   \<and> drepeat 2 False sample_proto = Inr (rows_at [0, 1, 2, 0, 1, 2] sample_proto)"
proof -
  have "map (\<lambda>i. if True then i div 2 else i mod dlen sample_proto) [0..<dlen sample_proto * 2] = [0, 0, 1, 1, 2, 2]"
    and "map (\<lambda>i. if False then i div 2 else i mod dlen sample_proto) [0..<dlen sample_proto * 2] = [0, 1, 2, 0, 1, 2]"
    by code_simp+
  then show ?thesis using repeat_positions [OF ok_sample, of 2 True] repeat_positions [OF ok_sample, of 2 False]
    by (simp only:)
qed

section \<open>Popping and union\<close>

lemma pop_keys_lookup:
  "pop_keys keys items out = Inr (out', rest) \<Longrightarrow>
     map_of out' k = (if k \<in> set keys then map_of items k else map_of out k)
     \<and> map_of rest k = (if k \<in> set keys then None else map_of items k)"
proof (induction keys items out rule: pop_keys.induct)
  case (2 key keys items out)
  then obtain v where v: "map_of items key = Some v" by (cases "map_of items key") auto
  then have IH: "map_of out' k = (if k \<in> set keys then map_of (dict_del key items) k else map_of (dict_set key v out) k)
     \<and> map_of rest k = (if k \<in> set keys then None else map_of (dict_del key items) k)" using 2 by simp
  have "key \<notin> set keys"
  proof
    assume "key \<in> set keys"
    then have "pop_keys keys (dict_del key items) out2 \<noteq> Inr p" for out2 p
      using map_of_dict_del [of key items key]
    proof (induction keys "dict_del key items" out2 arbitrary: items rule: pop_keys.induct)
      case (2 key' keys out2)
      show ?case
      proof (cases "key' = key")
        case True
        then show ?thesis using 2(3) by simp
      next
        case False
        have "dict_del key' (dict_del key items) = dict_del key (dict_del key' items)"
          by (simp add: dict_del_def conj_commute split_def)
        moreover have "key \<in> set keys" using 2(2) False by simp
        ultimately show ?thesis using 2(1) [of _ "dict_del key' items"] map_of_dict_del [of key "dict_del key' items" key]
          by (auto split: option.splits)
      qed
    qed simp
    then show False using 2(2) v by simp
  qed
  then show ?case using IH v by (auto simp: map_of_dict_set map_of_dict_del)
qed simp

lemma pop_keys_distinct:
  "pop_keys keys items out = Inr (out', rest) \<Longrightarrow> distinct (map fst out) \<Longrightarrow> distinct (map fst out')"
  by (induction keys items out rule: pop_keys.induct) (auto simp: distinct_dict_set split: option.splits)

lemma pop_keys_found:
  "pop_keys keys items out = Inr (out', rest) \<Longrightarrow> k \<in> set keys \<Longrightarrow> map_of items k \<noteq> None"
  by (induction keys items out rule: pop_keys.induct) (auto simp: map_of_dict_del split: option.splits if_splits)

text \<open>The three loops of \<open>union\<close> on disjoint keys, given by how one key is added.\<close>

lemma union_disjoint:
  fixes F :: "(string \<times> 'v) list \<Rightarrow> (string \<times> 'v) list \<Rightarrow> (string \<times> 'v) list result"
  assumes nil: "\<And>items. F items [] = Inr items"
    and cons: "\<And>items k v rest. map_of items k = None \<Longrightarrow> F items ((k, v) # rest) = F (ins k v items) rest"
    and ins: "\<And>items k v. map_of items k = None \<Longrightarrow> map_of (ins k v items) = (map_of items)(k \<mapsto> v)"
    and rest: "distinct (map fst rest)" "\<And>k. k \<in> fst ` set rest \<Longrightarrow> map_of items k = None"
  shows "\<exists>u. F items rest = Inr u \<and> map_of u = map_of items ++ map_of rest"
  using rest
proof (induction rest arbitrary: items)
  case (Cons e rest)
  obtain k v where e: "e = (k, v)" by (cases e)
  have none: "map_of items k = None" "k \<notin> dom (map_of rest)"
    using Cons.prems e by (auto simp: dom_map_of_conv_image_fst)
  have "map_of (ins k v items) j = None" if "j \<in> fst ` set rest" for j
    using that Cons.prems e ins [OF none(1), of v] by auto
  then obtain u where "F (ins k v items) rest = Inr u" "map_of u = map_of (ins k v items) ++ map_of rest"
    using Cons.IH [of "ins k v items"] Cons.prems(1) by auto
  then show ?case using e cons [OF none(1)] ins [OF none(1)] none(2)
    by (auto simp: fun_eq_iff map_add_def split: option.splits)
qed (simp add: nil)

lemma map_of_append_new: "map_of items k = None \<Longrightarrow> map_of (items @ [(k, v)]) = (map_of items)(k \<mapsto> v)"
  by (auto simp: fun_eq_iff map_add_def split: option.splits)

lemma map_of_dict_set_upd: "map_of (dict_set k v items) = (map_of items)(k \<mapsto> v)"
  by (auto simp: map_of_dict_set)

lemma union_tensors_disjoint:
  "distinct (map fst rest) \<Longrightarrow> (\<And>k. k \<in> fst ` set rest \<Longrightarrow> map_of items k = None) \<Longrightarrow>
    \<exists>u. union_tensors items rest = Inr u \<and> map_of u = map_of items ++ map_of rest"
  by (rule union_disjoint [where ins = "\<lambda>k v items. items @ [(k, v)]"])
    (simp_all add: map_of_append_new del: map_of_append)

lemma union_numpy_disjoint:
  "distinct (map fst rest) \<Longrightarrow> (\<And>k. k \<in> fst ` set rest \<Longrightarrow> map_of items k = None) \<Longrightarrow>
    \<exists>u. union_numpy_dict items rest = Inr u \<and> map_of u = map_of items ++ map_of rest"
  by (rule union_disjoint [where ins = dict_set]) (simp_all add: map_of_dict_set_upd passert_def)

lemma union_two_disjoint:
  "distinct (map fst rest) \<Longrightarrow> (\<And>k. k \<in> fst ` set rest \<Longrightarrow> map_of items k = None) \<Longrightarrow>
    \<exists>u. union_two_dict items rest = Inr u \<and> map_of u = map_of items ++ map_of rest"
  by (rule union_disjoint [where ins = dict_set]) (simp_all add: map_of_dict_set_upd passert_def)

lemma pop_restores:
  assumes "pop_keys keys items [] = Inr (out, rest)"
  shows "map_of rest ++ map_of out = map_of items"
    and "distinct (map fst out)" and "\<And>k. k \<in> fst ` set out \<Longrightarrow> map_of rest k = None"
proof -
  note l = pop_keys_lookup [OF assms]
  show "map_of rest ++ map_of out = map_of items"
    using l pop_keys_found [OF assms] by (auto simp: map_add_def fun_eq_iff split: option.splits)
  show "distinct (map fst out)" using pop_keys_distinct [OF assms] by simp
  show "map_of rest k = None" if "k \<in> fst ` set out" for k
    using that l [of k] by (auto simp: map_of_eq_None_iff split: if_splits)
qed

text \<open>Popping keys out of a container and joining the two parts again with \<open>union\<close> succeeds and restores the
  batch size and the value of every key, in the batch, the arrays and the meta information.\<close>

theorem pop_then_union:
  assumes ok: "ok_proto d" and td: "batch d = Some td" and ne: "batch_keys \<noteq> []"
    and pop: "pop_proto batch_keys non_tensor_keys meta_keys d = Inr (p, r)"
  shows "\<exists>u td'. union_proto r p = Inr u \<and> batch u = Some td' \<and> td_size td' = td_size td
    \<and> map_of (td_items td') = map_of (td_items td)
    \<and> map_of (non_tensor_batch u) = map_of (non_tensor_batch d) \<and> map_of (meta_info u) = map_of (meta_info d)"
proof -
  from pop td obtain ts rest nts nt ms mrest where t: "pop_keys batch_keys (td_items td) [] = Inr (ts, rest)"
    and n: "pop_keys non_tensor_keys (non_tensor_batch d) [] = Inr (nts, nt)"
    and m: "pop_keys meta_keys (meta_info d) [] = Inr (ms, mrest)"
    and p: "from_dict ts nts ms False = Inr p"
    and r: "r = \<lparr>batch = Some (td\<lparr>td_items := rest\<rparr>), non_tensor_batch = nt, meta_info = mrest\<rparr>"
    by (auto simp: pop_proto_def rbind_eq_Inr)
  obtain key keys where keys: "batch_keys = key # keys" using ne by (cases batch_keys) auto
  have "map_of ts key = map_of (td_items td) key" "map_of (td_items td) key \<noteq> None"
    using pop_keys_lookup [OF t, of key] pop_keys_found [OF t, of key] by (simp_all add: keys)
  then obtain pivot v ts' where ts: "ts = (pivot, v) # ts'" by (cases ts) auto
  have "pivot \<in> set batch_keys"
    using pop_keys_lookup [OF t, of pivot] ts by (auto split: if_splits)
  then have "(pivot, v) \<in> set (td_items td)" using pop_keys_lookup [OF t, of pivot] ts by (auto intro: map_of_SomeD)
  then have len: "length v = td_size td" using ok td by (force simp: ok_proto_def ok_items_def)
  have p': "p = \<lparr>batch = Some \<lparr>td_size = length v, td_items = ts\<rparr>, non_tensor_batch = nts, meta_info = ms\<rparr>"
    using p ts by (auto simp: from_dict_def rbind_eq_Inr new_proto_def Let_def)
  obtain us where us: "union_tensors rest ts = Inr us" "map_of us = map_of (td_items td)"
    using union_tensors_disjoint [OF pop_restores(2) [OF t] pop_restores(3) [OF t]] pop_restores(1) [OF t] by auto
  obtain ns where ns: "union_numpy_dict nt nts = Inr ns" "map_of ns = map_of (non_tensor_batch d)"
    using union_numpy_disjoint [OF pop_restores(2) [OF n] pop_restores(3) [OF n]] pop_restores(1) [OF n] by auto
  obtain mu where mu: "union_two_dict mrest ms = Inr mu" "map_of mu = map_of (meta_info d)"
    using union_two_disjoint [OF pop_restores(2) [OF m] pop_restores(3) [OF m]] pop_restores(1) [OF m] by auto
  show ?thesis using us ns mu len
    by (simp add: union_proto_def union_tensor_dict_def r p' passert_def)
qed

lemma pop_then_union_witness:
  "\<exists>p r u td'. pop_proto [''ids''] [''uid''] [] sample_proto = Inr (p, r) \<and> union_proto r p = Inr u
     \<and> batch u = Some td' \<and> td_size td' = 3 \<and> map_of (td_items td') = map_of [(''ids'', [10, 20, 30])]"
proof -
  have "\<not> isl (pop_proto [''ids''] [''uid''] [] sample_proto)" by code_simp
  then obtain p r where pr: "pop_proto [''ids''] [''uid''] [] sample_proto = Inr (p, r)"
    by (cases "pop_proto [''ids''] [''uid''] [] sample_proto") auto
  have b: "batch sample_proto = Some \<lparr>td_size = 3, td_items = [(''ids'', [10, 20, 30])]\<rparr>" by (simp add: sample_proto_def)
  from pop_then_union [OF ok_sample b _ pr] pr show ?thesis by auto
qed

section \<open>What padding and chunking do not keep\<close>

text \<open>Padding a container with metrics collects them once per part, and with automatic padding enabled
  \<open>chunk\<close> fails when \<open>ceil(n / chunks)\<close> rows per part use up the rows before the last part.\<close>

theorem padding_and_chunk_limits:
  "rbind (pad_dataproto_to_divisor 2 (sample_proto\<lparr>meta_info := [(''metrics'', PDict [(''loss'', PInt 1)])]\<rparr>))
     (\<lambda>(p, r). rbind (unpad_dataproto r p) (\<lambda>d. Inr (meta_info d)))
   = Inr [(''metrics'', PDict [(''loss'', PList [PInt 1, PInt 1])])]
   \<and> chunk_proto True 4 (\<lparr>batch = Some \<lparr>td_size = 5, td_items = [(''ids'', [1, 2, 3, 4, 5])]\<rparr>,
       non_tensor_batch = [], meta_info = []\<rparr> :: (nat, string) data_proto) = Inl (IndexError ''list index out of range'')"
  by (intro conjI) code_simp+

end
