(* ===== verification/DispatchFacts.thy ===== *)
theory DispatchFacts
  imports Dispatch DataProtoFacts
begin

text \<open>
  Calls on a worker group compared with local calls: for methods that work by rows the distributed call, with its
  padding, splitting and joining, returns what one worker returns on the whole arguments.
\<close>

section \<open>Splitting selects rows\<close>

lemma padding_rows:
  assumes ok: "ok_proto d" and m: "''metrics'' \<notin> fst ` set (meta_info d)" and n: "0 < dlen d"
  shows "DataProto.padding p [] d = Inr (rows_at ([0..<dlen d] @ replicate p (dlen d - 1)) d)"
proof (cases "p = 0")
  case True
  then show ?thesis using rows_at_all [OF ok] by (simp add: padding_def)
next
  case False
  let ?last = "rows_at [dlen d - 1] d"
  have "select_idxs (Ints [int (dlen d) - 1]) d = Inr ?last"
    using select_idxs_rows [OF ok, of "[int (dlen d) - 1]"] n by (simp add: in_bounds_def position_def nat_diff_distrib)
  moreover have "drepeat p True ?last = Inr (rows_at (replicate p (dlen d - 1)) d)"
  proof -
    have "repeat_rows p True [0..<1] = replicate p 0" by (simp add: repeat_rows_def)
    then show ?thesis
      using drepeat_rows [OF ok_rows_at [OF ok], of p True "[dlen d - 1]"] dlen_rows_at [OF ok, of "[dlen d - 1]"]
      by (simp add: rows_at_rows_at)
  qed
  moreover have "dconcat [d, rows_at (replicate p (dlen d - 1)) d] = Inr (rows_at ([0..<dlen d] @ replicate p (dlen d - 1)) d)"
    using dconcat_rows [OF ok m, of "[[0..<dlen d], replicate p (dlen d - 1)]"] rows_at_all [OF ok] by simp
  ultimately show ?thesis using False by (simp add: padding_def rows_at_def)
qed

text \<open>The rows every worker gets: the positions, the last one repeated, in equal parts.\<close>

definition pad_size :: "nat \<Rightarrow> nat \<Rightarrow> nat" where
  "pad_size k n = (if 0 < n mod k then k - n mod k else 0)"

definition padded_positions :: "nat \<Rightarrow> nat \<Rightarrow> nat list" where
  "padded_positions k n = [0..<n] @ replicate (pad_size k n) (n - 1)"

definition part :: "nat \<Rightarrow> 'b list \<Rightarrow> nat \<Rightarrow> 'b list" where
  "part k ps i = map ((!) ps) [i * (length ps div k)..<Suc i * (length ps div k)]"

lemma padded_length:
  assumes "0 < k"
  shows "length (padded_positions k n) = n + pad_size k n" and "k dvd n + pad_size k n"
proof -
  show "length (padded_positions k n) = n + pad_size k n" by (simp add: padded_positions_def)
  have "(n + (k - n mod k)) mod k = (n mod k + (k - n mod k)) mod k" by (simp add: mod_add_left_eq)
  also have "\<dots> = 0" using assms by (simp add: mod_less_divisor less_imp_le)
  finally show "k dvd n + pad_size k n" by (auto simp: pad_size_def dvd_eq_mod_eq_0)
qed

lemma padded_in_range: "0 < n \<Longrightarrow> q \<in> set (padded_positions k n) \<Longrightarrow> q < n"
  by (auto simp: padded_positions_def)

lemma part_bound: "i < k \<Longrightarrow> k dvd length ps \<Longrightarrow> Suc i * (length ps div k) \<le> length ps"
  by (metis Suc_leI dvd_mult_div_cancel mult.commute mult_le_mono1)

lemma part_in_range: "i < k \<Longrightarrow> k dvd length ps \<Longrightarrow> set (part k ps i) \<subseteq> set ps"
  using part_bound [of i k ps] by (auto simp: part_def)

lemma concat_parts: "0 < k \<Longrightarrow> k dvd length ps \<Longrightarrow> concat (map (part k ps) [0..<k]) = ps"
proof -
  assume k: "0 < k" "k dvd length ps"
  have "concat (map (part k ps) [0..<k]) = map ((!) ps) (concat (map (\<lambda>i. [i * (length ps div k)..<Suc i * (length ps div k)]) [0..<k]))"
    by (simp add: part_def [abs_def] map_concat comp_def)
  also have "\<dots> = map ((!) ps) [0..<length ps]" using concat_blocks [of "length ps div k" k] k by simp
  finally show ?thesis by (simp add: map_nth)
qed

lemma chunk_positions:
  assumes ok: "ok_proto d" and k: "0 < k" "ps \<noteq> []" "k dvd length ps"
  shows "chunk_proto global k (rows_at ps d) = Inr (map (\<lambda>i. rows_at (part k ps i) d) [0..<k])"
proof -
  have len: "dlen (rows_at ps d) = length ps" by (rule dlen_rows_at [OF ok])
  have "rows_at [i * (length ps div k)..<Suc i * (length ps div k)] (rows_at ps d) = rows_at (part k ps i) d"
    if "i < k" for i
  proof -
    have "\<forall>q \<in> set [i * (length ps div k)..<Suc i * (length ps div k)]. q < length ps"
      using part_bound [OF that k(3)] by auto
    from rows_at_rows_at [OF this] show ?thesis by (simp add: part_def)
  qed
  then show ?thesis using chunk_rows [OF ok_rows_at [OF ok], of k ps global] k by (simp add: len)
qed

definition dispatchable :: "bool \<Rightarrow> nat \<Rightarrow> nat \<Rightarrow> ('r, 'a) data_proto \<Rightarrow> bool" where
  "dispatchable global k n d \<longleftrightarrow> ok_proto d \<and> ''metrics'' \<notin> fst ` set (meta_info d) \<and> dlen d = n
     \<and> (is_padding_enabled global d \<or> k dvd n)"

lemma padding_and_split_rows:
  assumes d: "dispatchable global k n d" and k: "0 < k" "0 < n" and seen: "seen \<in> {None, Some (n, pad_size k n)}"
  shows "\<exists>seen' \<in> {None, Some (n, pad_size k n)}. padding_and_split global k seen d
     = Inr (map (\<lambda>i. rows_at (part k (padded_positions k n) i) d) [0..<k], rows_at (padded_positions k n) d, seen')
     \<and> (pad_size k n \<noteq> 0 \<or> seen \<noteq> None \<longrightarrow> seen' \<noteq> None)"
proof -
  let ?ps = "padded_positions k n"
  have ok: "ok_proto d" and m: "''metrics'' \<notin> fst ` set (meta_info d)" and len: "dlen d = n"
    and en: "is_padding_enabled global d \<or> k dvd n"
    using d by (auto simp: dispatchable_def)
  have ps: "?ps \<noteq> []" "k dvd length ?ps" using k padded_length [OF k(1), of n] by (auto simp: padded_positions_def)
  note parts = chunk_positions [OF ok k(1) ps]
  show ?thesis
  proof (cases "is_padding_enabled global d")
    case True
    have "DataProto.padding (pad_size k n) [] d = Inr (rows_at ?ps d)"
      using padding_rows [OF ok m, of "pad_size k n"] k len by (simp add: padded_positions_def)
    then show ?thesis
      using True k seen len parts
      by (intro bexI [of _ "Some (n, pad_size k n)"]) (auto simp: padding_and_split_def pad_size_def passert_def)
  next
    case False
    then have z: "pad_size k n = 0" using en by (simp add: pad_size_def)
    then have "?ps = [0..<n]" by (simp add: padded_positions_def)
    then have "rows_at ?ps d = d" using rows_at_all [OF ok] len by simp
    then show ?thesis
      using False parts [of global] z seen by (intro bexI [of _ seen]) (auto simp: padding_and_split_def)
  qed
qed

lemma split_all_rows:
  assumes "\<forall>d \<in> set ds. dispatchable global k n d" and k: "0 < k" "0 < n" and "seen \<in> {None, Some (n, pad_size k n)}"
  shows "\<exists>seen' \<in> {None, Some (n, pad_size k n)}. split_all global k seen ds
     = Inr (map (\<lambda>d. map (\<lambda>i. rows_at (part k (padded_positions k n) i) d) [0..<k]) ds,
            map (rows_at (padded_positions k n)) ds, seen')
     \<and> (seen \<noteq> None \<or> pad_size k n \<noteq> 0 \<and> ds \<noteq> [] \<longrightarrow> seen' \<noteq> None)"
  using assms(1,4)
proof (induction ds arbitrary: seen)
  case (Cons d ds)
  from Cons.prems(1) have "dispatchable global k n d" by simp
  from padding_and_split_rows [OF this k Cons.prems(2)]
  obtain s1 where s1: "s1 \<in> {None, Some (n, pad_size k n)}" "padding_and_split global k seen d
      = Inr (map (\<lambda>i. rows_at (part k (padded_positions k n) i) d) [0..<k], rows_at (padded_positions k n) d, s1)"
      "pad_size k n \<noteq> 0 \<or> seen \<noteq> None \<longrightarrow> s1 \<noteq> None" by blast
  from Cons.IH [OF _ s1(1)] Cons.prems(1)
  obtain s2 where s2: "s2 \<in> {None, Some (n, pad_size k n)}" "split_all global k s1 ds
     = Inr (map (\<lambda>d. map (\<lambda>i. rows_at (part k (padded_positions k n) i) d) [0..<k]) ds,
            map (rows_at (padded_positions k n)) ds, s2)"
      "s1 \<noteq> None \<or> pad_size k n \<noteq> 0 \<and> ds \<noteq> [] \<longrightarrow> s2 \<noteq> None" by auto
  then show ?case using s1 by (intro bexI [OF _ s2(1)]) auto
qed auto

section \<open>A distributed call is the local call\<close>

text \<open>
  A method works by rows with result \<open>e\<close>: on any rows of the arguments every worker returns the same rows of \<open>e\<close>.
  With all rows, \<open>e\<close> is what one worker returns for the whole arguments.
\<close>

definition row_method ::
    "nat \<Rightarrow> nat \<Rightarrow> (('r, 'a) data_proto, ('q, 'b) data_proto) remote_method \<Rightarrow> ('r, 'a) data_proto list
     \<Rightarrow> (string \<times> ('r, 'a) data_proto) list \<Rightarrow> ('q, 'b) data_proto \<Rightarrow> bool" where
  "row_method k n f args kwargs e \<longleftrightarrow>
     (\<forall>i < k. \<forall>ps. set ps \<subseteq> {..<n} \<longrightarrow>
        f i (map (\<lambda>d. Item (rows_at ps d)) args) (map (\<lambda>(key, d). (key, Item (rows_at ps d))) kwargs) = Inr (rows_at ps e))"

lemma execute_rows:
  assumes f: "row_method k n f args kwargs e" and P: "\<And>i. i < k \<Longrightarrow> set (P i) \<subseteq> {..<n}"
  shows "execute_all k f (map (\<lambda>d. map (\<lambda>i. rows_at (P i) d) [0..<k]) args)
      (map (\<lambda>(key, d). (key, map (\<lambda>i. rows_at (P i) d) [0..<k])) kwargs) = Inr (map (\<lambda>i. rows_at (P i) e) [0..<k])"
proof -
  have "f i (map (\<lambda>arg. Item (arg ! i)) (map (\<lambda>d. map (\<lambda>i. rows_at (P i) d) [0..<k]) args))
      (map (\<lambda>(key, v). (key, Item (v ! i))) (map (\<lambda>(key, d). (key, map (\<lambda>i. rows_at (P i) d) [0..<k])) kwargs))
      = Inr (rows_at (P i) e)" if "i \<in> set [0..<k]" for i
    using f P [of i] that by (simp add: row_method_def comp_def split_def)
  then show ?thesis by (simp only: execute_all_def map_all_Inr) (auto simp: list_all_iff intro!: map_all_Inr)
qed

lemma zip_keys: "zip (map fst kwargs) (map f (map snd kwargs)) = map (\<lambda>(key, d). (key, f d)) kwargs"
  by (induction kwargs) auto

lemma strip_rows:
  assumes ok: "ok_proto e" and n: "dlen e = n" "0 < n" and k: "0 < k"
  shows "strip_padding (pad_size k n) (rows_at (padded_positions k n) e) = Inr e"
proof (cases "pad_size k n = 0")
  case True
  then show ?thesis using rows_at_all [OF ok] n by (simp add: strip_padding_def padded_positions_def)
next
  case False
  have idx: "map (position (n + pad_size k n)) (map int [0..<n]) = [0..<n]" by (simp add: position_def comp_def map_idI)
  have "select_idxs (Ints (map int [0..<n])) (rows_at (padded_positions k n) e) = Inr (rows_at [0..<n] (rows_at (padded_positions k n) e))"
    using select_idxs_rows [OF ok_rows_at [OF ok], of "padded_positions k n" "map int [0..<n]"] idx padded_length(1) [OF k, of n]
    by (simp add: dlen_rows_at [OF ok] list_all_iff in_bounds_def del: map_map)
  also have "rows_at [0..<n] (rows_at (padded_positions k n) e) = rows_at [0..<n] e"
  proof -
    have "map ((!) (padded_positions k n)) [0..<n] = [0..<n]" by (intro map_idI) (simp add: padded_positions_def nth_append)
    then show ?thesis using padded_length(1) [OF k, of n] by (subst rows_at_rows_at) auto
  qed
  finally show ?thesis using False rows_at_all [OF ok] n padded_length(1) [OF k, of n]
    by (simp add: strip_padding_def dlen_rows_at [OF ok])
qed

lemma dispatch_rows:
  assumes d: "\<forall>d \<in> set args \<union> snd ` set kwargs. dispatchable global k n d" and k: "0 < k" "0 < n"
    and ne: "args \<noteq> [] \<or> kwargs \<noteq> []"
  shows "\<exists>pad. dispatch_dp_compute_data_proto global k args kwargs
      = Inr (map (\<lambda>d. map (\<lambda>i. rows_at (part k (padded_positions k n) i) d) [0..<k]) args,
             map (\<lambda>(key, d). (key, map (\<lambda>i. rows_at (part k (padded_positions k n) i) d) [0..<k])) kwargs, pad,
             map (rows_at (padded_positions k n)) args, map (\<lambda>(key, d). (key, rows_at (padded_positions k n) d)) kwargs)
     \<and> (case pad of None \<Rightarrow> 0 | Some p \<Rightarrow> p) = pad_size k n"
proof -
  have "\<forall>d \<in> set args. dispatchable global k n d" "\<forall>d \<in> set (map snd kwargs). dispatchable global k n d" using d by auto
  note args = this(1) and vals = this(2)
  from split_all_rows [OF args k, of None]
  obtain s1 where s1: "s1 \<in> {None, Some (n, pad_size k n)}" "split_all global k None args
      = Inr (map (\<lambda>d. map (\<lambda>i. rows_at (part k (padded_positions k n) i) d) [0..<k]) args,
             map (rows_at (padded_positions k n)) args, s1)" "pad_size k n \<noteq> 0 \<and> args \<noteq> [] \<longrightarrow> s1 \<noteq> None" by blast
  from split_all_rows [OF vals k s1(1)]
  obtain s2 where s2: "s2 \<in> {None, Some (n, pad_size k n)}" "split_all global k s1 (map snd kwargs)
      = Inr (map (\<lambda>d. map (\<lambda>i. rows_at (part k (padded_positions k n) i) d) [0..<k]) (map snd kwargs),
             map (rows_at (padded_positions k n)) (map snd kwargs), s2)"
      "s1 \<noteq> None \<or> pad_size k n \<noteq> 0 \<and> map snd kwargs \<noteq> [] \<longrightarrow> s2 \<noteq> None" by blast
  have "(case map_option snd s2 of None \<Rightarrow> 0 | Some p \<Rightarrow> p) = pad_size k n" using s1(1,3) s2(1,3) ne by auto
  then show ?thesis
    unfolding dispatch_dp_compute_data_proto_def s1(2) rbind_Inr prod.case s2(2) zip_keys by blast
qed

text \<open>C5: A call in mode \<open>DP_COMPUTE_PROTO\<close> of a method that works by rows returns what one worker returns for the
  whole arguments, for any number of workers: splitting, padding, joining and unpadding cancel. The arguments are
  well-formed containers of the same positive number of rows, which the number of workers divides unless padding
  is enabled, and neither they nor the result carry metrics. The arguments keep the padding.\<close>

theorem distributed_call_is_local:
  assumes d: "\<forall>d \<in> set args \<union> snd ` set kwargs. dispatchable global k n d" and k: "0 < k" "0 < n"
    and ne: "args \<noteq> [] \<or> kwargs \<noteq> []" and e: "ok_proto e" "''metrics'' \<notin> fst ` set (meta_info e)" "dlen e = n"
    and f: "row_method k n f args kwargs e"
  shows "call_dp_compute_proto global k f args kwargs
    = Inr (e, map (rows_at (padded_positions k n)) args, map (\<lambda>(key, d). (key, rows_at (padded_positions k n) d)) kwargs)"
proof -
  let ?P = "padded_positions k n"
  have P: "k dvd length ?P" using padded_length [OF k(1), of n] by simp
  have range: "set (part k ?P i) \<subseteq> {..<n}" if "i < k" for i
    using part_in_range [OF that P] padded_in_range [OF k(2)] by blast
  have outs: "execute_all k f (map (\<lambda>d. map (\<lambda>i. rows_at (part k ?P i) d) [0..<k]) args)
      (map (\<lambda>(key, d). (key, map (\<lambda>i. rows_at (part k ?P i) d) [0..<k])) kwargs)
      = Inr (map (\<lambda>i. rows_at (part k ?P i) e) [0..<k])"
    by (rule execute_rows [OF f]) (rule range)
  have "dconcat (map (\<lambda>ps. rows_at ps e) (map (part k ?P) [0..<k])) = Inr (rows_at ?P e)"
    using dconcat_rows [OF e(1,2), of "map (part k ?P) [0..<k]"] concat_parts [OF k(1) P] k by simp
  then have joined: "collect_dp_compute_data_proto k (map (\<lambda>i. rows_at (part k ?P i) e) [0..<k]) = Inr (rows_at ?P e)"
    using k by (simp add: collect_dp_compute_data_proto_def collect_dp_compute_def passert_def comp_def)
  obtain pad where disp: "dispatch_dp_compute_data_proto global k args kwargs
      = Inr (map (\<lambda>d. map (\<lambda>i. rows_at (part k ?P i) d) [0..<k]) args,
             map (\<lambda>(key, d). (key, map (\<lambda>i. rows_at (part k ?P i) d) [0..<k])) kwargs, pad,
             map (rows_at ?P) args, map (\<lambda>(key, d). (key, rows_at ?P d)) kwargs)"
      "(case pad of None \<Rightarrow> 0 | Some p \<Rightarrow> p) = pad_size k n"
    using dispatch_rows [OF d k ne] by blast
  show ?thesis
    unfolding call_dp_compute_proto_def disp(1) rbind_Inr prod.case outs joined disp(2)
    using strip_rows [OF e(1,3) k(2,1)] by simp
qed

section \<open>Meshes\<close>

lemma split_rows:
  assumes d: "\<forall>d \<in> set args \<union> snd ` set kwargs. ok_proto d \<and> dlen d = n" and k: "0 < k" "0 < n" "k dvd n"
  shows "split_args_kwargs_data_proto global k args kwargs
    = Inr (map (\<lambda>d. map (\<lambda>i. rows_at (part k [0..<n] i) d) [0..<k]) args,
           map (\<lambda>(key, d). (key, map (\<lambda>i. rows_at (part k [0..<n] i) d) [0..<k])) kwargs)"
proof -
  have parts: "chunk_proto global k d = Inr (map (\<lambda>i. rows_at (part k [0..<n] i) d) [0..<k])" if "ok_proto d" "dlen d = n" for d :: "('a, 'b) data_proto"
    using chunk_positions [OF that(1) k(1), of "[0..<n]" global] rows_at_all [OF that(1)] k that(2) by simp
  have 1: "map_all (\<lambda>d. rbind (chunk_proto global k d) (\<lambda>parts. passert (length parts = k) [] (Inr parts))) args
      = Inr (map (\<lambda>d. map (\<lambda>i. rows_at (part k [0..<n] i) d) [0..<k]) args)"
    using d by (intro map_all_Inr) (simp add: parts passert_def)
  have "map_all (\<lambda>(key, d). rbind (chunk_proto global k d) (\<lambda>parts. passert (length parts = k) [] (Inr (key, parts)))) kwargs
      = Inr (map (\<lambda>(key, d). (key, map (\<lambda>i. rows_at (part k [0..<n] i) d) [0..<k])) kwargs)"
  proof (intro map_all_Inr)
    fix x assume x: "x \<in> set kwargs"
    obtain key d where xd: "x = (key, d)" by (cases x)
    with x d have "ok_proto d" "dlen d = n" by force+
    then show "(case x of (key, d) \<Rightarrow> rbind (chunk_proto global k d) (\<lambda>parts. passert (length parts = k) [] (Inr (key, parts))))
        = Inr (case x of (key, d) \<Rightarrow> (key, map (\<lambda>i. rows_at (part k [0..<n] i) d) [0..<k]))"
      by (simp add: xd parts passert_def)
  qed
  with 1 show ?thesis by (simp add: split_args_kwargs_data_proto_def)
qed

lemma pick_ranks_parts:
  assumes "\<forall>r \<in> set mapping. r < k"
  shows "pick_ranks mapping k (length mapping) (map g [0..<k]) = Inr (map (\<lambda>i. g (mapping ! i)) [0..<length mapping])"
proof -
  have "map (\<lambda>r. map g [0..<k] ! r) mapping = map (\<lambda>i. g (mapping ! i)) [0..<length mapping]"
    using assms by (intro nth_equalityI) simp_all
  moreover have "list_all (\<lambda>r. r < k) mapping" using assms by (simp add: list_all_iff)
  ultimately show ?thesis by (simp add: pick_ranks_def passert_def)
qed

lemma dispatch_nd_rows:
  assumes m: "\<forall>r \<in> set mapping. r < k" and ne: "args \<noteq> []"
  shows "dispatch_nd_compute mapping k (length mapping) (map (\<lambda>d. map (h d) [0..<k]) args) (map (\<lambda>(key, d). (key, map (h d) [0..<k])) kwargs)
    = Inr (map (\<lambda>d. map (\<lambda>i. h d (mapping ! i)) [0..<length mapping]) args,
           map (\<lambda>(key, d). (key, map (\<lambda>i. h d (mapping ! i)) [0..<length mapping])) kwargs)"
proof -
  have 1: "map_all (pick_ranks mapping k (length mapping)) (map (\<lambda>d. map (h d) [0..<k]) args)
      = Inr (map (\<lambda>d. map (\<lambda>i. h d (mapping ! i)) [0..<length mapping]) args)"
    by (induction args) (simp_all add: pick_ranks_parts [OF m])
  have "map_all (\<lambda>(key, v). rbind (pick_ranks mapping k (length mapping) v) (\<lambda>w. Inr (key, w))) (map (\<lambda>(key, d). (key, map (h d) [0..<k])) kwargs)
      = Inr (map (\<lambda>(key, d). (key, map (\<lambda>i. h d (mapping ! i)) [0..<length mapping])) kwargs)"
    by (induction kwargs) (auto simp: pick_ranks_parts [OF m])
  with 1 ne show ?thesis by (simp add: dispatch_nd_compute_def)
qed

lemma map_all_length: "map_all f xs = Inr ys \<Longrightarrow> length ys = length xs"
  by (induction xs arbitrary: ys) (auto simp: rbind_eq_Inr)

lemma filter_zip_map: "map fst (filter snd (zip (map g xs) bs)) = map g (map fst (filter snd (zip xs bs)))"
  by (induction xs arbitrary: bs) (auto split: list.splits simp: zip_Cons1)

text \<open>A call over a mesh returns what one worker returns for the whole arguments if the workers that are
  collected have the data-parallel ranks in order, whatever the other workers of a rank do; the worker group
  remembers the ranks and the collected workers.\<close>

theorem mesh_call_is_local:
  assumes fresh: "map_of (dispatch_info g) mesh = None" "map_of (collect_info g) mesh = None"
    and ranks: "map_all (query_dispatch_info mesh) (workers g) = Inr mapping"
    and flags: "map_all (query_collect_info mesh) (workers g) = Inr flags"
    and order: "map fst (filter snd (zip mapping flags)) = [0..<k]" "\<forall>r \<in> set mapping. r < k"
    and d: "\<forall>d \<in> set args \<union> snd ` set kwargs. ok_proto d \<and> dlen d = n" and k: "0 < k" "0 < n" "k dvd n"
    and ne: "args \<noteq> []" and e: "ok_proto e" "''metrics'' \<notin> fst ` set (meta_info e)" "dlen e = n"
    and f: "row_method (world_size g) n f args kwargs e"
  shows "call_nd_compute global mesh g f args kwargs
    = Inr (e, g\<lparr>dispatch_info := dict_set mesh mapping (dispatch_info g), collect_info := dict_set mesh flags (collect_info g)\<rparr>)"
proof -
  let ?w = "length mapping" and ?h = "\<lambda>d i. rows_at (part k [0..<n] i) d"
  have w: "world_size g = ?w" using map_all_length [OF ranks] by (simp add: world_size_def)
  have flen: "length flags = ?w" using map_all_length [OF ranks] map_all_length [OF flags] by simp
  have "k - 1 \<in> set (map fst (filter snd (zip mapping flags)))" using order(1) k by simp
  then have "k - 1 \<in> set mapping" by (auto dest: set_zip_leftD)
  moreover have "Max (set mapping) = k - 1" using \<open>k - 1 \<in> set mapping\<close> order(2) by (intro Max_eqI) auto
  ultimately have dp: "mapping \<noteq> []" "Max (set mapping) + 1 = k" using k(1) by auto
  let ?args = "map (\<lambda>d. map (\<lambda>i. ?h d (mapping ! i)) [0..<?w]) args"
  let ?kwargs = "map (\<lambda>(key, d). (key, map (\<lambda>i. ?h d (mapping ! i)) [0..<?w])) kwargs"
  let ?g = "g\<lparr>dispatch_info := dict_set mesh mapping (dispatch_info g)\<rparr>"
  have "dispatch_lazy_compute_data_proto global mesh g args kwargs
      = rbind (split_args_kwargs_data_proto global k args kwargs) (\<lambda>(as, kws).
          rbind (dispatch_nd_compute mapping k ?w as kws) (\<lambda>split. Inr (split, ?g)))"
    using dp by (simp add: dispatch_lazy_compute_data_proto_def fresh ranks w)
  then have disp: "dispatch_lazy_compute_data_proto global mesh g args kwargs = Inr ((?args, ?kwargs), ?g)"
    unfolding split_rows [OF d k] rbind_Inr prod.case dispatch_nd_rows [OF order(2) ne] .
  have "set (part k [0..<n] (mapping ! i)) \<subseteq> {..<n}" if "i < ?w" for i
    using part_in_range [of "mapping ! i" k "[0..<n]"] order(2) that k(3) by auto
  then have outs: "execute_all ?w f ?args ?kwargs = Inr (map (\<lambda>i. ?h e (mapping ! i)) [0..<?w])"
    by (rule execute_rows [OF f [unfolded w]])
  have "map (\<lambda>i. ?h e (mapping ! i)) [0..<?w] = map (?h e) mapping" by (intro nth_equalityI) simp_all
  then have coll: "collect_nd_compute flags ?w (map (\<lambda>i. ?h e (mapping ! i)) [0..<?w]) = Inr (map (?h e) [0..<k])"
    using flen order(1) by (simp add: collect_nd_compute_def passert_def filter_zip_map)
  have "dconcat (map (\<lambda>ps. rows_at ps e) (map (part k [0..<n]) [0..<k])) = Inr e"
    using dconcat_rows [OF e(1,2), of "map (part k [0..<n]) [0..<k]"] concat_parts [OF k(1), of "[0..<n]"] k rows_at_all [OF e(1)] e(3)
    by simp
  then have join: "dconcat (map (?h e) [0..<k]) = Inr e" by (simp add: comp_def)
  show ?thesis
    unfolding call_nd_compute_def disp rbind_Inr prod.case w outs
    using coll join fresh flags k w dp by (simp add: collect_lazy_compute_data_proto_def passert_def map_of_dict_set world_size_def)
qed

section \<open>Examples and limits\<close>

definition echo_method :: "('d, 'd) remote_method" where
  "echo_method i args kwargs = (case args of [Item d] \<Rightarrow> Inr d | _ \<Rightarrow> Inl (TypeError ''unexpected arguments''))"

lemma echo_rows: "row_method k n echo_method [d] [] d"
  by (simp add: row_method_def echo_method_def)

lemma distributed_call_is_local_witness:
  "call_dp_compute_proto True 2 echo_method [sample_proto] [] = Inr (sample_proto, [rows_at [0, 1, 2, 2] sample_proto], [])"
proof -
  have "dispatchable True 2 3 sample_proto" using ok_sample by (simp add: dispatchable_def is_padding_enabled_def sample_proto_def dlen_def)
  moreover have "padded_positions 2 3 = [0, 1, 2, 2]" by (simp add: padded_positions_def pad_size_def upt_rec)
  ultimately show ?thesis
    using distributed_call_is_local [of "[sample_proto]" "[]" True 2 3 sample_proto echo_method] echo_rows [of 2 3 sample_proto] ok_sample
    by (simp add: dispatchable_def)
qed

text \<open>Two workers hold the same rank of a mesh of size one; only the first is collected.\<close>

definition two_workers :: worker_group where
  "two_workers = \<lparr>workers = [\<lparr>dispatch_dp_rank = [(''actor'', 0)], collect_dp_rank = [(''actor'', True)]\<rparr>,
      \<lparr>dispatch_dp_rank = [(''actor'', 0)], collect_dp_rank = [(''actor'', False)]\<rparr>], dispatch_info = [], collect_info = []\<rparr>"

lemma mesh_call_is_local_witness:
  "\<exists>g. call_nd_compute False ''actor'' two_workers echo_method [sample_proto] [] = Inr (sample_proto, g)"
proof -
  have "dlen sample_proto = 3" "''metrics'' \<notin> fst ` set (meta_info sample_proto)" by (simp_all add: sample_proto_def dlen_def)
  with mesh_call_is_local [of two_workers "''actor''" "[0, 0]" "[True, False]" 1 "[sample_proto]" "[]" 3 sample_proto echo_method False]
    ok_sample echo_rows [of "Suc (Suc 0)" 3 sample_proto] show ?thesis by (simp add: two_workers_def query_dispatch_info_def query_collect_info_def world_size_def)
qed

text \<open>
  A second call with the same arguments sees the padded rows and returns one row too many. In mode
  \<open>DP_COMPUTE_METRIC\<close> the padding size is taken off the list of the workers' outputs. A call over a mesh
  with keyword arguments only fails.
\<close>

theorem dispatch_limits:
  "rbind (call_dp_compute_proto True 2 echo_method [sample_proto] []) (\<lambda>(out, args, _).
     rbind (call_dp_compute_proto True 2 echo_method args []) (\<lambda>(out', _). Inr (dlen out, dlen out'))) = Inr (3, 4)
   \<and> call_dp_compute_metric True 4 (\<lambda>i args kwargs. Inr i) [rows_at [0, 1, 2, 0, 1] sample_proto] [] = Inr [0]
   \<and> isl (call_nd_compute False ''actor'' two_workers echo_method [] [(''data'', sample_proto)])"
  by (intro conjI; code_simp)

end
