(* ===== verification/MessageQueue.thy ===== *)
theory MessageQueue
  imports Prelude "HOL-Library.Sublist"
begin

text \<open>
  The message queue between rollouter and trainer (\<open>message_queue.py\<close> of the fully asynchronous
  trainer). The lock makes every section between two awaits atomic, so a call is one step, except
  that \<open>get_sample\<close> sleeps on the condition while the queue is empty: its consumer is then \<open>asleep\<close>,
  after a notification \<open>awake\<close>, and runs the loop again when it gets the lock. Logging and the
  estimate of the memory usage are not modelled.
\<close>

record ('s, 'v) message_queue =
  max_queue_size :: int
  queue :: "'s list"
  val_queue :: "'v list"
  running :: bool
  total_produced :: nat
  total_consumed :: nat
  dropped_samples :: nat
  asleep :: "nat list"
  awake :: "nat list"

definition message_queue_init :: "int option \<Rightarrow> ('s, 'v) message_queue result" where
  "message_queue_init size_limit =
     (case size_limit of
        None \<Rightarrow> Inl (ValueError ''max_queue_size cannot be None, got: None'')
      | Some n \<Rightarrow>
          if n < 0 then Inl (ValueError ''maxlen must be non-negative'')
          else Inr \<lparr>max_queue_size = n, queue = [], val_queue = [], running = True, total_produced = 0,
                    total_consumed = 0, dropped_samples = 0, asleep = [], awake = []\<rparr>)"

definition notify_all :: "('s, 'v) message_queue \<Rightarrow> ('s, 'v) message_queue" where
  "notify_all q = q\<lparr>asleep := [], awake := awake q @ asleep q\<rparr>"

text \<open>\<open>put_sample\<close>: a full queue loses its oldest sample; the result tells whether none was lost.\<close>

definition put_sample :: "'s \<Rightarrow> ('s, 'v) message_queue \<Rightarrow> bool result \<times> ('s, 'v) message_queue" where
  "put_sample sample q =
     (let full = max_queue_size q \<le> int (length (queue q))
      in if full \<and> queue q = [] then (Inl (IndexError ''pop from an empty deque''), q)
         else (Inr (\<not> full),
               notify_all (q\<lparr>queue := (if full then tl (queue q) else queue q) @ [sample],
                             dropped_samples := dropped_samples q + (if full then 1 else 0),
                             total_produced := total_produced q + 1\<rparr>)))"

datatype 's got = Waiting | Closed | Sample 's nat

text \<open>One pass of the loop of \<open>get_sample\<close> by a consumer.\<close>

definition get_sample :: "nat \<Rightarrow> ('s, 'v) message_queue \<Rightarrow> 's got \<times> ('s, 'v) message_queue" where
  "get_sample consumer q =
     (case queue q of
        [] \<Rightarrow> if running q then (Waiting, q\<lparr>asleep := asleep q @ [consumer]\<rparr>) else (Closed, q)
      | x # xs \<Rightarrow> (Sample x (length xs), q\<lparr>queue := xs, total_consumed := total_consumed q + 1\<rparr>))"

definition get_queue_size :: "('s, 'v) message_queue \<Rightarrow> nat" where
  "get_queue_size q = length (queue q)"

record queue_statistics =
  stat_queue_size :: nat
  stat_total_produced :: nat
  stat_total_consumed :: nat
  stat_dropped_samples :: nat
  stat_max_queue_size :: int

definition get_statistics :: "('s, 'v) message_queue \<Rightarrow> queue_statistics" where
  "get_statistics q =
     \<lparr>stat_queue_size = length (queue q), stat_total_produced = total_produced q,
      stat_total_consumed = total_consumed q, stat_dropped_samples = dropped_samples q,
      stat_max_queue_size = max_queue_size q\<rparr>"

definition clear_queue :: "('s, 'v) message_queue \<Rightarrow> ('s, 'v) message_queue" where
  "clear_queue q = q\<lparr>queue := []\<rparr>"

definition shutdown :: "('s, 'v) message_queue \<Rightarrow> ('s, 'v) message_queue" where
  "shutdown q = notify_all (q\<lparr>running := False\<rparr>)"

definition put_validate :: "'v \<Rightarrow> ('s, 'v) message_queue \<Rightarrow> ('s, 'v) message_queue" where
  "put_validate v q = q\<lparr>val_queue := val_queue q @ [v]\<rparr>"

definition get_validate :: "('s, 'v) message_queue \<Rightarrow> 'v option \<times> ('s, 'v) message_queue" where
  "get_validate q =
     (case val_queue q of [] \<Rightarrow> (None, q) | v # vs \<Rightarrow> (Some v, q\<lparr>val_queue := vs\<rparr>))"

section \<open>Interleavings\<close>

text \<open>The visible events; \<open>Get\<close> is a new call, \<open>Wake\<close> a consumer that was notified and has the lock.\<close>

datatype ('s, 'v) queue_event =
    Put 's "bool result"
  | Get nat "'s got"
  | Wake nat "'s got"
  | Clear "'s list"
  | Shutdown
  | PutValidate 'v
  | GetValidate "'v option"

inductive queue_step :: "('s, 'v) message_queue \<Rightarrow> ('s, 'v) queue_event \<Rightarrow> ('s, 'v) message_queue \<Rightarrow> bool" where
  put: "put_sample x q = (r, q') \<Longrightarrow> queue_step q (Put x r) q'"
| get: "c \<notin> set (asleep q) \<Longrightarrow> c \<notin> set (awake q) \<Longrightarrow> get_sample c q = (r, q') \<Longrightarrow> queue_step q (Get c r) q'"
| wake: "c \<in> set (awake q) \<Longrightarrow> get_sample c (q\<lparr>awake := remove1 c (awake q)\<rparr>) = (r, q') \<Longrightarrow> queue_step q (Wake c r) q'"
| clear: "queue_step q (Clear (queue q)) (clear_queue q)"
| shutdown: "queue_step q Shutdown (shutdown q)"
| put_validate: "queue_step q (PutValidate v) (put_validate v q)"
| get_validate: "get_validate q = (r, q') \<Longrightarrow> queue_step q (GetValidate r) q'"

inductive queue_run :: "('s, 'v) message_queue \<Rightarrow> ('s, 'v) queue_event list \<Rightarrow> ('s, 'v) message_queue \<Rightarrow> bool" for q0 where
  start: "queue_run q0 [] q0"
| step: "queue_run q0 es q \<Longrightarrow> queue_step q e q' \<Longrightarrow> queue_run q0 (es @ [e]) q'"

text \<open>What a history put into the queue, delivered, dropped or cleared.\<close>

definition puts :: "('s, 'v) queue_event list \<Rightarrow> 's list" where
  "puts es = concat (map (\<lambda>e. case e of Put x (Inr _) \<Rightarrow> [x] | _ \<Rightarrow> []) es)"

definition gets :: "('s, 'v) queue_event list \<Rightarrow> 's list" where
  "gets es = concat (map (\<lambda>e. case e of Get _ (Sample x _) \<Rightarrow> [x] | Wake _ (Sample x _) \<Rightarrow> [x] | _ \<Rightarrow> []) es)"

definition cleared :: "('s, 'v) queue_event list \<Rightarrow> 's list" where
  "cleared es = concat (map (\<lambda>e. case e of Clear xs \<Rightarrow> xs | _ \<Rightarrow> []) es)"

definition consumers :: "('s, 'v) message_queue \<Rightarrow> nat list" where
  "consumers q = asleep q @ awake q"

section \<open>The invariant of histories\<close>

lemma history_snoc [simp]:
  "puts (es @ [e]) = puts es @ (case e of Put x (Inr _) \<Rightarrow> [x] | _ \<Rightarrow> [])"
  "gets (es @ [e]) = gets es @ (case e of Get _ (Sample x _) \<Rightarrow> [x] | Wake _ (Sample x _) \<Rightarrow> [x] | _ \<Rightarrow> [])"
  "cleared (es @ [e]) = cleared es @ (case e of Clear xs \<Rightarrow> xs | _ \<Rightarrow> [])"
  by (simp_all add: puts_def gets_def cleared_def)

definition queue_inv :: "('s, 'v) message_queue \<Rightarrow> ('s, 'v) queue_event list \<Rightarrow> ('s, 'v) message_queue \<Rightarrow> bool" where
  "queue_inv q0 es q \<longleftrightarrow>
     max_queue_size q = max_queue_size q0 \<and> int (length (queue q)) \<le> max_queue_size q
     \<and> subseq (gets es @ queue q) (puts es)
     \<and> total_produced q = length (puts es) \<and> total_consumed q = length (gets es)
     \<and> length (puts es) = length (gets es) + dropped_samples q + length (cleared es) + length (queue q)
     \<and> distinct (consumers q) \<and> (queue q \<noteq> [] \<or> \<not> running q \<longrightarrow> asleep q = [])"

lemma put_sample_effect:
  assumes "put_sample x q = (r, q')"
  obtains "r = Inl (IndexError ''pop from an empty deque'')" "q' = q" "max_queue_size q \<le> 0"
  | "r = Inr True" "int (length (queue q)) < max_queue_size q"
    "q' = notify_all (q\<lparr>queue := queue q @ [x], total_produced := total_produced q + 1\<rparr>)"
  | y ys where "r = Inr False" "queue q = y # ys" "max_queue_size q \<le> int (length (queue q))"
    "q' = notify_all (q\<lparr>queue := ys @ [x], dropped_samples := dropped_samples q + 1,
       total_produced := total_produced q + 1\<rparr>)"
  using assms by (cases "queue q") (auto simp: put_sample_def Let_def split: if_splits)

lemma get_sample_effect:
  assumes "get_sample c q = (r, q')"
  obtains "r = Waiting" "queue q = []" "running q" "q' = q\<lparr>asleep := asleep q @ [c]\<rparr>"
  | "r = Closed" "queue q = []" "\<not> running q" "q' = q"
  | x xs where "r = Sample x (length xs)" "queue q = x # xs" "q' = q\<lparr>queue := xs, total_consumed := total_consumed q + 1\<rparr>"
  using assms by (auto simp: get_sample_def split: list.splits if_splits)

lemma subseq_snoc: "subseq (a @ b) c \<Longrightarrow> subseq (a @ b @ [x]) (c @ [x])"
  using list_emb_append_mono [of "(=)" "a @ b" c "[x]" "[x]"] by simp

lemma subseq_drop_mid: "subseq (a @ y # b) c \<Longrightarrow> subseq (a @ b) c"
proof -
  have "subseq (a @ b) (a @ y # b)" by (induction a) auto
  then show "subseq (a @ y # b) c \<Longrightarrow> subseq (a @ b) c" by (rule subseq_order.trans)
qed

text \<open>One pass of a consumer that is not asleep or awake keeps the invariant.\<close>

lemma get_keeps_inv:
  assumes inv: "queue_inv q0 es q" and c: "c \<notin> set (consumers q)" and get: "get_sample c q = (r, q')"
    and e: "puts (es @ [e]) = puts es" "cleared (es @ [e]) = cleared es"
      "gets (es @ [e]) = gets es @ (case r of Sample x _ \<Rightarrow> [x] | _ \<Rightarrow> [])"
  shows "queue_inv q0 (es @ [e]) q'"
  using get
proof (cases rule: get_sample_effect)
  case 1
  then show ?thesis using inv c e by (auto simp: queue_inv_def consumers_def)
next
  case 2
  then show ?thesis using inv e by (auto simp: queue_inv_def)
next
  case (3 x xs)
  then show ?thesis using inv e by (auto simp: queue_inv_def consumers_def)
qed

lemma notify_simps [simp]:
  "queue (notify_all q) = queue q" "max_queue_size (notify_all q) = max_queue_size q" "running (notify_all q) = running q"
  "asleep (notify_all q) = []" "total_produced (notify_all q) = total_produced q"
  "total_consumed (notify_all q) = total_consumed q" "dropped_samples (notify_all q) = dropped_samples q"
  "distinct (consumers (notify_all q)) \<longleftrightarrow> distinct (consumers q)"
  by (auto simp: notify_all_def consumers_def)

lemma queue_step_inv:
  assumes "queue_step q e q'" and inv: "queue_inv q0 es q"
  shows "queue_inv q0 (es @ [e]) q'"
  using assms(1)
proof cases
  case (put x r)
  from put(2) show ?thesis
  proof (cases rule: put_sample_effect)
    case 1
    then show ?thesis using inv put(1) by (simp add: queue_inv_def)
  next
    case 2
    have "consumers (q\<lparr>queue := queue q @ [x], total_produced := total_produced q + 1\<rparr>) = consumers q"
      by (simp add: consumers_def)
    then show ?thesis using 2 inv put(1) by (auto simp: queue_inv_def intro: subseq_snoc)
  next
    case (3 y ys)
    have "consumers (q\<lparr>queue := ys @ [x], dropped_samples := dropped_samples q + 1,
        total_produced := total_produced q + 1\<rparr>) = consumers q" by (simp add: consumers_def)
    moreover have "subseq (gets es @ ys @ [x]) (puts es @ [x])"
      using inv 3(2) subseq_drop_mid [of "gets es" y ys "puts es"] by (auto simp: queue_inv_def intro: subseq_snoc)
    ultimately show ?thesis using 3 inv put(1) by (auto simp: queue_inv_def)
  qed
next
  case (get c r)
  show ?thesis by (rule get_keeps_inv [OF inv _ get(4)]) (use get in \<open>auto simp: consumers_def split: got.splits\<close>)
next
  case (wake c r)
  let ?q = "q\<lparr>awake := remove1 c (awake q)\<rparr>"
  have "queue_inv q0 es ?q" using inv by (auto simp: queue_inv_def consumers_def)
  moreover have "c \<notin> set (consumers ?q)" using inv wake(2) by (auto simp: queue_inv_def consumers_def)
  ultimately show ?thesis
    by (rule get_keeps_inv [OF _ _ wake(3)]) (use wake in \<open>auto split: got.splits\<close>)
next
  case clear
  have "subseq (gets es) (gets es @ queue q)" by (rule list_emb_prefix) simp
  then show ?thesis using inv clear subseq_order.trans [of "gets es" "gets es @ queue q" "puts es"]
    by (auto simp: queue_inv_def clear_queue_def consumers_def)
next
  case shutdown
  have "consumers (q\<lparr>running := False\<rparr>) = consumers q" by (simp add: consumers_def)
  then show ?thesis using inv shutdown by (auto simp: queue_inv_def shutdown_def)
next
  case (put_validate v)
  then show ?thesis using inv by (auto simp: queue_inv_def put_validate_def consumers_def)
next
  case (get_validate r)
  then show ?thesis using inv by (auto simp: queue_inv_def get_validate_def consumers_def split: list.splits)
qed

lemma queue_run_inv:
  assumes "message_queue_init n = Inr q0" and "queue_run q0 es q"
  shows "queue_inv q0 es q"
  using assms(2)
proof (induction rule: queue_run.induct)
  case start
  have "q0 = \<lparr>max_queue_size = the n, queue = [], val_queue = [], running = True, total_produced = 0,
      total_consumed = 0, dropped_samples = 0, asleep = [], awake = []\<rparr>" "0 \<le> the n"
    using assms(1) by (auto simp: message_queue_init_def split: option.splits if_splits)
  then show ?case by (simp add: queue_inv_def consumers_def puts_def gets_def cleared_def)
next
  case (step es q e q')
  then show ?case by (blast intro: queue_step_inv)
qed

text \<open>C11: In every interleaving of producers and consumers the delivered samples are, in order and without
  duplicates, among the samples put; the queue never exceeds its limit; and every sample put is
  delivered, dropped, cleared or still in the queue, as the counters say.\<close>

theorem queue_is_fifo:
  assumes "message_queue_init n = Inr q0" and "queue_run q0 es q"
  shows "subseq (gets es @ queue q) (puts es) \<and> int (length (queue q)) \<le> max_queue_size q0
    \<and> total_produced q = length (puts es) \<and> total_consumed q = length (gets es)
    \<and> length (puts es) = length (gets es) + dropped_samples q + length (cleared es) + length (queue q)"
  using queue_run_inv [OF assms] by (simp add: queue_inv_def)

lemma queue_is_fifo_witness:
  "\<exists>q. queue_run \<lparr>max_queue_size = 1, queue = [], val_queue = [], running = True, total_produced = 0,
      total_consumed = 0, dropped_samples = 0, asleep = [], awake = []\<rparr>
      [Put ''a'' (Inr True), Put ''b'' (Inr False), Get 7 (Sample ''b'' 0)] (q :: (string, nat) message_queue)
    \<and> total_consumed q = 1 \<and> dropped_samples q = 1"
proof -
  let ?q0 = "\<lparr>max_queue_size = 1, queue = [], val_queue = [], running = True, total_produced = 0,
      total_consumed = 0, dropped_samples = 0, asleep = [], awake = []\<rparr> :: (string, nat) message_queue"
  let ?es = "[Put ''a'' (Inr True), Put ''b'' (Inr False), Get 7 (Sample ''b'' 0)] :: (string, nat) queue_event list"
  let ?q1 = "?q0\<lparr>queue := [''a''], total_produced := 1\<rparr>"
  let ?q2 = "?q0\<lparr>queue := [''b''], total_produced := 2, dropped_samples := 1\<rparr>"
  let ?q3 = "?q2\<lparr>queue := [], total_consumed := 1\<rparr>"
  have 1: "queue_step ?q0 (Put ''a'' (Inr True)) ?q1"
    by (rule queue_step.put) (simp add: put_sample_def notify_all_def)
  have 2: "queue_step ?q1 (Put ''b'' (Inr False)) ?q2"
    by (rule queue_step.put) (simp add: put_sample_def notify_all_def)
  have 3: "queue_step ?q2 (Get 7 (Sample ''b'' 0)) ?q3"
    by (rule queue_step.get) (simp_all add: get_sample_def)
  have run: "queue_run ?q0 ?es ?q3"
    using queue_run.step [OF queue_run.step [OF queue_run.step [OF queue_run.start 1] 2] 3] by simp
  have "message_queue_init (Some 1) = Inr ?q0" by (simp add: message_queue_init_def)
  from queue_is_fifo [OF this run] have "total_consumed ?q3 = length (gets ?es)" by (elim conjE)
  then show ?thesis using run by (intro exI [of _ ?q3]) (simp add: gets_def)
qed

section \<open>Wakeups\<close>

lemma awake_consumer_returns:
  assumes "queue q \<noteq> [] \<or> \<not> running q" and "get_sample c q = (r, q')"
  shows "r \<noteq> Waiting" and "asleep q' = asleep q" and "awake q' = awake q" and "running q' = running q"
  using assms by (auto simp: get_sample_def split: list.splits if_splits)

text \<open>C12: No wakeup is lost: a consumer sleeps only while the queue is empty and open. After a shutdown the
  consumers that were waiting all return, each in one step, without new samples being put.\<close>

theorem no_lost_wakeup:
  assumes init: "message_queue_init n = Inr q0" and run: "queue_run q0 es q"
  shows "(asleep q \<noteq> [] \<longrightarrow> queue q = [] \<and> running q)
    \<and> (\<not> running q \<longrightarrow> (\<exists>es' q'. queue_run q0 (es @ es') q' \<and> consumers q' = []
         \<and> length es' = length (consumers q) \<and> puts (es @ es') = puts es))"
proof (intro conjI impI)
  show "queue q = []" and "running q" if "asleep q \<noteq> []"
    using queue_run_inv [OF init run] that by (auto simp: queue_inv_def)
next
  assume "\<not> running q"
  with run show "\<exists>es' q'. queue_run q0 (es @ es') q' \<and> consumers q' = []
      \<and> length es' = length (consumers q) \<and> puts (es @ es') = puts es"
  proof (induction "length (awake q)" arbitrary: es q)
    case 0
    then have "consumers q = []" using queue_run_inv [OF init 0(2)] by (simp add: queue_inv_def consumers_def)
    then show ?case using 0 by (intro exI [of _ "[]"]) auto
  next
    case (Suc k)
    then obtain c cs where c: "awake q = c # cs" by (cases "awake q") auto
    let ?q = "q\<lparr>awake := remove1 c (awake q)\<rparr>"
    obtain r q' where g: "get_sample c ?q = (r, q')" by (cases "get_sample c ?q")
    have closed: "queue ?q \<noteq> [] \<or> \<not> running ?q" using Suc.prems(2) by simp
    have q': "awake q' = cs" "asleep q' = []" "\<not> running q'" "asleep q = []"
      using awake_consumer_returns [OF closed g] c Suc.prems(2) queue_run_inv [OF init Suc.prems(1)]
      by (auto simp: queue_inv_def)
    have "queue_step q (Wake c r) q'" by (rule queue_step.wake [OF _ g]) (simp add: c)
    then have run': "queue_run q0 (es @ [Wake c r]) q'" by (rule queue_run.step [OF Suc.prems(1)])
    obtain es' p where "queue_run q0 ((es @ [Wake c r]) @ es') p" "consumers p = []"
        "length es' = length (consumers q')" "puts ((es @ [Wake c r]) @ es') = puts (es @ [Wake c r])"
      using Suc.hyps(1) [OF _ run' q'(3)] Suc.hyps(2) c q'(1) by auto
    then show ?case using c q' by (intro exI [of _ "Wake c r # es'"] exI [of _ p]) (simp add: consumers_def)
  qed
qed

lemma no_lost_wakeup_witness:
  "\<exists>es' q'. queue_run \<lparr>max_queue_size = 2, queue = [], val_queue = [], running = True, total_produced = 0,
      total_consumed = 0, dropped_samples = 0, asleep = [], awake = []\<rparr>
      ([Get 7 Waiting, Shutdown] @ es') (q' :: (string, nat) message_queue) \<and> consumers q' = [] \<and> length es' = 1"
proof -
  let ?q0 = "\<lparr>max_queue_size = 2, queue = [], val_queue = [], running = True, total_produced = 0,
      total_consumed = 0, dropped_samples = 0, asleep = [], awake = []\<rparr> :: (string, nat) message_queue"
  let ?q1 = "?q0\<lparr>asleep := [7]\<rparr>" and ?q2 = "?q0\<lparr>running := False, awake := [7]\<rparr>"
  have 1: "queue_step ?q0 (Get 7 Waiting) ?q1" by (rule queue_step.get) (simp_all add: get_sample_def)
  have "shutdown ?q1 = ?q2" by (simp add: shutdown_def notify_all_def)
  then have 2: "queue_step ?q1 Shutdown ?q2" using queue_step.shutdown [of ?q1] by simp
  have run: "queue_run ?q0 [Get 7 Waiting, Shutdown] ?q2"
    using queue_run.step [OF queue_run.step [OF queue_run.start 1] 2] by simp
  have "message_queue_init (Some 2) = Inr ?q0" by (simp add: message_queue_init_def)
  from no_lost_wakeup [OF this run] show ?thesis by (auto simp: consumers_def)
qed

end
