(* ===== verification/AsyncRollout.thy ===== *)
theory AsyncRollout
  imports MessageQueue
begin

text \<open>
  The coroutines of fully asynchronous training around the message queue: the sample feed, the
  processor, the generation tasks and the monitor of the rollouter
  (\<open>fully_async_rollouter.py\<close>), and the trainer (\<open>fully_async_trainer.py\<close>). Each function is the
  code of one coroutine from one await to the next; \<open>None\<close> means that it has to wait. Interleavings
  are lists of actions. Generation itself, model updates, profiling, validation and checkpoints
  are not modelled, and generation returns.
\<close>

section \<open>State\<close>

record async_config =
  required_samples :: nat
  max_required_samples :: nat
  max_concurrent_samples :: nat
  trigger_parameter_sync_step :: nat
  test_freq :: int

text \<open>\<open>set_max_required_samples\<close>; the queue size is \<open>max_required_samples\<close> too.\<close>

definition set_max_required_samples :: "nat \<Rightarrow> rat \<Rightarrow> nat \<Rightarrow> nat \<Rightarrow> int \<Rightarrow> async_config" where
  "set_max_required_samples required staleness_threshold trigger replicas freq =
     (let limit = nat \<lfloor>of_nat required * (staleness_threshold + 1) * of_nat trigger\<rfloor>
      in \<lparr>required_samples = required, max_required_samples = limit,
          max_concurrent_samples = min (replicas * 16) limit, trigger_parameter_sync_step = trigger, test_freq = freq\<rparr>)"

text \<open>A task generates, then has its sample in the queue (whether without a loss), then is finished.\<close>

datatype task_state = Generating | Stored bool | Finished

datatype 's processor =
    Top | Asked nat | Pausing | Draining | Fetching | Holding 's | WaitingSlot 's | Ending | WaitingEnd | Ended | Gone

datatype monitor = Idle | Polled nat | Resuming

datatype 's trainer =
    Collecting "'s list" | Fitting "'s list" | Syncing bool | Counting bool nat | Stopping | Stopped | Crashed

record 's async =
  mq :: "('s option, unit) message_queue"
  feed :: "'s option list"
  pending_queue :: "'s option list"
  active_tasks :: "('s \<times> task_state) list"
  staleness_samples :: nat
  paused :: bool
  resume_event :: bool
  rollouter_running :: bool
  total_generated_samples :: nat
  dropped_stale_samples :: nat
  processed_sample_count :: nat
  processor :: "'s processor"
  monitor :: monitor
  trainer :: "'s trainer"
  local_trigger_step :: nat
  current_param_version :: nat
  trained :: "'s list list"

text \<open>The lock of the rollouter is held across an await only while it waits for a task or counts the queue.\<close>

definition locked :: "'s async \<Rightarrow> bool" where
  "locked st \<longleftrightarrow> (case processor st of WaitingSlot _ \<Rightarrow> True | WaitingEnd \<Rightarrow> True | _ \<Rightarrow> False)
     \<or> (case trainer st of Counting _ _ \<Rightarrow> True | _ \<Rightarrow> False)"

section \<open>The rollouter\<close>

text \<open>The items \<open>_feed_samples\<close> puts into the pending queue: samples up to the step limit and the end signal.\<close>

fun feed_samples :: "nat \<Rightarrow> nat \<Rightarrow> 's list \<Rightarrow> 's option list" where
  "feed_samples total_rollout_steps global_steps [] = [None]"
| "feed_samples total_rollout_steps global_steps (x # xs) =
     Some x # (if total_rollout_steps \<le> global_steps then [None]
               else feed_samples total_rollout_steps (global_steps + 1) xs)"

definition feed_step :: "'s async \<Rightarrow> 's async option" where
  "feed_step st =
     (case feed st of
        x # xs \<Rightarrow> if length (pending_queue st) < 128
                  then Some (st\<lparr>feed := xs, pending_queue := pending_queue st @ [x]\<rparr>) else None
      | [] \<Rightarrow> None)"

definition should_pause_generation :: "async_config \<Rightarrow> nat \<Rightarrow> 's async \<Rightarrow> bool" where
  "should_pause_generation cfg queue_size st \<longleftrightarrow>
     max_required_samples cfg \<le> queue_size \<or> max_required_samples cfg \<le> staleness_samples st"

definition unfinished :: "('s \<times> task_state) list \<Rightarrow> ('s \<times> task_state) list" where
  "unfinished ts = filter (\<lambda>(x, t). t \<noteq> Finished) ts"

text \<open>
  \<open>_processor_worker\<close>. It waits for pending samples, for the lock, for finished tasks or for the
  resume event. (With no place for a task at all the loop of the code would spin.) After the
  end signal and the last task it puts the end marker into the message queue.
\<close>

definition processor_step :: "async_config \<Rightarrow> 's async \<Rightarrow> 's async option" where
  "processor_step cfg st =
     (case processor st of
        Top \<Rightarrow> Some (st\<lparr>processor := if paused st then Pausing else Asked (length (queue (mq st)))\<rparr>)
      | Asked n \<Rightarrow> Some (st\<lparr>processor := if should_pause_generation cfg n st then Pausing else Fetching\<rparr>)
      | Pausing \<Rightarrow> if locked st then None
                   else Some (st\<lparr>paused := True, resume_event := False, processor := Draining\<rparr>)
      | Draining \<Rightarrow> if resume_event st then Some (st\<lparr>processor := Top\<rparr>) else None
      | Fetching \<Rightarrow>
          (case pending_queue st of
             [] \<Rightarrow> None
           | None # ps \<Rightarrow> Some (st\<lparr>pending_queue := ps, staleness_samples := staleness_samples st + 1, processor := Ending\<rparr>)
           | Some x # ps \<Rightarrow> Some (st\<lparr>pending_queue := ps, staleness_samples := staleness_samples st + 1, processor := Holding x\<rparr>))
      | Holding x \<Rightarrow>
          if locked st then None
          else if max_concurrent_samples cfg \<le> length (active_tasks st)
          then if active_tasks st = [] then None else Some (st\<lparr>processor := WaitingSlot x\<rparr>)
          else if paused st \<and> \<not> resume_event st then None
          else Some (st\<lparr>active_tasks := active_tasks st @ [(x, Generating)], processor := Top\<rparr>)
      | WaitingSlot x \<Rightarrow>
          if unfinished (active_tasks st) = active_tasks st then None
          else Some (st\<lparr>active_tasks := unfinished (active_tasks st), processor := Holding x\<rparr>)
      | Ending \<Rightarrow>
          if active_tasks st = [] then Some (st\<lparr>processor := Ended\<rparr>)
          else if locked st then None else Some (st\<lparr>processor := WaitingEnd\<rparr>)
      | WaitingEnd \<Rightarrow>
          if unfinished (active_tasks st) = active_tasks st then None
          else Some (st\<lparr>active_tasks := unfinished (active_tasks st), processor := Ending\<rparr>)
      | Ended \<Rightarrow>
          (case put_sample None (mq st) of
             (Inr _, q) \<Rightarrow> Some (st\<lparr>mq := q, rollouter_running := False, processor := Gone\<rparr>)
           | (Inl _, _) \<Rightarrow> None)
      | Gone \<Rightarrow> None)"

text \<open>The drain loop of a paused processor removes the finished tasks it was woken for.\<close>

definition reap_step :: "'s list \<Rightarrow> 's async \<Rightarrow> 's async option" where
  "reap_step done_tasks st =
     (if processor st = Draining \<and> \<not> locked st \<and> done_tasks \<noteq> []
         \<and> list_all (\<lambda>x. (x, Finished) \<in> set (active_tasks st)) done_tasks
      then Some (st\<lparr>active_tasks := filter (\<lambda>(x, t). \<not> (x \<in> set done_tasks \<and> t = Finished)) (active_tasks st)\<rparr>)
      else None)"

text \<open>\<open>_process_single_sample_streaming\<close> of the task at a position of \<open>active_tasks\<close>.\<close>

definition task_step :: "nat \<Rightarrow> 's async \<Rightarrow> 's async option" where
  "task_step i st =
     (if i < length (active_tasks st)
      then case active_tasks st ! i of
             (x, Generating) \<Rightarrow>
               (case put_sample (Some x) (mq st) of
                  (Inr success, q) \<Rightarrow> Some (st\<lparr>mq := q, active_tasks := (active_tasks st)[i := (x, Stored success)]\<rparr>)
                | (Inl _, _) \<Rightarrow> None)
           | (x, Stored success) \<Rightarrow>
               Some (st\<lparr>active_tasks := (active_tasks st)[i := (x, Finished)],
                        total_generated_samples := total_generated_samples st + (if success then 1 else 0),
                        dropped_stale_samples := dropped_stale_samples st + (if success then 0 else 1),
                        processed_sample_count := processed_sample_count st + 1\<rparr>)
           | (x, Finished) \<Rightarrow> None
      else None)"

text \<open>\<open>_async_monitor_loop\<close> after its sleep.\<close>

definition monitor_step :: "async_config \<Rightarrow> 's async \<Rightarrow> 's async option" where
  "monitor_step cfg st =
     (case monitor st of
        Idle \<Rightarrow> if rollouter_running st \<and> paused st then Some (st\<lparr>monitor := Polled (length (queue (mq st)))\<rparr>) else None
      | Polled n \<Rightarrow> Some (st\<lparr>monitor := if should_pause_generation cfg n st then Idle else Resuming\<rparr>)
      | Resuming \<Rightarrow> if locked st then None else Some (st\<lparr>paused := False, resume_event := True, monitor := Idle\<rparr>))"

section \<open>The trainer\<close>

definition start_collecting :: "async_config \<Rightarrow> 's trainer" where
  "start_collecting cfg = (if required_samples cfg = 0 then Stopping else Collecting [])"

definition fit_update_local_step :: "async_config \<Rightarrow> 's async \<Rightarrow> 's async" where
  "fit_update_local_step cfg st =
     (if local_trigger_step st < trigger_parameter_sync_step cfg
      then st\<lparr>local_trigger_step := local_trigger_step st + 1\<rparr>
      else st\<lparr>current_param_version := current_param_version st + 1, local_trigger_step := 1\<rparr>)"

text \<open>\<open>_fit_update_weights\<close>: only at the first local step are weights synchronized and \<open>reset_staleness\<close> called.\<close>

definition fit_update_weights :: "async_config \<Rightarrow> bool \<Rightarrow> 's async \<Rightarrow> 's async" where
  "fit_update_weights cfg go_on st =
     st\<lparr>trainer := if local_trigger_step st = 1 then Syncing go_on else if go_on then start_collecting cfg else Stopped\<rparr>"

text \<open>
  \<open>_get_samples_from_queue\<close>, the rest of a training step, \<open>reset_staleness\<close> in its two sections (it counts
  the active tasks before it awaits the queue size), and the end of \<open>fit\<close>. The trainer is consumer 0.
\<close>

definition trainer_step :: "async_config \<Rightarrow> 's async \<Rightarrow> 's async option" where
  "trainer_step cfg st =
     (case trainer st of
        Collecting xs \<Rightarrow>
          if 0 \<in> set (asleep (mq st)) then None
          else (case get_sample 0 ((mq st)\<lparr>awake := remove1 0 (awake (mq st))\<rparr>) of
                  (Waiting, q) \<Rightarrow> Some (st\<lparr>mq := q\<rparr>)
                | (Closed, q) \<Rightarrow> Some (st\<lparr>mq := q, trainer := Crashed\<rparr>)
                | (Sample None _, q) \<Rightarrow> Some (st\<lparr>mq := q, trainer := Stopping\<rparr>)
                | (Sample (Some x) _, q) \<Rightarrow>
                    Some (st\<lparr>mq := q, trainer := if length xs + 1 < required_samples cfg
                                                 then Collecting (xs @ [x]) else Fitting (xs @ [x])\<rparr>))
      | Fitting xs \<Rightarrow> Some (fit_update_weights cfg True (fit_update_local_step cfg (st\<lparr>trained := trained st @ [xs]\<rparr>)))
      | Syncing go_on \<Rightarrow>
          if locked st then None
          else Some (st\<lparr>paused := False, resume_event := True, trainer := Counting go_on (length (active_tasks st))\<rparr>)
      | Counting go_on n \<Rightarrow>
          Some (st\<lparr>staleness_samples := n + length (queue (mq st)), trainer := if go_on then start_collecting cfg else Stopped\<rparr>)
      | Stopping \<Rightarrow>
          if test_freq cfg = 0 then Some (st\<lparr>trainer := Crashed\<rparr>)
          else if int (current_param_version st) mod test_freq cfg \<noteq> 0 \<or> 1 < local_trigger_step st
          then Some (fit_update_weights cfg False st)
          else Some (st\<lparr>trainer := Stopped\<rparr>)
      | Stopped \<Rightarrow> None
      | Crashed \<Rightarrow> None)"

section \<open>Runs\<close>

datatype 's action = Feed | Processor | Reap "'s list" | Task nat | Monitor | Trainer

fun async_step :: "async_config \<Rightarrow> 's action \<Rightarrow> 's async \<Rightarrow> 's async option" where
  "async_step cfg Feed st = feed_step st"
| "async_step cfg Processor st = processor_step cfg st"
| "async_step cfg (Reap xs) st = reap_step xs st"
| "async_step cfg (Task i) st = task_step i st"
| "async_step cfg Monitor st = monitor_step cfg st"
| "async_step cfg Trainer st = trainer_step cfg st"

fun async_run :: "async_config \<Rightarrow> 's action list \<Rightarrow> 's async \<Rightarrow> 's async option" where
  "async_run cfg [] st = Some st"
| "async_run cfg (a # as) st = (case async_step cfg a st of None \<Rightarrow> None | Some st' \<Rightarrow> async_run cfg as st')"

definition async_start :: "async_config \<Rightarrow> nat \<Rightarrow> 's list \<Rightarrow> 's async" where
  "async_start cfg total_rollout_steps xs =
     \<lparr>mq = \<lparr>max_queue_size = int (max_required_samples cfg), queue = [], val_queue = [], running = True,
            total_produced = 0, total_consumed = 0, dropped_samples = 0, asleep = [], awake = []\<rparr>,
      feed = feed_samples total_rollout_steps 1 xs, pending_queue = [], active_tasks = [], staleness_samples = 0,
      paused = False, resume_event = True, rollouter_running = True, total_generated_samples = 0,
      dropped_stale_samples = 0, processed_sample_count = 0, processor = Top, monitor = Idle,
      trainer = start_collecting cfg, local_trigger_step = 1, current_param_version = 0, trained = []\<rparr>"

end
