(* ===== verification/AsyncFacts.thy ===== *)
theory AsyncFacts
  imports AsyncRollout
begin

text \<open>
  What holds in every interleaving of asynchronous training: the bound on the samples in flight, that no sample
  is trained twice, and the relation of training steps and parameter versions; and two runs in which
  the staleness counter of the rollouter is wrong.
\<close>

section \<open>Samples in flight\<close>

definition generating :: "('s \<times> task_state) list \<Rightarrow> 's list" where
  "generating ts = map fst (filter (\<lambda>(x, t). t = Generating) ts)"

definition in_hand :: "'s processor \<Rightarrow> 's list" where
  "in_hand p = (case p of Holding x \<Rightarrow> [x] | WaitingSlot x \<Rightarrow> [x] | _ \<Rightarrow> [])"

definition in_flight :: "'s async \<Rightarrow> nat" where
  "in_flight st = length (generating (active_tasks st)) + length (in_hand (processor st)) + length (queue (mq st))"

definition fed :: "'s processor \<Rightarrow> bool" where
  "fed p \<longleftrightarrow> p \<in> {Ending, WaitingEnd, Ended, Gone}"

lemma generating_simps [simp]:
  "generating [] = []" "generating (ts @ us) = generating ts @ generating us"
  "generating ((x, t) # ts) = (if t = Generating then x # generating ts else generating ts)"
  "generating (unfinished ts) = generating ts"
  by (auto simp: generating_def unfinished_def intro!: arg_cong [of _ _ "map fst"] filter_cong)

lemma generating_reap [simp]:
  "generating (filter (\<lambda>(x, t). x \<in> D \<longrightarrow> t \<noteq> Finished) ts) = generating ts"
  by (auto simp: generating_def intro!: arg_cong [of _ _ "map fst"] filter_cong)

lemma generating_update:
  assumes "i < length ts" "ts ! i = (x, t)" "t' \<noteq> Generating"
  shows "mset (generating ts) = mset (generating (ts[i := (x, t')])) + (if t = Generating then {#x#} else {#})"
proof -
  have ts: "ts = take i ts @ (x, t) # drop (Suc i) ts" using id_take_nth_drop [OF assms(1)] assms(2) by simp
  have "ts[i := (x, t')] = take i ts @ (x, t') # drop (Suc i) ts" using assms(1) by (simp add: upd_conv_take_nth_drop)
  then have "generating (ts[i := (x, t')]) = generating (take i ts) @ generating (drop (Suc i) ts)" using assms(3) by simp
  moreover have "generating ts = generating (take i ts) @ generating ((x, t) # drop (Suc i) ts)" by (subst ts) simp
  ultimately show ?thesis by simp
qed

lemma generating_nonempty: "i < length ts \<Longrightarrow> ts ! i = (x, Generating) \<Longrightarrow> 0 < length (generating ts)"
  by (metis (mono_tags, lifting) case_prodI filter_empty_conv generating_def length_greater_0_conv map_is_Nil_conv nth_mem)

lemma length_generating_le: "length (generating ts) \<le> length ts"
  by (simp add: generating_def)

lemma put_sample_length:
  assumes "put_sample x q = (Inr r, q')" and "int (length (queue q)) \<le> max_queue_size q"
  shows "length (queue q) \<le> length (queue q')" and "length (queue q') \<le> Suc (length (queue q))"
    and "int (length (queue q')) \<le> max_queue_size q" and "max_queue_size q' = max_queue_size q"
  by (rule put_sample_effect [OF assms(1)]; use assms(2) in simp)+

lemma get_sample_length:
  assumes "get_sample c q = (r, q')"
  shows "length (queue q') \<le> length (queue q)" and "max_queue_size q' = max_queue_size q"
  by (rule get_sample_effect [OF assms]; simp)+

text \<open>
  The counter of the rollouter may miss the one sample that the processor fetched while
  \<open>reset_staleness\<close> was waiting for the queue size, never more.
\<close>

definition async_inv :: "async_config \<Rightarrow> 's async \<Rightarrow> bool" where
  "async_inv cfg st \<longleftrightarrow>
     max_queue_size (mq st) = int (max_required_samples cfg)
     \<and> length (queue (mq st)) \<le> max_required_samples cfg
     \<and> length (active_tasks st) \<le> max_concurrent_samples cfg
     \<and> in_flight st \<le> max_required_samples cfg + 1
     \<and> (\<not> fed (processor st) \<longrightarrow> in_flight st \<le> staleness_samples st + 1)
     \<and> (processor st = Fetching \<longrightarrow> in_flight st \<le> max_required_samples cfg)
     \<and> (\<forall>b n. trainer st = Counting b n \<longrightarrow> length (generating (active_tasks st)) \<le> n)
     \<and> (processor st \<in> {Ended, Gone} \<longrightarrow> active_tasks st = [])"

lemma async_invD:
  assumes "async_inv cfg st"
  shows "max_queue_size (mq st) = int (max_required_samples cfg)" "length (queue (mq st)) \<le> max_required_samples cfg"
    "length (active_tasks st) \<le> max_concurrent_samples cfg" "in_flight st \<le> max_required_samples cfg + 1"
    "\<not> fed (processor st) \<Longrightarrow> in_flight st \<le> staleness_samples st + 1"
    "processor st = Fetching \<Longrightarrow> in_flight st \<le> max_required_samples cfg"
    "trainer st = Counting b n \<Longrightarrow> length (generating (active_tasks st)) \<le> n"
    "processor st \<in> {Ended, Gone} \<Longrightarrow> active_tasks st = []"
  using assms by (auto simp: async_inv_def)

lemma async_inv_frame:
  assumes inv: "async_inv cfg st" and mq: "max_queue_size (mq st') = max_queue_size (mq st)"
      "length (queue (mq st')) \<le> length (queue (mq st))"
    and active: "length (active_tasks st') \<le> length (active_tasks st)"
      "generating (active_tasks st') = generating (active_tasks st)"
    and eq: "processor st' = processor st" "staleness_samples st' = staleness_samples st \<or> in_flight st' \<le> staleness_samples st' + 1"
    and tr: "\<And>b n. trainer st' = Counting b n \<Longrightarrow> trainer st = Counting b n \<or> length (active_tasks st) \<le> n"
  shows "async_inv cfg st'"
proof -
  have le: "in_flight st' \<le> in_flight st" using mq active eq by (simp add: in_flight_def)
  note D = async_invD [OF inv]
  have "length (generating (active_tasks st')) \<le> n" if "trainer st' = Counting b n" for b n
    using tr [OF that] D(7) [of b n] active length_generating_le [of "active_tasks st"] by auto
  moreover have "active_tasks st' = []" if "processor st' \<in> {Ended, Gone}"
    using D(8) that eq active by simp
  moreover have "in_flight st' \<le> staleness_samples st' + 1" if "\<not> fed (processor st')"
    using le D(5) that eq by auto
  moreover have "in_flight st' \<le> max_required_samples cfg" if "processor st' = Fetching"
    using le D(6) that eq by simp
  ultimately show ?thesis
    unfolding async_inv_def using D(1-4) le mq active(1) by (intro conjI) (blast | linarith)+
qed

lemma unfinished_length: "length (unfinished ts) \<le> length ts"
  by (simp add: unfinished_def)

lemma processor_inv:
  assumes inv: "async_inv cfg st" and s: "processor_step cfg st = Some st'"
  shows "async_inv cfg st'"
proof (cases "processor st")
  case Ended
  then obtain r q where p: "put_sample None (mq st) = (Inr r, q)"
      and st': "st' = st\<lparr>mq := q, rollouter_running := False, processor := Gone\<rparr>"
    using s by (auto simp: processor_step_def split: prod.splits sum.splits)
  have "int (length (queue (mq st))) \<le> max_queue_size (mq st)" using async_invD [OF inv] by simp
  note q = put_sample_length [OF p this]
  have "active_tasks st = []" using inv Ended by (simp add: async_inv_def)
  then show ?thesis using q inv st' by (auto simp: async_inv_def in_flight_def in_hand_def fed_def)
next
  case (Asked n)
  then show ?thesis using s inv
    by (auto simp: processor_step_def async_inv_def in_flight_def in_hand_def fed_def should_pause_generation_def split: if_splits)
next
  case Ending
  then show ?thesis using s inv
    by (auto simp: processor_step_def async_inv_def in_flight_def in_hand_def fed_def split: if_splits)
next
  case Fetching
  then show ?thesis using s inv
    by (auto simp: processor_step_def async_inv_def in_flight_def in_hand_def fed_def split: list.splits option.splits)
next
  case (Holding x)
  then show ?thesis using s inv
    by (auto simp: processor_step_def async_inv_def in_flight_def in_hand_def fed_def locked_def split: if_splits)
next
  case (WaitingSlot x)
  then show ?thesis using s inv unfinished_length [of "active_tasks st"]
    by (auto simp: processor_step_def async_inv_def in_flight_def in_hand_def fed_def split: if_splits)
next
  case WaitingEnd
  then show ?thesis using s inv unfinished_length [of "active_tasks st"]
    by (auto simp: processor_step_def async_inv_def in_flight_def in_hand_def fed_def split: if_splits)
qed (use s inv in \<open>auto simp: processor_step_def async_inv_def in_flight_def in_hand_def fed_def split: if_splits\<close>)

lemma task_inv:
  assumes inv: "async_inv cfg st" and s: "task_step i st = Some st'"
  shows "async_inv cfg st'"
proof -
  from s obtain x t where i: "i < length (active_tasks st)" "active_tasks st ! i = (x, t)"
    by (cases "active_tasks st ! i") (auto simp: task_step_def split: if_splits)
  then have ne: "processor st \<notin> {Ended, Gone}" using inv by (auto simp: async_inv_def)
  show ?thesis
  proof (cases t)
    case Generating
    then obtain r q where p: "put_sample (Some x) (mq st) = (Inr r, q)"
        and st': "st' = st\<lparr>mq := q, active_tasks := (active_tasks st)[i := (x, Stored r)]\<rparr>"
      using s i by (auto simp: task_step_def split: prod.splits sum.splits)
    have "int (length (queue (mq st))) \<le> max_queue_size (mq st)" using async_invD [OF inv] by simp
    note q = put_sample_length [OF p this]
    have "mset (generating (active_tasks st)) = add_mset x (mset (generating ((active_tasks st)[i := (x, Stored r)])))"
      using generating_update [OF i, of "Stored r"] Generating by simp
    then have g: "length (generating (active_tasks st)) = Suc (length (generating ((active_tasks st)[i := (x, Stored r)])))"
      by (metis size_add_mset size_mset)
    show ?thesis using q g inv st' ne by (auto simp: async_inv_def in_flight_def)
  next
    case (Stored r)
    have "mset (generating (active_tasks st)) = mset (generating ((active_tasks st)[i := (x, Finished)]))"
      using generating_update [OF i, of Finished] Stored by simp
    then have "length (generating (active_tasks st)) = length (generating ((active_tasks st)[i := (x, Finished)]))"
      by (metis size_mset)
    then show ?thesis using s i Stored inv ne by (auto simp: task_step_def async_inv_def in_flight_def)
  next
    case Finished
    then show ?thesis using s i by (simp add: task_step_def)
  qed
qed

lemma trainer_inv:
  assumes inv: "async_inv cfg st" and s: "trainer_step cfg st = Some st'"
  shows "async_inv cfg st'"
proof (cases "trainer st")
  case (Collecting xs)
  obtain r q where g: "get_sample 0 ((mq st)\<lparr>awake := remove1 0 (awake (mq st))\<rparr>) = (r, q)" by fastforce
  note q = get_sample_length [OF g]
  have "\<not> (0 \<in> set (asleep (mq st)))" using s Collecting by (auto simp: trainer_step_def)
  then have "mq st' = q \<and> active_tasks st' = active_tasks st \<and> processor st' = processor st
      \<and> staleness_samples st' = staleness_samples st \<and> (case trainer st' of Counting _ _ \<Rightarrow> False | _ \<Rightarrow> True)"
    using s g Collecting by (cases r) (auto simp: trainer_step_def split: option.splits if_splits)
  then show ?thesis using q by (intro async_inv_frame [OF inv]) simp_all
next
  case (Fitting xs)
  then show ?thesis using s
    by (intro async_inv_frame [OF inv])
      (auto simp: trainer_step_def fit_update_weights_def fit_update_local_step_def start_collecting_def split: if_splits)
next
  case (Syncing b)
  then show ?thesis using s
    by (intro async_inv_frame [OF inv]) (auto simp: trainer_step_def split: if_splits)
next
  case (Counting b n)
  have "length (in_hand (processor st)) \<le> 1" by (simp add: in_hand_def split: processor.splits)
  moreover have "length (generating (active_tasks st)) \<le> n" using async_invD(7) [OF inv Counting] .
  ultimately show ?thesis using s Counting
    by (intro async_inv_frame [OF inv]) (auto simp: trainer_step_def start_collecting_def in_flight_def split: if_splits)
next
  case Stopping
  then show ?thesis using s
    by (intro async_inv_frame [OF inv])
      (auto simp: trainer_step_def fit_update_weights_def start_collecting_def split: if_splits)
qed (use s in \<open>simp_all add: trainer_step_def\<close>)

lemma async_step_inv:
  assumes "async_inv cfg st" and "async_step cfg a st = Some st'"
  shows "async_inv cfg st'"
proof (cases a)
  case Feed
  then show ?thesis using assms(2)
    by (intro async_inv_frame [OF assms(1)]) (auto simp: feed_step_def split: list.splits if_splits)
next
  case (Reap xs)
  then have "st' = st\<lparr>active_tasks := filter (\<lambda>(x, t). x \<in> set xs \<longrightarrow> t \<noteq> Finished) (active_tasks st)\<rparr>"
    using assms(2) by (auto simp: reap_step_def split: if_splits)
  then show ?thesis by (intro async_inv_frame [OF assms(1)]) simp_all
next
  case Monitor
  then show ?thesis using assms(2)
    by (intro async_inv_frame [OF assms(1)]) (auto simp: monitor_step_def split: monitor.splits if_splits)
qed (use assms processor_inv task_inv trainer_inv in auto)

lemma async_start_inv: "async_inv cfg (async_start cfg steps xs)"
  by (simp add: async_inv_def async_start_def in_flight_def in_hand_def start_collecting_def)

lemma async_run_induct [consumes 1, case_names start step]:
  assumes "async_run cfg acts st = Some st'" and "P st"
    and "\<And>a s s'. P s \<Longrightarrow> async_step cfg a s = Some s' \<Longrightarrow> P s'"
  shows "P st'"
  using assms(1,2) by (induction acts arbitrary: st) (auto split: option.splits intro: assms(3))

text \<open>C3: In every interleaving of feed, processor, tasks, monitor and trainer at most
  \<open>max_required_samples + 1\<close> samples are generated, held or queued at a time, the queue holds at most
  \<open>max_required_samples\<close> and at most \<open>max_concurrent_samples\<close> tasks exist.\<close>

theorem samples_in_flight_bounded:
  assumes "async_run cfg acts (async_start cfg steps xs) = Some st"
  shows "in_flight st \<le> max_required_samples cfg + 1 \<and> length (queue (mq st)) \<le> max_required_samples cfg
    \<and> length (active_tasks st) \<le> max_concurrent_samples cfg"
proof -
  have "async_inv cfg st"
    using assms by (induction rule: async_run_induct) (auto intro: async_start_inv async_step_inv)
  then show ?thesis by (simp add: async_inv_def)
qed

section \<open>Conservation\<close>

definition samples_of :: "'s option list \<Rightarrow> 's multiset" where
  "samples_of xs = mset (concat (map (\<lambda>x. case x of None \<Rightarrow> [] | Some y \<Rightarrow> [y]) xs))"

lemma samples_of_simps [simp]:
  "samples_of [] = {#}" "samples_of (None # xs) = samples_of xs" "samples_of (Some x # xs) = add_mset x (samples_of xs)"
  "samples_of (xs @ ys) = samples_of xs + samples_of ys"
  by (simp_all add: samples_of_def)

definition at_trainer :: "'s trainer \<Rightarrow> 's multiset" where
  "at_trainer t = (case t of Collecting xs \<Rightarrow> mset xs | Fitting xs \<Rightarrow> mset xs | _ \<Rightarrow> {#})"

definition all_samples :: "'s async \<Rightarrow> 's multiset" where
  "all_samples st = samples_of (feed st) + samples_of (pending_queue st) + mset (in_hand (processor st))
     + mset (generating (active_tasks st)) + samples_of (queue (mq st)) + at_trainer (trainer st) + mset (concat (trained st))"

lemma put_samples:
  assumes "put_sample y q = (Inr r, q')"
  shows "samples_of (queue q') \<subseteq># samples_of (queue q) + samples_of [y]"
proof (rule put_sample_effect [OF assms])
  fix z zs assume "queue q = z # zs" "q' = notify_all (q\<lparr>queue := zs @ [y], dropped_samples := dropped_samples q + 1,
      total_produced := total_produced q + 1\<rparr>)"
  then show ?thesis by (cases z) (auto simp: subset_mset.add_increasing2)
qed (use assms in auto)

lemma processor_samples:
  assumes "processor_step cfg st = Some st'"
  shows "all_samples st' \<subseteq># all_samples st"
proof (cases "processor st")
  case Ended
  then obtain r q where p: "put_sample None (mq st) = (Inr r, q)"
      and st': "st' = st\<lparr>mq := q, rollouter_running := False, processor := Gone\<rparr>"
    using assms by (auto simp: processor_step_def split: prod.splits sum.splits)
  from put_samples [OF p] show ?thesis using Ended by (simp add: st' all_samples_def in_hand_def)
qed (use assms in \<open>auto simp: processor_step_def all_samples_def in_hand_def split: if_splits list.splits option.splits\<close>)

lemma task_samples:
  assumes s: "task_step i st = Some st'"
  shows "all_samples st' \<subseteq># all_samples st"
proof -
  from s obtain x t where i: "i < length (active_tasks st)" "active_tasks st ! i = (x, t)"
    by (cases "active_tasks st ! i") (auto simp: task_step_def split: if_splits)
  show ?thesis
  proof (cases t)
    case Generating
    then obtain r q where p: "put_sample (Some x) (mq st) = (Inr r, q)"
        and st': "st' = st\<lparr>mq := q, active_tasks := (active_tasks st)[i := (x, Stored r)]\<rparr>"
      using s i by (auto simp: task_step_def split: prod.splits sum.splits)
    have "mset (generating (active_tasks st)) = add_mset x (mset (generating ((active_tasks st)[i := (x, Stored r)])))"
      using generating_update [OF i, of "Stored r"] Generating by simp
    with put_samples [OF p] show ?thesis by (simp add: st' all_samples_def)
  next
    case (Stored r)
    have "mset (generating (active_tasks st)) = mset (generating ((active_tasks st)[i := (x, Finished)]))"
      using generating_update [OF i, of Finished] Stored by simp
    then show ?thesis using s i Stored by (auto simp: task_step_def all_samples_def)
  next
    case Finished
    then show ?thesis using s i by (simp add: task_step_def)
  qed
qed

text \<open>One call of \<open>get_sample\<close> by the trainer while it collects.\<close>

lemma collect_cases:
  assumes "trainer_step cfg st = Some st'" and "trainer st = Collecting xs"
  obtains q where "st' = st\<lparr>mq := q\<rparr>" "queue q = queue (mq st)"
  | q t where "st' = st\<lparr>mq := q, trainer := t\<rparr>" "t \<in> {Stopping, Crashed}" "queue (mq st) = queue q \<or> queue (mq st) = None # queue q"
  | q x where "st' = st\<lparr>mq := q, trainer := if length xs + 1 < required_samples cfg
      then Collecting (xs @ [x]) else Fitting (xs @ [x])\<rparr>" "queue (mq st) = Some x # queue q"
proof -
  obtain r q where g: "get_sample 0 ((mq st)\<lparr>awake := remove1 0 (awake (mq st))\<rparr>) = (r, q)" by fastforce
  have "\<not> (0 \<in> set (asleep (mq st)))" using assms by (auto simp: trainer_step_def)
  then have s: "trainer_step cfg st = Some (case r of Waiting \<Rightarrow> st\<lparr>mq := q\<rparr> | Closed \<Rightarrow> st\<lparr>mq := q, trainer := Crashed\<rparr>
      | Sample y _ \<Rightarrow> (case y of None \<Rightarrow> st\<lparr>mq := q, trainer := Stopping\<rparr>
         | Some x \<Rightarrow> st\<lparr>mq := q, trainer := if length xs + 1 < required_samples cfg
             then Collecting (xs @ [x]) else Fitting (xs @ [x])\<rparr>))"
    using g assms(2) by (cases r) (auto simp: trainer_step_def split: option.splits)
  show thesis
    using g
  proof (cases rule: get_sample_effect)
    case 1
    then have "st' = st\<lparr>mq := q\<rparr>" using s assms(1) by simp
    then show ?thesis by (rule that(1)) (use 1 in simp)
  next
    case 2
    then have "st' = st\<lparr>mq := q, trainer := Crashed\<rparr>" using s assms(1) by simp
    then show ?thesis by (rule that(2)) (use 2 in simp_all)
  next
    case (3 y ys)
    show ?thesis
    proof (cases y)
      case None
      then have "st' = st\<lparr>mq := q, trainer := Stopping\<rparr>" using 3(1) s assms(1) by simp
      then show ?thesis by (rule that(2)) (use 3 None in simp_all)
    next
      case (Some x)
      then have "st' = st\<lparr>mq := q, trainer := if length xs + 1 < required_samples cfg
          then Collecting (xs @ [x]) else Fitting (xs @ [x])\<rparr>" using 3(1) s assms(1) by (simp del: One_nat_def)
      then show ?thesis by (rule that(3)) (use 3 Some in simp)
    qed
  qed
qed

lemma trainer_samples:
  assumes "trainer_step cfg st = Some st'"
  shows "all_samples st' \<subseteq># all_samples st"
proof (cases "trainer st")
  case (Collecting xs)
  from assms this show ?thesis
    by (cases rule: collect_cases) (use Collecting in \<open>auto simp: all_samples_def at_trainer_def ac_simps\<close>)
next
  case (Fitting xs)
  then show ?thesis using assms
    by (auto simp: trainer_step_def fit_update_weights_def fit_update_local_step_def start_collecting_def all_samples_def
        at_trainer_def ac_simps)
qed (use assms in \<open>auto simp: trainer_step_def fit_update_weights_def start_collecting_def all_samples_def at_trainer_def
    split: if_splits\<close>)

lemma async_step_samples:
  assumes "async_step cfg a st = Some st'"
  shows "all_samples st' \<subseteq># all_samples st"
proof (cases a)
  case Feed
  then obtain x xs where "feed st = x # xs" "st' = st\<lparr>feed := xs, pending_queue := pending_queue st @ [x]\<rparr>"
    using assms by (auto simp: feed_step_def split: list.splits if_splits)
  then show ?thesis by (cases x) (auto simp: all_samples_def)
next
  case (Reap xs)
  then show ?thesis using assms by (auto simp: reap_step_def all_samples_def split: if_splits)
next
  case Monitor
  then show ?thesis using assms by (auto simp: monitor_step_def all_samples_def split: monitor.splits if_splits)
qed (use assms processor_samples task_samples trainer_samples in auto)

lemma samples_of_feed: "samples_of (feed_samples n k xs) \<subseteq># mset xs"
  by (induction n k xs rule: feed_samples.induct) auto

text \<open>Every batch has the required size, and the local steps count the batches since the last new version.\<close>

definition steps_inv :: "async_config \<Rightarrow> 's async \<Rightarrow> bool" where
  "steps_inv cfg st \<longleftrightarrow>
     length (trained st) = current_param_version st * trigger_parameter_sync_step cfg + (local_trigger_step st - 1)
     \<and> 1 \<le> local_trigger_step st \<and> local_trigger_step st \<le> trigger_parameter_sync_step cfg
     \<and> (\<forall>b \<in> set (trained st). length b = required_samples cfg)
     \<and> (case trainer st of Collecting xs \<Rightarrow> length xs < required_samples cfg
          | Fitting xs \<Rightarrow> length xs = required_samples cfg | _ \<Rightarrow> True)"

definition trainer_view :: "'s async \<Rightarrow> 's trainer \<times> 's list list \<times> nat \<times> nat" where
  "trainer_view st = (trainer st, trained st, current_param_version st, local_trigger_step st)"

lemma trainer_view_frame:
  assumes "async_step cfg a st = Some st'" and "a \<noteq> Trainer"
  shows "trainer_view st' = trainer_view st"
proof (cases a)
  case Processor
  then show ?thesis using assms
    by (cases "processor st") (auto simp: processor_step_def trainer_view_def
        split: if_splits list.splits option.splits prod.splits sum.splits)
next
  case (Task i)
  then show ?thesis using assms
    by (cases "active_tasks st ! i"; cases "snd (active_tasks st ! i)")
      (auto simp: task_step_def trainer_view_def split: if_splits prod.splits sum.splits)
next
  case Feed
  then show ?thesis using assms by (auto simp: feed_step_def trainer_view_def split: list.splits if_splits)
next
  case (Reap xs)
  then show ?thesis using assms by (auto simp: reap_step_def trainer_view_def split: if_splits)
next
  case Monitor
  then show ?thesis using assms by (auto simp: monitor_step_def trainer_view_def split: monitor.splits if_splits)
qed (use assms in simp)

lemma steps_inv_view: "trainer_view st' = trainer_view st \<Longrightarrow> steps_inv cfg st \<Longrightarrow> steps_inv cfg st'"
  by (simp add: trainer_view_def steps_inv_def)

lemma async_step_steps:
  assumes inv: "steps_inv cfg st" and s: "async_step cfg a st = Some st'"
  shows "steps_inv cfg st'"
proof (cases "a = Trainer")
  case True
  with s have t: "trainer_step cfg st = Some st'" by simp
  show ?thesis
  proof (cases "trainer st")
    case (Collecting xs)
    from t this show ?thesis by (cases rule: collect_cases) (use Collecting inv in \<open>auto simp: steps_inv_def\<close>)
  next
    case (Fitting xs)
    then show ?thesis using t inv
      by (auto simp: trainer_step_def fit_update_weights_def fit_update_local_step_def start_collecting_def steps_inv_def
          split: if_splits)
  qed (use t inv in \<open>auto simp: trainer_step_def fit_update_weights_def start_collecting_def steps_inv_def split: if_splits\<close>)
next
  case False
  then show ?thesis using steps_inv_view [OF trainer_view_frame [OF s] inv] by simp
qed

text \<open>C4: In every interleaving no sample is trained more often than the data set delivers it, every batch has the
  required size, and the number of batches is \<open>trigger_parameter_sync_step\<close> per parameter version plus the local
  steps since the last one.\<close>

theorem trained_samples_and_versions:
  assumes "async_run cfg acts (async_start cfg steps xs) = Some st" and "1 \<le> trigger_parameter_sync_step cfg"
  shows "mset (concat (trained st)) \<subseteq># mset xs \<and> (\<forall>b \<in> set (trained st). length b = required_samples cfg)
    \<and> length (trained st) = current_param_version st * trigger_parameter_sync_step cfg + (local_trigger_step st - 1)
    \<and> 1 \<le> local_trigger_step st \<and> local_trigger_step st \<le> trigger_parameter_sync_step cfg"
proof -
  have "all_samples (async_start cfg steps xs) \<subseteq># mset xs"
    by (simp add: all_samples_def async_start_def in_hand_def at_trainer_def start_collecting_def samples_of_feed)
  with assms(1) have "all_samples st \<subseteq># mset xs"
    by (induction rule: async_run_induct) (auto dest: async_step_samples intro: subset_mset.order_trans)
  moreover have "mset (concat (trained st)) \<subseteq># all_samples st" by (simp add: all_samples_def)
  ultimately have "mset (concat (trained st)) \<subseteq># mset xs" by (rule subset_mset.order_trans [rotated])
  moreover have "steps_inv cfg (async_start cfg steps xs)"
    using assms(2) by (simp add: steps_inv_def async_start_def start_collecting_def)
  with assms(1) have "steps_inv cfg st" by (induction rule: async_run_induct) (auto intro: async_step_steps)
  ultimately show ?thesis by (simp add: steps_inv_def)
qed

section \<open>Two runs against the staleness counter\<close>

text \<open>Two samples per step with a staleness threshold of 1/2, so at most three samples per version.\<close>

definition half_stale :: async_config where
  "half_stale = set_max_required_samples 2 (1 / 2) 1 1 10"

text \<open>
  Two samples are submitted and the processor waits for the feed; both are generated, trained, and counted again by
  \<open>reset_staleness\<close> because their finished tasks are still active; then one more sample is submitted.
\<close>

definition slow_feed :: "nat action list" where
  "slow_feed = [Trainer, Feed, Feed] @ replicate 10 Processor @ [Task 0, Task 0, Task 1, Task 1] @ replicate 6 Trainer
     @ [Feed, Processor, Processor, Task 2, Task 2, Trainer, Trainer, Processor, Processor, Processor, Reap [1, 2, 3]]"

definition deadlocked :: "async_config \<Rightarrow> 's async \<Rightarrow> bool" where
  "deadlocked cfg st \<longleftrightarrow>
     processor st = Draining \<and> \<not> resume_event st \<and> active_tasks st = [] \<and> max_required_samples cfg \<le> staleness_samples st
     \<and> monitor st \<noteq> Resuming \<and> 0 \<in> set (asleep (mq st))
     \<and> (case trainer st of Collecting _ \<Rightarrow> True | _ \<Rightarrow> False)"



lemma slow_feed_run:
  "map_option (\<lambda>st. (deadlocked half_stale st, trained st, trainer st, queue (mq st), feed st))
     (async_run half_stale slow_feed (async_start half_stale 6 [1, 2, 3, 4, 5, 6]))
   = Some (True, [[1, 2]], Collecting [3], [], [Some 4, Some 5, Some 6, None])"
  by code_simp


text \<open>
  A sample that the processor fetches while \<open>reset_staleness\<close> awaits the queue size is not counted, and one sample
  more than \<open>max_required_samples\<close> is generated; the full queue then drops the oldest one.
\<close>

definition one_stale :: async_config where
  "one_stale = set_max_required_samples 1 1 1 1 10"

definition fetch_during_reset :: "nat action list" where
  "fetch_during_reset = replicate 6 Feed @ replicate 8 Processor @ [Task 0, Task 0, Task 1, Task 1]
     @ replicate 3 Processor @ [Reap [1, 2]] @ replicate 4 Trainer @ replicate 3 Processor @ replicate 3 Trainer
     @ [Processor, Trainer] @ replicate 8 Processor @ [Task 0, Task 0, Task 1, Task 1] @ replicate 3 Processor @ [Task 0]"

theorem fetch_during_reset_drops_sample:
  "max_required_samples one_stale = 2
   \<and> map_option (\<lambda>st. (trained st, queue (mq st), dropped_samples (mq st)))
       (async_run one_stale fetch_during_reset (async_start one_stale 6 [1, 2, 3, 4, 5, 6]))
     = Some ([[1], [2]], [Some 4, Some 5], 1)"
  by (intro conjI; code_simp)

text \<open>After the queue told the trainer to stop, the updates of an incomplete round are not synchronized.\<close>

theorem incomplete_round_not_synchronized:
  "local_trigger_step st \<noteq> 1 \<Longrightarrow> trainer st = Stopping \<Longrightarrow> test_freq cfg \<noteq> 0 \<Longrightarrow>
   trainer_step cfg st = Some (st\<lparr>trainer := Stopped\<rparr>)"
  by (simp add: trainer_step_def fit_update_weights_def)

text \<open>The two runs as instances of the general properties.\<close>

lemma samples_in_flight_bounded_witness:
  "\<exists>st. async_run one_stale fetch_during_reset (async_start one_stale 6 [1, 2, 3, 4, 5, 6]) = Some st \<and> in_flight st \<le> 3"
proof -
  from fetch_during_reset_drops_sample
  obtain st where st: "async_run one_stale fetch_during_reset (async_start one_stale 6 [1, 2, 3, 4, 5, 6]) = Some st" by auto
  with samples_in_flight_bounded [OF st] fetch_during_reset_drops_sample show ?thesis by simp
qed

lemma trained_samples_and_versions_witness:
  "\<exists>st. async_run half_stale slow_feed (async_start half_stale 6 [1, 2, 3, 4, 5, 6]) = Some st
     \<and> length (trained st) = current_param_version st"
proof -
  from slow_feed_run obtain st where run: "async_run half_stale slow_feed (async_start half_stale 6 [1, 2, 3, 4, 5, 6]) = Some st"
    by auto
  have "trigger_parameter_sync_step half_stale = 1" by (simp add: half_stale_def set_max_required_samples_def)
  then have "length (trained st) = current_param_version st" using trained_samples_and_versions [OF run] by simp
  with run show ?thesis by blast
qed

end
