(* ===== verification/Rewards.thy ===== *)
theory Rewards
  imports PyText
begin

text \<open>
  Rule-based rewards for mathematics (\<open>utils/reward_score\<close>): the dispatch by data source of
  \<open>__init__.py\<close>, the GSM8K answer extraction of \<open>gsm8k.py\<close>, the answer comparison of
  \<open>math_reward.py\<close> and the strict box check of \<open>math_dapo.py\<close>. Scores are rationals. The other scorers are
  parameters of the dispatch; output to the log is not modelled.
\<close>

section \<open>Text\<close>

text \<open>\<open>s.replace(old, new)\<close> and \<open>s.split(sep)\<close> for a text that is not empty.\<close>

function replace_all :: "string \<Rightarrow> string \<Rightarrow> string \<Rightarrow> string" where
  "replace_all old new s =
     (if old = [] \<or> s = [] then s
      else if prefix old s then new @ replace_all old new (drop (length old) s)
      else hd s # replace_all old new (tl s))"
  by pat_completeness auto
termination
  by (relation "measure (\<lambda>(_, _, s). length s)") auto

declare replace_all.simps [simp del]

function split_on :: "string \<Rightarrow> string \<Rightarrow> string list" where
  "split_on sep s =
     (if sep = [] \<or> s = [] then [s]
      else if prefix sep s then [] # split_on sep (drop (length sep) s)
      else case split_on sep (tl s) of [] \<Rightarrow> [[hd s]] | w # ws \<Rightarrow> (hd s # w) # ws)"
  by pat_completeness auto
termination
  by (relation "measure (\<lambda>(_, s). length s)") auto

declare split_on.simps [simp del]

text \<open>\<open>s.rfind(p)\<close>, \<open>None\<close> for -1.\<close>

definition rfind :: "string \<Rightarrow> string \<Rightarrow> nat option" where
  "rfind p s = (case filter (\<lambda>i. prefix p (drop i s)) [0..<Suc (length s)] of [] \<Rightarrow> None | is \<Rightarrow> Some (last is))"

text \<open>LaTeX commands start with a backslash.\<close>

definition tex :: "string \<Rightarrow> string" where
  "tex s = CHR 0x5C # s"

text \<open>
  \<open>int(s)\<close> for an optional sign and digits. Python also accepts blanks and underscores; the only caller
  compares the text with the decimal form of the number, where such text fails.
\<close>

definition parse_digits :: "string \<Rightarrow> int" where
  "parse_digits s = foldl (\<lambda>n c. 10 * n + (int (of_char c) - 48)) 0 s"

definition is_digit :: "char \<Rightarrow> bool" where
  "is_digit c \<longleftrightarrow> 48 \<le> (of_char c :: nat) \<and> (of_char c :: nat) \<le> 57"

definition parse_int :: "string \<Rightarrow> int option" where
  "parse_int s =
     (let t = (if s \<noteq> [] \<and> hd s \<in> {CHR ''-'', CHR ''+''} then tl s else s)
      in if t = [] \<or> \<not> list_all is_digit t then None
         else Some (if hd s = CHR ''-'' then - parse_digits t else parse_digits t))"

section \<open>GSM8K\<close>

definition number_char :: "char \<Rightarrow> bool" where
  "number_char c \<longleftrightarrow> is_digit c \<or> c = CHR ''.'' \<or> c = CHR '',''"

text \<open>The match of \<open>\-?[0-9\.\,]+\<close> at the start of a text, and what follows it.\<close>

definition number_token :: "string \<Rightarrow> (string \<times> string) option" where
  "number_token s =
     (let sign = takeWhile (\<lambda>c. c = CHR ''-'') (take 1 s); r = drop (length sign) s; run = takeWhile number_char r
      in if run = [] then None else Some (sign @ run, drop (length run) r))"

lemma number_token_shorter:
  assumes "number_token s = Some (t, rest)"
  shows "length rest < length s"
proof -
  let ?sign = "takeWhile (\<lambda>c. c = CHR ''-'') (take 1 s)"
  let ?r = "drop (length ?sign) s"
  let ?run = "takeWhile number_char ?r"
  have run: "?run \<noteq> []" "rest = drop (length ?run) ?r" using assms by (auto simp: number_token_def Let_def split: if_splits)
  have "0 < length ?run" using run(1) by blast
  moreover have "length ?run \<le> length ?r" by (rule length_takeWhile_le)
  ultimately show ?thesis unfolding run(2) length_drop by linarith
qed

text \<open>\<open>re.findall\<close> of a fixed text followed by a number.\<close>

function find_numbers :: "string \<Rightarrow> string \<Rightarrow> string list" where
  "find_numbers p s =
     (if s = [] then []
      else case (if prefix p s then number_token (drop (length p) s) else None) of
             Some (t, rest) \<Rightarrow> t # find_numbers p rest
           | None \<Rightarrow> find_numbers p (tl s))"
  by pat_completeness auto
termination
proof (relation "measure (\<lambda>(_, s). length s)", goal_cases)
  case (3 p s x t rest)
  then have "number_token (drop (length p) s) = Some (t, rest)" by (auto split: if_splits)
  from number_token_shorter [OF this] show ?case by simp
qed auto

declare find_numbers.simps [simp del]

definition solution_clip_chars :: nat where
  "solution_clip_chars = 300"

definition last_chars :: "nat \<Rightarrow> string \<Rightarrow> string" where
  "last_chars n s = drop (length s - n) s"

text \<open>The loop over the reversed matches ends at the first valid one, or at the first match of the text.\<close>

fun last_valid :: "string list \<Rightarrow> string option" where
  "last_valid [] = None"
| "last_valid (x # xs) = (if x \<notin> {[], ''.''} \<or> xs = [] then Some x else last_valid xs)"

definition extract_solution :: "string \<Rightarrow> string \<Rightarrow> string option result" where
  "extract_solution method solution_str =
     passert (method \<in> {''strict'', ''flexible''}) []
       (let s = (if solution_clip_chars < length solution_str then last_chars solution_clip_chars solution_str else solution_str)
        in if method = ''strict''
           then case find_numbers ''#### '' s of
                  [] \<Rightarrow> Inr None
                | sols \<Rightarrow> Inr (Some (filter (\<lambda>c. c \<noteq> CHR '','' \<and> c \<noteq> CHR ''$'') (last sols)))
           else Inr (last_valid (rev (find_numbers [] s))))"

definition gsm8k_compute_score :: "string \<Rightarrow> string \<Rightarrow> string \<Rightarrow> rat \<Rightarrow> rat \<Rightarrow> rat result" where
  "gsm8k_compute_score method solution_str ground_truth format_score score =
     rbind (extract_solution method solution_str) (\<lambda>answer.
       Inr (case answer of None \<Rightarrow> 0 | Some a \<Rightarrow> if a = ground_truth then score else format_score))"

section \<open>MATH\<close>

text \<open>
  The scan for the brace that closes the box: the number of characters up to it, or \<open>None\<close>.
  The count of open braces may be negative.
\<close>

fun closing_brace :: "int \<Rightarrow> string \<Rightarrow> nat option" where
  "closing_brace d [] = None"
| "closing_brace d (c # cs) =
     (if c = CHR ''}'' \<and> d - 1 = 0 then Some 1
      else map_option Suc (closing_brace (if c = CHR ''{'' then d + 1 else if c = CHR ''}'' then d - 1 else d) cs))"

definition boxed_at :: "nat \<Rightarrow> string \<Rightarrow> string option" where
  "boxed_at idx s = map_option (\<lambda>n. take n (drop idx s)) (closing_brace 0 (drop idx s))"

definition last_boxed_only_string :: "string \<Rightarrow> string option" where
  "last_boxed_only_string s =
     (if contains (tex ''boxed '') s
      then Some (tex ''boxed '' @ hd (split_on ''$'' (last (split_on (tex ''boxed '') s))))
      else case rfind (tex ''boxed'') s of
             Some idx \<Rightarrow> boxed_at idx s
           | None \<Rightarrow> (case rfind (tex ''fbox'') s of None \<Rightarrow> None | Some idx \<Rightarrow> boxed_at idx s))"

definition remove_boxed :: "string \<Rightarrow> string result" where
  "remove_boxed s =
     (if contains (tex ''boxed '') s
      then passert (take 7 s = tex ''boxed '') [] (Inr (drop 7 s))
      else passert (take 7 s = tex ''boxed{'') [] (passert (last s = CHR ''}'') [] (Inr (butlast (drop 7 s)))))"

text \<open>\<open>fix_fracs\<close>: a one-character part gives up, and the text stays as it was.\<close>

fun fix_frac_parts :: "string list \<Rightarrow> string \<Rightarrow> string option result" where
  "fix_frac_parts [] new_str = Inr (Some new_str)"
| "fix_frac_parts (p # ps) new_str =
     (case p of
        [] \<Rightarrow> Inl (IndexError ''string index out of range'')
      | a # rest \<Rightarrow>
          if a = CHR ''{'' then fix_frac_parts ps (new_str @ tex ''frac'' @ p)
          else (case rest of
                  [] \<Rightarrow> Inr None
                | b # post \<Rightarrow>
                    fix_frac_parts ps (new_str @ tex ''frac'' @
                      (if b \<noteq> CHR ''{'' then ''{'' @ [a] @ ''}{'' @ [b] @ ''}'' @ post
                       else ''{'' @ [a] @ ''}'' @ [b] @ post))))"

definition fix_fracs :: "string \<Rightarrow> string result" where
  "fix_fracs s =
     (let substrs = split_on (tex ''frac'') s
      in rbind (fix_frac_parts (tl substrs) (hd substrs)) (\<lambda>r. Inr (case r of None \<Rightarrow> s | Some t \<Rightarrow> t)))"

definition fix_a_slash_b :: "string \<Rightarrow> string" where
  "fix_a_slash_b s =
     (case split_char CHR 0x2F s of
        [a, b] \<Rightarrow>
          (case (parse_int a, parse_int b) of
             (Some m, Some n) \<Rightarrow>
               if s = show_int m @ [CHR 0x2F] @ show_int n
               then tex ''frac{'' @ show_int m @ ''}{'' @ show_int n @ ''}'' else s
           | _ \<Rightarrow> s)
      | _ \<Rightarrow> s)"

definition remove_right_units :: "string \<Rightarrow> string result" where
  "remove_right_units s =
     (if contains (tex ''text{ '') s
      then passert (length (split_on (tex ''text{ '') s) = 2) [] (Inr (hd (split_on (tex ''text{ '') s)))
      else Inr s)"

fun fix_sqrt_parts :: "string list \<Rightarrow> string result" where
  "fix_sqrt_parts [] = Inr []"
| "fix_sqrt_parts (p # ps) =
     (case p of
        [] \<Rightarrow> Inl (IndexError ''string index out of range'')
      | a # rest \<Rightarrow> rbind (fix_sqrt_parts ps) (\<lambda>t.
          Inr ((if a \<noteq> CHR ''{'' then tex ''sqrt{'' @ [a] @ ''}'' @ rest else tex ''sqrt'' @ p) @ t)))"

definition fix_sqrt :: "string \<Rightarrow> string result" where
  "fix_sqrt s =
     (if \<not> contains (tex ''sqrt'') s then Inr s
      else rbind (fix_sqrt_parts (tl (split_on (tex ''sqrt'') s))) (\<lambda>t. Inr (hd (split_on (tex ''sqrt'') s) @ t)))"

definition drop_name :: "string \<Rightarrow> string" where
  "drop_name s = (case split_char CHR ''='' s of [a, b] \<Rightarrow> if length a \<le> 2 then b else s | _ \<Rightarrow> s)"

definition strip_string :: "string \<Rightarrow> string result" where
  "strip_string s0 =
     (let s1 = replace_all newline [] s0;
          s2 = replace_all (tex ''!'') [] s1;
          s3 = replace_all (tex (tex [])) (tex []) s2;
          s4 = replace_all ''dfrac'' ''frac'' (replace_all ''tfrac'' ''frac'' s3);
          s5 = replace_all (tex ''right'') [] (replace_all (tex ''left'') [] s4);
          s6 = replace_all (''^'' @ tex ''circ'') [] (replace_all (''^{'' @ tex ''circ}'') [] s5);
          s7 = replace_all (tex ''$'') [] s6
      in rbind (remove_right_units s7) (\<lambda>s8.
         let s9 = replace_all (tex ''%'') [] (replace_all (tex (tex ''%'')) [] s8);
             s10 = replace_all ''{.'' ''{0.'' (replace_all '' .'' '' 0.'' s9)
         in if s10 = [] then Inr []
            else rbind (fix_sqrt (drop_name (if hd s10 = CHR ''.'' then CHR ''0'' # s10 else s10))) (\<lambda>s11.
                 rbind (fix_fracs (replace_all '' '' [] s11)) (\<lambda>s12.
                   Inr (fix_a_slash_b (if s12 = ''0.5'' then tex ''frac{1}{2}'' else s12))))))"

definition is_equiv :: "string option \<Rightarrow> string option \<Rightarrow> bool" where
  "is_equiv str1 str2 =
     (case (str1, str2) of
        (None, None) \<Rightarrow> True
      | (Some a, Some b) \<Rightarrow> (case (strip_string a, strip_string b) of (Inr s, Inr t) \<Rightarrow> s = t | _ \<Rightarrow> a = b)
      | _ \<Rightarrow> False)"

definition math_compute_score :: "string \<Rightarrow> string \<Rightarrow> rat" where
  "math_compute_score solution_str ground_truth =
     (case last_boxed_only_string solution_str of
        None \<Rightarrow> 0
      | Some b \<Rightarrow> (case remove_boxed b of
                      Inl _ \<Rightarrow> 0
                    | Inr answer \<Rightarrow> if is_equiv (Some answer) (Some ground_truth) then 1 else 0))"

section \<open>Dispatch\<close>

text \<open>The result of a scorer: a dictionary, a number, or a sequence that starts with the score.\<close>

datatype score = ScoreDict "pyval pydict" | ScoreNumber rat | ScoreList "rat list"

definition score_module :: "bool \<Rightarrow> string \<Rightarrow> string option" where
  "score_module sandbox data_source =
     (if data_source \<in> {''gsm8k'', ''aime2024'', ''aime2025'', ''aime2026'', ''amc23'', ''math500'', ''dapo_math'', ''LLM-Fusion/Math''}
      then Some ''math_verify_enhanced''
      else if data_source \<in> {''gpqa'', ''mmlu_pro'', ''LLM-Fusion/Science''} then Some ''science_verify_enhanced''
      else if data_source \<in> {''ifeval'', ''ifbench'', ''LLM-Fusion/IF''} then Some ''if_verify''
      else if data_source = ''LLM-Fusion/Agent'' then Some ''workbench_verify''
      else if data_source = ''bfcl_v3'' then Some ''bfcl_verify''
      else if data_source = ''bfcl_v3_multi_turn'' then Some ''bfcl_multiturn_verify''
      else if data_source = ''openai/gsm8k'' then Some ''gsm8k''
      else if data_source \<in> {''lighteval/MATH'', ''DigitalLearningGmbH/MATH-lighteval'', ''HuggingFaceH4/MATH-500''}
      then Some ''math_reward''
      else if data_source \<in> {''math_dapo'', ''math'', ''math_dapo_reasoning''} \<or> prefix ''aime'' data_source
      then Some ''math_dapo''
      else if data_source \<in> {''numina_aops_forum'', ''numina_synthetic_math'', ''numina_amc_aime'',
          ''numina_synthetic_amc'', ''numina_cn_k12'', ''numina_olympiads''} then Some ''prime_math''
      else if data_source \<in> {''codecontests'', ''apps'', ''codeforces'', ''taco'', ''livecodebench_v5'',
          ''livecodebench_v6'', ''LLM-Fusion/Code''}
      then Some (if sandbox then ''sandbox_fusion'' else ''prime_code'')
      else if data_source = ''hiyouga/geometry3k'' then Some ''geo3k''
      else if data_source \<in> {''searchR1_nq'', ''searchR1_triviaqa'', ''searchR1_popqa'', ''searchR1_hotpotqa'',
          ''searchR1_2wikimultihopqa'', ''searchR1_musique'', ''searchR1_bamboogle''}
      then Some ''search_r1_like_qa_em''
      else None)"

text \<open>The scorers of \<open>gsm8k\<close> and \<open>math_reward\<close> are the ones above, the others come from outside.\<close>

definition default_compute_score ::
    "(string \<Rightarrow> string \<Rightarrow> string \<Rightarrow> score result) \<Rightarrow> bool \<Rightarrow> string \<Rightarrow> string \<Rightarrow> string \<Rightarrow> (pyval pydict + rat) result" where
  "default_compute_score others sandbox data_source solution_str ground_truth =
     (case score_module sandbox data_source of
        None \<Rightarrow> Inl (NotImplementedError (''Reward function is not implemented for data_source='' @ quoted data_source))
      | Some m \<Rightarrow>
          rbind (if m = ''gsm8k'' then rbind (gsm8k_compute_score ''strict'' solution_str ground_truth 0 1) (\<lambda>r. Inr (ScoreNumber r))
                 else if m = ''math_reward'' then Inr (ScoreNumber (math_compute_score solution_str ground_truth))
                 else others m solution_str ground_truth) (\<lambda>res.
            case res of
              ScoreDict d \<Rightarrow> Inr (Inl d)
            | ScoreNumber r \<Rightarrow> Inr (Inr r)
            | ScoreList rs \<Rightarrow> (case rs of [] \<Rightarrow> Inl (IndexError ''index out of range'') | r # _ \<Rightarrow> Inr (Inr r))))"

end
