(* ===== verification/RewardFacts.thy ===== *)
theory RewardFacts
  imports Rewards
begin

text \<open>
  What the rule-based rewards find in a solution: the answer in the last box, with its braces, and the last
  number after the GSM8K mark; and inputs on which they do not.
\<close>

section \<open>The boxed answer\<close>

text \<open>Braces in the answer match: the depth starts and ends at 0 and is never negative.\<close>

fun balanced :: "nat \<Rightarrow> string \<Rightarrow> bool" where
  "balanced d [] \<longleftrightarrow> d = 0"
| "balanced d (c # cs) \<longleftrightarrow>
     (if c = CHR ''{'' then balanced (d + 1) cs else if c = CHR ''}'' then 0 < d \<and> balanced (d - 1) cs else balanced d cs)"

lemma closing_brace_balanced:
  "balanced d ans \<Longrightarrow> closing_brace (int d + 1) (ans @ CHR ''}'' # post) = Some (Suc (length ans))"
proof (induction d ans rule: balanced.induct)
  case (2 d c cs)
  consider "c = CHR ''{''" | "c = CHR ''}''" | "c \<noteq> CHR ''{''" "c \<noteq> CHR ''}''" by blast
  then show ?case
  proof cases
    case 1
    then show ?thesis using 2 by (simp add: algebra_simps)
  next
    case 2
    then have "0 < d" "balanced (d - 1) cs" using "2.prems" by auto
    then have "closing_brace (int (d - 1) + 1) (cs @ CHR ''}'' # post) = Some (Suc (length cs))" using 2 "2.IH" by simp
    then show ?thesis using 2 \<open>0 < d\<close> by (simp add: of_nat_diff)
  next
    case 3
    then show ?thesis using 2 by simp
  qed
qed simp

lemma closing_brace_box:
  "balanced 0 ans \<Longrightarrow> closing_brace 0 (tex ''boxed{'' @ ans @ CHR ''}'' # post) = Some (length ans + 8)"
  using closing_brace_balanced [of 0 ans post] by (simp add: tex_def)

lemma rfind_last:
  assumes "prefix p (drop i s)" and "i \<le> length s" and "\<And>j. i < j \<Longrightarrow> j \<le> length s \<Longrightarrow> \<not> prefix p (drop j s)"
  shows "rfind p s = Some i"
proof -
  have split: "[0..<Suc (length s)] = [0..<i] @ i # [Suc i..<Suc (length s)]"
    using assms(2) by (metis le_imp_less_Suc upt_conv_Cons upt_add_eq_append le_add_diff_inverse2 le_add_same_cancel2 zero_le
        le_Suc_eq le_add2 le_trans add.commute less_imp_le)
  have "filter (\<lambda>j. prefix p (drop j s)) [Suc i..<Suc (length s)] = []"
  proof (rule filter_False, rule ballI)
    fix j assume "j \<in> set [Suc i..<Suc (length s)]"
    then show "\<not> prefix p (drop j s)" using assms(3) [of j] by auto
  qed
  then have f: "filter (\<lambda>j. prefix p (drop j s)) [0..<Suc (length s)] = filter (\<lambda>j. prefix p (drop j s)) [0..<i] @ [i]"
    unfolding split using assms(1) by simp
  show ?thesis unfolding rfind_def f by (cases "filter (\<lambda>j. prefix p (drop j s)) [0..<i]") simp_all
qed

lemma contains_drop: "prefix p (drop j s) \<Longrightarrow> contains p s"
  unfolding contains_def by (metis append_take_drop_id prefix_def sublist_def append.assoc)

lemma contains_extend: "contains p u \<Longrightarrow> contains p (a @ u @ b)"
  unfolding contains_def sublist_def by (metis append.assoc)

lemma tex_prefix_later:
  assumes "prefix (tex ''boxed'') (drop j (tex ''boxed{'' @ rest))" and "0 < j"
  shows "contains (tex ''boxed'') rest"
proof (cases "j < 7")
  case True
  then have "j \<in> {1, 2, 3, 4, 5, 6}" using assms(2) by auto
  then show ?thesis using assms(1) by (auto simp: tex_def)
next
  case False
  have "length (tex ''boxed{'') = 7" by (simp add: tex_def)
  then have "drop j (tex ''boxed{'' @ rest) = drop (j - 7) rest" using False by (simp add: drop_append)
  then show ?thesis using assms(1) contains_drop by simp
qed

text \<open>C18: In a solution where no \<open>\boxed\<close> is followed by a blank (such a box takes precedence wherever it is), the scorer
  of the MATH data sets finds the answer in the last box, balanced braces inside it included, and the score is 1
  when that answer is equivalent to the ground truth and 0 otherwise.\<close>

theorem boxed_answer_scored:
  assumes b: "balanced 0 ans" and space: "\<not> contains (tex ''boxed '') (pre @ tex ''boxed{'' @ ans @ ''}'' @ post)"
    and lastbox: "\<not> contains (tex ''boxed'') (ans @ ''}'' @ post)"
  shows "last_boxed_only_string (pre @ tex ''boxed{'' @ ans @ ''}'' @ post) = Some (tex ''boxed{'' @ ans @ ''}'')
    \<and> remove_boxed (tex ''boxed{'' @ ans @ ''}'') = Inr ans
    \<and> math_compute_score (pre @ tex ''boxed{'' @ ans @ ''}'' @ post) truth = (if is_equiv (Some ans) (Some truth) then 1 else 0)"
proof -
  let ?s = "pre @ tex ''boxed{'' @ ans @ ''}'' @ post"
  have "rfind (tex ''boxed'') ?s = Some (length pre)"
  proof (rule rfind_last)
    show "prefix (tex ''boxed'') (drop (length pre) ?s)" by (simp add: tex_def)
    show "\<not> prefix (tex ''boxed'') (drop j ?s)" if "length pre < j" for j
      using tex_prefix_later [of "j - length pre" "ans @ ''}'' @ post"] lastbox that by auto
  qed simp
  moreover have "boxed_at (length pre) ?s = Some (tex ''boxed{'' @ ans @ ''}'')"
    using closing_brace_box [OF b, of post] by (simp add: boxed_at_def) (simp add: tex_def)
  ultimately have 1: "last_boxed_only_string ?s = Some (tex ''boxed{'' @ ans @ ''}'')"
    using space by (simp add: last_boxed_only_string_def)
  have "\<not> contains (tex ''boxed '') (tex ''boxed{'' @ ans @ ''}'')"
    using space contains_extend [of "tex ''boxed ''" "tex ''boxed{'' @ ans @ ''}''" pre post] by auto
  then have 2: "remove_boxed (tex ''boxed{'' @ ans @ ''}'') = Inr ans"
    by (simp add: remove_boxed_def tex_def butlast_append)
  show ?thesis using 1 2 by (simp add: math_compute_score_def)
qed

lemma boxed_answer_scored_witness:
  "math_compute_score (''so '' @ tex ''boxed{'' @ tex ''frac{1}{2}'' @ ''}'' @ ''.'') ''1/2'' = 1"
proof -
  have "is_equiv (Some (tex ''frac{1}{2}'')) (Some ''1/2'')" by code_simp
  moreover have "\<not> contains (tex ''boxed '') (''so '' @ tex ''boxed{'' @ tex ''frac{1}{2}'' @ ''}'' @ ''.'')" by code_simp
  moreover have "\<not> contains (tex ''boxed'') (tex ''frac{1}{2}'' @ ''}'' @ ''.'')" by code_simp
  moreover have "balanced 0 (tex ''frac{1}{2}'')" by (simp add: tex_def)
  ultimately show ?thesis using boxed_answer_scored [of "tex ''frac{1}{2}''" "''so ''" "''.''" "''1/2''"] by simp
qed

text \<open>Comparing answers is an equivalence relation, although normalization may fail and the texts
  themselves are compared then.\<close>

theorem is_equiv_equivalence: "equivp is_equiv"
proof (rule equivpI)
  show "reflp is_equiv" by (auto simp: reflp_def is_equiv_def split: option.splits sum.splits)
  show "symp is_equiv" by (auto simp: symp_def is_equiv_def split: option.splits sum.splits)
  show "transp is_equiv" by (rule transpI) (auto simp: is_equiv_def split: option.splits sum.splits)
qed

section \<open>The last number\<close>

definition mark :: string where
  "mark = ''#### ''"

text \<open>A number: an optional minus sign and digits, points and commas.\<close>

definition number :: "string \<Rightarrow> bool" where
  "number num \<longleftrightarrow> (\<exists>sign run. num = sign @ run \<and> sign \<in> {[], ''-''} \<and> run \<noteq> [] \<and> list_all number_char run)"

lemma takeWhile_all_then: "list_all P xs \<Longrightarrow> ys = [] \<or> \<not> P (hd ys) \<Longrightarrow> takeWhile P (xs @ ys) = xs"
  by (cases ys) (auto simp: list_all_iff takeWhile_append)

lemma number_token_number:
  assumes num: "number num" and tail: "after = [] \<or> \<not> number_char (hd after)"
  shows "number_token (num @ after) = Some (num, after)"
proof -
  obtain sign run where n: "num = sign @ run" "sign \<in> {[], ''-''}" "run \<noteq> []" "list_all number_char run"
    using num by (auto simp: number_def)
  obtain c cs where run: "run = c # cs" using n(3) by (cases run) auto
  have "c \<noteq> CHR ''-''" using n(4) run by (auto simp: number_char_def is_digit_def)
  then have sign: "takeWhile (\<lambda>c. c = CHR ''-'') (take 1 (num @ after)) = sign" using n(1,2) run by auto
  have "takeWhile number_char (run @ after) = run" by (rule takeWhile_all_then [OF n(4) tail])
  then show ?thesis using sign n(1,3) by (simp add: number_token_def Let_def)
qed

lemma takeWhile_stop: "\<not> P c \<Longrightarrow> takeWhile P (xs @ c # ys) = takeWhile P xs"
  by (induction xs) auto

text \<open>The rest after a number at the start of a text that is followed by the mark keeps the mark.\<close>

lemma number_token_keeps_mark:
  assumes "number_token (u @ mark @ v) = Some (t, rest)"
  shows "\<exists>u'. rest = u' @ mark @ v \<and> length u' < length u"
proof -
  define sg where "sg = takeWhile (\<lambda>c. c = CHR ''-'') (take 1 (u @ mark @ v))"
  define r where "r = drop (length sg) (u @ mark @ v)"
  define run where "run = takeWhile number_char r"
  have run: "run \<noteq> []" and rest: "rest = drop (length run) r"
    using assms unfolding number_token_def Let_def sg_def [symmetric] r_def [symmetric] run_def [symmetric]
    by (auto split: if_splits)
  have hash: "\<not> number_char CHR ''#''" by (simp add: number_char_def is_digit_def)
  have "u \<noteq> []" using run hash by (auto simp: run_def r_def sg_def mark_def)
  then have "length sg \<le> length u" by (cases u) (auto simp: sg_def)
  then have r: "r = drop (length sg) u @ mark @ v" by (simp add: r_def)
  have "run = takeWhile number_char (drop (length sg) u)"
    unfolding run_def r mark_def using takeWhile_stop [of number_char "CHR ''#''", OF hash] by simp
  then have len: "length run \<le> length (drop (length sg) u)" using length_takeWhile_le [of number_char "drop (length sg) u"] by simp
  then have "rest = drop (length run) (drop (length sg) u) @ mark @ v" unfolding rest r by simp
  moreover have "length (drop (length run) (drop (length sg) u)) < length u"
  proof -
    have "0 < length run" using run by blast
    with len show ?thesis unfolding length_drop by linarith
  qed
  ultimately show ?thesis by blast
qed

lemma no_overlapping_mark:
  assumes "prefix mark (u @ mark @ v)" and "u \<noteq> []"
  shows "5 \<le> length u"
proof (rule ccontr)
  assume "\<not> 5 \<le> length u"
  then have "length u = 1 \<or> length u = 2 \<or> length u = 3 \<or> length u = 4" using assms(2) length_greater_0_conv [of u] by arith
  then show False using assms(1) by (auto simp: mark_def length_Suc_conv numeral_eq_Suc)
qed

lemma find_numbers_last:
  assumes "number num" and "after = [] \<or> \<not> number_char (hd after)" and "find_numbers mark after = []"
  shows "\<exists>xs. find_numbers mark (pre @ mark @ num @ after) = xs @ [num]"
proof (induction "length pre" arbitrary: pre rule: less_induct)
  case less
  have num: "number_token (num @ after) = Some (num, after)" by (rule number_token_number [OF assms(1,2)])
  let ?s = "pre @ mark @ num @ after"
  have ne: "?s \<noteq> []" by (simp add: mark_def)
  show ?case
  proof (cases pre)
    case Nil
    then have "find_numbers mark ?s = num # find_numbers mark after"
      by (subst find_numbers.simps) (simp add: num, simp add: mark_def)
    then show ?thesis using assms(3) by auto
  next
    case (Cons c cs)
    show ?thesis
    proof (cases "if prefix mark ?s then number_token (drop (length mark) ?s) else None")
      case None
      then have "find_numbers mark ?s = find_numbers mark (cs @ mark @ num @ after)"
        by (subst find_numbers.simps, subst None) (simp add: Cons)
      then show ?thesis using less.hyps [of cs] Cons by simp
    next
      case (Some p)
      obtain t rest where p: "p = (t, rest)" by (cases p)
      have pm: "prefix mark ?s" using Some by (simp split: if_splits)
      from no_overlapping_mark [OF this] Cons have "5 \<le> length pre" by simp
      moreover have "length mark = 5" by (simp add: mark_def)
      ultimately have "drop (length mark) ?s = drop 5 pre @ mark @ num @ after" by simp
      then have "number_token (drop 5 pre @ mark @ num @ after) = Some (t, rest)" using Some p pm by (simp only: if_True)
      from number_token_keeps_mark [OF this] obtain u where u: "rest = u @ mark @ num @ after" "length u < length (drop 5 pre)" by blast
      have "length u < length pre" using u(2) by simp
      from less.hyps [OF this] obtain xs where "find_numbers mark rest = xs @ [num]" using u(1) by auto
      moreover have "find_numbers mark ?s = t # find_numbers mark rest"
        using ne Some p by (subst find_numbers.simps) simp
      ultimately show ?thesis by auto
    qed
  qed
qed

text \<open>C19: In strict mode the GSM8K scorer finds the last number after a mark, whatever the text before it is, when no
  later mark is followed by a number and the number with the text after it has at most 295 characters (the mark takes
  the other 5 of the last 300); commas are dropped, and the score is the full one exactly when the result is the
  ground truth.\<close>

theorem gsm8k_last_number:
  assumes num: "number num" and after: "after = [] \<or> \<not> number_char (hd after)" "find_numbers ''#### '' after = []"
    and fits: "length (num @ after) \<le> 295"
  shows "extract_solution ''strict'' (pre @ ''#### '' @ num @ after) = Inr (Some (filter (\<lambda>c. c \<noteq> CHR '','') num))
    \<and> gsm8k_compute_score ''strict'' (pre @ ''#### '' @ num @ after) truth format_score score
      = Inr (if filter (\<lambda>c. c \<noteq> CHR '','') num = truth then score else format_score)"
proof -
  let ?s = "pre @ mark @ num @ after"
  have "\<exists>u. (if solution_clip_chars < length ?s then last_chars solution_clip_chars ?s else ?s) = u @ mark @ num @ after"
  proof (cases "solution_clip_chars < length ?s")
    case True
    have "length ?s - 300 \<le> length pre" using fits by (simp add: mark_def)
    then have "last_chars solution_clip_chars ?s = drop (length ?s - 300) pre @ mark @ num @ after"
      by (simp add: last_chars_def solution_clip_chars_def)
    then show ?thesis using True by auto
  qed auto
  then obtain u where u: "(if solution_clip_chars < length ?s then last_chars solution_clip_chars ?s else ?s) = u @ mark @ num @ after"
    by blast
  obtain xs where xs: "find_numbers mark (u @ mark @ num @ after) = xs @ [num]"
    using find_numbers_last [OF num after(1)] after(2) by (auto simp: mark_def)
  have "\<forall>c \<in> set num. number_char c \<or> c = CHR ''-''" using num by (auto simp: number_def list_all_iff)
  moreover have "\<not> number_char CHR ''$''" by (simp add: number_char_def is_digit_def)
  ultimately have "CHR ''$'' \<notin> set num" by auto
  then have "filter (\<lambda>c. c \<noteq> CHR '','' \<and> c \<noteq> CHR ''$'') num = filter (\<lambda>c. c \<noteq> CHR '','') num"
    by (intro filter_cong) auto
  then have "extract_solution ''strict'' ?s = Inr (Some (filter (\<lambda>c. c \<noteq> CHR '','') num))"
    unfolding extract_solution_def Let_def u using xs by (cases xs) (simp_all add: mark_def)
  then show ?thesis by (simp add: gsm8k_compute_score_def mark_def)
qed

lemma gsm8k_last_number_witness:
  "gsm8k_compute_score ''strict'' (''2 #### 3 '' @ ''#### '' @ ''-1,234'' @ '' euros'') ''-1234'' 0 1 = Inr 1"
proof -
  have "number ''-1,234''" unfolding number_def by (rule exI [of _ "''-''"], rule exI [of _ "''1,234''"]) (simp add: number_char_def is_digit_def)
  moreover have "find_numbers ''#### '' '' euros'' = []" by code_simp
  ultimately show ?thesis
    using gsm8k_last_number [of "''-1,234''" "'' euros''" "''2 #### 3 ''" "''-1234''" 0 1]
    by (simp add: number_char_def is_digit_def)
qed

section \<open>Limits\<close>

text \<open>
  A box with a blank anywhere hides a later box with braces. A full stop after the number is taken as a part of it, and
  the flexible mode keeps commas and may return a single point.
\<close>

theorem reward_limits:
  "math_compute_score (''not '' @ tex ''boxed 1$ but '' @ tex ''boxed{2}'') ''2'' = 0
   \<and> gsm8k_compute_score ''strict'' ''#### 42.'' ''42'' 0 1 = Inr 0
   \<and> extract_solution ''flexible'' ''so -1,234 it is'' = Inr (Some ''-1,234'')
   \<and> extract_solution ''flexible'' ''no number.'' = Inr (Some ''.'')"
  by (intro conjI; code_simp)

end
