(* ===== verification/RolloutSpecs.thy ===== *)
theory RolloutSpecs
  imports PyText
begin

text \<open>
  The configuration of rollout correction: \<open>RolloutCorrectionConfig\<close> of
  \<open>verl/trainer/config/algorithm.py\<close> with its presets, and the threshold specifications that
  \<open>verl/trainer/ppo/rollout_corr_helper.py\<close> reads from it. Numbers are reals. The spellings of
  infinity and NaN are not numbers here. The text of an exception names the offending parameter
  only as far as it is a string.
\<close>

section \<open>Decimal numbers\<close>

text \<open>\<open>float(s)\<close>: blanks around it, a sign, digits with single underscores between them, a fraction
  and an exponent; \<open>None\<close> is \<open>ValueError\<close>.\<close>

fun more_digits :: "string \<Rightarrow> string \<times> string" where
  "more_digits [] = ([], [])"
| "more_digits (c # cs) =
     (if is_digit c then (case more_digits cs of (ds, r) \<Rightarrow> (c # ds, r))
      else if c = CHR ''_'' \<and> cs \<noteq> [] \<and> is_digit (hd cs) then more_digits cs
      else ([], c # cs))"

definition digit_part :: "string \<Rightarrow> string \<times> string" where
  "digit_part s = (if s \<noteq> [] \<and> is_digit (hd s) then more_digits s else ([], s))"

definition take_sign :: "string \<Rightarrow> bool \<times> string" where
  "take_sign s = (if s \<noteq> [] \<and> hd s \<in> {CHR ''-'', CHR ''+''} then (hd s = CHR ''-'', tl s) else (False, s))"

definition digits_value :: "string \<Rightarrow> nat" where
  "digits_value s = foldl (\<lambda>n c. 10 * n + (of_char c - 48)) 0 s"

definition exponent :: "string \<Rightarrow> (bool \<times> nat) option" where
  "exponent s =
     (case s of
        [] \<Rightarrow> Some (False, 0)
      | c # cs \<Rightarrow>
          if c \<in> {CHR ''e'', CHR ''E''} then
            (case take_sign cs of (neg, t) \<Rightarrow> case digit_part t of (ds, r) \<Rightarrow>
               if ds = [] \<or> r \<noteq> [] then None else Some (neg, digits_value ds))
          else None)"

definition parse_float :: "string \<Rightarrow> real option" where
  "parse_float s =
     (case take_sign (strip s) of (neg, t) \<Rightarrow>
      case digit_part t of (int_part, r) \<Rightarrow>
      case (if r \<noteq> [] \<and> hd r = CHR ''.'' then digit_part (tl r) else ([], r)) of (frac_part, r) \<Rightarrow>
      if int_part = [] \<and> frac_part = [] then None
      else map_option (\<lambda>(eneg, e).
             let m = real (digits_value (int_part @ frac_part)) / 10 ^ length frac_part;
                 x = (if eneg then m / 10 ^ e else m * 10 ^ e)
             in if neg then - x else x) (exponent r))"

section \<open>Threshold specifications\<close>

text \<open>A threshold as the configuration holds it; \<open>TOther\<close> is a value of any other type.\<close>

datatype threshold = TBool bool | TNum real | TStr string | TOther

text \<open>\<open>a, b = s.split("_", 1)\<close> for a text with an underscore.\<close>

definition split_underscore :: "string \<Rightarrow> string \<times> string" where
  "split_underscore s = (takeWhile (\<lambda>c. c \<noteq> CHR ''_'') s, tl (dropWhile (\<lambda>c. c \<noteq> CHR ''_'') s))"

definition has_underscore :: "string \<Rightarrow> bool" where
  "has_underscore s \<longleftrightarrow> CHR ''_'' \<in> set s"

definition invalid_is_threshold :: "string \<Rightarrow> pyexn" where
  "invalid_is_threshold s = ValueError (''Invalid rollout_is_threshold '' @ quoted s @ ''.'')"

definition parse_is_text :: "string \<Rightarrow> (real \<times> real option) result" where
  "parse_is_text s =
     (let spec = strip s
      in if spec = [] then Inl (ValueError ''rollout_is_threshold must not be an empty string.'')
         else if has_underscore spec then
           (case split_underscore spec of (lower_str, upper_str) \<Rightarrow>
              case (parse_float lower_str, parse_float upper_str) of
                (Some l, Some u) \<Rightarrow> Inr (u, Some l)
              | _ \<Rightarrow> Inl (invalid_is_threshold s))
         else (case parse_float spec of Some u \<Rightarrow> Inr (u, None) | None \<Rightarrow> Inl (invalid_is_threshold s)))"

definition read_is_threshold :: "threshold \<Rightarrow> (real \<times> real option) result" where
  "read_is_threshold threshold_spec =
     (case threshold_spec of
        TBool _ \<Rightarrow> Inl (TypeError ''rollout_is_threshold must be specified as a float or a string threshold specification, not a boolean.'')
      | TNum x \<Rightarrow> Inr (x, None)
      | TStr s \<Rightarrow> parse_is_text s
      | TOther \<Rightarrow> Inl (TypeError ''rollout_is_threshold must be a float or a string threshold specification.''))"

definition check_is_bounds :: "real \<Rightarrow> real option \<Rightarrow> (real \<times> real option) result" where
  "check_is_bounds u l =
     (if u \<le> 0 then Inl (ValueError ''rollout_is_threshold upper bound must be positive'')
      else (case l of
              None \<Rightarrow> Inr (u, None)
            | Some l' \<Rightarrow>
                if l' \<le> 0 then Inl (ValueError ''rollout_is_threshold lower bound must be positive'')
                else if u < l' then Inl (ValueError ''rollout_is_threshold lower bound must be <= upper bound.'')
                else Inr (u, Some l')))"

definition parse_rollout_is_threshold :: "threshold \<Rightarrow> (real \<times> real option) result" where
  "parse_rollout_is_threshold threshold_spec =
     rbind (read_is_threshold threshold_spec) (\<lambda>(u, l). check_is_bounds u l)"

text \<open>
  One threshold per rejection option. The code turns a number into its text and reads it back; the
  model keeps the number, \<open>RawNum\<close>. A boolean has the text \<open>True\<close> or \<open>False\<close>, which is no number.
\<close>

datatype raw_spec = RawNum real | RawText string

fun raw_float :: "raw_spec \<Rightarrow> real option" where
  "raw_float (RawNum x) = Some x"
| "raw_float (RawText s) = parse_float s"

fun raw_bounds :: "raw_spec \<Rightarrow> (raw_spec \<times> raw_spec) option" where
  "raw_bounds (RawNum x) = None"
| "raw_bounds (RawText s) =
     (if has_underscore s then (case split_underscore s of (a, b) \<Rightarrow> Some (RawText a, RawText b)) else None)"

text \<open>The two bounds of a k1 option: a single value gives the upper one and its reciprocal.\<close>

definition k1_bounds :: "string \<Rightarrow> raw_spec \<Rightarrow> (real \<times> real) result" where
  "k1_bounds option_name spec =
     (case raw_bounds spec of
        Some (lower_str, upper_str) \<Rightarrow>
          (case (raw_float lower_str, raw_float upper_str) of
             (Some l, Some u) \<Rightarrow> Inr (l, u)
           | _ \<Rightarrow> Inl (ValueError (''Invalid numeric threshold for option '' @ quoted option_name @ ''.'')))
      | None \<Rightarrow>
          (case raw_float spec of
             None \<Rightarrow> Inl (ValueError ''could not convert string to float'')
           | Some u \<Rightarrow> if u = 0 then Inl (ZeroDivisionError ''float division by zero'') else Inr (1 / u, u)))"

definition option_threshold :: "string \<Rightarrow> raw_spec \<Rightarrow> (real option \<times> real) result" where
  "option_threshold option_name spec =
     (if suffix ''k1'' option_name then
        rbind (k1_bounds option_name spec) (\<lambda>(l, u).
          if l \<le> 0 \<or> u \<le> 0
          then Inl (ValueError (''Thresholds for option '' @ quoted option_name @ '' must be positive''))
          else Inr (Some l, u))
      else if raw_bounds spec \<noteq> None then
        Inl (ValueError (''rollout_rs_threshold for option '' @ quoted option_name @ '' must provide a single upper bound without '' @ quoted ''_'' @ ''.''))
      else (case raw_float spec of
              None \<Rightarrow> Inl (ValueError (''Invalid numeric threshold for option '' @ quoted option_name @ ''.''))
            | Some u \<Rightarrow>
                if u \<le> 0 then Inl (ValueError (''Threshold for option '' @ quoted option_name @ '' must be positive''))
                else Inr (None, u)))"

definition raw_specs :: "threshold \<Rightarrow> raw_spec list result" where
  "raw_specs threshold_spec =
     (case threshold_spec of
        TBool b \<Rightarrow> Inr [RawText (if b then ''True'' else ''False'')]
      | TNum x \<Rightarrow> Inr [RawNum x]
      | TStr s \<Rightarrow> Inr (map RawText (filter (\<lambda>p. p \<noteq> []) (map strip (split_char CHR '','' s))))
      | TOther \<Rightarrow> Inl (TypeError ''rollout_rs_threshold must be a string or numeric value specifying per-option thresholds.''))"

type_synonym thresholds = "(string \<times> real option \<times> real) list"

definition add_threshold :: "string \<times> raw_spec \<Rightarrow> thresholds \<Rightarrow> thresholds result" where
  "add_threshold p ts = (case p of (option_name, spec) \<Rightarrow>
     rbind (option_threshold option_name spec) (\<lambda>t. Inr (dict_set option_name t ts)))"

definition match_specs :: "nat \<Rightarrow> raw_spec list \<Rightarrow> raw_spec list result" where
  "match_specs n raws =
     (if raws = [] then Inl (ValueError ''rollout_rs_threshold must contain at least one threshold value.'')
      else if length raws \<notin> {1, n}
      then Inl (ValueError (''rollout_rs_threshold expects either one threshold shared by all options or exactly '' @
             show_nat n @ '' thresholds to match the provided rollout_rs options.''))
      else Inr (if length raws = 1 \<and> 1 < n then concat (replicate n raws) else raws))"

definition parse_rollout_rs_thresholds :: "string list \<Rightarrow> threshold option \<Rightarrow> thresholds result" where
  "parse_rollout_rs_thresholds options threshold_spec =
     (case threshold_spec of
        None \<Rightarrow> Inl (ValueError ''rollout_rs_threshold must be provided for rejection sampling.'')
      | Some spec \<Rightarrow>
          rbind (rbind (raw_specs spec) (match_specs (length options)))
            (\<lambda>raws. for_each add_threshold (zip options raws) []))"

section \<open>Options\<close>

definition token_level_options :: "string list" where
  "token_level_options = [''token_k1'', ''token_k2'', ''token_k3'']"

definition supported_options :: "string list" where
  "supported_options = token_level_options @
     [''seq_sum_k1'', ''seq_sum_k2'', ''seq_sum_k3'', ''seq_mean_k1'', ''seq_mean_k2'', ''seq_mean_k3'',
      ''seq_max_k2'', ''seq_max_k3'']"

text \<open>The options of a comma-separated list, without duplicates, in the order of first occurrence.\<close>

fun normalize_options :: "string list \<Rightarrow> string list \<Rightarrow> string list result" where
  "normalize_options [] normalized = Inr normalized"
| "normalize_options (opt # opts) normalized =
     (if opt \<notin> set supported_options then Inl (ValueError (''Invalid rollout_rs option: '' @ opt @ ''.''))
      else normalize_options opts (if opt \<in> set normalized then normalized else normalized @ [opt]))"

definition parse_options :: "string \<Rightarrow> string list result" where
  "parse_options rollout_rs =
     (let option_modes = filter (\<lambda>p. p \<noteq> []) (map strip (split_char CHR '','' rollout_rs))
      in if option_modes = [] then Inl (ValueError ''rollout_rs must contain at least one valid option.'')
         else normalize_options option_modes [])"

section \<open>The configuration\<close>

record rollout_config =
  rollout_is :: "string option"
  rollout_is_threshold :: "threshold option"
  rollout_is_batch_normalize :: bool
  rollout_rs :: "string option"
  rollout_rs_threshold :: "threshold option"
  bypass_mode :: bool
  loss_type :: string

definition rollout_config_default :: rollout_config where
  "rollout_config_default =
     \<lparr>rollout_is = Some ''sequence'', rollout_is_threshold = Some (TNum 2), rollout_is_batch_normalize = False,
      rollout_rs = None, rollout_rs_threshold = None, bypass_mode = False, loss_type = ''ppo_clip''\<rparr>"

text \<open>The parts the presets are made of.\<close>

definition with_is :: "string option \<Rightarrow> threshold option \<Rightarrow> rollout_config \<Rightarrow> rollout_config" where
  "with_is level t c = c\<lparr>rollout_is := level, rollout_is_threshold := t\<rparr>"

definition with_rs :: "string \<Rightarrow> threshold option \<Rightarrow> rollout_config \<Rightarrow> rollout_config" where
  "with_rs mode t c = c\<lparr>rollout_rs := Some mode, rollout_rs_threshold := t\<rparr>"

definition bypass :: "string \<Rightarrow> rollout_config \<Rightarrow> rollout_config" where
  "bypass loss c = c\<lparr>bypass_mode := True, loss_type := loss\<rparr>"

definition no_is :: "rollout_config \<Rightarrow> rollout_config" where
  "no_is c = c\<lparr>rollout_is := None\<rparr>"

abbreviation "base_config \<equiv> rollout_config_default"

definition decoupled_token_is :: "real \<Rightarrow> rollout_config" where
  "decoupled_token_is t = with_is (Some ''token'') (Some (TNum t)) base_config"

definition decoupled_seq_is :: "real \<Rightarrow> rollout_config" where
  "decoupled_seq_is t = with_is (Some ''sequence'') (Some (TNum t)) base_config"

text \<open>\<open>show_float\<close> is the text of a float in an f-string.\<close>

definition decoupled_token_icepop :: "(real \<Rightarrow> string) \<Rightarrow> real \<Rightarrow> real \<Rightarrow> rollout_config" where
  "decoupled_token_icepop show_float t t_lower =
     with_is (Some ''token'') (Some (TStr (show_float t_lower @ ''_'' @ show_float t))) base_config"

definition decoupled_seq_is_rs :: "real \<Rightarrow> threshold option \<Rightarrow> rollout_config" where
  "decoupled_seq_is_rs t rs = with_rs ''seq_sum_k1'' rs (decoupled_seq_is t)"

definition decoupled_geo_rs :: "threshold option \<Rightarrow> rollout_config" where
  "decoupled_geo_rs rs = with_rs ''seq_mean_k1'' rs (no_is base_config)"

definition bypass_ppo_clip :: rollout_config where
  "bypass_ppo_clip = bypass ''ppo_clip'' (no_is base_config)"

definition bypass_ppo_clip_geo_rs :: "threshold option \<Rightarrow> rollout_config" where
  "bypass_ppo_clip_geo_rs rs = bypass ''ppo_clip'' (decoupled_geo_rs rs)"

definition decoupled_k3_rs :: "real \<Rightarrow> rollout_config" where
  "decoupled_k3_rs rs = with_rs ''seq_mean_k3'' (Some (TNum rs)) (no_is base_config)"

definition bypass_ppo_clip_k3_rs :: "real \<Rightarrow> rollout_config" where
  "bypass_ppo_clip_k3_rs rs = bypass ''ppo_clip'' (decoupled_k3_rs rs)"

definition bypass_pg_is :: "real \<Rightarrow> rollout_config" where
  "bypass_pg_is t = bypass ''reinforce'' (decoupled_seq_is t)"

definition bypass_pg_token_icepop :: "(real \<Rightarrow> string) \<Rightarrow> real \<Rightarrow> real \<Rightarrow> rollout_config" where
  "bypass_pg_token_icepop show_float t t_lower = bypass ''reinforce'' (decoupled_token_icepop show_float t t_lower)"

definition bypass_pg_geo_rs :: "threshold option \<Rightarrow> rollout_config" where
  "bypass_pg_geo_rs rs = bypass ''reinforce'' (decoupled_geo_rs rs)"

definition decoupled_geo_rs_seq_tis :: "real \<Rightarrow> threshold option \<Rightarrow> rollout_config" where
  "decoupled_geo_rs_seq_tis t rs = with_rs ''seq_mean_k1'' rs (decoupled_seq_is t)"

definition decoupled_geo_rs_token_tis :: "real \<Rightarrow> threshold option \<Rightarrow> rollout_config" where
  "decoupled_geo_rs_token_tis t rs = with_rs ''seq_mean_k1'' rs (decoupled_token_is t)"

definition bypass_pg_geo_rs_seq_tis :: "real \<Rightarrow> threshold option \<Rightarrow> rollout_config" where
  "bypass_pg_geo_rs_seq_tis t rs = bypass ''reinforce'' (decoupled_geo_rs_seq_tis t rs)"

definition bypass_pg_geo_rs_token_tis :: "real \<Rightarrow> threshold option \<Rightarrow> rollout_config" where
  "bypass_pg_geo_rs_token_tis t rs = bypass ''reinforce'' (decoupled_geo_rs_token_tis t rs)"

definition decoupled_k3_rs_seq_tis :: "real \<Rightarrow> real \<Rightarrow> rollout_config" where
  "decoupled_k3_rs_seq_tis t rs = with_rs ''seq_mean_k3'' (Some (TNum rs)) (decoupled_seq_is t)"

definition decoupled_k3_rs_token_tis :: "real \<Rightarrow> real \<Rightarrow> rollout_config" where
  "decoupled_k3_rs_token_tis t rs = with_rs ''seq_mean_k3'' (Some (TNum rs)) (decoupled_token_is t)"

definition disabled :: rollout_config where
  "disabled = no_is base_config"

section \<open>What the parsers accept\<close>

lemma parse_is_bounds:
  assumes "parse_rollout_is_threshold t = Inr (u, l)"
  shows "0 < u \<and> (\<forall>l'. l = Some l' \<longrightarrow> 0 < l' \<and> l' \<le> u)"
proof -
  obtain u' l' where "check_is_bounds u' l' = Inr (u, l)"
    using assms by (auto simp: parse_rollout_is_threshold_def rbind_eq_Inr)
  then show ?thesis by (auto simp: check_is_bounds_def split: option.splits if_splits)
qed

lemma option_threshold_bounds:
  "option_threshold opt spec = Inr (l, u) \<Longrightarrow>
     0 < u \<and> (suffix ''k1'' opt \<longrightarrow> (\<exists>l'. l = Some l' \<and> 0 < l')) \<and> (\<not> suffix ''k1'' opt \<longrightarrow> l = None)"
  by (auto simp: option_threshold_def rbind_eq_Inr split: option.splits if_splits)

definition thresholds_ok :: "thresholds \<Rightarrow> bool" where
  "thresholds_ok ts \<longleftrightarrow> (\<forall>(opt, l, u)\<in>set ts. 0 < u
     \<and> (if suffix ''k1'' opt then \<exists>l'. l = Some l' \<and> 0 < l' else l = None))"

lemma set_dict_set: "x \<in> set (dict_set k v d) \<Longrightarrow> x = (k, v) \<or> x \<in> set d"
  by (induction k v d rule: dict_set.induct) (auto split: if_splits)

lemma add_threshold_eq:
  "add_threshold p ts = Inr ts' \<longleftrightarrow> (\<exists>t. option_threshold (fst p) (snd p) = Inr t \<and> ts' = dict_set (fst p) t ts)"
  by (cases p) (auto simp: add_threshold_def rbind_eq_Inr)

lemma add_threshold_ok:
  assumes "add_threshold p ts = Inr ts'" and "thresholds_ok ts"
  shows "thresholds_ok ts'"
proof -
  obtain l u where t: "option_threshold (fst p) (snd p) = Inr (l, u)" and ts': "ts' = dict_set (fst p) (l, u) ts"
    using assms(1) by (auto simp: add_threshold_eq)
  show ?thesis
    unfolding thresholds_ok_def
  proof
    fix x assume "x \<in> set ts'"
    then consider "x = (fst p, l, u)" | "x \<in> set ts" using ts' set_dict_set by metis
    then show "case x of (opt, l, u) \<Rightarrow> 0 < u
        \<and> (if suffix ''k1'' opt then \<exists>l'. l = Some l' \<and> 0 < l' else l = None)"
      by cases (use option_threshold_bounds [OF t] assms(2) in \<open>auto simp: thresholds_ok_def\<close>)
  qed
qed

lemma for_each_thresholds_keys:
  "for_each add_threshold ps ts = Inr ts' \<Longrightarrow> distinct (map fst ts @ map fst ps) \<Longrightarrow> map fst ts' = map fst ts @ map fst ps"
proof (induction ps arbitrary: ts)
  case (Cons p ps)
  then obtain ts1 where "add_threshold p ts = Inr ts1" and rest: "for_each add_threshold ps ts1 = Inr ts'"
    by (auto simp: rbind_eq_Inr)
  then obtain t where "ts1 = dict_set (fst p) t ts" by (auto simp: add_threshold_eq)
  then have "map fst ts1 = map fst ts @ [fst p]"
    using Cons.prems(2) by (simp add: dict_set_keys)
  then show ?case using Cons.IH [OF rest] Cons.prems(2) by simp
qed simp

lemma normalize_options_distinct:
  "normalize_options opts acc = Inr ns \<Longrightarrow> distinct acc \<Longrightarrow>
     distinct ns \<and> set ns = set acc \<union> set opts \<and> set opts \<subseteq> set supported_options"
  by (induction opts acc rule: normalize_options.induct) (auto split: if_splits)

lemma parse_options_distinct:
  "parse_options s = Inr ns \<Longrightarrow> distinct ns \<and> set ns \<subseteq> set supported_options \<and> ns \<noteq> []"
  by (auto simp: parse_options_def Let_def dest!: normalize_options_distinct split: if_splits)

lemma match_specs_length:
  assumes "match_specs n raws = Inr raws'" and "0 < n"
  shows "length raws' = n"
proof -
  have "length (concat (replicate n raws)) = n * length raws" by (induction n) simp_all
  moreover have "n = 1" if "\<not> 1 < n" using that assms(2) by linarith
  ultimately show ?thesis using assms by (auto simp: match_specs_def split: if_splits)
qed

lemma parse_rs_thresholds_ok:
  assumes "parse_rollout_rs_thresholds options spec = Inr ts" and "distinct options" and "options \<noteq> []"
  shows "thresholds_ok ts \<and> map fst ts = options"
proof -
  obtain raws0 raws where "match_specs (length options) raws0 = Inr raws"
    and run: "for_each add_threshold (zip options raws) [] = Inr ts"
    using assms(1) by (auto simp: parse_rollout_rs_thresholds_def rbind_eq_Inr split: option.splits)
  then have "length raws = length options" using match_specs_length assms(3) by simp
  then have "map fst ts = options" using for_each_thresholds_keys [OF run] assms(2) by simp
  moreover have "thresholds_ok ts"
    by (rule for_each_invariant [OF run]) (auto simp: thresholds_ok_def [of "[]"] intro: add_threshold_ok)
  ultimately show ?thesis by blast
qed

end
