(* ===== verification/RolloutCorr.thy ===== *)
theory RolloutCorr
  imports RolloutSpecs Losses DataProto
begin

text \<open>
  Rollout correction, \<open>verl/trainer/ppo/rollout_corr_helper.py\<close>: the importance weights and the
  rejection mask for the gap between the policy that generated the responses and the policy that is
  trained, their metrics, the entry points that read and change the batch, and the policy loss of
  bypass mode in \<open>core_algos.py\<close>. \<open>math.log\<close> and \<open>torch.log\<close> are applied to positive
  thresholds only, which the parsers guarantee. Values are dictionaries of reals; \<open>.item()\<close> is the
  identity.
\<close>

type_synonym metrics = "(string \<times> real) list"

section \<open>Reductions\<close>

definition any_valid :: "mat \<Rightarrow> bool" where
  "any_valid response_mask \<longleftrightarrow> (\<exists>x\<in>set (concat response_mask). x \<noteq> 0)"

definition no_valid_token :: pyexn where
  "no_valid_token = ValueError ''response_mask must contain at least one valid token (1).''"

text \<open>\<open>x.masked_fill(~mask, -inf).max()\<close> is the maximum over the selected values.\<close>

definition kept_values :: "vec \<Rightarrow> vec \<Rightarrow> vec" where
  "kept_values vs ms = map fst (filter (\<lambda>(_, m). m \<noteq> 0) (zip vs ms))"

definition vmax :: "vec \<Rightarrow> real" where "vmax xs = Max (set xs)"
definition vmin :: "vec \<Rightarrow> real" where "vmin xs = Min (set xs)"

definition row_masked_sums :: "mat \<Rightarrow> mat \<Rightarrow> vec" where
  "row_masked_sums vs ms = map2 masked_sum vs ms"

definition row_masked_means :: "mat \<Rightarrow> mat \<Rightarrow> vec" where
  "row_masked_means vs ms = map2 masked_mean vs ms"

definition row_masked_maxs :: "mat \<Rightarrow> mat \<Rightarrow> vec" where
  "row_masked_maxs vs ms = map2 (\<lambda>v m. if kept_values v m = [] then 0 else vmax (kept_values v m)) vs ms"

definition expand_rows :: "vec \<Rightarrow> mat \<Rightarrow> mat" where
  "expand_rows s like = map2 (\<lambda>x row. replicate (length row) x) s like"

definition select_rows :: "bool list \<Rightarrow> vec \<Rightarrow> vec" where
  "select_rows bs xs = map fst (filter snd (zip xs bs))"

definition fraction :: "(real \<Rightarrow> bool) \<Rightarrow> vec \<Rightarrow> real" where
  "fraction p xs = tmean (map (\<lambda>x. indicator_real (p x)) xs)"

definition masked_fraction :: "(real \<Rightarrow> bool) \<Rightarrow> mat \<Rightarrow> mat \<Rightarrow> real" where
  "masked_fraction p vs ms = mean_over (mmap (\<lambda>x. indicator_real (p x)) vs) ms"

definition std_or_zero :: "vec \<Rightarrow> real" where
  "std_or_zero xs = (if 1 < length xs then tstd xs else 0)"

definition clamped_std :: "real \<Rightarrow> real \<Rightarrow> mat \<Rightarrow> mat \<Rightarrow> real" where
  "clamped_std lo hi vs ms =
     (if 1 < sum_list (concat ms) then
        (let s = mmap (clamp lo hi) vs
         in sqrt (max (mean_over (mmap (\<lambda>x. x\<^sup>2) s) ms - (mean_over s ms)\<^sup>2) 0))
      else 0)"

definition safe_log_ratio :: "mat \<Rightarrow> mat" where
  "safe_log_ratio log_ratio = mmap (clamp (- 20) 20) log_ratio"

section \<open>Rejection sampling\<close>

definition compute_rs_metrics ::
    "string \<Rightarrow> mat \<Rightarrow> mat \<Rightarrow> bool list \<Rightarrow> bool \<Rightarrow> vec option \<Rightarrow> real \<Rightarrow> real \<Rightarrow> bool \<Rightarrow> metrics result" where
  "compute_rs_metrics option_name rs_statistic response_mask seq_valid_mask is_seq per_sequence_values hi lo apply_lower =
     (if \<not> any_valid response_mask then Inl no_valid_token
      else
        (let key = (\<lambda>s. ''rollout_rs_'' @ option_name @ s);
             seq_values = (case per_sequence_values of Some v \<Rightarrow> v | None \<Rightarrow> row_masked_means rs_statistic response_mask);
             valid = select_rows seq_valid_mask seq_values;
             by_seq = (is_seq \<and> valid \<noteq> []);
             extremes = (if by_seq then valid else kept_values (concat rs_statistic) (concat response_mask))
         in Inr ([(key ''_mean'', mean_over rs_statistic response_mask),
                  (key ''_max'', vmax extremes),
                  (key ''_min'', vmin extremes),
                  (key ''_fraction_high'', if by_seq then fraction (\<lambda>x. hi < x) valid
                                           else masked_fraction (\<lambda>x. hi < x) rs_statistic response_mask),
                  (key ''_fraction_low'', if \<not> apply_lower then 0
                                          else if by_seq then fraction (\<lambda>x. x < lo) valid
                                          else masked_fraction (\<lambda>x. x < lo) rs_statistic response_mask),
                  (key ''_std'', clamped_std (if apply_lower then lo else 0) hi rs_statistic response_mask)]
             @ (if valid \<noteq> [] then
                  [(key ''_seq_mean'', tmean valid),
                   (key ''_seq_std'', std_or_zero valid),
                   (key ''_seq_max'', vmax valid),
                   (key ''_seq_min'', vmin valid),
                   (key ''_seq_max_deviation'', vmax (map abs valid)),
                   (key ''_seq_fraction_high'', fraction (\<lambda>x. hi < x) valid)]
                  @ (if apply_lower then [(key ''_seq_fraction_low'', fraction (\<lambda>x. x < lo) valid)] else [])
                else map (\<lambda>s. (key s, 0)) [''_seq_mean'', ''_seq_std'', ''_seq_max'', ''_seq_min'',
                       ''_seq_max_deviation'', ''_seq_fraction_high'', ''_seq_fraction_low'']))))"

text \<open>The divergence estimators k1, k2 and k3 of a clamped log ratio.\<close>

definition divergence :: "string \<Rightarrow> real \<Rightarrow> real" where
  "divergence option_name x =
     (if suffix ''k1'' option_name then - x
      else if suffix ''k2'' option_name then 1 / 2 * x\<^sup>2
      else exp x - 1 - x)"

text \<open>The statistic of an option per sequence, \<open>None\<close> for a token-level option, and per token.\<close>

definition sequence_statistic :: "string \<Rightarrow> mat \<Rightarrow> mat \<Rightarrow> vec result" where
  "sequence_statistic option_name values response_mask =
     (if prefix ''seq_sum'' option_name then Inr (row_masked_sums values response_mask)
      else if prefix ''seq_mean'' option_name then Inr (row_masked_means values response_mask)
      else if prefix ''seq_max'' option_name \<and> \<not> suffix ''k1'' option_name then Inr (row_masked_maxs values response_mask)
      else Inl (ValueError (''Unsupported rollout_rs option: '' @ option_name @ ''.'')))"

definition option_statistic :: "string \<Rightarrow> mat \<Rightarrow> mat \<Rightarrow> (mat \<times> vec option) result" where
  "option_statistic option_name log_ratio_safe response_mask =
     (let values = mmap (divergence option_name) log_ratio_safe
      in if option_name \<in> set token_level_options then Inr (values, None)
         else rbind (sequence_statistic option_name values response_mask) (\<lambda>seq_stat.
                Inr (expand_rows seq_stat response_mask, Some seq_stat)))"

text \<open>The interval a statistic must be in: logarithms of the ratio bounds for k1, else an upper bound.\<close>

definition statistic_bounds :: "string \<Rightarrow> real option \<times> real \<Rightarrow> (real option \<times> real) result" where
  "statistic_bounds option_name t = (case t of (lower_value, upper_value) \<Rightarrow>
     if suffix ''k1'' option_name then
       (case lower_value of
          None \<Rightarrow> Inl (ValueError (''rollout_rs_threshold for option '' @ quoted option_name @ '' must specify both lower and upper bounds.''))
        | Some l \<Rightarrow> Inr (Some (ln l), ln upper_value))
     else Inr (None, upper_value))"

definition keeps :: "real option \<times> real \<Rightarrow> real \<Rightarrow> bool" where
  "keeps b x \<longleftrightarrow> (case fst b of None \<Rightarrow> True | Some lo \<Rightarrow> lo \<le> x) \<and> x \<le> snd b"

definition sequence_kept :: "bool list \<Rightarrow> vec \<Rightarrow> bool" where
  "sequence_kept ks ms \<longleftrightarrow> list_all (\<lambda>(k, m). m \<noteq> 0 \<longrightarrow> k) (zip ks ms)"

definition seq_masked_fraction :: "mat \<Rightarrow> mat \<Rightarrow> bool list \<Rightarrow> real" where
  "seq_masked_fraction token_keep_mask response_mask seq_valid_mask =
     (let seq_valid = map indicator_real seq_valid_mask;
          seq_keep = map2 (\<lambda>ks ms. indicator_real (sequence_kept (map (\<lambda>k. k \<noteq> 0) ks) ms)) token_keep_mask response_mask
      in if 0 < sum_list seq_valid then sum_list (map2 (\<lambda>k v. (1 - k) * v) seq_keep seq_valid) / sum_list seq_valid else 0)"

definition keep_mask :: "real option \<times> real \<Rightarrow> mat \<Rightarrow> mat" where
  "keep_mask b stat = mmap (\<lambda>x. indicator_real (keeps b x)) stat"

text \<open>The keep mask and the metrics of one option.\<close>

definition masked_fractions :: "string \<Rightarrow> mat \<Rightarrow> mat \<Rightarrow> bool list \<Rightarrow> metrics" where
  "masked_fractions option_name token_keep_mask response_mask seq_valid_mask =
     [(''rollout_rs_'' @ option_name @ ''_masked_fraction'',
        mean_over (mmap (\<lambda>k. 1 - k) token_keep_mask) response_mask),
      (''rollout_rs_'' @ option_name @ ''_seq_masked_fraction'',
        seq_masked_fraction token_keep_mask response_mask seq_valid_mask)]"

definition apply_option ::
    "mat \<Rightarrow> mat \<Rightarrow> bool list \<Rightarrow> string \<times> real option \<times> real \<Rightarrow> (mat \<times> metrics) result" where
  "apply_option log_ratio_safe response_mask seq_valid_mask opt = (case opt of (option_name, thresholds_info) \<Rightarrow>
     rbind (statistic_bounds option_name thresholds_info) (\<lambda>b.
     rbind (option_statistic option_name log_ratio_safe response_mask) (\<lambda>(per_token_stat, per_sequence_stat).
     rbind (compute_rs_metrics option_name per_token_stat response_mask seq_valid_mask
              (option_name \<notin> set token_level_options) per_sequence_stat (snd b)
              (case fst b of None \<Rightarrow> 0 | Some lo \<Rightarrow> lo) (suffix ''k1'' option_name)) (\<lambda>option_metrics.
       Inr (keep_mask b per_token_stat,
            dict_update option_metrics
              (masked_fractions option_name (keep_mask b per_token_stat) response_mask seq_valid_mask))))))"

definition rejection_step ::
    "mat \<Rightarrow> mat \<Rightarrow> bool list \<Rightarrow> string \<times> real option \<times> real \<Rightarrow> mat \<times> metrics \<Rightarrow> (mat \<times> metrics) result" where
  "rejection_step log_ratio_safe response_mask seq_valid_mask opt st =
     rbind (apply_option log_ratio_safe response_mask seq_valid_mask opt) (\<lambda>(token_keep_mask, option_metrics).
       case st of (combined_mask, ms) \<Rightarrow> Inr (mzip (*) combined_mask token_keep_mask, dict_update ms option_metrics))"

definition compute_rollout_rejection_mask ::
    "mat \<Rightarrow> mat \<Rightarrow> string option \<Rightarrow> threshold option \<Rightarrow> (mat \<times> metrics) result" where
  "compute_rollout_rejection_mask log_ratio response_mask rs rs_threshold =
     (case rs of
        None \<Rightarrow> Inl (ValueError ''rollout_rs must be a non-empty string (comma separated for multiple options).'')
      | Some modes \<Rightarrow>
          if rs_threshold = None
          then Inl (ValueError ''rollout_rs_threshold must be provided for rejection sampling.'')
          else if log_ratio = [] then Inr (response_mask, [])
          else
            rbind (parse_options modes) (\<lambda>normalized_options.
            rbind (parse_rollout_rs_thresholds normalized_options rs_threshold) (\<lambda>threshold_specs.
            rbind (for_each (rejection_step (safe_log_ratio log_ratio) response_mask
                     (map (\<lambda>row. 0 < sum_list row) response_mask))
                   threshold_specs (mmap (\<lambda>_. 1) response_mask, [])) (\<lambda>(final_mask, ms).
              let final_keep = mmap (\<lambda>x. 1 / 2 < x) final_mask;
                  seq_has_masked = map2 (\<lambda>ks row. indicator_real (\<not> sequence_kept ks row)) final_keep response_mask
              in Inr (mzip (*) response_mask final_mask,
                   dict_update ms
                     [(''rollout_rs_masked_fraction'', mean_over (mmap (\<lambda>k. 1 - k) final_mask) response_mask),
                      (''rollout_rs_seq_masked_fraction'', tmean seq_has_masked)])))))"

section \<open>Importance weights\<close>

definition compute_is_metrics ::
    "mat \<Rightarrow> mat \<Rightarrow> mat \<Rightarrow> mat \<Rightarrow> string \<Rightarrow> real \<Rightarrow> real option \<Rightarrow> metrics result" where
  "compute_is_metrics weights raw_weights log_ratio_for_metrics response_mask level hi lower_bound =
     (if \<not> any_valid response_mask then Inl no_valid_token
      else
        (let lo = (case lower_bound of None \<Rightarrow> 1 / hi | Some l \<Rightarrow> l);
             logs = concat log_ratio_for_metrics;
             kept = kept_values (concat weights) (concat response_mask);
             clamped = mmap (clamp 0 hi) weights;
             normalized = mmap (\<lambda>w. w / (mean_over clamped response_mask + 1 / 10 ^ 8)) clamped;
             second_moment = mean_over (mmap (\<lambda>x. x\<^sup>2) normalized) response_mask;
             seq_means = row_masked_means weights response_mask
         in if second_moment = 0 then Inl (ZeroDivisionError ''float division by zero'')
            else Inr (
              (if level = ''sequence'' then
                 [(''rollout_is_max'', exp (min (vmax logs) 20)),
                  (''rollout_is_min'', exp (vmin logs)),
                  (''rollout_is_mean'', mean_over weights response_mask),
                  (''rollout_is_ratio_fraction_high'', fraction (\<lambda>x. ln hi < x) logs),
                  (''rollout_is_ratio_fraction_low'', fraction (\<lambda>x. x < ln lo) logs)]
               else
                 [(''rollout_is_mean'', mean_over weights response_mask),
                  (''rollout_is_ratio_fraction_high'', masked_fraction (\<lambda>x. hi < x) raw_weights response_mask),
                  (''rollout_is_ratio_fraction_low'', masked_fraction (\<lambda>x. x < lo) raw_weights response_mask),
                  (''rollout_is_max'', vmax kept),
                  (''rollout_is_min'', vmin kept)])
              @ [(''rollout_is_std'', clamped_std 0 hi weights response_mask),
                 (''rollout_is_eff_sample_size'', 1 / second_moment),
                 (''rollout_is_seq_mean'', tmean seq_means),
                 (''rollout_is_seq_std'', std_or_zero seq_means),
                 (''rollout_is_seq_max'', vmax seq_means),
                 (''rollout_is_seq_min'', vmin seq_means),
                 (''rollout_is_seq_max_deviation'', vmax (map (\<lambda>x. \<bar>x - 1\<bar>) seq_means)),
                 (''rollout_is_seq_fraction_high'', fraction (\<lambda>x. hi < x) seq_means),
                 (''rollout_is_seq_fraction_low'', fraction (\<lambda>x. x < lo) seq_means)])))"

text \<open>The log ratio for the metrics and the weights before masking.\<close>

definition raw_is_weights :: "string \<Rightarrow> mat \<Rightarrow> mat \<Rightarrow> mat \<times> mat" where
  "raw_is_weights level log_ratio response_mask =
     (if level = ''token'' then (log_ratio, mmap exp (safe_log_ratio log_ratio))
      else (let log_ratio_sum = row_masked_sums log_ratio response_mask
            in (map (\<lambda>x. [x]) log_ratio_sum,
                expand_rows (map (\<lambda>x. exp (clamp (- 20) 20 x)) log_ratio_sum) log_ratio)))"

text \<open>Truncation (TIS) for a single bound, zeroing outside the band (IcePop) for two.\<close>

definition limit_weight :: "real \<Rightarrow> real option \<Rightarrow> real \<Rightarrow> real" where
  "limit_weight hi lower_bound w =
     (case lower_bound of None \<Rightarrow> min w hi | Some lo \<Rightarrow> if lo \<le> w \<and> w \<le> hi then w else 0)"

text \<open>
  The mean the weights are divided by. \<open>ranks\<close> is \<open>None\<close> without a process group; with one, it holds
  what the all-reduce adds from the other ranks: their sum of values and their number of values.
\<close>

definition distributed_masked_mean :: "real \<times> real \<Rightarrow> vec \<Rightarrow> vec \<Rightarrow> real" where
  "distributed_masked_mean others vs ms =
     (sum_list (map2 (*) vs ms) + fst others) / (sum_list ms + snd others)"

definition weights_mean :: "(real \<times> real) option \<Rightarrow> string \<Rightarrow> mat \<Rightarrow> mat \<Rightarrow> real" where
  "weights_mean ranks level weights response_mask =
     (if level = ''token'' then
        (case ranks of
           Some others \<Rightarrow> distributed_masked_mean others (concat weights) (concat response_mask)
         | None \<Rightarrow> mean_over weights response_mask)
      else
        (let seq_weights = row_masked_means weights response_mask;
             seq_valid = seq_mask response_mask
         in case ranks of
              Some others \<Rightarrow> distributed_masked_mean others seq_weights seq_valid
            | None \<Rightarrow> sum_list (map2 (*) seq_weights seq_valid) / max (sum_list seq_valid) (1 / 10 ^ 8)))"

text \<open>After the metrics: the share of weights outside the band of IcePop, and the normalization.\<close>

definition add_oob_ratio :: "real \<Rightarrow> real option \<Rightarrow> mat \<Rightarrow> mat \<Rightarrow> metrics \<Rightarrow> metrics" where
  "add_oob_ratio hi lower_bound raw_weights response_mask ms =
     (case lower_bound of
        None \<Rightarrow> ms
      | Some lo \<Rightarrow> dict_set ''rollout_is_oob_ratio''
          (masked_fraction (\<lambda>w. w < lo \<or> hi < w) raw_weights response_mask) ms)"

definition normalize_weights ::
    "(real \<times> real) option \<Rightarrow> string \<Rightarrow> mat \<Rightarrow> bool \<Rightarrow> mat \<Rightarrow> metrics \<Rightarrow> mat \<times> metrics" where
  "normalize_weights ranks level response_mask batch_normalize weights ms =
     (if \<not> batch_normalize then (weights, ms)
      else
        (let m = weights_mean ranks level weights response_mask
         in if 1 / 10 ^ 8 < m
            then (mmap (\<lambda>w. w / m) weights, dict_set ''rollout_is_batch_norm_factor'' m ms)
            else (weights, dict_set ''rollout_is_batch_norm_factor'' 1 ms)))"

definition compute_rollout_correction_weights ::
    "(real \<times> real) option \<Rightarrow> mat \<Rightarrow> mat \<Rightarrow> string \<Rightarrow> threshold \<Rightarrow> bool \<Rightarrow> (mat \<times> metrics) result" where
  "compute_rollout_correction_weights ranks log_ratio response_mask level is_threshold batch_normalize =
     (if level \<notin> {''token'', ''sequence''}
      then Inl (ValueError (''Invalid rollout_is: '' @ level @ ''.''))
      else
        rbind (parse_rollout_is_threshold is_threshold) (\<lambda>(hi, lower_bound).
          let (log_ratio_for_metrics, unmasked) = raw_is_weights level log_ratio response_mask;
              raw_weights = mzip (*) unmasked response_mask;
              weights = mmap (limit_weight hi lower_bound) raw_weights
          in rbind (compute_is_metrics weights raw_weights log_ratio_for_metrics response_mask level hi lower_bound) (\<lambda>ms.
               Inr (normalize_weights ranks level response_mask batch_normalize weights
                      (add_oob_ratio hi lower_bound raw_weights response_mask ms)))))"

section \<open>Off-policy metrics\<close>

definition rollout_metrics :: "mat \<Rightarrow> mat \<Rightarrow> mat \<Rightarrow> metrics" where
  "rollout_metrics old_log_prob rollout_log_prob response_mask =
     (let log_ratio = mzip (-) old_log_prob rollout_log_prob;
          mean_log_prob_training = row_masked_means old_log_prob response_mask;
          mean_log_prob_rollout = row_masked_means rollout_log_prob response_mask;
          log_ppl_diff = map2 (-) mean_log_prob_rollout mean_log_prob_training;
          log_ratio_sum = row_masked_sums log_ratio response_mask
      in [(''kl'', mean_over (mzip (-) rollout_log_prob old_log_prob) response_mask),
          (''k3_kl'', mean_over (mmap (\<lambda>x. exp x - x - 1) log_ratio) response_mask),
          (''rollout_ppl'', tmean (map (\<lambda>x. exp (- x)) mean_log_prob_rollout)),
          (''rollout_log_ppl'', tmean (map uminus mean_log_prob_rollout)),
          (''log_ppl_diff'', tmean log_ppl_diff),
          (''log_ppl_abs_diff'', tmean (map abs log_ppl_diff)),
          (''log_ppl_diff_max'', vmax log_ppl_diff),
          (''log_ppl_diff_min'', vmin log_ppl_diff),
          (''ppl_ratio'', tmean (map exp log_ppl_diff)),
          (''chi2_token'', mean_over (mmap (\<lambda>x. (exp x)\<^sup>2) (safe_log_ratio log_ratio)) response_mask - 1),
          (''chi2_seq'', tmean (map (\<lambda>x. exp (2 * clamp (- 20) 20 x)) log_ratio_sum) - 1)])"

definition compute_offpolicy_metrics :: "mat \<Rightarrow> mat option \<Rightarrow> mat \<Rightarrow> metrics result" where
  "compute_offpolicy_metrics old_log_prob rollout_log_prob response_mask =
     passert (any_valid response_mask) ''Expected at least one valid token in response_mask''
       (let mean_log_prob_training = row_masked_means old_log_prob response_mask
        in Inr ([(''training_ppl'', tmean (map (\<lambda>x. exp (- x)) mean_log_prob_training)),
                 (''training_log_ppl'', tmean (map uminus mean_log_prob_training))]
             @ (case rollout_log_prob of None \<Rightarrow> [] | Some lp \<Rightarrow> rollout_metrics old_log_prob lp response_mask)))"

definition add_prefix :: "metrics \<Rightarrow> metrics" where
  "add_prefix ms = map (\<lambda>(k, v). (''rollout_corr/'' @ k, v)) ms"

definition compute_rollout_corr_metrics_from_logprobs :: "mat \<Rightarrow> mat \<Rightarrow> mat \<Rightarrow> metrics result" where
  "compute_rollout_corr_metrics_from_logprobs log_prob rollout_log_prob response_mask =
     rbind (compute_offpolicy_metrics log_prob (Some rollout_log_prob) response_mask) (\<lambda>ms. Inr (add_prefix ms))"

section \<open>The entry points\<close>

definition weights_step ::
    "(real \<times> real) option \<Rightarrow> rollout_config \<Rightarrow> mat \<Rightarrow> mat \<Rightarrow> (mat option \<times> metrics) result" where
  "weights_step ranks c log_ratio response_mask =
     (case (rollout_is c, rollout_is_threshold c) of
        (Some level, Some t) \<Rightarrow>
          rbind (compute_rollout_correction_weights ranks log_ratio response_mask level t (rollout_is_batch_normalize c))
            (\<lambda>(w, ms). Inr (Some w, ms))
      | _ \<Rightarrow> Inr (None, []))"

definition mask_step :: "rollout_config \<Rightarrow> mat \<Rightarrow> mat \<Rightarrow> (mat \<times> metrics) result" where
  "mask_step c log_ratio response_mask =
     (if rollout_rs c = None then Inr (response_mask, [])
      else if rollout_rs_threshold c = None
      then Inl (ValueError ''rollout_rs_threshold must be explicitly provided when rollout_rs is enabled. Set rollout_rs_threshold to the desired threshold value.'')
      else compute_rollout_rejection_mask log_ratio response_mask (rollout_rs c) (rollout_rs_threshold c))"

definition compute_rollout_correction_and_rejection_mask ::
    "(real \<times> real) option \<Rightarrow> rollout_config \<Rightarrow> mat \<Rightarrow> mat \<Rightarrow> mat
      \<Rightarrow> ((vec, 'a) data_proto option \<times> mat \<times> metrics) result" where
  "compute_rollout_correction_and_rejection_mask ranks c old_log_prob rollout_log_prob response_mask =
     (if \<not> any_valid response_mask then Inl no_valid_token
      else if \<not> same_shape old_log_prob rollout_log_prob
      then Inl (ValueError ''old_log_prob shape does not match rollout_log_prob shape.'')
      else if \<not> same_shape old_log_prob response_mask
      then Inl (ValueError ''log_prob shape does not match response_mask shape.'')
      else
        (let log_ratio = mzip (-) old_log_prob rollout_log_prob
         in rbind (weights_step ranks c log_ratio response_mask) (\<lambda>(weights, is_metrics).
            rbind (mask_step c log_ratio response_mask) (\<lambda>(modified_response_mask, rs_metrics).
            rbind (compute_offpolicy_metrics old_log_prob (Some rollout_log_prob) response_mask) (\<lambda>offpolicy_metrics.
            rbind (case weights of
                     None \<Rightarrow> Inr None
                   | Some w \<Rightarrow> rbind (from_dict [(''rollout_is_weights'', w)] [] [] False) (\<lambda>d. Inr (Some d))) (\<lambda>proto.
              Inr (proto, modified_response_mask,
                   add_prefix (dict_update (dict_update is_metrics rs_metrics) offpolicy_metrics))))))))"

text \<open>\<open>batch.batch[key]\<close> and \<open>batch.batch[key] = rows\<close>.\<close>

definition no_tensors :: pyexn where
  "no_tensors = TypeError (quoted ''NoneType'' @ '' object is not subscriptable'')"

definition get_tensor :: "string \<Rightarrow> (vec, 'a) data_proto \<Rightarrow> mat result" where
  "get_tensor key d = (case batch d of None \<Rightarrow> Inl no_tensors | Some td \<Rightarrow> dict_index (td_items td) key)"

definition set_tensor :: "string \<Rightarrow> mat \<Rightarrow> (vec, 'a) data_proto \<Rightarrow> (vec, 'a) data_proto" where
  "set_tensor key rows d = d\<lparr>batch := map_option (\<lambda>td. td\<lparr>td_items := dict_set key rows (td_items td)\<rparr>) (batch d)\<rparr>"

definition compute_rollout_correction_and_add_to_batch ::
    "(real \<times> real) option \<Rightarrow> rollout_config \<Rightarrow> (vec, 'a) data_proto \<Rightarrow> ((vec, 'a) data_proto \<times> metrics) result" where
  "compute_rollout_correction_and_add_to_batch ranks c d =
     rbind (get_tensor ''old_log_probs'' d) (\<lambda>old_log_prob.
     rbind (get_tensor ''rollout_log_probs'' d) (\<lambda>rollout_log_prob.
     rbind (get_tensor ''response_mask'' d) (\<lambda>response_mask.
     rbind (compute_rollout_correction_and_rejection_mask ranks c old_log_prob rollout_log_prob response_mask)
       (\<lambda>(proto, modified_response_mask, ms).
          let d = set_tensor ''response_mask'' modified_response_mask d
          in case proto of
               None \<Rightarrow> Inr (d, ms)
             | Some w \<Rightarrow> rbind (union_proto d w) (\<lambda>d. Inr (d, ms))))))"

section \<open>Bypass mode\<close>

record policy_loss_config =
  rollout_correction :: "rollout_config option"
  loss_mode :: string

definition apply_bypass_mode ::
    "(vec, 'a) data_proto \<Rightarrow> rollout_config option \<Rightarrow> policy_loss_config
      \<Rightarrow> ((vec, 'a) data_proto \<times> policy_loss_config) result" where
  "apply_bypass_mode d rc policy =
     (case batch d of
        None \<Rightarrow> Inl (TypeError (''argument of type '' @ quoted ''NoneType'' @ '' is not iterable''))
      | Some td \<Rightarrow>
          (case map_of (td_items td) ''rollout_log_probs'' of
             None \<Rightarrow> Inl (ValueError ''bypass_mode=True requires rollout_log_probs in batch. Ensure rollout worker is configured to calculate_log_probs=true.'')
           | Some lp \<Rightarrow> Inr (set_tensor ''old_log_probs'' lp d,
                            policy\<lparr>rollout_correction := rc, loss_mode := ''bypass_mode''\<rparr>)))"

definition vanilla_metrics :: "pg_metrics \<Rightarrow> metrics" where
  "vanilla_metrics m = [(''actor/pg_clipfrac'', pg_clipfrac m), (''actor/ppo_kl'', ppo_kl m),
     (''actor/pg_clipfrac_lower'', pg_clipfrac_lower m)]"

definition compute_policy_loss_bypass_mode ::
    "(real \<times> real) option \<Rightarrow> mat \<Rightarrow> mat \<Rightarrow> mat \<Rightarrow> mat \<Rightarrow> string \<Rightarrow> actor_config \<Rightarrow> rollout_config option
      \<Rightarrow> (real \<times> metrics) result" where
  "compute_policy_loss_bypass_mode ranks rollout_log_prob log_prob advantages response_mask loss_agg_mode config rc =
     (case rc of
        None \<Rightarrow> Inl (ValueError ''rollout_correction config not found in policy_loss. When using loss_mode=bypass_mode, ensure rollout_correction config is passed.'')
      | Some c \<Rightarrow>
          rbind (compute_rollout_correction_and_rejection_mask ranks c log_prob rollout_log_prob response_mask
                   :: ((vec, unit) data_proto option \<times> mat \<times> metrics) result)
            (\<lambda>(proto, effective_mask, ms).
          rbind (case proto of
                   None \<Rightarrow> Inr None
                 | Some d \<Rightarrow> if dlen d = 0 then Inr None
                            else rbind (get_tensor ''rollout_is_weights'' d) (\<lambda>w. Inr (Some w))) (\<lambda>computed_is_weights.
          rbind (if loss_type c = ''reinforce'' then
                   rbind (compute_policy_loss_reinforce rollout_log_prob log_prob advantages effective_mask
                            loss_agg_mode config computed_is_weights) (\<lambda>(loss, kl). Inr (loss, [(''actor/ppo_kl'', kl)]))
                 else if loss_type c = ''ppo_clip'' then
                   rbind (compute_policy_loss_vanilla rollout_log_prob log_prob advantages effective_mask
                            loss_agg_mode config None) (\<lambda>(loss, m). Inr (loss, vanilla_metrics m))
                 else Inl (ValueError (''Invalid loss_type: '' @ loss_type c @ ''.''))) (\<lambda>(loss, pg).
            Inr (loss, dict_update pg ms)))))"

end
