(* ===== verification/RolloutFacts.thy ===== *)
theory RolloutFacts
  imports RolloutCorr
begin

text \<open>
  Rollout correction: what the rejection mask keeps, stated with probability ratios instead of
  log-space statistics; the range and the normalization of the importance weights; what happens
  when the two policies agree; and the inputs that make the code fail.
\<close>

section \<open>Matrices by position\<close>

lemma same_shape_nth: "same_shape a b \<Longrightarrow> i < length b \<Longrightarrow> length (a ! i) = length (b ! i)"
  unfolding same_shape_def by (metis length_map nth_map)

lemma same_shapeI:
  "length a = length b \<Longrightarrow> (\<And>i. i < length b \<Longrightarrow> length (a ! i) = length (b ! i)) \<Longrightarrow> same_shape a b"
  unfolding same_shape_def by (rule nth_equalityI) simp_all

lemma mat_eqI:
  assumes shape: "same_shape a b" and eq: "\<And>i j. i < length b \<Longrightarrow> j < length (b ! i) \<Longrightarrow> a ! i ! j = b ! i ! j"
  shows "a = b"
proof (rule nth_equalityI)
  show len: "length a = length b" by (rule same_shape_length [OF shape])
  show "a ! i = b ! i" if "i < length a" for i
  proof (rule nth_equalityI)
    show "length (a ! i) = length (b ! i)" using same_shape_nth [OF shape] that len by simp
    then show "a ! i ! j = b ! i ! j" if "j < length (a ! i)" for j
      using eq that \<open>i < length a\<close> len by simp
  qed
qed

lemma mzip_nth:
  "same_shape a b \<Longrightarrow> i < length b \<Longrightarrow> j < length (b ! i) \<Longrightarrow> mzip f a b ! i ! j = f (a ! i ! j) (b ! i ! j)"
  using same_shape_length same_shape_nth by (fastforce simp: mzip_def)

lemma same_shape_sym: "same_shape a b \<Longrightarrow> same_shape b a"
  by (simp add: same_shape_def)

lemma same_shape_trans: "same_shape a b \<Longrightarrow> same_shape b c \<Longrightarrow> same_shape a c"
  by (simp add: same_shape_def)

lemma same_shape_mzip: "same_shape a b \<Longrightarrow> same_shape (mzip f a b) b"
  using same_shape_length same_shape_nth by (intro same_shapeI) (fastforce simp: mzip_def)+

lemma same_shape_mmap [simp]: "same_shape (mmap f a) b \<longleftrightarrow> same_shape a b"
  by (simp add: same_shape_def mmap_def comp_def)

lemma mmap_nth [simp]: "i < length a \<Longrightarrow> j < length (a ! i) \<Longrightarrow> mmap f a ! i ! j = f (a ! i ! j)"
  by (simp add: mmap_def)

lemma length_mmap [simp]: "length (mmap f a) = length a" "i < length a \<Longrightarrow> length (mmap f a ! i) = length (a ! i)"
  by (simp_all add: mmap_def)

section \<open>The statistic of one token\<close>

definition sequence_value :: "string \<Rightarrow> vec \<Rightarrow> vec \<Rightarrow> real" where
  "sequence_value option_name vs ms =
     (if prefix ''seq_sum'' option_name then masked_sum vs ms
      else if prefix ''seq_mean'' option_name then masked_mean vs ms
      else if kept_values vs ms = [] then 0 else vmax (kept_values vs ms))"

definition token_value :: "string \<Rightarrow> vec \<Rightarrow> vec \<Rightarrow> nat \<Rightarrow> real" where
  "token_value option_name xs ms j =
     (if option_name \<in> set token_level_options then divergence option_name (xs ! j)
      else sequence_value option_name (map (divergence option_name) xs) ms)"

definition log_bounds :: "string \<Rightarrow> real option \<times> real \<Rightarrow> real option \<times> real" where
  "log_bounds option_name t =
     (if suffix ''k1'' option_name then (map_option ln (fst t), ln (snd t)) else (None, snd t))"

lemma sequence_statistic_eq:
  assumes "sequence_statistic option_name values response_mask = Inr seq"
  shows "seq = map2 (sequence_value option_name) values response_mask"
  using assms
  by (auto simp: sequence_statistic_def row_masked_sums_def row_masked_means_def row_masked_maxs_def sequence_value_def
    split: if_splits)

lemma option_statistic_nth:
  assumes "option_statistic option_name s m = Inr (per_token, per_seq)" and shape: "same_shape s m"
  shows "same_shape per_token m
    \<and> (\<forall>i<length m. \<forall>j<length (m ! i). per_token ! i ! j = token_value option_name (s ! i) (m ! i) j)"
proof (cases "option_name \<in> set token_level_options")
  case True
  then have "per_token = mmap (divergence option_name) s"
    using assms(1) by (simp add: option_statistic_def)
  then show ?thesis
    using True shape same_shape_length [OF shape] same_shape_nth [OF shape] by (simp add: token_value_def)
next
  case False
  then obtain seq where seq: "sequence_statistic option_name (mmap (divergence option_name) s) m = Inr seq"
    and per: "per_token = expand_rows seq m"
    using assms(1) by (auto simp: option_statistic_def rbind_eq_Inr)
  have "length s = length m" by (rule same_shape_length [OF shape])
  then have "\<forall>i<length m. per_token ! i = replicate (length (m ! i)) (token_value option_name (s ! i) (m ! i) 0)"
    and "length per_token = length m"
    using False sequence_statistic_eq [OF seq] by (simp_all add: per expand_rows_def token_value_def mmap_def)
  then show ?thesis using False by (auto intro!: same_shapeI simp: token_value_def)
qed

lemma statistic_bounds_eq:
  "statistic_bounds option_name t = Inr b \<Longrightarrow> b = log_bounds option_name t"
  by (cases t) (auto simp: statistic_bounds_def log_bounds_def split: option.splits if_splits)

definition kept :: "vec \<Rightarrow> vec \<Rightarrow> nat \<Rightarrow> string \<times> real option \<times> real \<Rightarrow> bool" where
  "kept xs ms j opt \<longleftrightarrow> keeps (log_bounds (fst opt) (snd opt)) (token_value (fst opt) xs ms j)"

lemma apply_option_nth:
  assumes "apply_option s m valid opt = Inr (keep, ms)" and s: "same_shape s m"
  shows "same_shape keep m
    \<and> (\<forall>i<length m. \<forall>j<length (m ! i). keep ! i ! j = indicator_real (kept (s ! i) (m ! i) j opt))"
proof -
  obtain option_name t where opt: "opt = (option_name, t)" by (cases opt)
  from assms(1) obtain b per_token per_seq where b: "statistic_bounds option_name t = Inr b"
    and st: "option_statistic option_name s m = Inr (per_token, per_seq)" and keep: "keep = keep_mask b per_token"
    unfolding apply_option_def opt prod.case rbind_eq_Inr by (force simp: rbind_eq_Inr)
  note p = option_statistic_nth [OF st s]
  have "keep ! i ! j = indicator_real (kept (s ! i) (m ! i) j opt)" if "i < length m" "j < length (m ! i)" for i j
    using that p same_shape_length [of per_token m] same_shape_nth [of per_token m i]
    by (simp add: keep keep_mask_def kept_def opt statistic_bounds_eq [OF b])
  then show ?thesis using p by (simp add: keep keep_mask_def)
qed

lemma rejection_step_mask:
  assumes "rejection_step s m valid opt (combined, ms) = Inr (combined', ms')"
    and s: "same_shape s m" and c: "same_shape combined m"
  shows "same_shape combined' m
    \<and> (\<forall>i<length m. \<forall>j<length (m ! i). combined' ! i ! j = combined ! i ! j * indicator_real (kept (s ! i) (m ! i) j opt))"
proof -
  obtain keep new where keep: "apply_option s m valid opt = Inr (keep, new)" and c': "combined' = mzip (*) combined keep"
    using assms(1) by (auto simp: rejection_step_def rbind_eq_Inr)
  note k = apply_option_nth [OF keep s]
  then have shape: "same_shape combined keep" using c same_shape_sym same_shape_trans by blast
  have "combined' ! i ! j = combined ! i ! j * indicator_real (kept (s ! i) (m ! i) j opt)"
    if "i < length m" "j < length (m ! i)" for i j
    using mzip_nth [OF shape, of i j "(*)"] that k same_shape_length [of keep m] same_shape_nth [of keep m i]
    by (simp add: c')
  moreover have "same_shape combined' m"
    unfolding c' by (rule same_shape_trans [OF same_shape_mzip [OF shape]]) (use k in blast)
  ultimately show ?thesis by blast
qed

lemma rejection_loop_mask:
  assumes "for_each (rejection_step s m valid) ts (combined, ms) = Inr (combined', ms')"
    and s: "same_shape s m" and c: "same_shape combined m"
  shows "same_shape combined' m
    \<and> (\<forall>i<length m. \<forall>j<length (m ! i). combined' ! i ! j =
         combined ! i ! j * indicator_real (\<forall>opt\<in>set ts. kept (s ! i) (m ! i) j opt))"
  using assms(1) c
proof (induction ts arbitrary: combined ms)
  case Nil
  then show ?case by (simp add: indicator_real_def)
next
  case (Cons opt ts)
  then obtain c1 ms1 where step: "rejection_step s m valid opt (combined, ms) = Inr (c1, ms1)"
    and rest: "for_each (rejection_step s m valid) ts (c1, ms1) = Inr (combined', ms')"
    by (auto simp: rbind_eq_Inr)
  note one = rejection_step_mask [OF step s Cons.prems(2)]
  then show ?case using Cons.IH [OF rest] by (auto simp: indicator_real_def)
qed

section \<open>The trust region\<close>

text \<open>
  The condition of every option for a token \<open>j\<close>, on the ratios \<open>exp x\<close> of the trained policy to the
  rollout policy. The bounds of the k1 options are bounds of the inverse ratio.
\<close>

definition trusted :: "vec \<Rightarrow> vec \<Rightarrow> nat \<Rightarrow> string \<times> real option \<times> real \<Rightarrow> bool" where
  "trusted xs ms j opt = (case opt of (option_name, l, u) \<Rightarrow>
     let lo = 1 / u; hi = 1 / the l; valid = kept_values xs ms;
         k2 = (\<lambda>x. x\<^sup>2 / 2); k3 = (\<lambda>x. exp x - 1 - x)
     in if option_name = ''token_k1'' then lo \<le> exp (xs ! j) \<and> exp (xs ! j) \<le> hi
        else if option_name = ''token_k2'' then k2 (xs ! j) \<le> u
        else if option_name = ''token_k3'' then k3 (xs ! j) \<le> u
        else if option_name = ''seq_sum_k1''
          then lo \<le> prod_list (map exp valid) \<and> prod_list (map exp valid) \<le> hi
        else if option_name = ''seq_sum_k2'' then sum_list (map k2 valid) \<le> u
        else if option_name = ''seq_sum_k3'' then sum_list (map k3 valid) \<le> u
        else if option_name = ''seq_mean_k1''
          then lo \<le> exp (masked_mean xs ms) \<and> exp (masked_mean xs ms) \<le> hi
        else if option_name = ''seq_mean_k2'' then masked_mean (map k2 xs) ms \<le> u
        else if option_name = ''seq_mean_k3'' then masked_mean (map k3 xs) ms \<le> u
        else if option_name = ''seq_max_k2'' then \<forall>x\<in>set valid. k2 x \<le> u
        else \<forall>x\<in>set valid. k3 x \<le> u)"

definition binary :: "vec \<Rightarrow> bool" where
  "binary ms \<longleftrightarrow> set ms \<subseteq> {0, 1}"

lemma masked_sum_kept:
  "binary ms \<Longrightarrow> masked_sum vs ms = sum_list (kept_values vs ms)"
proof (induction vs arbitrary: ms)
  case Nil
  then show ?case by (simp add: masked_sum_def kept_values_def)
next
  case (Cons v vs)
  then show ?case by (cases ms) (auto simp: masked_sum_def kept_values_def binary_def)
qed

lemma kept_values_map: "kept_values (map f vs) ms = map f (kept_values vs ms)"
proof (induction vs arbitrary: ms)
  case (Cons v vs)
  then show ?case by (cases ms) (simp_all add: kept_values_def)
qed (simp add: kept_values_def)

lemma sum_list_uminus: "sum_list (map (\<lambda>x. - x) xs) = - sum_list (xs :: real list)"
  by (induction xs) simp_all

lemma masked_mean_uminus: "masked_mean (map (\<lambda>x. - x) xs) ms = - masked_mean xs ms"
proof -
  have "masked_sum (map (\<lambda>x. - x) xs) ms = - masked_sum xs ms"
    unfolding masked_sum_eq
  proof (induction xs arbitrary: ms)
    case (Cons x xs)
    then show ?case by (cases ms) simp_all
  qed simp
  then show ?thesis by (simp add: masked_mean_def)
qed

lemma exp_sum_list: "exp (sum_list xs) = prod_list (map exp (xs :: real list))"
  by (induction xs) (simp_all add: exp_add)

text \<open>Bounds of minus a logarithm are bounds of the inverse.\<close>

lemma log_interval:
  assumes "0 < l" and "0 < (u :: real)"
  shows "ln l \<le> - x \<and> - x \<le> ln u \<longleftrightarrow> 1 / u \<le> exp x \<and> exp x \<le> 1 / l"
proof -
  have "ln l \<le> - x \<longleftrightarrow> l \<le> exp (- x)" and "- x \<le> ln u \<longleftrightarrow> exp (- x) \<le> u"
    using assms by (metis exp_gt_zero ln_exp ln_le_cancel_iff)+
  moreover have "l \<le> exp (- x) \<longleftrightarrow> exp x \<le> 1 / l" and "exp (- x) \<le> u \<longleftrightarrow> 1 / u \<le> exp x"
    using assms by (simp_all add: exp_minus field_simps)
  ultimately show ?thesis by blast
qed

lemma vmax_le: "xs \<noteq> [] \<Longrightarrow> vmax xs \<le> u \<longleftrightarrow> (\<forall>x\<in>set xs. x \<le> u)"
  by (simp add: vmax_def)

lemma option_names:
  "suffix ''k1'' ''token_k1''" "\<not> suffix ''k1'' ''token_k2''" "\<not> suffix ''k1'' ''token_k3''"
  "suffix ''k1'' ''seq_sum_k1''" "\<not> suffix ''k1'' ''seq_sum_k2''" "\<not> suffix ''k1'' ''seq_sum_k3''"
  "suffix ''k1'' ''seq_mean_k1''" "\<not> suffix ''k1'' ''seq_mean_k2''" "\<not> suffix ''k1'' ''seq_mean_k3''"
  "\<not> suffix ''k1'' ''seq_max_k2''" "\<not> suffix ''k1'' ''seq_max_k3''"
  "suffix ''k2'' ''token_k2''" "suffix ''k2'' ''seq_sum_k2''" "suffix ''k2'' ''seq_mean_k2''" "suffix ''k2'' ''seq_max_k2''"
  "\<not> suffix ''k2'' ''token_k3''" "\<not> suffix ''k2'' ''seq_sum_k3''" "\<not> suffix ''k2'' ''seq_mean_k3''" "\<not> suffix ''k2'' ''seq_max_k3''"
  by code_simp+

lemma option_groups:
  "prefix ''seq_sum'' ''seq_sum_k1''" "prefix ''seq_sum'' ''seq_sum_k2''" "prefix ''seq_sum'' ''seq_sum_k3''"
  "\<not> prefix ''seq_sum'' ''seq_mean_k1''" "\<not> prefix ''seq_sum'' ''seq_mean_k2''" "\<not> prefix ''seq_sum'' ''seq_mean_k3''"
  "prefix ''seq_mean'' ''seq_mean_k1''" "prefix ''seq_mean'' ''seq_mean_k2''" "prefix ''seq_mean'' ''seq_mean_k3''"
  "\<not> prefix ''seq_sum'' ''seq_max_k2''" "\<not> prefix ''seq_mean'' ''seq_max_k2''"
  "\<not> prefix ''seq_sum'' ''seq_max_k3''" "\<not> prefix ''seq_mean'' ''seq_max_k3''"
  by code_simp+

lemma kept_seq_max:
  assumes "0 \<le> u"
  shows "(if kept_values (map f xs) ms = [] then 0 else vmax (kept_values (map f xs) ms)) \<le> u
    \<longleftrightarrow> (\<forall>x\<in>set (kept_values xs ms). f x \<le> u)"
  using assms by (simp add: kept_values_map vmax_le)

lemma divergence_fun:
  "divergence name = (if suffix ''k1'' name then (\<lambda>x. - x) else if suffix ''k2'' name then (\<lambda>x. x\<^sup>2 / 2) else (\<lambda>x. exp x - 1 - x))"
  by (simp add: divergence_def fun_eq_iff)

lemmas option_value_simps = kept_def keeps_def log_bounds_def token_value_def sequence_value_def divergence_fun Let_def
  option_names option_groups token_level_options_def

lemma supported_groups:
  "set supported_options = {''token_k1'', ''token_k2'', ''token_k3''} \<union> ({''seq_sum_k1'', ''seq_sum_k2'', ''seq_sum_k3''}
     \<union> ({''seq_mean_k1'', ''seq_mean_k2'', ''seq_mean_k3''} \<union> {''seq_max_k2'', ''seq_max_k3''}))"
  by (simp only: supported_options_def token_level_options_def set_append list.set Un_insert_left Un_empty_left)

lemma kept_trusted:
  assumes "name \<in> set supported_options" and m: "binary ms" and u: "0 < u"
    and l: "if suffix ''k1'' name then \<exists>l'. l = Some l' \<and> 0 < l' else l = None"
  shows "kept xs ms j (name, l, u) \<longleftrightarrow> trusted xs ms j (name, l, u)"
proof -
  have k1: "\<exists>l'. l = Some l' \<and> 0 < l'" if "suffix ''k1'' name" using l that by simp
  note sums = masked_sum_kept [OF m] kept_values_map sum_list_uminus masked_mean_uminus exp_sum_list [symmetric]
  from assms(1) consider (t) "name \<in> {''token_k1'', ''token_k2'', ''token_k3''}"
    | (s) "name \<in> {''seq_sum_k1'', ''seq_sum_k2'', ''seq_sum_k3''}"
    | (m) "name \<in> {''seq_mean_k1'', ''seq_mean_k2'', ''seq_mean_k3''}"
    | (x) "name \<in> {''seq_max_k2'', ''seq_max_k3''}"
    unfolding supported_groups Un_iff by (elim disjE) (erule that)+
  then show ?thesis
  proof cases
    case t
    then show ?thesis using k1 u
      by (elim insertE; simp add: option_value_simps trusted_def ; elim exE; simp add: log_interval)
  next
    case s
    then show ?thesis using k1 u
      by (elim insertE; simp add: option_value_simps trusted_def  sums; elim exE; simp add: log_interval)
  next
    case m
    then show ?thesis using k1 u
      by (elim insertE; simp add: option_value_simps trusted_def  sums; elim exE; simp add: log_interval)
  next
    case x
    then show ?thesis using u
      by (elim insertE; simp add: option_value_simps trusted_def  kept_seq_max)
  qed
qed

section \<open>The rejection mask\<close>

definition trusted_mask :: "thresholds \<Rightarrow> mat \<Rightarrow> mat \<Rightarrow> mat" where
  "trusted_mask ts log_ratio response_mask =
     map2 (\<lambda>xs ms. map (\<lambda>j. if ms ! j = 1 \<and> (\<forall>opt\<in>set ts. trusted (map (clamp (- 20) 20) xs) ms j opt) then 1 else 0)
       [0..<length ms]) log_ratio response_mask"

lemma not_token_level:
  assumes "name \<in> set supported_options" and "name \<notin> set token_level_options"
  shows "name \<in> {''seq_sum_k1'', ''seq_sum_k2'', ''seq_sum_k3''} \<union> ({''seq_mean_k1'', ''seq_mean_k2'', ''seq_mean_k3''}
     \<union> {''seq_max_k2'', ''seq_max_k3''})"
proof -
  have "set token_level_options = {''token_k1'', ''token_k2'', ''token_k3''}"
    by (simp only: token_level_options_def list.set)
  with assms show ?thesis unfolding supported_groups by simp
qed

lemma option_statistic_total:
  assumes "name \<in> set supported_options"
  shows "\<exists>x. option_statistic name s m = Inr x"
proof (cases "name \<in> set token_level_options")
  case False
  have "prefix ''seq_max'' ''seq_max_k2''" "prefix ''seq_max'' ''seq_max_k3''" by code_simp+
  with not_token_level [OF assms False] have "\<exists>seq. sequence_statistic name v m = Inr seq" for v
    by (elim UnE insertE; simp add: sequence_statistic_def option_groups option_names)
  then obtain seq where "sequence_statistic name (mmap (divergence name) s) m = Inr seq" by blast
  then show ?thesis using False by (simp add: option_statistic_def)
qed (simp add: option_statistic_def)

definition good_option :: "string \<times> real option \<times> real \<Rightarrow> bool" where
  "good_option opt \<longleftrightarrow> fst opt \<in> set supported_options \<and> thresholds_ok [opt]"

lemma apply_option_total:
  assumes "good_option opt" and "any_valid m"
  shows "\<exists>x. apply_option s m valid opt = Inr x"
proof -
  obtain name l u where opt: "opt = (name, l, u)" by (cases opt)
  have "\<exists>b. statistic_bounds name (l, u) = Inr b"
    using assms(1) by (auto simp: statistic_bounds_def good_option_def thresholds_ok_def opt split: if_splits)
  moreover obtain p q where "option_statistic name s m = Inr (p, q)"
    using option_statistic_total [of name s m] assms(1) by (auto simp: good_option_def opt)
  ultimately show ?thesis
    using assms(2) by (auto simp: apply_option_def opt compute_rs_metrics_def Let_def)
qed

lemma rejection_loop_total:
  assumes "\<forall>opt\<in>set ts. good_option opt" and "any_valid m"
  shows "\<exists>x. for_each (rejection_step s m valid) ts st = Inr x"
  using assms(1)
proof (induction ts arbitrary: st)
  case (Cons opt ts)
  obtain keep new where "apply_option s m valid opt = Inr (keep, new)"
    using apply_option_total [of opt m s valid] Cons.prems assms(2) by auto
  then show ?case using Cons.IH Cons.prems by (cases st) (simp add: rejection_step_def)
qed simp

lemma parsed_options_good:
  assumes "parse_options modes = Inr opts" and "parse_rollout_rs_thresholds opts (Some th) = Inr ts"
  shows "\<forall>opt\<in>set ts. good_option opt" and "map fst ts = opts"
proof -
  note po = parse_options_distinct [OF assms(1)]
  have "thresholds_ok ts \<and> map fst ts = opts" using parse_rs_thresholds_ok [OF assms(2)] po by blast
  moreover from this have "fst ` set ts \<subseteq> set supported_options" using po by (metis set_map)
  ultimately show "map fst ts = opts" and "\<forall>opt\<in>set ts. good_option opt"
    by (auto simp: good_option_def thresholds_ok_def)
qed

lemma kept_trusted_mask:
  assumes "\<forall>opt\<in>set ts. good_option opt" and "binary ms"
  shows "(\<forall>opt\<in>set ts. kept xs ms j opt) \<longleftrightarrow> (\<forall>opt\<in>set ts. trusted xs ms j opt)"
proof -
  have "kept xs ms j opt \<longleftrightarrow> trusted xs ms j opt" if "opt \<in> set ts" for opt
  proof -
    obtain name l u where opt: "opt = (name, l, u)" by (cases opt)
    have "good_option (name, l, u)" using assms(1) that opt by simp
    then show ?thesis
      unfolding opt by (intro kept_trusted assms(2)) (simp_all add: good_option_def thresholds_ok_def)
  qed
  then show ?thesis by blast
qed

lemma rejection_mask_eq:
  assumes shape: "same_shape log_ratio m" and valid: "any_valid m" and binary: "\<forall>row\<in>set m. binary row"
    and opts: "parse_options modes = Inr opts" and ts: "parse_rollout_rs_thresholds opts (Some th) = Inr ts"
  shows "\<exists>ms. compute_rollout_rejection_mask log_ratio m (Some modes) (Some th) = Inr (trusted_mask ts log_ratio m, ms)"
proof -
  let ?s = "safe_log_ratio log_ratio" and ?v = "map (\<lambda>row. 0 < sum_list row) m"
  note good = parsed_options_good(1) [OF opts ts]
  have s: "same_shape ?s m" and one: "same_shape (mmap (\<lambda>_. 1) m :: mat) m"
    using shape by (simp_all add: safe_log_ratio_def) (simp add: same_shape_def)
  obtain final ms where loop: "for_each (rejection_step ?s m ?v) ts (mmap (\<lambda>_. 1) m, []) = Inr (final, ms)"
    using rejection_loop_total [OF good valid] by fast
  note f = rejection_loop_mask [OF loop s one]
  have "log_ratio \<noteq> []" using valid same_shape_length [OF shape] by (auto simp: any_valid_def)
  then obtain ms' where run: "compute_rollout_rejection_mask log_ratio m (Some modes) (Some th) = Inr (mzip (*) m final, ms')"
    using opts ts loop by (simp add: compute_rollout_rejection_mask_def Let_def)
  have sf: "same_shape m final" and fs: "same_shape final m" using f same_shape_sym by blast+
  have "mzip (*) m final = trusted_mask ts log_ratio m"
  proof (rule mat_eqI)
    have len: "length (trusted_mask ts log_ratio m) = length m" using same_shape_length [OF shape] by (simp add: trusted_mask_def)
    have row: "length (trusted_mask ts log_ratio m ! i) = length (m ! i)" if "i < length m" for i
      using that same_shape_length [OF shape] by (simp add: trusted_mask_def)
    have "same_shape m (trusted_mask ts log_ratio m)" by (rule same_shapeI) (simp_all add: len row)
    then show "same_shape (mzip (*) m final) (trusted_mask ts log_ratio m)"
      by (rule same_shape_trans [OF same_shape_trans [OF same_shape_mzip [OF sf] fs]])
    fix i j assume "i < length (trusted_mask ts log_ratio m)" "j < length (trusted_mask ts log_ratio m ! i)"
    then have i: "i < length m" and j: "j < length (m ! i)" by (simp_all add: len row)
    have bin: "binary (m ! i)" using binary i by simp
    have "final ! i ! j = indicator_real (\<forall>opt\<in>set ts. trusted (?s ! i) (m ! i) j opt)"
      using f i j by (simp add: kept_trusted_mask [OF good bin])
    moreover have "mzip (*) m final ! i ! j = m ! i ! j * final ! i ! j"
      using mzip_nth [OF sf, of i j "(*)"] i j same_shape_length [OF fs] same_shape_nth [OF fs] by simp
    moreover have "?s ! i = map (clamp (- 20) 20) (log_ratio ! i)"
      using i same_shape_length [OF shape] by (simp add: safe_log_ratio_def mmap_def)
    moreover have "m ! i ! j \<in> {0, 1}" using bin nth_mem [OF j] unfolding binary_def by blast
    ultimately show "mzip (*) m final ! i ! j = trusted_mask ts log_ratio m ! i ! j"
      using i j same_shape_length [OF shape] by (auto simp: trusted_mask_def indicator_real_def)
  qed
  then show ?thesis using run by simp
qed

text \<open>C20: for every list of rejection options and thresholds the parsers accept, on a batch with some valid token under
  a 0/1 mask, the rejection mask keeps exactly the response tokens that satisfy the condition of every option on
  the (clamped) probability ratios.\<close>

theorem rejection_keeps_trusted:
  assumes "same_shape log_ratio m" and "any_valid m" and "\<forall>row\<in>set m. binary row"
    and "parse_options modes = Inr opts" and "parse_rollout_rs_thresholds opts (Some th) = Inr ts"
  shows "\<exists>ms. compute_rollout_rejection_mask log_ratio m (Some modes) (Some th) = Inr (trusted_mask ts log_ratio m, ms)"
  by (rule rejection_mask_eq [OF assms])

lemma token_k2_options: "parse_options ''token_k2'' = Inr [''token_k2'']"
  by code_simp

lemma token_k2_thresholds:
  "parse_rollout_rs_thresholds [''token_k2''] (Some (TNum (1 / 10))) = Inr [(''token_k2'', None, 1 / 10)]"
  by (simp add: parse_rollout_rs_thresholds_def raw_specs_def match_specs_def add_threshold_def option_threshold_def
    option_names)

theorem rejection_keeps_trusted_witness:
  "\<exists>ms. compute_rollout_rejection_mask [[0, 1]] [[1, 1]] (Some ''token_k2'') (Some (TNum (1 / 10))) = Inr ([[1, 0]], ms)"
proof -
  have "trusted_mask [(''token_k2'', None, 1 / 10)] [[0, 1]] [[1, 1]] = [[1, 0]]"
    by (simp add: trusted_mask_def trusted_def clamp_def Let_def upt_rec)
  then show ?thesis
    using rejection_keeps_trusted [of "[[0, 1]]" "[[1, 1]]", OF _ _ _ token_k2_options token_k2_thresholds]
    by (simp add: same_shape_def any_valid_def binary_def)
qed

text \<open>A sequence-level condition does not depend on the position.\<close>

lemma trusted_sequence_level:
  assumes "name \<in> set supported_options" and "name \<notin> set token_level_options"
  shows "trusted xs ms j (name, t) = trusted xs ms k (name, t)"
  using not_token_level [OF assms] by (elim UnE insertE; simp add: trusted_def split_beta Let_def)

lemma parsed_thresholds:
  assumes "compute_rollout_rejection_mask log_ratio m (Some modes) (Some th) = Inr (m', ms)" and "log_ratio \<noteq> []"
    and "parse_options modes = Inr opts"
  shows "\<exists>ts. parse_rollout_rs_thresholds opts (Some th) = Inr ts"
  using assms by (auto simp: compute_rollout_rejection_mask_def rbind_eq_Inr)

text \<open>when all options are sequence-level, every sequence is kept or dropped as a whole.\<close>

theorem sequences_kept_or_dropped:
  assumes run: "compute_rollout_rejection_mask log_ratio m (Some modes) (Some th) = Inr (m', ms)"
    and shape: "same_shape log_ratio m" and valid: "any_valid m" and binary: "\<forall>row\<in>set m. binary row"
    and opts: "parse_options modes = Inr opts" and seq: "set opts \<inter> set token_level_options = {}"
    and i: "i < length m"
  shows "m' ! i = m ! i \<or> m' ! i = replicate (length (m ! i)) 0"
proof -
  have "log_ratio \<noteq> []" using valid same_shape_length [OF shape] by (auto simp: any_valid_def)
  then obtain ts where ts: "parse_rollout_rs_thresholds opts (Some th) = Inr ts"
    using parsed_thresholds [OF run _ opts] by blast
  have m': "m' = trusted_mask ts log_ratio m"
    using rejection_mask_eq [OF shape valid binary opts ts] run by auto
  let ?T = "\<lambda>j. \<forall>opt\<in>set ts. trusted (map (clamp (- 20) 20) (log_ratio ! i)) (m ! i) j opt"
  have "trusted xs ms j opt = trusted xs ms 0 opt" if "opt \<in> set ts" for xs ms j opt
  proof -
    have "fst opt \<in> set opts" using parsed_options_good(2) [OF opts ts] that by auto
    then have "fst opt \<in> set supported_options" "fst opt \<notin> set token_level_options"
      using parsed_options_good(1) [OF opts ts] seq that by (auto simp: good_option_def)
    then show ?thesis using trusted_sequence_level [of "fst opt" xs ms j "snd opt" 0] by simp
  qed
  then have T: "?T j = ?T 0" for j by blast
  have row: "m' ! i = map (\<lambda>j. if m ! i ! j = 1 \<and> ?T j then 1 else 0) [0..<length (m ! i)]"
    using i same_shape_length [OF shape] by (simp add: m' trusted_mask_def)
  have bin: "m ! i ! j = 0 \<or> m ! i ! j = 1" if "j < length (m ! i)" for j
    using binary i nth_mem [OF that] nth_mem [OF i] unfolding binary_def by blast
  show ?thesis
  proof (cases "?T 0")
    case True
    have "m' ! i = m ! i"
      by (rule nth_equalityI) (use row T True bin in auto)
    then show ?thesis ..
  next
    case False
    have "m' ! i = replicate (length (m ! i)) 0"
      by (rule nth_equalityI) (use row T False in auto)
    then show ?thesis ..
  qed
qed

lemma seq_max_options: "parse_options ''seq_max_k2'' = Inr [''seq_max_k2'']"
  by code_simp

lemma seq_max_thresholds:
  "parse_rollout_rs_thresholds [''seq_max_k2''] (Some (TNum (1 / 10))) = Inr [(''seq_max_k2'', None, 1 / 10)]"
  by (simp add: parse_rollout_rs_thresholds_def raw_specs_def match_specs_def add_threshold_def option_threshold_def
    option_names)

theorem sequences_kept_or_dropped_witness:
  "\<exists>m' ms. compute_rollout_rejection_mask [[0, 1], [0, 0]] [[1, 1], [1, 0]] (Some ''seq_max_k2'') (Some (TNum (1 / 10)))
       = Inr (m', ms) \<and> (m' ! 0 = [1, 1] \<or> m' ! 0 = [0, 0])"
proof -
  have h: "same_shape [[0 :: real, 1], [0, 0]] [[1 :: real, 1], [1, 0]]" "any_valid [[1, 1], [1, 0]]"
    "\<forall>row\<in>set [[1, 1], [1, 0]]. binary row"
    by (simp_all add: same_shape_def any_valid_def binary_def)
  obtain m' ms where run: "compute_rollout_rejection_mask [[0, 1], [0, 0]] [[1, 1], [1, 0]] (Some ''seq_max_k2'')
      (Some (TNum (1 / 10))) = Inr (m', ms)"
    using rejection_mask_eq [OF h seq_max_options seq_max_thresholds] by auto
  have "set [''seq_max_k2''] \<inter> set token_level_options = {}" by code_simp
  then have "m' ! 0 = [1, 1] \<or> m' ! 0 = [0, 0]"
    using sequences_kept_or_dropped [OF run h seq_max_options, of 0] by (simp add: numeral_2_eq_2)
  then show ?thesis using run by blast
qed

text \<open>One threshold for all options: what is parsed does not depend on their order.\<close>

lemma shared_threshold_run:
  assumes "for_each add_threshold (map (\<lambda>q. (q, r)) opts) acc = Inr ts" and "distinct (map fst acc @ opts)"
  shows "set ts = set acc \<union> {(opt, t) | opt t. opt \<in> set opts \<and> option_threshold opt r = Inr t}
    \<and> (\<forall>opt\<in>set opts. \<exists>t. option_threshold opt r = Inr t)"
  using assms
proof (induction opts arbitrary: acc)
  case (Cons opt opts)
  then obtain t where t: "option_threshold opt r = Inr t"
    and rest: "for_each add_threshold (map (\<lambda>q. (q, r)) opts) (dict_set opt t acc) = Inr ts"
    by (auto simp: add_threshold_eq rbind_eq_Inr)
  have "dict_set opt t acc = acc @ [(opt, t)]" if "opt \<notin> fst ` set acc" for acc :: thresholds
    using that by (induction opt t acc rule: dict_set.induct) auto
  then have "dict_set opt t acc = acc @ [(opt, t)]" using Cons.prems(2) by simp
  then show ?case using Cons.IH [of "acc @ [(opt, t)]"] rest Cons.prems(2) t by auto
qed simp

lemma shared_threshold_total:
  "\<forall>opt\<in>set opts. \<exists>t. option_threshold opt r = Inr t \<Longrightarrow> \<exists>ts. for_each add_threshold (map (\<lambda>q. (q, r)) opts) acc = Inr ts"
  by (induction opts arbitrary: acc) (auto simp: add_threshold_def)

lemma shared_threshold_parse:
  assumes "opts \<noteq> []"
  shows "parse_rollout_rs_thresholds opts (Some (TNum x)) = for_each add_threshold (map (\<lambda>q. (q, RawNum x)) opts) []"
proof -
  have "match_specs (length opts) [RawNum x] = Inr (replicate (length opts) (RawNum x))"
    using assms by (cases opts) (simp_all add: match_specs_def concat_replicate_trivial map_replicate_const)
  moreover have "zip opts (replicate (length opts) r) = map (\<lambda>q. (q, r)) opts" for r :: raw_spec
    by (induction opts) simp_all
  ultimately show ?thesis by (simp add: parse_rollout_rs_thresholds_def raw_specs_def)
qed

text \<open>with one shared numeric threshold the rejection mask does not depend on the order of the
  options or on repeated ones.\<close>

theorem rejection_option_order:
  assumes run: "compute_rollout_rejection_mask log_ratio m (Some modes) (Some (TNum x)) = Inr (m', ms)"
    and shape: "same_shape log_ratio m" and valid: "any_valid m" and binary: "\<forall>row\<in>set m. binary row"
    and opts: "parse_options modes = Inr opts" and opts': "parse_options modes' = Inr opts'"
    and same: "set opts = set opts'"
  shows "\<exists>ms'. compute_rollout_rejection_mask log_ratio m (Some modes') (Some (TNum x)) = Inr (m', ms')"
proof -
  note po = parse_options_distinct [OF opts] and po' = parse_options_distinct [OF opts']
  have "log_ratio \<noteq> []" using valid same_shape_length [OF shape] by (auto simp: any_valid_def)
  then obtain ts where ts: "parse_rollout_rs_thresholds opts (Some (TNum x)) = Inr ts"
    using parsed_thresholds [OF run _ opts] by blast
  then have "for_each add_threshold (map (\<lambda>q. (q, RawNum x)) opts) [] = Inr ts"
    using shared_threshold_parse po by simp
  from shared_threshold_run [OF this] have set: "set ts = {(opt, t) | opt t. opt \<in> set opts \<and> option_threshold opt (RawNum x) = Inr t}"
    and "\<forall>opt\<in>set opts. \<exists>t. option_threshold opt (RawNum x) = Inr t" using po by simp_all
  then obtain ts' where for': "for_each add_threshold (map (\<lambda>q. (q, RawNum x)) opts') [] = Inr ts'"
    using shared_threshold_total [of opts' "RawNum x" "[]"] same by auto
  then have ts': "parse_rollout_rs_thresholds opts' (Some (TNum x)) = Inr ts'" using shared_threshold_parse po' by simp
  have "set ts' = set ts" using shared_threshold_run [OF for'] po' set same by simp
  then have "trusted_mask ts' log_ratio m = trusted_mask ts log_ratio m" by (simp add: trusted_mask_def)
  moreover have "m' = trusted_mask ts log_ratio m" using rejection_mask_eq [OF shape valid binary opts ts] run by auto
  ultimately show ?thesis using rejection_mask_eq [OF shape valid binary opts' ts'] by simp
qed

theorem rejection_option_order_witness:
  "\<exists>m' ms ms'. compute_rollout_rejection_mask [[0, 1]] [[1, 1]] (Some ''token_k2'') (Some (TNum (1 / 10))) = Inr (m', ms)
     \<and> compute_rollout_rejection_mask [[0, 1]] [[1, 1]] (Some ''token_k2, token_k2'') (Some (TNum (1 / 10))) = Inr (m', ms')"
proof -
  have h: "same_shape [[0 :: real, 1]] [[1 :: real, 1]]" "any_valid [[1, 1]]" "\<forall>row\<in>set [[1, 1]]. binary row"
    by (simp_all add: same_shape_def any_valid_def binary_def)
  obtain m' ms where run: "compute_rollout_rejection_mask [[0, 1]] [[1, 1]] (Some ''token_k2'') (Some (TNum (1 / 10))) = Inr (m', ms)"
    using rejection_mask_eq [OF h token_k2_options token_k2_thresholds] by blast
  have "parse_options ''token_k2, token_k2'' = Inr [''token_k2'']" by code_simp
  from rejection_option_order [OF run h token_k2_options this] run show ?thesis by blast
qed

end
