(* ===== verification/TokenBaseline.thy ===== *)
theory TokenBaseline
  imports GroupBaselines TokenReturns RolloutFacts
begin

text \<open>
  The optimal token baselines of \<open>verl/trainer/ppo/core_algos.py\<close>: a baseline per position of the
  response, the average of the returns weighted with the accumulated path variance, and the
  multi-turn variant, which aligns the trajectories on their own tokens. The two agree on masks
  without holes. The masks are integer tensors, so that the sum of a row is the number of its
  tokens; all rows of a batch have the same length.
\<close>

section \<open>Path variance\<close>

text \<open>\<open>1 - 2 * pi_t + sum_pi_squared\<close>, scaled with the squared importance weights.\<close>

definition token_variance :: "mat \<Rightarrow> mat \<Rightarrow> mat option \<Rightarrow> mat" where
  "token_variance old_log_probs sum_pi_squared rollout_is_weights =
     (let w = mzip (\<lambda>lp s. 1 - 2 * exp lp + s) old_log_probs sum_pi_squared
      in case rollout_is_weights of None \<Rightarrow> w | Some r \<Rightarrow> mzip (\<lambda>x y. x * y\<^sup>2) w r)"

definition path_variance :: "mat \<Rightarrow> mat \<Rightarrow> mat option \<Rightarrow> mat \<Rightarrow> mat" where
  "path_variance old_log_probs sum_pi_squared rollout_is_weights response_mask =
     map (prefix_sums 0) (mzip (*) (token_variance old_log_probs sum_pi_squared rollout_is_weights) response_mask)"

definition response_lengths :: "mat \<Rightarrow> nat list" where
  "response_lengths response_mask = map (\<lambda>row. nat \<lfloor>sum_list row\<rfloor>) response_mask"

section \<open>The baseline of a group\<close>

text \<open>\<open>a.sum(dim=0)\<close> for \<open>n\<close> columns.\<close>

definition column_sums :: "nat \<Rightarrow> mat \<Rightarrow> vec" where
  "column_sums n rows = map (\<lambda>t. sum_list (map (\<lambda>row. row ! t) rows)) [0..<n]"

definition weighted_baseline :: "nat \<Rightarrow> real \<Rightarrow> mat \<Rightarrow> mat \<Rightarrow> vec" where
  "weighted_baseline n epsilon rets weights =
     map2 (/) (column_sums n (mzip (*) rets weights)) (map (\<lambda>d. d + epsilon) (column_sums n weights))"

text \<open>\<open>baselines[i, k:] = 0.0\<close>.\<close>

definition zero_from :: "nat \<Rightarrow> vec \<Rightarrow> vec" where
  "zero_from k row = take k row @ replicate (length row - k) 0"

text \<open>The positions of the only longest trajectory of a group beyond the second longest.\<close>

definition zero_tail :: "nat list \<Rightarrow> nat list \<Rightarrow> mat \<Rightarrow> mat" where
  "zero_tail trajectory_indices lengths baselines =
     (let sorted_lengths = sort lengths; n = length lengths;
          max_length = sorted_lengths ! (n - 1);
          second_max_length = sorted_lengths ! (n - 2);
          max_length_idx = filter (\<lambda>i. lengths ! i = max_length) [0..<n]
      in if length max_length_idx = 1 \<and> second_max_length < max_length
         then let i = trajectory_indices ! hd max_length_idx
              in baselines[i := zero_from second_max_length (baselines ! i)]
         else baselines)"

definition assign_rows :: "nat list \<Rightarrow> vec \<Rightarrow> mat \<Rightarrow> mat" where
  "assign_rows indices row baselines = foldl (\<lambda>b i. b[i := row]) baselines indices"

definition group_rows :: "mat \<Rightarrow> nat list \<Rightarrow> mat" where
  "group_rows a indices = map ((!) a) indices"

text \<open>The loop body for one prompt group; \<open>lengths\<close> are the token counts of the batch.\<close>

definition group_baseline ::
    "nat \<Rightarrow> real \<Rightarrow> bool \<Rightarrow> nat list \<Rightarrow> mat \<Rightarrow> mat \<Rightarrow> nat list \<Rightarrow> mat \<Rightarrow> mat" where
  "group_baseline n epsilon handle_zero_tail lengths rets weights trajectory_indices baselines =
     (if length trajectory_indices = 1 then baselines
      else let row = weighted_baseline n epsilon (group_rows rets trajectory_indices)
                       (group_rows weights trajectory_indices);
               assigned = assign_rows trajectory_indices row baselines
           in if handle_zero_tail
              then zero_tail trajectory_indices (map ((!) lengths) trajectory_indices) assigned
              else assigned)"

definition all_baselines ::
    "nat \<Rightarrow> real \<Rightarrow> bool \<Rightarrow> nat list \<Rightarrow> mat \<Rightarrow> mat \<Rightarrow> ('u \<times> nat list) list \<Rightarrow> mat \<Rightarrow> mat" where
  "all_baselines n epsilon handle_zero_tail lengths rets weights groups zero =
     foldl (\<lambda>b (_, trajectory_indices).
         group_baseline n epsilon handle_zero_tail lengths rets weights trajectory_indices b) zero groups"

section \<open>The two estimators\<close>

definition width :: "mat \<Rightarrow> nat" where
  "width a = (case a of [] \<Rightarrow> 0 | row # _ \<Rightarrow> length row)"

definition compute_optimal_token_baseline_advantage ::
    "mat \<Rightarrow> mat \<Rightarrow> 'u list \<Rightarrow> mat \<Rightarrow> mat \<Rightarrow> mat option \<Rightarrow> bool \<Rightarrow> real \<Rightarrow> (mat \<times> mat) result" where
  "compute_optimal_token_baseline_advantage token_level_rewards response_mask index old_log_probs
       sum_pi_squared rollout_is_weights handle_zero_tail epsilon =
     (let rets = returns_to_go token_level_rewards response_mask;
          w_cumulative = path_variance old_log_probs sum_pi_squared rollout_is_weights response_mask;
          batch_size = length token_level_rewards
      in with_index index batch_size
           (let baselines = all_baselines (width token_level_rewards) epsilon handle_zero_tail
                  (response_lengths response_mask) rets (mzip (*) w_cumulative response_mask)
                  (group_by (take batch_size index) [0..<batch_size]) (mmap (\<lambda>_. 0) rets)
            in Inr (mzip (*) (mzip (-) rets baselines) response_mask, rets)))"

text \<open>\<open>all[i, :length] = a[i, mask]\<close> on a zero row, and the way back.\<close>

definition compact_row :: "nat \<Rightarrow> vec \<Rightarrow> vec \<Rightarrow> vec" where
  "compact_row n m vs = keep m vs @ replicate (n - length (keep m vs)) 0"

fun scatter :: "vec \<Rightarrow> vec \<Rightarrow> vec" where
  "scatter [] vs = []"
| "scatter (m # ms) vs = (if m \<noteq> 0 then hd vs # scatter ms (tl vs) else 0 # scatter ms vs)"

text \<open>\<open>index[i]\<close> for the trajectories with a token.\<close>

definition in_index :: "'u list \<Rightarrow> nat list \<Rightarrow> 'b result \<Rightarrow> 'b result" where
  "in_index index live k =
     (case filter (\<lambda>i. length index \<le> i) live of
        [] \<Rightarrow> k
      | i # _ \<Rightarrow> Inl (IndexError (''index '' @ show_nat i @ '' is out of bounds for axis 0 with size ''
             @ show_nat (length index))))"

definition compute_multi_turn_optimal_token_baseline_advantage ::
    "mat \<Rightarrow> mat \<Rightarrow> 'u list \<Rightarrow> mat \<Rightarrow> mat \<Rightarrow> mat option \<Rightarrow> bool \<Rightarrow> real \<Rightarrow> (mat \<times> mat) result" where
  "compute_multi_turn_optimal_token_baseline_advantage token_level_rewards response_mask index old_log_probs
       sum_pi_squared rollout_is_weights handle_zero_tail epsilon =
     (let token_returns = returns_to_go token_level_rewards response_mask;
          w_cumulative = path_variance old_log_probs sum_pi_squared rollout_is_weights response_mask;
          lengths = response_lengths response_mask;
          max_response_length = (if lengths = [] then 0 else Max (set lengths));
          all_w_values = map2 (compact_row max_response_length) response_mask w_cumulative;
          all_returns = map2 (compact_row max_response_length) response_mask token_returns;
          live = filter (\<lambda>i. lengths ! i \<noteq> 0) [0..<length lengths]
      in in_index index live
           (let baselines = all_baselines max_response_length epsilon handle_zero_tail lengths all_returns
                  all_w_values (group_by (map ((!) index) live) live) (mmap (\<lambda>_. 0) all_returns);
                all_advantages = mzip (-) all_returns baselines;
                advantages = map2 scatter response_mask all_advantages
            in Inr (mzip (*) advantages response_mask, token_returns)))"


section \<open>The baseline at one position\<close>

text \<open>The loops over the groups, position by position: \<open>s\<close> and \<open>M\<close> are the two largest token counts.\<close>

definition top_two :: "nat list \<Rightarrow> nat list \<Rightarrow> nat \<times> nat" where
  "top_two L g = (let s = sort (map ((!) L) g); n = length g in (s ! (n - 2), s ! (n - 1)))"

definition in_tail :: "nat list \<Rightarrow> nat list \<Rightarrow> nat \<Rightarrow> nat \<Rightarrow> bool" where
  "in_tail L g i t \<longleftrightarrow> (case top_two L g of (s, M) \<Rightarrow> filter (\<lambda>j. L ! j = M) g = [i] \<and> s < M \<and> s \<le> t)"

definition position_baseline :: "real \<Rightarrow> bool \<Rightarrow> nat list \<Rightarrow> mat \<Rightarrow> mat \<Rightarrow> nat list \<Rightarrow> nat \<Rightarrow> nat \<Rightarrow> real" where
  "position_baseline epsilon zero L R W g i t =
     (if length g = 1 \<or> zero \<and> in_tail L g i t then 0
      else (\<Sum>j\<leftarrow>g. R ! j ! t * W ! j ! t) / ((\<Sum>j\<leftarrow>g. W ! j ! t) + epsilon))"

lemma assign_rows_nth:
  "length (assign_rows g row b) = length b"
  "i < length b \<Longrightarrow> assign_rows g row b ! i = (if i \<in> set g then row else b ! i)"
  by (induction g arbitrary: b) (auto simp: assign_rows_def)

lemma map_filter_upt: "map ((!) g) (filter (\<lambda>p. P (g ! p)) [0..<length g]) = filter P g"
proof -
  have "filter P g = filter P (map ((!) g) [0..<length g])" by (simp add: map_nth)
  then show ?thesis by (simp add: filter_map comp_def)
qed

lemma zero_from_nth: "t < length row \<Longrightarrow> zero_from s row ! t = (if s \<le> t then 0 else row ! t)"
  by (simp add: zero_from_def nth_append)

lemma zero_tail_nth:
  assumes g: "2 \<le> length g" "i < length b" and row: "t < length (b ! i)"
  shows "length (zero_tail g (map ((!) L) g) b) = length b"
    and "zero_tail g (map ((!) L) g) b ! i ! t = (if in_tail L g i t then 0 else b ! i ! t)"
proof -
  obtain s M where top: "top_two L g = (s, M)" by fastforce
  define idx where "idx = filter (\<lambda>p. L ! (g ! p) = M) [0..<length g]"
  have c: "map ((!) g) idx = filter (\<lambda>j. L ! j = M) g"
    unfolding idx_def by (rule map_filter_upt)
  have idx': "filter (\<lambda>p. map ((!) L) g ! p = M) [0..<length g] = idx"
    unfolding idx_def by (rule filter_cong) auto
  have eq: "zero_tail g (map ((!) L) g) b =
    (if length idx = 1 \<and> s < M then b[g ! hd idx := zero_from s (b ! (g ! hd idx))] else b)"
    using top idx' by (simp add: zero_tail_def top_two_def Let_def)
  then show "length (zero_tail g (map ((!) L) g) b) = length b" by simp
  have one: "filter (\<lambda>j. L ! j = M) g = [i] \<longleftrightarrow> length idx = 1 \<and> g ! hd idx = i"
    unfolding c [symmetric] by (cases idx) auto
  show "zero_tail g (map ((!) L) g) b ! i ! t = (if in_tail L g i t then 0 else b ! i ! t)"
    using g row zero_from_nth [OF row] by (cases "g ! hd idx = i") (auto simp: eq in_tail_def top one)
qed

lemma column_sums_nth: "t < n \<Longrightarrow> column_sums n rows ! t = (\<Sum>row\<leftarrow>rows. row ! t)"
  by (simp add: column_sums_def)

lemma weighted_baseline_nth:
  assumes t: "t < n" and R: "\<forall>j\<in>set g. t < length (R ! j)" and W: "\<forall>j\<in>set g. t < length (W ! j)"
  shows "weighted_baseline n epsilon (group_rows R g) (group_rows W g) ! t =
    (\<Sum>j\<leftarrow>g. R ! j ! t * W ! j ! t) / ((\<Sum>j\<leftarrow>g. W ! j ! t) + epsilon)"
proof -
  have "mzip (*) (group_rows R g) (group_rows W g) = map (\<lambda>j. map2 (*) (R ! j) (W ! j)) g"
    by (simp add: mzip_def group_rows_def zip_map_map zip_same_conv_map comp_def)
  moreover have "(\<Sum>j\<leftarrow>g. map2 (*) (R ! j) (W ! j) ! t) = (\<Sum>j\<leftarrow>g. R ! j ! t * W ! j ! t)"
    using R W by (intro arg_cong [where f = sum_list] map_cong) auto
  ultimately show ?thesis using t
    by (simp add: weighted_baseline_def column_sums_nth group_rows_def comp_def column_sums_def)
qed

lemma length_group_baseline: "length (group_baseline n epsilon zero L R W g b) = length b"
  by (simp add: group_baseline_def Let_def assign_rows_nth zero_tail_def)

lemma zero_tail_other:
  assumes "i \<notin> set g" "length ls = length g"
  shows "zero_tail g ls b ! i = b ! i"
proof -
  define M s where "M = sort ls ! (length g - 1)" and "s = sort ls ! (length g - 2)"
  define idx where idx: "idx = filter (\<lambda>p. ls ! p = M) [0..<length g]"
  have eq: "zero_tail g ls b =
      (if length idx = 1 \<and> s < M then b[g ! hd idx := zero_from s (b ! (g ! hd idx))] else b)"
    using assms(2) by (simp add: zero_tail_def Let_def idx M_def s_def)
  show ?thesis
  proof (cases "length idx = 1")
    case True
    then have "hd idx \<in> set idx" by (intro hd_in_set) auto
    then have "g ! hd idx \<in> set g" by (simp add: idx)
    then have "g ! hd idx \<noteq> i" using assms(1) by blast
    then show ?thesis by (simp add: eq)
  qed (simp add: eq)
qed

lemma group_baseline_other:
  "i \<notin> set g \<Longrightarrow> i < length b \<Longrightarrow> group_baseline n epsilon zero L R W g b ! i = b ! i"
  by (simp add: group_baseline_def Let_def assign_rows_nth zero_tail_other)

lemma length_weighted_baseline: "length (weighted_baseline n epsilon R W) = n"
  by (simp add: weighted_baseline_def column_sums_def)

lemma group_baseline_nth:
  assumes i: "i \<in> set g" "i < length b" and t: "t < n" and zero: "b ! i ! t = 0"
    and R: "\<forall>j\<in>set g. t < length (R ! j)" and W: "\<forall>j\<in>set g. t < length (W ! j)"
  shows "group_baseline n epsilon zr L R W g b ! i ! t = position_baseline epsilon zr L R W g i t"
proof (cases "length g = 1")
  case True
  then show ?thesis using zero by (simp add: group_baseline_def position_baseline_def)
next
  case False
  then have g: "2 \<le> length g" using i(1) by (cases g) (auto simp: Suc_le_eq)
  let ?row = "weighted_baseline n epsilon (group_rows R g) (group_rows W g)"
  have row: "assign_rows g ?row b ! i = ?row" using assign_rows_nth(2) [OF i(2)] i(1) by simp
  then show ?thesis
    using False zero_tail_nth(2) [OF g, of i "assign_rows g ?row b" t L] i t
    by (simp add: group_baseline_def Let_def assign_rows_nth(1) length_weighted_baseline position_baseline_def
      weighted_baseline_nth [OF t R W])
qed

lemma all_baselines_nth:
  assumes "distinct (concat (map snd groups))" and "(k, g) \<in> set groups" and "i \<in> set g"
    and "i < length b" and "t < n" and "b ! i ! t = 0"
    and "\<forall>j\<in>set g. t < length (R ! j)" and "\<forall>j\<in>set g. t < length (W ! j)"
  shows "all_baselines n epsilon zr L R W groups b ! i ! t = position_baseline epsilon zr L R W g i t"
  using assms
proof (induction groups arbitrary: b)
  case (Cons p groups)
  obtain k' g' where p: "p = (k', g')" by fastforce
  let ?b = "group_baseline n epsilon zr L R W g' b"
  have step: "all_baselines n epsilon zr L R W (p # groups) b = all_baselines n epsilon zr L R W groups ?b"
    by (simp add: all_baselines_def p)
  show ?case
  proof (cases "i \<in> set g'")
    case True
    have later: "\<forall>(k, h)\<in>set groups. i \<notin> set h"
      using Cons.prems(1) True by (fastforce simp: p)
    then have eq: "g' = g" using Cons.prems(2,3) by (auto simp: p)
    have keep: "all_baselines n epsilon zr L R W groups c ! i = c ! i"
      if "i < length c" for c
      using later that
    proof (induction groups arbitrary: c)
      case (Cons q groups)
      then show ?case
        by (cases q) (simp add: all_baselines_def group_baseline_other length_group_baseline)
    qed (simp add: all_baselines_def)
    show ?thesis
      using keep [of ?b] Cons.prems True by (simp add: step length_group_baseline group_baseline_nth eq)
  next
    case False
    then have "(k, g) \<in> set groups" using Cons.prems(2,3) by (auto simp: p)
    then show ?thesis
      unfolding step using Cons.prems False
      by (intro Cons.IH) (auto simp: p length_group_baseline group_baseline_other)
  qed
qed simp

section \<open>The groups of a batch\<close>

lemma mset_dict_append:
  "mset (concat (map snd (dict_append k v d))) = add_mset v (mset (concat (map snd d)))"
  by (induction k v d rule: dict_append.induct) auto

lemma mset_group_by: "length ks = length vs \<Longrightarrow> mset (concat (map snd (group_by ks vs))) = mset vs"
proof -
  have "mset (concat (map snd (foldl (\<lambda>d (k, v). dict_append k v d) d ps)))
      = mset (concat (map snd d)) + mset (map snd ps)" for d and ps :: "('a \<times> 'b) list"
    by (induction ps arbitrary: d) (auto simp: mset_dict_append)
  then show "length ks = length vs \<Longrightarrow> mset (concat (map snd (group_by ks vs))) = mset vs"
    by (simp add: group_by_def del: mset_map)
qed

text \<open>The group of trajectory \<open>i\<close> in the batch, and its baseline.\<close>

definition prompt_group :: "'u list \<Rightarrow> nat \<Rightarrow> nat \<Rightarrow> nat list" where
  "prompt_group index n i = filter (\<lambda>j. index ! j = index ! i) [0..<n]"

lemma grouped_baselines_nth:
  assumes xs: "distinct xs" "i \<in> set xs" "i < length b"
    and t: "t < n" "b ! i ! t = 0"
    and R: "\<forall>j\<in>set xs. t < length (R ! j)" and W: "\<forall>j\<in>set xs. t < length (W ! j)"
  shows "all_baselines n epsilon zr L R W (group_by (map ((!) index) xs) xs) b ! i ! t
    = position_baseline epsilon zr L R W (filter (\<lambda>j. index ! j = index ! i) xs) i t"
proof -
  let ?groups = "group_by (map ((!) index) xs) xs"
  let ?g = "filter (\<lambda>j. index ! j = index ! i) xs"
  have "members (map ((!) index) xs) xs (index ! i) = ?g"
    by (induction xs) auto
  then have "map_of ?groups (index ! i) = Some ?g"
    using xs(2) by (auto simp: map_of_group_by)
  then have mem: "(index ! i, ?g) \<in> set ?groups" by (rule map_of_SomeD)
  have "distinct (concat (map snd ?groups))"
    using mset_group_by [of "map ((!) index) xs" xs] xs(1) by (metis length_map mset_eq_imp_distinct_iff)
  then show ?thesis
    using mem xs t R W by (intro all_baselines_nth [where k = "index ! i"]) auto
qed

section \<open>Masks without holes\<close>

definition prefix_mask :: "vec \<Rightarrow> bool" where
  "prefix_mask ms \<longleftrightarrow> (\<exists>k\<le>length ms. ms = replicate k 1 @ replicate (length ms - k) 0)"

lemma prefix_maskE:
  assumes "prefix_mask ms"
  obtains k where "k \<le> length ms" "ms = replicate k 1 @ replicate (length ms - k) 0" "nat \<lfloor>sum_list ms\<rfloor> = k"
proof -
  obtain k where k: "k \<le> length ms" "ms = replicate k 1 @ replicate (length ms - k) 0"
    using assms by (auto simp: prefix_mask_def)
  have "sum_list ms = real k" by (subst k(2)) (simp add: sum_list_replicate)
  then show thesis using that [OF k] by simp
qed

lemma keep_replicate: "length vs = k + l \<Longrightarrow> keep (replicate k 1 @ replicate l 0) vs = take k vs"
proof (induction k arbitrary: vs)
  case 0
  have "filter (\<lambda>(x, m). m \<noteq> 0) (zip vs (replicate (length vs) (0 :: real))) = []"
    by (auto simp: filter_empty_conv set_zip)
  then show ?case using 0 by (simp add: keep_def)
next
  case (Suc k)
  then show ?case by (cases vs) (simp_all add: keep_def)
qed

lemma prefix_mask_nth:
  assumes "prefix_mask ms" "t < length ms"
  shows "ms ! t = (if t < nat \<lfloor>sum_list ms\<rfloor> then 1 else 0)"
proof -
  obtain k where k: "ms = replicate k 1 @ replicate (length ms - k) 0" "nat \<lfloor>sum_list ms\<rfloor> = k"
    using prefix_maskE [OF assms(1)] by metis
  have "ms ! t = (replicate k 1 @ replicate (length ms - k) 0) ! t" using k(1) by simp
  then show ?thesis using assms(2) k(2) by (simp add: nth_append)
qed

lemma compact_prefix:
  assumes "prefix_mask ms" "length vs = length ms" "nat \<lfloor>sum_list ms\<rfloor> \<le> n"
  shows "compact_row n ms vs = take (nat \<lfloor>sum_list ms\<rfloor>) vs @ replicate (n - nat \<lfloor>sum_list ms\<rfloor>) 0"
    and "length (compact_row n ms vs) = n"
    and "t < n \<Longrightarrow> compact_row n ms vs ! t = (if t < nat \<lfloor>sum_list ms\<rfloor> then vs ! t else 0)"
proof -
  obtain k where k: "k \<le> length ms" "ms = replicate k 1 @ replicate (length ms - k) 0" "nat \<lfloor>sum_list ms\<rfloor> = k"
    using prefix_maskE [OF assms(1)] by metis
  have "keep ms vs = take k vs"
    using keep_replicate [of vs k "length ms - k"] k(1,2) assms(2) by simp
  then show eq: "compact_row n ms vs = take (nat \<lfloor>sum_list ms\<rfloor>) vs @ replicate (n - nat \<lfloor>sum_list ms\<rfloor>) 0"
    using k assms(2) by (simp add: compact_row_def)
  show "length (compact_row n ms vs) = n"
    and "t < n \<Longrightarrow> compact_row n ms vs ! t = (if t < nat \<lfloor>sum_list ms\<rfloor> then vs ! t else 0)"
    using k assms(2,3) by (auto simp: eq nth_append)
qed

lemma scatter_zeros: "scatter (replicate l 0) vs = replicate l 0"
  by (induction l) auto

lemma scatter_replicate: "k \<le> length vs \<Longrightarrow> scatter (replicate k 1 @ replicate l 0) vs = take k vs @ replicate l 0"
proof (induction k arbitrary: vs)
  case (Suc k)
  then show ?case by (cases vs) auto
qed (simp add: scatter_zeros)

lemma scatter_prefix:
  assumes "prefix_mask ms" "nat \<lfloor>sum_list ms\<rfloor> \<le> length vs"
  shows "length (scatter ms vs) = length ms"
    and "t < length ms \<Longrightarrow> scatter ms vs ! t = (if t < nat \<lfloor>sum_list ms\<rfloor> then vs ! t else 0)"
proof -
  obtain k where k: "k \<le> length ms" "ms = replicate k 1 @ replicate (length ms - k) 0" "nat \<lfloor>sum_list ms\<rfloor> = k"
    using prefix_maskE [OF assms(1)] by metis
  have "scatter ms vs = take k vs @ replicate (length ms - k) 0"
    using scatter_replicate [of k vs "length ms - k"] k assms(2) by simp
  then show "length (scatter ms vs) = length ms"
    and "t < length ms \<Longrightarrow> scatter ms vs ! t = (if t < nat \<lfloor>sum_list ms\<rfloor> then vs ! t else 0)"
    using assms k by (auto simp: nth_append)
qed

section \<open>Trajectories without a token do not count\<close>

lemma sort_live:
  fixes ls :: "nat list"
  shows "sort ls = replicate (length (filter (\<lambda>l. l = 0) ls)) 0 @ sort (filter (\<lambda>l. l \<noteq> 0) ls)"
proof (rule properties_for_sort)
  have "mset (replicate (length (filter (\<lambda>l. l = 0) ls)) 0) = mset (filter (\<lambda>l. l = 0) ls)"
    by (induction ls) auto
  then show "mset (replicate (length (filter (\<lambda>l. l = 0) ls)) 0 @ sort (filter (\<lambda>l. l \<noteq> 0) ls)) = mset ls"
    by (induction ls) auto
qed (auto simp: sorted_append)

lemma nth_last_append:
  "2 \<le> length ys \<Longrightarrow> (xs @ ys) ! (length xs + length ys - 2) = ys ! (length ys - 2)"
  "1 \<le> length ys \<Longrightarrow> (xs @ ys) ! (length xs + length ys - 1) = ys ! (length ys - 1)"
  by (auto simp: nth_append)

lemma top_two_live:
  assumes "2 \<le> length (filter (\<lambda>j. L ! j \<noteq> 0) g)"
  shows "top_two L (filter (\<lambda>j. L ! j \<noteq> 0) g) = top_two L g"
proof -
  let ?g = "filter (\<lambda>j. L ! j \<noteq> 0) g"
  have live: "filter (\<lambda>l. l \<noteq> 0) (map ((!) L) g) = map ((!) L) ?g" by (simp add: filter_map comp_def)
  define z where "z = length (filter (\<lambda>l. l = 0) (map ((!) L) g))"
  have s: "sort (map ((!) L) g) = replicate z 0 @ sort (map ((!) L) ?g)"
    using sort_live [of "map ((!) L) g"] unfolding z_def live .
  have len: "length g = z + length ?g" using arg_cong [OF s, of length] by simp
  show ?thesis unfolding top_two_def Let_def s len using assms
    using nth_last_append [of "sort (map ((!) L) ?g)" "replicate z 0"] by simp
qed

text \<open>With a single trajectory left, the tail is the whole of it.\<close>

lemma single_live_tail:
  assumes "filter (\<lambda>j. L ! j \<noteq> 0) g = [i]" "length g \<noteq> 1"
  shows "in_tail L g i t"
proof -
  define z where "z = length (filter (\<lambda>l. l = 0) (map ((!) L) g))"
  have live: "filter (\<lambda>l. l \<noteq> 0) (map ((!) L) g) = [L ! i]" using assms(1) by (simp add: filter_map comp_def)
  have s: "sort (map ((!) L) g) = replicate z 0 @ [L ! i]"
    using sort_live [of "map ((!) L) g"] unfolding z_def live by simp
  have len: "length g = z + 1" using arg_cong [OF s, of length] by simp
  have top: "top_two L g = (0, L ! i)"
    using assms(2) len by (simp add: top_two_def Let_def s nth_append)
  have "i \<in> set (filter (\<lambda>j. L ! j \<noteq> 0) g)" unfolding assms(1) by simp
  then have i: "i \<in> set g" "L ! i \<noteq> 0" by simp_all
  have "filter (\<lambda>j. L ! j = L ! i) g = filter (\<lambda>j. L ! j = L ! i) (filter (\<lambda>j. L ! j \<noteq> 0) g)"
    unfolding filter_filter using i(2) by (intro filter_cong) auto
  then have "filter (\<lambda>j. L ! j = L ! i) g = [i]" unfolding assms(1) by simp
  then show ?thesis using i by (simp add: in_tail_def top)
qed

lemma position_baseline_live:
  assumes i: "i \<in> set g" "L ! i \<noteq> 0"
    and g': "g' = filter (\<lambda>j. L ! j \<noteq> 0) g"
    and R: "(\<Sum>j\<leftarrow>g'. R' ! j ! t * W' ! j ! t) = (\<Sum>j\<leftarrow>g. R ! j ! t * W ! j ! t)"
    and W: "(\<Sum>j\<leftarrow>g'. W' ! j ! t) = (\<Sum>j\<leftarrow>g. W ! j ! t)"
  shows "position_baseline epsilon True L R' W' g' i t = position_baseline epsilon True L R W g i t"
proof (cases "length g' = 1")
  case True
  have "i \<in> set g'" using i g' by simp
  then have "g' = [i]" using True by (cases g') auto
  then have "length g = 1 \<or> in_tail L g i t" using single_live_tail g' by metis
  then show ?thesis using True by (simp add: position_baseline_def)
next
  case False
  have "i \<in> set g'" using i g' by simp
  then have two: "2 \<le> length g'" using False by (cases g') (auto simp: Suc_le_eq)
  have "length g' \<le> length g" unfolding g' by (rule length_filter_le)
  then have g: "length g \<noteq> 1" using two by linarith
  have top: "top_two L g' = top_two L g" using top_two_live [of L g] two unfolding g' .
  have "filter (\<lambda>j. L ! j = M) g' = filter (\<lambda>j. L ! j = M) g" if "0 < M" for M
    unfolding g' filter_filter using that by (intro filter_cong) auto
  then have "in_tail L g' i t = in_tail L g i t"
    by (auto simp: in_tail_def top split: prod.splits)
  then show ?thesis using False g by (simp add: position_baseline_def R W)
qed

lemma length_returns_to_go: "same_shape r m \<Longrightarrow> same_shape (returns_to_go r m) m"
  using same_shape_mzip [of r m "(*)"] by (simp add: returns_to_go_def same_shape_def comp_def)

lemma shape_path_variance:
  assumes "same_shape old m" "same_shape spi m" "\<forall>w\<in>set_option ws. same_shape w m"
  shows "same_shape (path_variance old spi ws m) m"
proof -
  have v: "same_shape (mzip f old spi) m" for f
    using same_shape_trans [OF same_shape_mzip [OF same_shape_trans [OF assms(1) same_shape_sym [OF assms(2)]]] assms(2)] .
  have "same_shape (mzip f (mzip g old spi) w) m" if "same_shape w m" for f g w
    using same_shape_trans [OF same_shape_mzip [OF same_shape_trans [OF v same_shape_sym [OF that]]] that] .
  then have "same_shape (token_variance old spi ws) m"
    using v assms(3) by (auto simp: token_variance_def Let_def split: option.splits)
  from same_shape_mzip [OF this, of "(*)"] show ?thesis
    by (simp add: path_variance_def same_shape_def comp_def)
qed

text \<open>The baselines keep the shape of the batch.\<close>

lemma length_zero_from [simp]: "length (zero_from k row) = length row"
  by (simp add: zero_from_def)

definition rows_of :: "nat \<Rightarrow> mat \<Rightarrow> bool" where
  "rows_of n b \<longleftrightarrow> (\<forall>row\<in>set b. length row = n)"

lemma rows_of_nth: "rows_of n b \<longleftrightarrow> (\<forall>i<length b. length (b ! i) = n)"
  by (simp add: rows_of_def all_set_conv_all_nth)

lemma update_rows: "rows_of n b \<Longrightarrow> length r = n \<Longrightarrow> rows_of n (b[i := r])"
  by (auto simp: rows_of_def dest!: set_update_subset_insert [THEN subsetD])

lemma zero_from_rows: "rows_of n b \<Longrightarrow> rows_of n (b[i := zero_from k (b ! i)])"
  by (metis length_zero_from list_update_beyond linorder_not_less rows_of_nth update_rows)

lemma zero_tail_rows: "rows_of n b \<Longrightarrow> rows_of n (zero_tail g ls b)"
  unfolding zero_tail_def Let_def by (simp add: zero_from_rows)

lemma assign_rows_rows: "rows_of n b \<Longrightarrow> length r = n \<Longrightarrow> rows_of n (assign_rows g r b)"
  by (induction g arbitrary: b) (simp_all add: assign_rows_def update_rows)

lemma group_baseline_rows: "rows_of n b \<Longrightarrow> rows_of n (group_baseline n epsilon zr L R W g b)"
  unfolding group_baseline_def Let_def by (simp add: assign_rows_rows length_weighted_baseline zero_tail_rows)

lemma all_baselines_rows:
  "rows_of n b \<Longrightarrow> length (all_baselines n epsilon zr L R W groups b) = length b
    \<and> rows_of n (all_baselines n epsilon zr L R W groups b)"
proof (induction groups arbitrary: b)
  case (Cons p groups)
  show ?case using Cons.IH [OF group_baseline_rows [OF Cons.prems]]
    by (cases p) (simp add: all_baselines_def length_group_baseline)
qed (simp add: all_baselines_def)

text \<open>A batch whose masks have no holes, read position by position.\<close>

definition no_holes :: "nat \<Rightarrow> mat \<Rightarrow> bool" where
  "no_holes T m \<longleftrightarrow> (\<forall>row\<in>set m. length row = T \<and> prefix_mask row)"

lemma no_holes_nth:
  assumes "no_holes T m" "i < length m"
  shows "length (m ! i) = T" "prefix_mask (m ! i)" "response_lengths m ! i = nat \<lfloor>sum_list (m ! i)\<rfloor>"
    "response_lengths m ! i \<le> T" "t < T \<Longrightarrow> m ! i ! t = (if t < response_lengths m ! i then 1 else 0)"
proof -
  show L: "response_lengths m ! i = nat \<lfloor>sum_list (m ! i)\<rfloor>" and T: "length (m ! i) = T" and "prefix_mask (m ! i)"
    using assms by (simp_all add: response_lengths_def no_holes_def)
  then show "response_lengths m ! i \<le> T" using prefix_maskE [of "m ! i"] by metis
  show "t < T \<Longrightarrow> m ! i ! t = (if t < response_lengths m ! i then 1 else 0)"
    using prefix_mask_nth [of "m ! i" t] \<open>prefix_mask (m ! i)\<close> T L by simp
qed

lemma compact_rows:
  assumes "no_holes T m" "same_shape R m" "i < length m" "response_lengths m ! i \<le> maxlen"
  shows "length (map2 (compact_row maxlen) m R ! i) = maxlen"
    and "t < maxlen \<Longrightarrow> map2 (compact_row maxlen) m R ! i ! t = (if t < response_lengths m ! i then R ! i ! t else 0)"
  using no_holes_nth [OF assms(1,3)] assms(3,4) same_shape_nth [OF assms(2), of i] same_shape_length [OF assms(2)]
    compact_prefix(2,3) [of "m ! i" "R ! i" maxlen] by simp_all

lemma masked_rows:
  assumes "no_holes T m" "same_shape P m" "i < length m"
  shows "length (mzip (*) P m ! i) = T"
    and "t < T \<Longrightarrow> mzip (*) P m ! i ! t = (if t < response_lengths m ! i then P ! i ! t else 0)"
  using no_holes_nth [OF assms(1,3)] same_shape_nth [OF same_shape_mzip [OF assms(2), of "(*)"], of i]
    mzip_nth [OF assms(2), of i t "(*)"] assms(3) by (cases "t < response_lengths m ! i"; simp)+

lemma baselines_agree:
  assumes m: "no_holes T m" and R: "same_shape R m" and P: "same_shape P m" and index: "length index = length m"
    and maxlen: "\<And>j. j < length m \<Longrightarrow> response_lengths m ! j \<le> maxlen"
    and i: "i < length m" and t: "t < response_lengths m ! i"
    and live: "live = filter (\<lambda>j. response_lengths m ! j \<noteq> 0) [0..<length m]"
  shows "all_baselines maxlen epsilon True (response_lengths m) (map2 (compact_row maxlen) m R) (map2 (compact_row maxlen) m P)
      (group_by (map ((!) index) live) live) (mmap (\<lambda>_. 0) (map2 (compact_row maxlen) m R)) ! i ! t
    = all_baselines T epsilon True (response_lengths m) R (mzip (*) P m) (group_by index [0..<length m])
        (mmap (\<lambda>_. 0) R) ! i ! t" (is "?multi = ?single")
proof -
  let ?L = "response_lengths m" and ?R' = "map2 (compact_row maxlen) m R" and ?W' = "map2 (compact_row maxlen) m P"
  have tT: "t < T" "t < maxlen" using t no_holes_nth(4) [OF m i] maxlen [OF i] by simp_all
  define g where "g = filter (\<lambda>j. index ! j = index ! i) [0..<length m]"
  define g' where "g' = filter (\<lambda>j. index ! j = index ! i) live"
  have g': "g' = filter (\<lambda>j. ?L ! j \<noteq> 0) g"
    unfolding g'_def g_def live filter_filter by (intro filter_cong) auto
  have inL: "i \<in> set live" "?L ! i \<noteq> 0" "i \<in> set g" using i t by (simp_all add: live g_def)
  have sub: "j < length m" if "j \<in> set live \<or> j \<in> set g" for j using that by (auto simp: live g_def)
  have len: "length R = length m" "length P = length m" "\<And>j. j < length m \<Longrightarrow> length (R ! j) = T"
    using same_shape_length [OF R] same_shape_length [OF P] same_shape_nth [OF R] no_holes_nth(1) [OF m] by simp_all
  have "?multi = position_baseline epsilon True ?L ?R' ?W' g' i t"
    unfolding g'_def
  proof (rule grouped_baselines_nth)
    show "distinct live" "i \<in> set live" using inL(1) by (simp_all add: live)
    show "i < length (mmap (\<lambda>_. 0) ?R')" using i len by simp
    show "mmap (\<lambda>_. 0) ?R' ! i ! t = 0"
      using i len tT compact_rows(1) [OF m R i maxlen [OF i]] by (subst mmap_nth) simp_all
    show "\<forall>j\<in>set live. t < length (?R' ! j)" "\<forall>j\<in>set live. t < length (?W' ! j)"
      using sub compact_rows(1) [OF m R _ maxlen] compact_rows(1) [OF m P _ maxlen] tT by simp_all
  qed (rule tT)
  moreover have "?single = position_baseline epsilon True ?L R (mzip (*) P m) g i t"
  proof -
    have idx: "index = map ((!) index) [0..<length m]" using map_nth [of index] index by simp
    show ?thesis unfolding g_def
      by (subst idx, rule grouped_baselines_nth)
        (use i len tT masked_rows(1) [OF m P] in \<open>simp_all\<close>)
  qed
  moreover have sums: "(\<Sum>j\<leftarrow>g'. f' j) = (\<Sum>j\<leftarrow>g. f j)"
    if "\<And>j. j \<in> set g \<Longrightarrow> f j = (if t < ?L ! j then f' j else 0)" and "\<And>j. j \<in> set g \<Longrightarrow> \<not> t < ?L ! j \<Longrightarrow> f' j = 0"
    for f f' :: "nat \<Rightarrow> real"
  proof -
    have "(\<Sum>j\<leftarrow>g'. f' j) = (\<Sum>j\<leftarrow>g'. f j)" using that unfolding g' by (intro arg_cong [where f = sum_list] map_cong) auto
    also have "\<dots> = (\<Sum>j\<leftarrow>g. f j)" unfolding g' using that by (intro sum_list_map_filter) auto
    finally show ?thesis .
  qed
  have "position_baseline epsilon True ?L ?R' ?W' g' i t = position_baseline epsilon True ?L R (mzip (*) P m) g i t"
    using inL(3,2) g'
    by (rule position_baseline_live)
      (rule sums; use sub tT compact_rows(2) [OF m R _ maxlen] compact_rows(2) [OF m P _ maxlen] masked_rows(2) [OF m P] in simp)+
  ultimately show ?thesis by simp
qed

lemma scattered_advantages:
  assumes m: "no_holes T m" and R: "same_shape R m" and maxlen: "\<And>j. j < length m \<Longrightarrow> response_lengths m ! j \<le> maxlen"
    and B: "length B = length m" "rows_of T B" and B': "length B' = length m" "rows_of maxlen B'"
    and base: "\<And>i t. i < length m \<Longrightarrow> t < response_lengths m ! i \<Longrightarrow> B' ! i ! t = B ! i ! t"
  shows "mzip (*) (map2 scatter m (mzip (-) (map2 (compact_row maxlen) m R) B')) m = mzip (*) (mzip (-) R B) m"
proof (rule mat_eqI)
  let ?L = "response_lengths m" and ?R' = "map2 (compact_row maxlen) m R"
  let ?D = "mzip (-) ?R' B'" and ?A = "map2 scatter m (mzip (-) (map2 (compact_row maxlen) m R) B')"
  note R' = compact_rows [OF m R _ maxlen]
  have len: "length R = length m" "\<And>i. i < length m \<Longrightarrow> length (R ! i) = T"
    using same_shape_length [OF R] same_shape_nth [OF R] no_holes_nth(1) [OF m] by simp_all
  have RB: "same_shape R B" and R'B': "same_shape ?R' B'"
    using B B' len R'(1) by (auto intro!: same_shapeI simp: rows_of_nth)
  have D: "length ?D = length m" "\<And>i. i < length m \<Longrightarrow> length (?D ! i) = maxlen"
    using same_shape_mzip [OF R'B', of "(-)"] same_shape_nth [of ?D B'] B'
    by (simp_all add: same_shape_length rows_of_nth)
  have A: "length (?A ! i) = T" "t < T \<Longrightarrow> ?A ! i ! t = (if t < ?L ! i then ?D ! i ! t else 0)" if i: "i < length m" for i t
    using i scatter_prefix [of "m ! i" "?D ! i"] no_holes_nth(1-3) [OF m i] maxlen [OF i] D by simp_all
  have sA: "same_shape ?A m" using A(1) D no_holes_nth(1) [OF m] by (intro same_shapeI) simp_all
  have sD: "same_shape (mzip (-) R B) m"
    by (rule same_shape_trans [OF same_shape_mzip [OF RB]]) (rule same_shape_trans [OF same_shape_sym [OF RB] R])
  show "same_shape (mzip (*) ?A m) (mzip (*) (mzip (-) R B) m)"
    by (rule same_shape_trans [OF same_shape_mzip [OF sA] same_shape_sym [OF same_shape_mzip [OF sD]]])
  fix i t
  assume "i < length (mzip (*) (mzip (-) R B) m)" "t < length (mzip (*) (mzip (-) R B) m ! i)"
  then have i: "i < length m" and t: "t < T"
    using same_shape_length [OF same_shape_mzip [OF sD, of "(*)"]] same_shape_nth [OF same_shape_mzip [OF sD, of "(*)"]]
      no_holes_nth(1) [OF m] by simp_all
  have "?A ! i ! t * m ! i ! t = mzip (-) R B ! i ! t * m ! i ! t"
  proof (cases "t < ?L ! i")
    case True
    then have "t < maxlen" using maxlen [OF i] by simp
    then show ?thesis
      using True A(2) [OF i t] base [OF i True] R'(2) [OF i] i t B B' mzip_nth [OF RB, of i t "(-)"]
        mzip_nth [OF R'B', of i t "(-)"] by (simp add: rows_of_nth)
  qed (simp add: no_holes_nth(5) [OF m i t])
  then show "mzip (*) ?A m ! i ! t = mzip (*) (mzip (-) R B) m ! i ! t"
    using i t no_holes_nth(1) [OF m i] mzip_nth [OF sA, of i t "(*)"] mzip_nth [OF sD, of i t "(*)"] by simp
qed

lemma zeros_rows:
  "no_holes T m \<Longrightarrow> same_shape R m \<Longrightarrow> rows_of T (mmap (\<lambda>_. 0) R) \<and> length (mmap (\<lambda>_. 0) R) = length m"
  using same_shape_length [of R m] same_shape_nth [of R m] no_holes_nth(1) [of T m] by (simp add: rows_of_nth)

text \<open>C30: on masks without holes (every response ends before its padding) and with the default handling of the tail the
  multi-turn optimal token baseline is the single-turn one: both return the same advantages and returns, groups of
  one, unequal lengths, empty responses and importance weights included.\<close>

theorem token_baselines_agree:
  assumes m: "no_holes T response_mask" and index: "length index = length response_mask"
    and shapes: "same_shape token_level_rewards response_mask" "same_shape old_log_probs response_mask"
      "same_shape sum_pi_squared response_mask" "\<forall>w\<in>set_option weights. same_shape w response_mask"
  shows "compute_multi_turn_optimal_token_baseline_advantage token_level_rewards response_mask index old_log_probs
      sum_pi_squared weights True epsilon
    = compute_optimal_token_baseline_advantage token_level_rewards response_mask index old_log_probs
        sum_pi_squared weights True epsilon"
proof -
  let ?m = response_mask and ?L = "response_lengths response_mask"
  define R where "R = returns_to_go token_level_rewards ?m"
  define P where "P = path_variance old_log_probs sum_pi_squared weights ?m"
  define maxlen where "maxlen = (if ?L = [] then 0 else Max (set ?L))"
  define live where "live = filter (\<lambda>i. ?L ! i \<noteq> 0) [0..<length ?m]"
  define R' where "R' = map2 (compact_row maxlen) ?m R"
  define B where "B = all_baselines T epsilon True ?L R (mzip (*) P ?m) (group_by index [0..<length ?m]) (mmap (\<lambda>_. 0) R)"
  define B' where "B' = all_baselines maxlen epsilon True ?L R' (map2 (compact_row maxlen) ?m P)
    (group_by (map ((!) index) live) live) (mmap (\<lambda>_. 0) R')"
  have R: "same_shape R ?m" unfolding R_def by (rule length_returns_to_go [OF shapes(1)])
  have P: "same_shape P ?m" unfolding P_def by (rule shape_path_variance [OF shapes(2-4)])
  have len: "length ?L = length ?m" by (simp add: response_lengths_def)
  have maxlen: "?L ! j \<le> maxlen" if "j < length ?m" for j
    using that len by (auto simp: maxlen_def intro!: Max_ge)
  have width: "all_baselines (width token_level_rewards) epsilon True ?L R (mzip (*) P ?m)
      (group_by index [0..<length ?m]) (mmap (\<lambda>_. 0) R) = B"
  proof (cases token_level_rewards)
    case Nil
    then show ?thesis using same_shape_length [OF shapes(1)] index by (simp add: B_def all_baselines_def group_by_def)
  next
    case (Cons row rest)
    then have "length row = T"
      using same_shape_nth [OF shapes(1), of 0] same_shape_length [OF shapes(1)] no_holes_nth(1) [OF m, of 0] Cons
      by (cases ?m) simp_all
    then show ?thesis by (simp add: B_def width_def Cons)
  qed
  have single: "compute_optimal_token_baseline_advantage token_level_rewards ?m index old_log_probs sum_pi_squared weights True epsilon
    = Inr (mzip (*) (mzip (-) R B) ?m, R)"
    using index same_shape_length [OF shapes(1)] width
    by (simp add: compute_optimal_token_baseline_advantage_def Let_def R_def P_def)
  have "filter (\<lambda>i. length index \<le> i) live = []" using index by (auto simp: live_def filter_empty_conv)
  then have multi: "compute_multi_turn_optimal_token_baseline_advantage token_level_rewards ?m index old_log_probs sum_pi_squared weights True epsilon
    = Inr (mzip (*) (map2 scatter ?m (mzip (-) R' B')) ?m, R)"
    unfolding compute_multi_turn_optimal_token_baseline_advantage_def Let_def in_index_def len R_def [symmetric]
      P_def [symmetric] maxlen_def [symmetric] live_def [symmetric] R'_def [symmetric] B'_def [symmetric] by simp
  have "mzip (*) (map2 scatter ?m (mzip (-) R' B')) ?m = mzip (*) (mzip (-) R B) ?m"
    unfolding R'_def
  proof (rule scattered_advantages [OF m R maxlen])
    show "length B = length ?m" "rows_of T B"
      using zeros_rows [OF m R] by (simp_all add: B_def all_baselines_rows)
    have "length (mmap (\<lambda>_. 0) R') = length ?m" "rows_of maxlen (mmap (\<lambda>_. 0) R')"
      using compact_rows(1) [OF m R _ maxlen] same_shape_length [OF R] unfolding R'_def by (simp_all add: rows_of_nth)
    then show "length B' = length ?m" "rows_of maxlen B'"
      by (simp_all add: B'_def all_baselines_rows)
    show "B' ! i ! t = B ! i ! t" if "i < length ?m" "t < ?L ! i" for i t
      unfolding B_def B'_def R'_def by (rule baselines_agree [OF m R P index maxlen that live_def])
  qed
  then show ?thesis by (simp add: single multi)
qed

theorem token_baselines_agree_witness:
  "compute_multi_turn_optimal_token_baseline_advantage [[0, 1], [2, 0], [0, 0]] [[1, 1], [1, 0], [0, 0]] [7, 7, 7 :: nat]
      [[0, 0], [0, 0], [0, 0]] [[2, 2], [2, 2], [2, 2]] None True 1
    = Inr ([[0, 1], [1, 0], [0, 0]], [[1, 1], [2, 0], [0, 0]])"
proof (subst token_baselines_agree [where T = 2])
  have "prefix_mask [1, 1]" "prefix_mask [1, 0]" "prefix_mask [0, 0]"
    unfolding prefix_mask_def by (rule exI [of _ 2], simp add: numeral_2_eq_2) (rule exI [of _ 1], simp, rule exI [of _ 0], simp)
  then show "no_holes 2 [[1, 1], [1, 0], [0, 0]]" by (simp add: no_holes_def)
qed (simp_all add: same_shape_def compute_optimal_token_baseline_advantage_def Let_def returns_to_go_def mzip_def mmap_def
  path_variance_def token_variance_def response_lengths_def group_by_def all_baselines_def group_baseline_def
  weighted_baseline_def column_sums_def group_rows_def assign_rows_def zero_tail_def zero_from_def width_def numeral_2_eq_2)

section \<open>What the baseline optimises\<close>

lemma prefix_sums_nonneg: "0 \<le> acc \<Longrightarrow> \<forall>x\<in>set xs. 0 \<le> x \<Longrightarrow> \<forall>y\<in>set (prefix_sums acc xs). 0 \<le> y"
  by (induction acc xs rule: prefix_sums.induct) auto

text \<open>The norm of the score of a token is not negative: \<open>sum_pi_squared\<close> has \<open>pi_t\<^sup>2\<close> among its terms.\<close>

lemma token_variance_nonneg:
  fixes p s :: real
  assumes "p\<^sup>2 \<le> s"
  shows "0 \<le> 1 - 2 * p + s"
proof -
  have "0 \<le> (1 - p)\<^sup>2" by simp
  also have "\<dots> \<le> 1 - 2 * p + s" using assms by (simp add: power2_eq_square algebra_simps)
  finally show ?thesis .
qed

lemma weighted_mean_optimal:
  fixes epsilon :: real and x v :: "'i \<Rightarrow> real"
  assumes "0 < (\<Sum>j\<leftarrow>g. v j) + epsilon" and b: "b = (\<Sum>j\<leftarrow>g. x j * v j) / ((\<Sum>j\<leftarrow>g. v j) + epsilon)"
  shows "(\<Sum>j\<leftarrow>g. v j * (x j - b)\<^sup>2) + epsilon * b\<^sup>2 \<le> (\<Sum>j\<leftarrow>g. v j * (x j - c)\<^sup>2) + epsilon * c\<^sup>2"
proof -
  let ?N = "\<Sum>j\<leftarrow>g. x j * v j" and ?D = "\<Sum>j\<leftarrow>g. v j"
  have cost: "(\<Sum>j\<leftarrow>g. v j * (x j - a)\<^sup>2) = (\<Sum>j\<leftarrow>g. v j * (x j)\<^sup>2) - 2 * a * ?N + a\<^sup>2 * ?D" for a
    by (induction g) (simp_all add: power2_eq_square algebra_simps)
  have N: "?N = b * (?D + epsilon)" using assms(1) by (simp add: b)
  have "0 \<le> (?D + epsilon) * (c - b)\<^sup>2" using assms(1) by simp
  then show ?thesis unfolding cost N by (simp add: power2_eq_square algebra_simps)
qed

lemma path_variance_nonneg:
  assumes shapes: "same_shape old m" "same_shape spi m" "\<forall>w\<in>set_option ws. same_shape w m"
    and pi: "\<And>i t. i < length m \<Longrightarrow> t < length (m ! i) \<Longrightarrow> (exp (old ! i ! t))\<^sup>2 \<le> spi ! i ! t \<and> 0 \<le> m ! i ! t"
    and i: "i < length m" "t < length (m ! i)"
  shows "0 \<le> path_variance old spi ws m ! i ! t"
proof -
  let ?w = "mzip (\<lambda>lp s. 1 - 2 * exp lp + s) old spi"
  have os: "same_shape old spi" by (rule same_shape_trans [OF shapes(1) same_shape_sym [OF shapes(2)]])
  have ws: "same_shape ?w m" by (rule same_shape_trans [OF same_shape_mzip [OF os] shapes(2)])
  have spi: "length spi = length m" "\<And>i. i < length m \<Longrightarrow> length (spi ! i) = length (m ! i)"
    using same_shape_length [OF shapes(2)] same_shape_nth [OF shapes(2)] by simp_all
  have w: "0 \<le> ?w ! i ! t" if "i < length m" "t < length (m ! i)" for i t
    using mzip_nth [OF os, of i t "\<lambda>lp s. 1 - 2 * exp lp + s"] token_variance_nonneg pi that spi by simp
  have v: "0 \<le> token_variance old spi ws ! i ! t" "same_shape (token_variance old spi ws) m"
    if "i < length m" "t < length (m ! i)" for i t
  proof -
    show "0 \<le> token_variance old spi ws ! i ! t"
    proof (cases ws)
      case (Some r)
      then have r: "same_shape ?w r" "length r = length m" "length (r ! i) = length (m ! i)"
        using shapes(3) ws same_shape_length [of r m] same_shape_nth [of r m i] that
        by (auto intro: same_shape_trans same_shape_sym)
      then show ?thesis
        using mzip_nth [OF r(1), of i t "\<lambda>x y. x * y\<^sup>2"] w [OF that] that by (simp add: token_variance_def Let_def Some)
    qed (use w that in \<open>simp add: token_variance_def Let_def\<close>)
    show "same_shape (token_variance old spi ws) m"
    proof (cases ws)
      case (Some r)
      then have "same_shape r m" using shapes(3) by simp
      moreover have "same_shape ?w r" using same_shape_trans [OF ws same_shape_sym [OF calculation]] .
      ultimately show ?thesis
        using same_shape_trans [OF same_shape_mzip] by (fastforce simp: token_variance_def Let_def Some)
    qed (simp add: token_variance_def Let_def ws)
  qed
  let ?row = "mzip (*) (token_variance old spi ws) m ! i"
  have row: "length ?row = length (m ! i)" "length (mzip (*) (token_variance old spi ws) m) = length m"
    using same_shape_mzip [OF v(2) [OF i], of "(*)"] i(1) by (simp_all add: same_shape_nth same_shape_length)
  have "\<forall>x\<in>set ?row. 0 \<le> x"
    unfolding all_set_conv_all_nth using row mzip_nth [OF v(2) [OF i] i(1), of _ "(*)"] v(1) [OF i(1)] pi [OF i(1)] by simp
  then have "\<forall>y\<in>set (prefix_sums 0 ?row). 0 \<le> y" by (intro prefix_sums_nonneg) simp_all
  moreover have "path_variance old spi ws m ! i = prefix_sums 0 ?row" using i(1) row(2) by (simp add: path_variance_def)
  ultimately show ?thesis using i(2) row(1) by (simp add: all_set_conv_all_nth)
qed

lemma single_turn_run:
  assumes "compute_optimal_token_baseline_advantage r m index old spi ws zr epsilon = Inr (adv, rets)"
    and "rows_of T m" and "same_shape r m" and "length index = length m"
  shows "rets = returns_to_go r m"
    and "adv = mzip (*) (mzip (-) rets (all_baselines T epsilon zr (response_lengths m) rets
      (mzip (*) (path_variance old spi ws m) m) (group_by index [0..<length m]) (mmap (\<lambda>_. 0) rets))) m"
proof -
  have len: "length r = length m" by (rule same_shape_length [OF assms(3)])
  have "width r = T \<or> m = []"
  proof (cases r)
    case (Cons row rest)
    then show ?thesis using same_shape_nth [OF assms(3), of 0] assms(2) len
      by (cases m) (simp_all add: width_def rows_of_def)
  qed (use len in simp)
  then have "all_baselines (width r) epsilon zr L R W (group_by index [0..<length m]) b
      = all_baselines T epsilon zr L R W (group_by index [0..<length m]) b" for L R W b
    using assms(4) by (auto simp: group_by_def all_baselines_def)
  then show "rets = returns_to_go r m"
    and "adv = mzip (*) (mzip (-) rets (all_baselines T epsilon zr (response_lengths m) rets
      (mzip (*) (path_variance old spi ws m) m) (group_by index [0..<length m]) (mmap (\<lambda>_. 0) rets))) m"
    using assms(1,4) len by (auto simp: compute_optimal_token_baseline_advantage_def Let_def)
qed

lemma single_turn_nth:
  assumes run: "compute_optimal_token_baseline_advantage r m index old spi ws zr epsilon = Inr (adv, rets)"
    and wide: "rows_of T m" and index: "length index = length m"
    and shapes: "same_shape r m" "same_shape old m" "same_shape spi m" "\<forall>w\<in>set_option ws. same_shape w m"
    and j: "j < length m" and t: "t < T"
  shows "adv ! j ! t = (rets ! j ! t - position_baseline epsilon zr (response_lengths m) rets
      (mzip (*) (path_variance old spi ws m) m) (prompt_group index (length m) j) j t) * m ! j ! t"
proof -
  define W where "W = mzip (*) (path_variance old spi ws m) m"
  define B where "B = all_baselines T epsilon zr (response_lengths m) rets W (group_by index [0..<length m]) (mmap (\<lambda>_. 0) rets)"
  note single = single_turn_run [OF run wide shapes(1) index]
  have adv: "adv = mzip (*) (mzip (-) rets B) m" unfolding B_def W_def by (rule single(2))
  have rets: "same_shape rets m" unfolding single(1) by (rule length_returns_to_go [OF shapes(1)])
  have "same_shape W m" unfolding W_def by (rule same_shape_mzip [OF shape_path_variance [OF shapes(2-4)]])
  then have rows: "length (m ! j) = T" "length (rets ! j) = T" "length (W ! j) = T" if "j < length m" for j
    using wide same_shape_nth [OF rets that] same_shape_nth [of W m j] that by (simp_all add: rows_of_nth)
  have len: "length rets = length m" by (rule same_shape_length [OF rets])
  then have zeros: "rows_of T (mmap (\<lambda>_. 0) rets)" using rows by (simp add: rows_of_nth)
  have B: "length B = length m" "rows_of T B" using zeros len by (simp_all add: B_def all_baselines_rows)
  have retsB: "same_shape rets B" using B rows len by (intro same_shapeI) (simp_all add: rows_of_nth)
  have idx: "index = map ((!) index) [0..<length m]" using map_nth [of index] index by simp
  have "B ! j ! t = position_baseline epsilon zr (response_lengths m) rets W (prompt_group index (length m) j) j t"
    unfolding B_def prompt_group_def
    by (subst idx, rule grouped_baselines_nth) (use j len t rows in \<open>simp_all\<close>)
  moreover have "same_shape (mzip (-) rets B) m"
    using same_shape_trans [OF same_shape_mzip [OF retsB] same_shape_trans [OF same_shape_sym [OF retsB] rets]] .
  ultimately show ?thesis
    using mzip_nth [of "mzip (-) rets B" m j t "(*)"] mzip_nth [OF retsB, of j t "(-)"] j rows B t
    by (simp add: adv rows_of_nth flip: W_def)
qed

text \<open>C31: within a prompt group of at least two trajectories the advantages at a position are, under the mask, the
  returns minus one baseline for the group, and no other baseline has a smaller squared error, weighted with the
  accumulated path variance of the trajectories and regularised with a positive \<open>epsilon\<close>. With
  \<open>handle_zero_tail\<close>, the default, the one trajectory that has the most response tokens, when it is alone in that, is
  charged no baseline from the token count of the second longest on (\<open>in_tail\<close>); all other positions are charged the
  same optimal baseline. The sums of squared probabilities must be at least the square of the probability of the
  sampled token, as they are for a distribution, and the mask not negative.\<close>

theorem token_baseline_optimal:
  assumes run: "compute_optimal_token_baseline_advantage token_level_rewards response_mask index old_log_probs
      sum_pi_squared weights handle_zero_tail epsilon = Inr (advantages, rets)"
    and wide: "rows_of T response_mask" and index: "length index = length response_mask"
    and shapes: "same_shape token_level_rewards response_mask" "same_shape old_log_probs response_mask"
      "same_shape sum_pi_squared response_mask" "\<forall>w\<in>set_option weights. same_shape w response_mask"
    and pi: "\<And>i t. i < length response_mask \<Longrightarrow> t < length (response_mask ! i) \<Longrightarrow>
        (exp (old_log_probs ! i ! t))\<^sup>2 \<le> sum_pi_squared ! i ! t \<and> 0 \<le> response_mask ! i ! t"
    and epsilon: "0 < epsilon"
    and i: "i < length response_mask" and g: "1 < length (prompt_group index (length response_mask) i)" and t: "t < T"
  shows "\<exists>b. (\<forall>j\<in>set (prompt_group index (length response_mask) i).
        advantages ! j ! t = (rets ! j ! t
          - (if handle_zero_tail \<and> in_tail (response_lengths response_mask) (prompt_group index (length response_mask) i) j t
             then 0 else b)) * response_mask ! j ! t)
    \<and> (\<forall>c. let cost = \<lambda>b. (\<Sum>j\<leftarrow>prompt_group index (length response_mask) i.
             path_variance old_log_probs sum_pi_squared weights response_mask ! j ! t * response_mask ! j ! t
               * (rets ! j ! t - b)\<^sup>2) + epsilon * b\<^sup>2
         in cost b \<le> cost c)"
proof -
  let ?m = response_mask and ?g = "prompt_group index (length response_mask) i"
  define P where "P = path_variance old_log_probs sum_pi_squared weights ?m"
  define W where "W = mzip (*) P ?m"
  define b where "b = (\<Sum>j\<leftarrow>?g. rets ! j ! t * W ! j ! t) / ((\<Sum>j\<leftarrow>?g. W ! j ! t) + epsilon)"
  have in_g: "j < length ?m" "prompt_group index (length ?m) j = ?g" "length (?m ! j) = T" if "j \<in> set ?g" for j
    using that wide by (auto simp: prompt_group_def rows_of_nth)
  have Wt: "W ! j ! t = P ! j ! t * ?m ! j ! t" if "j \<in> set ?g" for j
    using mzip_nth [OF shape_path_variance [OF shapes(2-4)], of j t "(*)"] in_g [OF that] t by (simp add: W_def P_def)
  have "advantages ! j ! t = (rets ! j ! t - (if handle_zero_tail \<and> in_tail (response_lengths ?m) ?g j t then 0 else b)) * ?m ! j ! t"
    if "j \<in> set ?g" for j
    using single_turn_nth [OF run wide index shapes in_g(1) [OF that] t] g
    unfolding P_def [symmetric] W_def [symmetric] in_g(2) [OF that] by (simp add: position_baseline_def b_def)
  moreover have "0 \<le> (\<Sum>j\<leftarrow>?g. W ! j ! t)"
  proof (rule sum_list_nonneg)
    fix x assume "x \<in> set (map (\<lambda>j. W ! j ! t) ?g)"
    then obtain j where j: "j \<in> set ?g" "x = W ! j ! t" by auto
    then show "0 \<le> x"
      using path_variance_nonneg [OF shapes(2-4) pi, of j t] pi [of j t] in_g [OF j(1)] t by (simp add: Wt P_def)
  qed
  then have "(\<Sum>j\<leftarrow>?g. W ! j ! t * (rets ! j ! t - b)\<^sup>2) + epsilon * b\<^sup>2
      \<le> (\<Sum>j\<leftarrow>?g. W ! j ! t * (rets ! j ! t - c)\<^sup>2) + epsilon * c\<^sup>2" for c
    using epsilon by (intro weighted_mean_optimal [OF _ b_def]) simp
  moreover have "(\<Sum>j\<leftarrow>?g. P ! j ! t * ?m ! j ! t * (rets ! j ! t - c)\<^sup>2) = (\<Sum>j\<leftarrow>?g. W ! j ! t * (rets ! j ! t - c)\<^sup>2)" for c
    using Wt by (intro arg_cong [where f = sum_list] map_cong) simp_all
  ultimately show ?thesis unfolding P_def [symmetric] Let_def by (intro exI [of _ b]) simp
qed

lemmas token_baseline_evaluation = compute_optimal_token_baseline_advantage_def Let_def returns_to_go_def mzip_def mmap_def
  path_variance_def token_variance_def response_lengths_def group_by_def all_baselines_def group_baseline_def
  weighted_baseline_def column_sums_def group_rows_def assign_rows_def zero_tail_def zero_from_def width_def numeral_2_eq_2

theorem token_baseline_optimal_witness:
  "compute_optimal_token_baseline_advantage [[0, 4], [3, 0]] [[1, 1], [1, 0]] [7, 7 :: nat] [[0, 0], [0, 0]] [[2, 2], [2, 2]]
      None True 1 = Inr ([[4 - 7 / 3, 4], [3 - 7 / 3, 0]], [[4, 4], [3, 0]])
    \<and> (\<exists>b. (\<forall>j\<in>set (prompt_group [7, 7 :: nat] (length [[1 :: real, 1], [1, 0]]) 0).
        [[4 - 7 / 3, 4], [3 - 7 / 3, 0 :: real]] ! j ! 0 = ([[4, 4], [3, 0]] ! j ! 0
          - (if True \<and> in_tail (response_lengths [[1, 1], [1, 0]]) (prompt_group [7, 7 :: nat] (length [[1 :: real, 1], [1, 0]]) 0) j 0
             then 0 else b)) * [[1, 1], [1, 0]] ! j ! 0)
      \<and> (\<forall>c. let cost = \<lambda>b. (\<Sum>j\<leftarrow>prompt_group [7, 7 :: nat] (length [[1 :: real, 1], [1, 0]]) 0.
             path_variance [[0, 0], [0, 0]] [[2, 2], [2, 2]] None [[1, 1], [1, 0]] ! j ! 0 * [[1, 1], [1, 0]] ! j ! 0
               * ([[4, 4], [3, 0]] ! j ! 0 - b)\<^sup>2) + 1 * b\<^sup>2
         in cost b \<le> cost c))"
proof -
  have run: "compute_optimal_token_baseline_advantage [[0, 4], [3, 0]] [[1, 1], [1, 0]] [7, 7 :: nat] [[0, 0], [0, 0]]
      [[2, 2], [2, 2]] None True 1 = Inr ([[4 - 7 / 3, 4], [3 - 7 / 3, 0]], [[4, 4], [3, 0]])"
    by (simp add: token_baseline_evaluation)
  have pi: "(exp ([[0, 0], [0, 0 :: real]] ! i ! t))\<^sup>2 \<le> [[2, 2], [2, 2]] ! i ! t \<and> 0 \<le> [[1, 1], [1, 0 :: real]] ! i ! t"
    if "i < length [[1, 1], [1, 0 :: real]]" "t < length ([[1, 1], [1, 0 :: real]] ! i)" for i t
    using that by (auto simp: less_Suc_eq numeral_2_eq_2)
  show ?thesis
    by (intro conjI run token_baseline_optimal [OF run, where T = 2 and i = 0 and t = 0] pi)
      (simp_all add: rows_of_def same_shape_def prompt_group_def)
qed

text \<open>With holes in the masks the counts of tokens are not positions: the tail of the longest trajectory is
  cut where the other one still has a token, and only one of the two is charged the baseline there.\<close>

lemma token_baseline_tail_with_holes:
  "compute_optimal_token_baseline_advantage [[0, 0, 0, 1], [0, 0, 0, 1]] [[1, 1, 1, 1], [1, 0, 0, 1]] [7, 7 :: nat]
     [[0, 0, 0, 0], [0, 0, 0, 0]] [[2, 2, 2, 2], [2, 2, 2, 2]] None True 1
   = Inr ([[1 - 2 / 3, 1 - 2 / 3, 1, 1], [1 - 2 / 3, 0, 0, 1 - 6 / 7]], [[1, 1, 1, 1], [1, 1, 1, 1]])"
  by (simp add: token_baseline_evaluation)

end
