(* ===== verification/RolloutWeights.thy ===== *)
theory RolloutWeights
  imports RolloutFacts
begin

text \<open>
  Rollout correction, continued: the range of the importance weights and their normalization, when
  their computation fails, what happens when the two policies agree, the off-policy metrics, and what
  the entry points do to the batch and to the loss.
\<close>

section \<open>The weights\<close>

text \<open>The probability ratio of a token, or of its whole sequence, clamped.\<close>

definition ratio :: "string \<Rightarrow> mat \<Rightarrow> mat \<Rightarrow> nat \<Rightarrow> nat \<Rightarrow> real" where
  "ratio level log_ratio m i j =
     exp (clamp (- 20) 20 (if level = ''token'' then log_ratio ! i ! j else masked_sum (log_ratio ! i) (m ! i)))"

definition limited_weights :: "string \<Rightarrow> real \<Rightarrow> real option \<Rightarrow> mat \<Rightarrow> mat \<Rightarrow> mat" where
  "limited_weights level hi lo log_ratio m =
     mmap (limit_weight hi lo) (mzip (*) (snd (raw_is_weights level log_ratio m)) m)"

lemma raw_weights_nth:
  assumes shape: "same_shape log_ratio m"
  shows "same_shape (snd (raw_is_weights level log_ratio m)) m
    \<and> (\<forall>i<length m. \<forall>j<length (m ! i). snd (raw_is_weights level log_ratio m) ! i ! j = ratio level log_ratio m i j)"
proof (cases "level = ''token''")
  case True
  then show ?thesis
    using shape same_shape_length [OF shape] same_shape_nth [OF shape]
    by (simp add: raw_is_weights_def ratio_def safe_log_ratio_def)
next
  case False
  then show ?thesis
    using same_shape_length [OF shape] same_shape_nth [OF shape]
    by (auto intro!: same_shapeI simp: raw_is_weights_def ratio_def Let_def expand_rows_def row_masked_sums_def)
qed

lemma limited_weights_nth:
  assumes shape: "same_shape log_ratio m"
  shows "same_shape (limited_weights level hi lo log_ratio m) m"
    and "i < length m \<Longrightarrow> j < length (m ! i) \<Longrightarrow>
      limited_weights level hi lo log_ratio m ! i ! j = limit_weight hi lo (ratio level log_ratio m i j * m ! i ! j)"
proof -
  let ?r = "snd (raw_is_weights level log_ratio m)"
  have r: "same_shape ?r m" and nth: "\<And>i j. i < length m \<Longrightarrow> j < length (m ! i) \<Longrightarrow> ?r ! i ! j = ratio level log_ratio m i j"
    using raw_weights_nth [OF shape, of level] by blast+
  have p: "same_shape (mzip (*) ?r m) m" by (rule same_shape_mzip [OF r])
  then show "same_shape (limited_weights level hi lo log_ratio m) m" by (simp add: limited_weights_def)
  show "limited_weights level hi lo log_ratio m ! i ! j = limit_weight hi lo (ratio level log_ratio m i j * m ! i ! j)"
    if "i < length m" "j < length (m ! i)"
    using that same_shape_length [OF p] same_shape_nth [OF p] mzip_nth [OF r that, of "(*)"] nth
    by (simp add: limited_weights_def)
qed

lemma limit_weight_0: "0 < hi \<Longrightarrow> limit_weight hi lo 0 = 0"
  by (auto simp: limit_weight_def split: option.splits)

lemma limit_weight_range:
  assumes "0 < hi" and "0 \<le> w" and "\<forall>l. lo = Some l \<longrightarrow> 0 < l"
  shows "0 \<le> limit_weight hi lo w \<and> limit_weight hi lo w \<le> hi
    \<and> (\<forall>l. lo = Some l \<longrightarrow> limit_weight hi lo w = 0 \<or> l \<le> limit_weight hi lo w)"
  using assms by (auto simp: limit_weight_def split: option.splits)

lemma weights_of_run:
  assumes "compute_rollout_correction_weights ranks log_ratio m level th False = Inr (w, ms)"
    and "parse_rollout_is_threshold th = Inr (hi, lo)"
  shows "w = limited_weights level hi lo log_ratio m"
  using assms
  by (auto simp: compute_rollout_correction_weights_def limited_weights_def rbind_eq_Inr split_beta Let_def
    normalize_weights_def split: if_splits)

text \<open>C21: under a 0/1 mask and without batch normalization the importance weight of a padding token is 0; that of a
  response token is the clamped ratio limited by the threshold, and lies in the configured band: at most the upper
  bound, and for IcePop 0 or at least the lower bound.\<close>

theorem importance_weights_range:
  assumes run: "compute_rollout_correction_weights ranks log_ratio m level th False = Inr (w, ms)"
    and th: "parse_rollout_is_threshold th = Inr (hi, lo)"
    and shape: "same_shape log_ratio m" and binary: "\<forall>row\<in>set m. binary row"
    and i: "i < length m" and j: "j < length (m ! i)"
  shows "w ! i ! j = (if m ! i ! j = 0 then 0 else limit_weight hi lo (ratio level log_ratio m i j))
    \<and> 0 \<le> w ! i ! j \<and> w ! i ! j \<le> hi \<and> (\<forall>l. lo = Some l \<longrightarrow> w ! i ! j = 0 \<or> l \<le> w ! i ! j)"
proof -
  note b = parse_is_bounds [OF th]
  have m: "m ! i ! j = 0 \<or> m ! i ! j = 1"
    using binary nth_mem [OF i] nth_mem [OF j] unfolding binary_def by blast
  have "w ! i ! j = limit_weight hi lo (ratio level log_ratio m i j * m ! i ! j)"
    unfolding weights_of_run [OF run th] by (rule limited_weights_nth(2) [OF shape i j])
  also have "\<dots> = (if m ! i ! j = 0 then 0 else limit_weight hi lo (ratio level log_ratio m i j))"
    using m b by (auto simp: limit_weight_0)
  finally have w: "w ! i ! j = (if m ! i ! j = 0 then 0 else limit_weight hi lo (ratio level log_ratio m i j))" .
  have "0 \<le> ratio level log_ratio m i j" by (simp add: ratio_def)
  from limit_weight_range [OF _ this, of hi lo] b w show ?thesis by auto
qed

section \<open>When the computation of the weights fails\<close>

lemma masked_sum_nonneg:
  assumes "binary ms" and "\<forall>v\<in>set vs. 0 \<le> v"
  shows "0 \<le> masked_sum vs ms"
  unfolding masked_sum_kept [OF assms(1)]
  by (rule sum_list_nonneg) (use assms(2) in \<open>auto simp: kept_values_def dest: set_zip_leftD\<close>)

lemma binary_concat: "\<forall>row\<in>set m. binary row \<Longrightarrow> binary (concat m)"
  by (auto simp: binary_def)

lemma sum_binary_nonneg: "binary ms \<Longrightarrow> 0 \<le> sum_list ms"
  by (rule sum_list_nonneg) (auto simp: binary_def)

lemma mean_over_nonneg:
  assumes "\<forall>row\<in>set m. binary row" and "\<forall>v\<in>set (concat vs). 0 \<le> v"
  shows "0 \<le> mean_over vs m"
  unfolding mean_over_def masked_mean_def
  using masked_sum_nonneg [OF binary_concat [OF assms(1)] assms(2)] sum_binary_nonneg [OF binary_concat [OF assms(1)]]
  by simp

lemma kept_values_concat:
  assumes "same_shape vs m"
  shows "set (kept_values (concat vs) (concat m)) = {vs ! i ! j | i j. i < length m \<and> j < length (m ! i) \<and> m ! i ! j \<noteq> 0}"
proof -
  have zip: "zip (concat vs) (concat m) = concat (map2 zip vs m)"
    using assms
  proof (induction vs arbitrary: m)
    case (Cons v vs)
    then obtain r m' where m: "m = r # m'" by (cases m) (simp_all add: same_shape_def)
    with Cons show ?case by (simp add: same_shape_def)
  qed (simp add: same_shape_def)
  have len: "length vs = length m" by (rule same_shape_length [OF assms])
  have "set (concat (map2 zip vs m)) = {(vs ! i ! j, m ! i ! j) | i j. i < length m \<and> j < length (m ! i)}"
  proof (intro set_eqI iffI)
    fix p assume "p \<in> set (concat (map2 zip vs m))"
    then obtain i where i: "i < length m" and "p \<in> set (zip (vs ! i) (m ! i))"
      using len by (auto simp: set_zip)
    then show "p \<in> {(vs ! i ! j, m ! i ! j) | i j. i < length m \<and> j < length (m ! i)}"
      using same_shape_nth [OF assms i] by (auto simp: set_zip)
  next
    fix p assume "p \<in> {(vs ! i ! j, m ! i ! j) | i j. i < length m \<and> j < length (m ! i)}"
    then obtain i j where p: "p = (vs ! i ! j, m ! i ! j)" and i: "i < length m" and j: "j < length (m ! i)" by blast
    have "p \<in> set (zip (vs ! i) (m ! i))" using j same_shape_nth [OF assms i] by (auto simp: set_zip p)
    moreover have "zip (vs ! i) (m ! i) \<in> set (map2 zip vs m)" using i len by (auto simp: set_zip)
    ultimately show "p \<in> set (concat (map2 zip vs m))" unfolding set_concat by blast
  qed
  then show ?thesis unfolding kept_values_def zip set_map set_filter by force
qed

lemma sum_squares_0: "sum_list (map (\<lambda>x :: real. x\<^sup>2) xs) = 0 \<longleftrightarrow> (\<forall>x\<in>set xs. x = 0)"
proof (induction xs)
  case (Cons x xs)
  have "0 \<le> sum_list (map (\<lambda>x :: real. x\<^sup>2) xs)" by (rule sum_list_nonneg) auto
  then show ?case using Cons.IH by (simp add: add_nonneg_eq_0_iff)
qed simp

lemma concat_mmap: "concat (mmap f a) = map f (concat a)"
  by (simp add: mmap_def map_concat)

lemma second_moment_0:
  assumes "\<forall>row\<in>set m. binary row"
  shows "mean_over (mmap (\<lambda>x. x\<^sup>2) vs) m = 0 \<longleftrightarrow> (\<forall>x\<in>set (kept_values (concat vs) (concat m)). x = 0)"
proof -
  note b = binary_concat [OF assms]
  have "0 \<le> sum_list (concat m)" by (rule sum_binary_nonneg [OF b])
  then have "sum_list (concat m) + 1 / 10 ^ 8 \<noteq> 0" by (simp add: add_nonneg_pos less_imp_neq [THEN not_sym])
  then show ?thesis
    by (simp add: mean_over_def masked_mean_def concat_mmap masked_sum_kept [OF b] kept_values_map sum_squares_0)
qed

definition is_zero_division :: pyexn where
  "is_zero_division = ZeroDivisionError ''float division by zero''"

definition some_weight :: "string \<Rightarrow> real \<Rightarrow> real option \<Rightarrow> mat \<Rightarrow> mat \<Rightarrow> bool" where
  "some_weight level hi lo log_ratio m \<longleftrightarrow>
     (\<exists>i<length m. \<exists>j<length (m ! i). m ! i ! j \<noteq> 0 \<and> limit_weight hi lo (ratio level log_ratio m i j) \<noteq> 0)"

lemma limited_weights_bounds:
  assumes th: "parse_rollout_is_threshold th = Inr (hi, lo)"
    and shape: "same_shape log_ratio m" and binary: "\<forall>row\<in>set m. binary row"
    and x: "x \<in> set (concat (limited_weights level hi lo log_ratio m))"
  shows "0 \<le> x \<and> x \<le> hi"
proof -
  let ?w = "limited_weights level hi lo log_ratio m"
  note s = limited_weights_nth(1) [OF shape, of level hi lo]
  obtain i j where i: "i < length m" and j: "j < length (m ! i)" and xij: "x = ?w ! i ! j"
    using x same_shape_length [OF s] same_shape_nth [OF s] by (fastforce simp: in_set_conv_nth)
  have "0 \<le> m ! i ! j"
    using binary nth_mem [OF i] nth_mem [OF j] unfolding binary_def by fastforce
  then have "0 \<le> ratio level log_ratio m i j * m ! i ! j" by (simp add: ratio_def)
  from limit_weight_range [OF _ this, of hi lo] parse_is_bounds [OF th]
  show ?thesis unfolding xij limited_weights_nth(2) [OF shape i j] by blast
qed

lemma metrics_second_moment_0:
  assumes th: "parse_rollout_is_threshold th = Inr (hi, lo)"
    and shape: "same_shape log_ratio m" and binary: "\<forall>row\<in>set m. binary row"
    and w: "w = limited_weights level hi lo log_ratio m"
  shows "mean_over (mmap (\<lambda>x. x\<^sup>2) (mmap (\<lambda>x. x / (mean_over (mmap (clamp 0 hi) w) m + 1 / 10 ^ 8)) (mmap (clamp 0 hi) w))) m = 0
    \<longleftrightarrow> \<not> some_weight level hi lo log_ratio m"
proof -
  let ?c = "mean_over (mmap (clamp 0 hi) w) m + 1 / 10 ^ 8"
  note bounds = limited_weights_bounds [OF th shape binary, of _ level, folded w]
  have hi: "0 < hi" using parse_is_bounds [OF th] by simp
  have "mmap (clamp 0 hi) w = w"
    unfolding mmap_def by (intro map_idI clamp_id) (use bounds in auto)
  moreover have "0 \<le> mean_over w m" using bounds by (intro mean_over_nonneg binary) blast
  ultimately have c: "0 < ?c" and id: "mmap (clamp 0 hi) w = w" by simp_all
  note s = limited_weights_nth(1) [OF shape, of level hi lo, folded w]
  have "mean_over (mmap (\<lambda>x. x\<^sup>2) (mmap (\<lambda>x. x / ?c) w)) m = 0 \<longleftrightarrow> (\<forall>x\<in>set (kept_values (concat w) (concat m)). x = 0)"
    unfolding second_moment_0 [OF binary] concat_mmap kept_values_map using c by simp
  also have "\<dots> \<longleftrightarrow> (\<forall>i j. i < length m \<and> j < length (m ! i) \<and> m ! i ! j \<noteq> 0 \<longrightarrow> w ! i ! j = 0)"
    unfolding kept_values_concat [OF s] by blast
  also have "\<dots> \<longleftrightarrow> \<not> some_weight level hi lo log_ratio m"
  proof -
    have eq: "w ! i ! j = limit_weight hi lo (ratio level log_ratio m i j)"
      if "i < length m \<and> j < length (m ! i) \<and> m ! i ! j \<noteq> 0" for i j
    proof -
      have i: "i < length m" and j: "j < length (m ! i)" using that by simp_all
      have "m ! i ! j = 1" using binary nth_mem [OF i] nth_mem [OF j] that unfolding binary_def by blast
      then show ?thesis unfolding w limited_weights_nth(2) [OF shape i j] by simp
    qed
    have "(\<forall>i j. i < length m \<and> j < length (m ! i) \<and> m ! i ! j \<noteq> 0 \<longrightarrow> w ! i ! j = 0) \<longleftrightarrow>
        (\<forall>i j. i < length m \<and> j < length (m ! i) \<and> m ! i ! j \<noteq> 0 \<longrightarrow> limit_weight hi lo (ratio level log_ratio m i j) = 0)"
      by (intro iff_allI imp_cong refl) (drule eq, simp)
    then show ?thesis unfolding some_weight_def by blast
  qed
  finally show ?thesis unfolding id .
qed

lemma is_metrics_fail_iff:
  assumes th: "parse_rollout_is_threshold th = Inr (hi, lo)" and valid: "any_valid m"
    and shape: "same_shape log_ratio m" and binary: "\<forall>row\<in>set m. binary row"
    and w: "w = limited_weights level hi lo log_ratio m"
  shows "if some_weight level hi lo log_ratio m
    then \<exists>ms. compute_is_metrics w raw logs m level hi lo = Inr ms
    else compute_is_metrics w raw logs m level hi lo = Inl is_zero_division"
  using valid metrics_second_moment_0 [OF th shape binary w]
  unfolding compute_is_metrics_def Let_def is_zero_division_def by simp

lemma correction_weights_unfold:
  assumes "level \<in> {''token'', ''sequence''}" and "parse_rollout_is_threshold th = Inr (hi, lo)"
    and raw: "raw = mzip (*) (snd (raw_is_weights level log_ratio m)) m"
    and logs: "logs = fst (raw_is_weights level log_ratio m)"
  shows "compute_rollout_correction_weights ranks log_ratio m level th bn =
    rbind (compute_is_metrics (limited_weights level hi lo log_ratio m) raw logs m level hi lo) (\<lambda>ms.
      Inr (normalize_weights ranks level m bn (limited_weights level hi lo log_ratio m) (add_oob_ratio hi lo raw m ms)))"
  using assms(1,2) unfolding raw logs
  by (cases "raw_is_weights level log_ratio m") (simp add: compute_rollout_correction_weights_def limited_weights_def Let_def)

lemma correction_weights_fail:
  assumes level: "level \<in> {''token'', ''sequence''}" and th: "parse_rollout_is_threshold th = Inr (hi, lo)"
    and valid: "any_valid m" and shape: "same_shape log_ratio m" and binary: "\<forall>row\<in>set m. binary row"
  shows "if some_weight level hi lo log_ratio m
    then \<exists>w ms. compute_rollout_correction_weights ranks log_ratio m level th bn = Inr (w, ms)
    else compute_rollout_correction_weights ranks log_ratio m level th bn = Inl is_zero_division"
  unfolding correction_weights_unfold [OF level th refl refl] Let_def
  using is_metrics_fail_iff [OF th valid shape binary refl, of level "mzip (*) (snd (raw_is_weights level log_ratio m)) m"
      "fst (raw_is_weights level log_ratio m)"]
  by auto

lemma truncation_keeps_some:
  assumes "any_valid m" and "0 < hi"
  shows "some_weight level hi None log_ratio m"
proof -
  obtain row x where "row \<in> set m" "x \<in> set row" "x \<noteq> 0" using assms(1) by (auto simp: any_valid_def)
  then obtain i j where "i < length m" "j < length (m ! i)" "m ! i ! j \<noteq> 0" by (metis in_set_conv_nth)
  moreover have "limit_weight hi None (ratio level log_ratio m i j) \<noteq> 0"
    using assms(2) by (simp add: limit_weight_def ratio_def min_def)
  ultimately show ?thesis unfolding some_weight_def by blast
qed

text \<open>C22: with valid parameters and at least one response token under a 0/1 mask, truncated importance sampling always
  returns, and IcePop raises \<open>ZeroDivisionError\<close> exactly when every ratio of a response token is outside
  the band.\<close>

theorem weights_fail_iff:
  assumes "level \<in> {''token'', ''sequence''}" and "parse_rollout_is_threshold th = Inr (hi, lo)"
    and "any_valid m" and "same_shape log_ratio m" and "\<forall>row\<in>set m. binary row"
  shows "((\<exists>w ms. compute_rollout_correction_weights ranks log_ratio m level th bn = Inr (w, ms)) \<longleftrightarrow>
      lo = None \<or> (\<exists>i<length m. \<exists>j<length (m ! i). m ! i ! j \<noteq> 0
        \<and> the lo \<le> ratio level log_ratio m i j \<and> ratio level log_ratio m i j \<le> hi))
    \<and> (\<forall>e. compute_rollout_correction_weights ranks log_ratio m level th bn = Inl e \<longrightarrow>
         e = ZeroDivisionError ''float division by zero'')"
proof -
  have "0 < hi" using parse_is_bounds [OF assms(2)] by simp
  have "some_weight level hi lo log_ratio m \<longleftrightarrow> lo = None \<or> (\<exists>i<length m. \<exists>j<length (m ! i). m ! i ! j \<noteq> 0
        \<and> the lo \<le> ratio level log_ratio m i j \<and> ratio level log_ratio m i j \<le> hi)"
  proof (cases lo)
    case None
    then show ?thesis using truncation_keeps_some [OF assms(3) \<open>0 < hi\<close>] by simp
  next
    case (Some l)
    have "limit_weight hi (Some l) (ratio level log_ratio m i j) \<noteq> 0 \<longleftrightarrow>
        l \<le> ratio level log_ratio m i j \<and> ratio level log_ratio m i j \<le> hi" for i j
      by (simp add: limit_weight_def ratio_def)
    then show ?thesis by (simp add: some_weight_def Some)
  qed
  then show ?thesis
    using correction_weights_fail [OF assms, of ranks bn] by (auto simp: is_zero_division_def split: if_splits)
qed

section \<open>Witnesses for the weights\<close>

lemma threshold_two: "parse_rollout_is_threshold (TNum 2) = Inr (2, None)"
  by (simp add: parse_rollout_is_threshold_def read_is_threshold_def check_is_bounds_def)

lemma threshold_icepop: "parse_rollout_is_threshold (TStr ''0.5_5.0'') = Inr (5, Some (1 / 2))"
proof -
  have "parse_float ''0.5'' = Some (1 / 2)" and "parse_float ''5.0'' = Some 5"
    by (simp_all add: parse_float_def strip_def is_space_def take_sign_def digit_part_def is_digit_def exponent_def
      digits_value_def of_char_def)
  moreover have "strip ''0.5_5.0'' = ''0.5_5.0''" and "has_underscore ''0.5_5.0''"
    and "split_underscore ''0.5_5.0'' = (''0.5'', ''5.0'')" by code_simp+
  ultimately show ?thesis
    by (simp add: parse_rollout_is_threshold_def read_is_threshold_def parse_is_text_def check_is_bounds_def)
qed

lemma one_row: "same_shape [[x :: real, y]] [[1 :: real, 0]]" "any_valid [[1, 0]]" "\<forall>row\<in>set [[1, 0]]. binary row"
  by (simp_all add: same_shape_def any_valid_def binary_def)

lemma one_cell: "[[1, 0 :: real]] ! i ! j \<noteq> 0 \<Longrightarrow> i < length [[1, 0 :: real]] \<Longrightarrow> j < length ([[1, 0 :: real]] ! i) \<Longrightarrow> i = 0 \<and> j = 0"
  by (cases j) (auto simp: less_Suc_eq)

theorem importance_weights_range_witness:
  "\<exists>w ms. compute_rollout_correction_weights None [[5, 7]] [[1, 0]] ''token'' (TNum 2) False = Inr (w, ms)
     \<and> w ! 0 ! 0 \<le> 2 \<and> w ! 0 ! 1 = 0"
proof -
  have level: "''token'' \<in> {''token'', ''sequence''}" by simp
  obtain w ms where run: "compute_rollout_correction_weights None [[5, 7]] [[1, 0]] ''token'' (TNum 2) False = Inr (w, ms)"
    using correction_weights_fail [OF level threshold_two one_row(2) one_row(1) one_row(3), of 5 7 None False]
      truncation_keeps_some [OF one_row(2), of 2 "''token''" "[[5, 7]]"] by auto
  note th = importance_weights_range [OF run threshold_two one_row(1) one_row(3)]
  show ?thesis using run th [of 0 0] th [of 0 1] by (simp add: limit_weight_0)
qed

text \<open>IcePop with the band of the preset, on a batch whose only ratio is outside it.\<close>

lemma icepop_out_of_band:
  "compute_rollout_correction_weights None [[10, 0]] [[1, 0]] ''token'' (TStr ''0.5_5.0'') False
     = Inl (ZeroDivisionError ''float division by zero'')"
proof -
  have level: "''token'' \<in> {''token'', ''sequence''}" by simp
  have "5 < exp (10 :: real)" using exp_ge_add_one_self [of 10] by linarith
  then have "\<not> some_weight ''token'' 5 (Some (1 / 2)) [[10, 0]] [[1, 0]]"
    unfolding some_weight_def using one_cell by (fastforce simp: ratio_def clamp_def limit_weight_def)
  then show ?thesis
    using correction_weights_fail [OF level threshold_icepop one_row(2) one_row(1) one_row(3), of 10 0 None False]
    by (simp add: is_zero_division_def)
qed

theorem weights_fail_iff_witness:
  "\<forall>w ms. compute_rollout_correction_weights None [[10, 0]] [[1, 0]] ''token'' (TStr ''0.5_5.0'') False \<noteq> Inr (w, ms)"
proof -
  have level: "''token'' \<in> {''token'', ''sequence''}" by simp
  have "5 < exp (10 :: real)" using exp_ge_add_one_self [of 10] by linarith
  then have "\<not> (\<exists>i<length [[1, 0]]. \<exists>j<length ([[1, 0]] ! i). [[1, 0]] ! i ! j \<noteq> (0 :: real)
      \<and> the (Some (1 / 2)) \<le> ratio ''token'' [[10, 0]] [[1, 0]] i j \<and> ratio ''token'' [[10, 0]] [[1, 0]] i j \<le> 5)"
    using one_cell by (fastforce simp: ratio_def clamp_def)
  then show ?thesis
    using weights_fail_iff [OF level threshold_icepop one_row(2) one_row(1) one_row(3), of None 10 0 False] by blast
qed

section \<open>Batch normalization\<close>

lemma masked_sum_scale: "masked_sum (map (\<lambda>x. x / c) vs) ms = masked_sum vs ms / c"
  unfolding masked_sum_eq
proof (induction vs arbitrary: ms)
  case (Cons v vs)
  then show ?case by (cases ms) (simp_all add: add_divide_distrib)
qed simp

lemma mean_over_scale: "mean_over (mmap (\<lambda>x. x / c) vs) m = mean_over vs m / c"
  by (simp add: mean_over_def masked_mean_def concat_mmap masked_sum_scale)

lemma run_normalized:
  assumes run: "compute_rollout_correction_weights ranks log_ratio m level th False = Inr (w, ms)"
    and th: "parse_rollout_is_threshold th = Inr (hi, lo)"
  shows "\<exists>ms'. compute_rollout_correction_weights ranks log_ratio m level th True
    = Inr (normalize_weights ranks level m True w ms')"
proof -
  have level: "level \<in> {''token'', ''sequence''}"
    using run by (auto simp: compute_rollout_correction_weights_def split: if_splits)
  note unfold = correction_weights_unfold [OF level th refl refl]
  from run obtain ms0 where "compute_is_metrics (limited_weights level hi lo log_ratio m)
      (mzip (*) (snd (raw_is_weights level log_ratio m)) m) (fst (raw_is_weights level log_ratio m)) m level hi lo = Inr ms0"
    and "w = limited_weights level hi lo log_ratio m"
    unfolding unfold by (auto simp: rbind_eq_Inr normalize_weights_def)
  then show ?thesis unfolding unfold by auto
qed

text \<open>token-level batch normalization divides the weights by their mean over all ranks, after which
  the mean over all ranks is exactly 1.\<close>

theorem normalized_weights_mean_one:
  assumes run: "compute_rollout_correction_weights ranks log_ratio m ''token'' th False = Inr (w0, ms0)"
    and th: "parse_rollout_is_threshold th = Inr (hi, lo)"
    and mu: "mu = weights_mean ranks ''token'' w0 m" and pos: "1 / 10 ^ 8 < mu"
  shows "\<exists>w ms. compute_rollout_correction_weights ranks log_ratio m ''token'' th True = Inr (w, ms)
    \<and> w = mmap (\<lambda>x. x / mu) w0
    \<and> (case ranks of None \<Rightarrow> mean_over w m
       | Some others \<Rightarrow> distributed_masked_mean (fst others / mu, snd others) (concat w) (concat m)) = 1"
proof -
  have "0 < mu" using pos by (rule less_trans [rotated]) simp
  obtain ms' where "compute_rollout_correction_weights ranks log_ratio m ''token'' th True
      = Inr (normalize_weights ranks ''token'' m True w0 ms')"
    using run_normalized [OF run th] by blast
  moreover have "normalize_weights ranks ''token'' m True w0 ms'
      = (mmap (\<lambda>x. x / mu) w0, dict_set ''rollout_is_batch_norm_factor'' mu ms')"
    using pos unfolding mu by (simp add: normalize_weights_def Let_def)
  moreover have "(case ranks of None \<Rightarrow> mean_over (mmap (\<lambda>x. x / mu) w0) m
      | Some others \<Rightarrow> distributed_masked_mean (fst others / mu, snd others) (concat (mmap (\<lambda>x. x / mu) w0)) (concat m)) = 1"
  proof (cases ranks)
    case None
    then have "mu = mean_over w0 m" by (simp add: mu weights_mean_def)
    then show ?thesis using None \<open>0 < mu\<close> by (simp add: mean_over_scale)
  next
    case (Some others)
    let ?n = "sum_list (concat m) + snd others"
    have d: "mu = (masked_sum (concat w0) (concat m) + fst others) / ?n"
      by (simp add: mu Some weights_mean_def distributed_masked_mean_def masked_sum_eq)
    then have n: "?n \<noteq> 0" using \<open>0 < mu\<close> by (metis div_by_0 less_irrefl)
    have "distributed_masked_mean (fst others / mu, snd others) (concat (mmap (\<lambda>x. x / mu) w0)) (concat m)
        = (masked_sum (concat w0) (concat m) + fst others) / mu / ?n"
      by (simp add: distributed_masked_mean_def masked_sum_eq [symmetric] concat_mmap masked_sum_scale add_divide_distrib)
    also have "masked_sum (concat w0) (concat m) + fst others = mu * ?n"
      using d n by (simp add: field_simps)
    also have "mu * ?n / mu / ?n = 1" using n \<open>0 < mu\<close> by simp
    finally show ?thesis using Some \<open>0 < mu\<close> by simp
  qed
  ultimately show ?thesis by simp
qed

theorem normalized_weights_mean_one_witness:
  "\<exists>w ms. compute_rollout_correction_weights None [[0, 0]] [[1, 0]] ''token'' (TNum 2) True = Inr (w, ms) \<and> mean_over w [[1, 0]] = 1"
proof -
  have level: "''token'' \<in> {''token'', ''sequence''}" by simp
  obtain w0 ms0 where run: "compute_rollout_correction_weights None [[0, 0]] [[1, 0]] ''token'' (TNum 2) False = Inr (w0, ms0)"
    using correction_weights_fail [OF level threshold_two one_row(2) one_row(1) one_row(3), of 0 0 None False]
      truncation_keeps_some [OF one_row(2), of 2 "''token''" "[[0, 0]]"] by auto
  have "w0 = [[1, 0]]"
    unfolding weights_of_run [OF run threshold_two]
    by (simp add: limited_weights_def raw_is_weights_def safe_log_ratio_def mmap_def mzip_def clamp_def limit_weight_def)
  then have "1 / 10 ^ 8 < weights_mean None ''token'' w0 [[1, 0]]"
    by (simp add: weights_mean_def mean_over_def masked_mean_def masked_sum_def)
  from normalized_weights_mean_one [OF run threshold_two refl this] show ?thesis by auto
qed

end
