(* ===== verification/RolloutEntry.thy ===== *)
theory RolloutEntry
  imports RolloutWeights LossFacts
begin

text \<open>
  The entry points of rollout correction: when the two policies agree nothing is corrected, neither the
  mask nor the weights nor the loss of bypass mode; the off-policy metrics are consistent; the batch
  keeps everything except the two tensors that are written; and the accepted specifications are
  well formed.
\<close>

section \<open>Specifications\<close>

text \<open>C23: an accepted list of options has no duplicates and only supported names; accepted thresholds are
  positive, one entry per option in order, with a lower bound exactly for the k1 options; an accepted
  importance-sampling threshold has positive, ordered bounds.\<close>

theorem accepted_specs_well_formed:
  assumes "parse_options modes = Inr opts" and "parse_rollout_rs_thresholds opts (Some th) = Inr ts"
    and "parse_rollout_is_threshold th' = Inr (hi, lo)"
  shows "distinct opts \<and> opts \<noteq> [] \<and> set opts \<subseteq> set supported_options \<and> map fst ts = opts
    \<and> (\<forall>(opt, l, u)\<in>set ts. 0 < u \<and> (l = None \<longleftrightarrow> \<not> suffix ''k1'' opt) \<and> (\<forall>l'. l = Some l' \<longrightarrow> 0 < l'))
    \<and> 0 < hi \<and> (\<forall>l. lo = Some l \<longrightarrow> 0 < l \<and> l \<le> hi)"
proof -
  note po = parse_options_distinct [OF assms(1)]
  have "thresholds_ok ts \<and> map fst ts = opts" using parse_rs_thresholds_ok [OF assms(2)] po by blast
  then show ?thesis
    using po parse_is_bounds [OF assms(3)] unfolding thresholds_ok_def by (auto split: if_splits)
qed

text \<open>A specification with a symmetric bound for the ratio and one for an estimator.\<close>

lemma two_options: "parse_options ''token_k1,seq_sum_k2'' = Inr [''token_k1'', ''seq_sum_k2'']"
  by code_simp

theorem accepted_specs_well_formed_witness:
  "\<exists>ts hi lo. parse_rollout_rs_thresholds [''token_k1'', ''seq_sum_k2''] (Some (TNum 2)) = Inr ts
    \<and> parse_options ''token_k1,seq_sum_k2'' = Inr [''token_k1'', ''seq_sum_k2'']
    \<and> parse_rollout_is_threshold (TStr ''0.5_5.0'') = Inr (hi, lo)
    \<and> map fst ts = [''token_k1'', ''seq_sum_k2'']
    \<and> (\<forall>(opt, l, u)\<in>set ts. 0 < u \<and> (l = None \<longleftrightarrow> \<not> suffix ''k1'' opt) \<and> (\<forall>l'. l = Some l' \<longrightarrow> 0 < l'))
    \<and> 0 < hi \<and> (\<forall>l. lo = Some l \<longrightarrow> 0 < l \<and> l \<le> hi)"
proof -
  obtain ts where ts: "parse_rollout_rs_thresholds [''token_k1'', ''seq_sum_k2''] (Some (TNum 2)) = Inr ts"
    by (simp add: parse_rollout_rs_thresholds_def raw_specs_def match_specs_def add_threshold_def option_threshold_def option_names k1_bounds_def)
  note wf = accepted_specs_well_formed [OF two_options ts threshold_icepop]
  show ?thesis
    by (rule exI [of _ ts], rule exI [of _ 5], rule exI [of _ "Some (1 / 2)"]) (use wf ts two_options threshold_icepop in blast)
qed

section \<open>Equal policies\<close>

text \<open>A configuration whose bounds contain the ratio 1.\<close>

definition contains_one :: "rollout_config \<Rightarrow> bool" where
  "contains_one c \<longleftrightarrow>
     (\<forall>level th. rollout_is c = Some level \<longrightarrow> rollout_is_threshold c = Some th \<longrightarrow>
        level \<in> {''token'', ''sequence''} \<and>
        (\<exists>hi lo. parse_rollout_is_threshold th = Inr (hi, lo) \<and> 1 \<le> hi \<and> (\<forall>l. lo = Some l \<longrightarrow> l \<le> 1)))
   \<and> (\<forall>modes. rollout_rs c = Some modes \<longrightarrow>
        (\<exists>th opts ts. rollout_rs_threshold c = Some th \<and> parse_options modes = Inr opts
          \<and> parse_rollout_rs_thresholds opts (Some th) = Inr ts
          \<and> (\<forall>(opt, l, u)\<in>set ts. suffix ''k1'' opt \<longrightarrow> the l \<le> 1 \<and> 1 \<le> u)))"

lemma mzip_same: "mzip (-) a a = mmap (\<lambda>_. 0 :: real) a"
  by (simp add: mzip_def mmap_def zip_same_conv_map)

lemma kept_values_zeros: "kept_values (replicate n 0) ms = replicate (length (kept_values (replicate n 0) ms)) 0"
proof (induction n arbitrary: ms)
  case (Suc n)
  then show ?case by (cases ms) (simp_all add: kept_values_def)
qed (simp add: kept_values_def)

lemma masked_mean_zeros: "masked_mean (replicate n 0) ms = 0"
proof -
  have "masked_sum (replicate n 0) ms = 0"
    unfolding masked_sum_eq
  proof (induction n arbitrary: ms)
    case (Suc n)
    then show ?case by (cases ms) simp_all
  qed simp
  then show ?thesis by (simp add: masked_mean_def)
qed

lemma trusted_zeros:
  assumes "name \<in> set supported_options" and "0 < u" and j: "j < n"
    and k1: "suffix ''k1'' name \<Longrightarrow> 0 < the l \<and> the l \<le> 1 \<and> 1 \<le> u"
  shows "trusted (replicate n 0) ms j (name, l, u)"
proof -
  obtain p where kept: "kept_values (replicate n 0) ms = replicate p 0"
    using kept_values_zeros by blast
  have ones: "prod_list (map exp (replicate p (0 :: real))) = 1" by (induction p) simp_all
  have zeros: "sum_list (map f (replicate p (0 :: real))) = 0" if "f 0 = 0" for f :: "real \<Rightarrow> real"
    using that by (induction p) simp_all
  have mean: "masked_mean (map f (replicate n 0)) ms = 0" if "f 0 = 0" for f :: "real \<Rightarrow> real"
    using that by (simp add: map_replicate masked_mean_zeros)
  note facts = kept ones zeros mean masked_mean_zeros
  from assms(1) [unfolded supported_groups] show ?thesis
    using assms(2) j k1
    by (elim UnE insertE; simp del: map_replicate add: trusted_def Let_def option_names facts)
qed

lemma trusted_mask_zeros:
  assumes shape: "same_shape lp m" and binary: "\<forall>row\<in>set m. binary row"
    and good: "\<forall>opt\<in>set ts. good_option opt"
    and one: "\<forall>(opt, l, u)\<in>set ts. suffix ''k1'' opt \<longrightarrow> the l \<le> 1 \<and> 1 \<le> u"
  shows "trusted_mask ts (mmap (\<lambda>_. 0) lp) m = m"
proof (rule nth_equalityI)
  have len: "length lp = length m" by (rule same_shape_length [OF shape])
  then show "length (trusted_mask ts (mmap (\<lambda>_. 0) lp) m) = length m" by (simp add: trusted_mask_def)
  fix i assume "i < length (trusted_mask ts (mmap (\<lambda>_. 0) lp) m)"
  then have i: "i < length m" using len by (simp add: trusted_mask_def)
  let ?n = "length (m ! i)"
  have row: "map (clamp (- 20) 20) (mmap (\<lambda>_. 0) lp ! i) = replicate ?n 0"
    using i len same_shape_nth [OF shape i] by (simp add: mmap_def map_replicate_const clamp_def)
  have T: "trusted (replicate ?n 0) (m ! i) j opt" if "opt \<in> set ts" "j < ?n" for opt j
  proof -
    obtain name l u where opt: "opt = (name, l, u)" by (cases opt)
    have g: "good_option (name, l, u)" and c1: "suffix ''k1'' name \<longrightarrow> the l \<le> 1 \<and> 1 \<le> u"
      using good one that(1) unfolding opt by blast+
    show ?thesis
      unfolding opt by (intro trusted_zeros) (use g c1 that(2) in \<open>auto simp: good_option_def thresholds_ok_def\<close>)
  qed
  have eq: "trusted_mask ts (mmap (\<lambda>_. 0) lp) m ! i
      = map (\<lambda>j. if m ! i ! j = 1 \<and> (\<forall>opt\<in>set ts. trusted (replicate ?n 0) (m ! i) j opt) then 1 else 0) [0..<?n]"
    using i len by (simp add: trusted_mask_def row [symmetric])
  have "m ! i ! j = 0 \<or> m ! i ! j = 1" if "j < ?n" for j
    using binary nth_mem [OF i] nth_mem [OF that] unfolding binary_def by blast
  then show "trusted_mask ts (mmap (\<lambda>_. 0) lp) m ! i = m ! i"
    unfolding eq by (intro nth_equalityI) (auto simp: T)
qed

lemma limited_weights_zeros:
  assumes shape: "same_shape lp m" and binary: "\<forall>row\<in>set m. binary row"
    and hi: "1 \<le> hi" and lo: "\<forall>l. lo = Some l \<longrightarrow> 0 < l \<and> l \<le> 1"
  shows "limited_weights level hi lo (mmap (\<lambda>_. 0) lp) m = m"
proof (rule mat_eqI)
  have z: "same_shape (mmap (\<lambda>_. 0) lp :: mat) m" using shape by simp
  show "same_shape (limited_weights level hi lo (mmap (\<lambda>_. 0) lp) m) m" by (rule limited_weights_nth(1) [OF z])
  fix i j assume i: "i < length m" and j: "j < length (m ! i)"
  have "mmap (\<lambda>_. 0) lp ! i = replicate (length (m ! i)) (0 :: real)"
    using i same_shape_length [OF shape] same_shape_nth [OF shape i] by (simp add: mmap_def map_replicate_const)
  then have "ratio level (mmap (\<lambda>_. 0) lp) m i j = 1"
    using i j masked_mean_zeros [of "length (m ! i)" "m ! i"] sum_binary_nonneg [of "m ! i"] binary
    by (simp add: ratio_def clamp_def masked_mean_def add_nonneg_eq_0_iff)
  moreover have "m ! i ! j = 0 \<or> m ! i ! j = 1"
    using binary nth_mem [OF i] nth_mem [OF j] unfolding binary_def by blast
  ultimately show "limited_weights level hi lo (mmap (\<lambda>_. 0) lp) m ! i ! j = m ! i ! j"
    using hi lo by (auto simp: limited_weights_nth(2) [OF z i j] limit_weight_def split: option.splits)
qed

lemma weights_step_equal:
  assumes c: "contains_one c" "\<not> rollout_is_batch_normalize c" and shape: "same_shape lp m" and valid: "any_valid m"
    and binary: "\<forall>row\<in>set m. binary row"
  shows "\<exists>ms. weights_step ranks c (mmap (\<lambda>_. 0) lp) m
    = Inr (if rollout_is c = None \<or> rollout_is_threshold c = None then None else Some m, ms)"
proof (cases "rollout_is c = None \<or> rollout_is_threshold c = None")
  case True
  then show ?thesis by (auto simp: weights_step_def split: option.splits)
next
  case False
  then obtain level th where l: "rollout_is c = Some level" and t: "rollout_is_threshold c = Some th" by auto
  then obtain hi lo where level: "level \<in> {''token'', ''sequence''}" and th: "parse_rollout_is_threshold th = Inr (hi, lo)"
    and hi: "1 \<le> hi" and lo: "\<forall>l. lo = Some l \<longrightarrow> l \<le> 1"
    using c(1) unfolding contains_one_def by blast
  have z: "same_shape (mmap (\<lambda>_. 0) lp :: mat) m" using shape by simp
  have w: "limited_weights level hi lo (mmap (\<lambda>_. 0) lp) m = m"
    by (rule limited_weights_zeros [OF shape binary hi]) (use lo parse_is_bounds [OF th] in blast)
  obtain i j where ij: "i < length m" "j < length (m ! i)" "m ! i ! j \<noteq> 0"
    using valid unfolding any_valid_def by (metis in_set_conv_nth set_concat UN_E)
  have "m ! i ! j = 1" using binary nth_mem [OF ij(1)] nth_mem [OF ij(2)] ij(3) unfolding binary_def by blast
  then have "limit_weight hi lo (ratio level (mmap (\<lambda>_. 0) lp) m i j) = 1"
    using limited_weights_nth(2) [OF z ij(1,2), of level hi lo] by (simp add: w)
  then have "limit_weight hi lo (ratio level (mmap (\<lambda>_. 0) lp) m i j) \<noteq> 0" by simp
  then have "some_weight level hi lo (mmap (\<lambda>_. 0) lp) m"
    unfolding some_weight_def using ij by blast
  then obtain w' ms where run: "compute_rollout_correction_weights ranks (mmap (\<lambda>_. 0) lp) m level th False = Inr (w', ms)"
    using correction_weights_fail [OF level th valid z binary, of ranks False] by auto
  then show ?thesis
    using weights_of_run [OF run th] w c(2) l t by (simp add: weights_step_def)
qed

lemma mask_step_equal:
  assumes c: "contains_one c" and shape: "same_shape lp m" and valid: "any_valid m"
    and binary: "\<forall>row\<in>set m. binary row"
  shows "\<exists>ms. mask_step c (mmap (\<lambda>_. 0) lp) m = Inr (m, ms)"
proof (cases "rollout_rs c")
  case None
  then show ?thesis by (simp add: mask_step_def)
next
  case (Some modes)
  then obtain th opts ts where th: "rollout_rs_threshold c = Some th" and opts: "parse_options modes = Inr opts"
    and ts: "parse_rollout_rs_thresholds opts (Some th) = Inr ts"
    and one: "\<forall>(opt, l, u)\<in>set ts. suffix ''k1'' opt \<longrightarrow> the l \<le> 1 \<and> 1 \<le> u"
    using c unfolding contains_one_def by blast
  have z: "same_shape (mmap (\<lambda>_. 0) lp :: mat) m" using shape by simp
  have "trusted_mask ts (mmap (\<lambda>_. 0) lp) m = m"
    by (rule trusted_mask_zeros [OF shape binary parsed_options_good(1) [OF opts ts] one])
  then show ?thesis using rejection_mask_eq [OF z valid binary opts ts] Some th by (simp add: mask_step_def)
qed

section \<open>Metrics by name\<close>


lemma rollout_metric_names: "distinct (map fst (rollout_metrics old ro m))"
  by (simp add: rollout_metrics_def Let_def)

definition offpolicy_list :: "mat \<Rightarrow> mat \<Rightarrow> mat \<Rightarrow> metrics" where
  "offpolicy_list old ro m =
     [(''training_ppl'', tmean (map (\<lambda>x. exp (- x)) (row_masked_means old m))),
      (''training_log_ppl'', tmean (map uminus (row_masked_means old m)))] @ rollout_metrics old ro m"

lemma offpolicy_run: "any_valid m \<Longrightarrow> compute_offpolicy_metrics old (Some ro) m = Inr (offpolicy_list old ro m)"
  by (simp add: compute_offpolicy_metrics_def offpolicy_list_def Let_def)


text \<open>What the unified entry point returns, step by step.\<close>

lemma correction_unfold:
  assumes "any_valid m" and "same_shape old m" and "same_shape old ro"
  shows "compute_rollout_correction_and_rejection_mask ranks c old ro m =
    rbind (weights_step ranks c (mzip (-) old ro) m) (\<lambda>(weights, is_metrics).
    rbind (mask_step c (mzip (-) old ro) m) (\<lambda>(mask', rs_metrics).
      Inr (map_option (\<lambda>w. \<lparr>batch = Some \<lparr>td_size = length w, td_items = [(''rollout_is_weights'', w)]\<rparr>,
                            non_tensor_batch = [], meta_info = []\<rparr>) weights,
           mask', add_prefix (dict_update (dict_update is_metrics rs_metrics) (offpolicy_list old ro m)))))"
  using assms
  by (auto simp: compute_rollout_correction_and_rejection_mask_def Let_def offpolicy_run from_dict_def new_proto_def
    check_consistency_def intro!: arg_cong2 [where f = rbind] ext split: option.splits)

section \<open>Nothing to correct\<close>


lemma any_valid_nonempty: "any_valid m \<Longrightarrow> m \<noteq> []"
  by (auto simp: any_valid_def)


lemma equal_policies_run:
  assumes "contains_one c" and "\<not> rollout_is_batch_normalize c" and "same_shape lp m" and "any_valid m"
    and "\<forall>row\<in>set m. binary row"
  shows "\<exists>ms. compute_rollout_correction_and_rejection_mask ranks c lp lp m =
    Inr (if rollout_is c = None \<or> rollout_is_threshold c = None then None
         else Some \<lparr>batch = Some \<lparr>td_size = length m, td_items = [(''rollout_is_weights'', m)]\<rparr>,
                    non_tensor_batch = [], meta_info = []\<rparr>,
         m, add_prefix (dict_update ms (offpolicy_list lp lp m)))"
proof -
  have "same_shape lp lp" by (simp add: same_shape_def)
  note u = correction_unfold [OF assms(4,3) this, of ranks c, unfolded mzip_same]
  obtain ms1 where w: "weights_step ranks c (mmap (\<lambda>_. 0) lp) m
      = Inr (if rollout_is c = None \<or> rollout_is_threshold c = None then None else Some m, ms1)"
    using weights_step_equal [OF assms(1,2,3,4,5)] by blast
  obtain ms2 where k: "mask_step c (mmap (\<lambda>_. 0) lp) m = Inr (m, ms2)"
    using mask_step_equal [OF assms(1,3,4,5)] by blast
  show ?thesis unfolding u w k by (auto intro!: exI [of _ "dict_update ms1 ms2"])
qed


lemma preset_contains_one: "contains_one (decoupled_token_is 2)"
  by (simp add: contains_one_def decoupled_token_is_def with_is_def rollout_config_default_def threshold_two)


lemma mask_twice:
  assumes shape: "same_shape a m" and binary: "\<forall>row\<in>set m. binary row"
  shows "mzip (*) (mzip (*) a m) m = mzip (*) a m"
proof (rule mat_eqI)
  have p: "same_shape (mzip (*) a m) m" by (rule same_shape_mzip [OF shape])
  have pp: "same_shape (mzip (*) (mzip (*) a m) m) m" by (rule same_shape_mzip [OF p])
  show "same_shape (mzip (*) (mzip (*) a m) m) (mzip (*) a m)" by (rule same_shape_trans [OF pp same_shape_sym [OF p]])
  fix i j assume "i < length (mzip (*) a m)" "j < length (mzip (*) a m ! i)"
  then have i: "i < length m" and j: "j < length (m ! i)" using same_shape_length [OF p] same_shape_nth [OF p] by simp_all
  have "m ! i ! j = 0 \<or> m ! i ! j = 1" using binary nth_mem [OF i] nth_mem [OF j] unfolding binary_def by blast
  then show "mzip (*) (mzip (*) a m) m ! i ! j = mzip (*) a m ! i ! j"
    by (auto simp: mzip_nth [OF p i j] mzip_nth [OF shape i j])
qed

lemma agg_with_masked:
  assumes shape: "same_shape a m" and binary: "\<forall>row\<in>set m. binary row"
  shows "agg_with config (mzip (*) a m) m mode = agg_with config a m mode"
proof -
  have "masked_sum (concat (mzip (*) a m)) (concat m) = masked_sum (concat a) (concat m)"
    using mask_twice [OF assms] concat_mzip [OF same_shape_mzip [OF shape], of "(*)" "(*)"] concat_mzip [OF shape, of "(*)"]
    by (simp add: masked_sum_eq)
  then show ?thesis by (simp add: agg_with_def agg_loss_def Let_def mask_twice [OF assms])
qed

text \<open>C25: in bypass mode, with a configuration whose bounds contain the ratio 1 (\<open>contains_one\<close>) and without batch
  normalization of the weights: while the current policy equals the rollout policy, the loss of a batch with some
  valid token under a 0/1 mask is the uncorrected one, REINFORCE without weights for the loss type \<open>reinforce\<close> and
  PPO on the full response mask for \<open>ppo_clip\<close>. (Bounds that exclude 1 can reject every token of such a batch.)\<close>

theorem bypass_loss_equal_policies:
  assumes c: "contains_one c" "\<not> rollout_is_batch_normalize c" and shape: "same_shape lp m" and valid: "any_valid m"
    and binary: "\<forall>row\<in>set m. binary row" and adv: "same_shape advantages m"
    and lt: "loss_type c \<in> {''reinforce'', ''ppo_clip''}"
  shows "rbind (compute_policy_loss_bypass_mode ranks lp lp advantages m mode config (Some c)) (\<lambda>(loss, _). Inr loss)
    = (if loss_type c = ''reinforce''
       then rbind (compute_policy_loss_reinforce lp lp advantages m mode config None) (\<lambda>(loss, _). Inr loss)
       else rbind (compute_policy_loss_vanilla lp lp advantages m mode config None) (\<lambda>(loss, _). Inr loss))"
proof -
  have len: "length m \<noteq> 0" using any_valid_nonempty [OF valid] by simp
  have al: "same_shape (mzip (\<lambda>a lp. - a * lp) advantages lp) m"
    by (rule same_shape_trans [OF same_shape_mzip [OF same_shape_trans [OF adv same_shape_sym [OF shape]]] shape])
  have weighted: "compute_policy_loss_reinforce lp lp advantages m mode config (Some m)
      = compute_policy_loss_reinforce lp lp advantages m mode config None"
    unfolding compute_policy_loss_reinforce_def option.case Let_def agg_with_masked [OF al binary] ..
  obtain ms where run: "compute_rollout_correction_and_rejection_mask ranks c lp lp m =
    Inr (if rollout_is c = None \<or> rollout_is_threshold c = None then None
         else Some \<lparr>batch = Some \<lparr>td_size = length m, td_items = [(''rollout_is_weights'', m)]\<rparr>,
                    non_tensor_batch = [], meta_info = []\<rparr> :: (vec, unit) data_proto option,
         m, add_prefix (dict_update ms (offpolicy_list lp lp m)))"
    using equal_policies_run [OF c shape valid binary] by blast
  have drop: "rbind (rbind (rbind r (\<lambda>(l, x). Inr (l, f x))) (\<lambda>(l, pg). Inr (l, g pg))) (\<lambda>(l, _). Inr l)
      = rbind r (\<lambda>(l, _). Inr l)" for r :: "('p \<times> 'q) result" and f :: "'q \<Rightarrow> 'r" and g :: "'r \<Rightarrow> 's"
    by (cases r) auto
  have names: "''reinforce'' \<noteq> ''ppo_clip''" by simp
  show ?thesis
    using lt by (auto simp: compute_policy_loss_bypass_mode_def run get_tensor_def dict_index_def dlen_def len drop weighted)
qed

theorem bypass_loss_equal_policies_witness:
  "rbind (compute_policy_loss_bypass_mode None [[3, 5]] [[3, 5]] [[1, 2]] [[1, 0]] ''token-mean'' demo_config (Some (bypass_pg_is 2)))
     (\<lambda>(loss, _). Inr loss)
   = Inr (- 3)"
proof -
  note defs = bypass_pg_is_def bypass_def decoupled_seq_is_def with_is_def rollout_config_default_def
  have "contains_one (bypass_pg_is 2)" by (simp add: contains_one_def defs threshold_two)
  moreover have "\<not> rollout_is_batch_normalize (bypass_pg_is 2)" and "loss_type (bypass_pg_is 2) = ''reinforce''"
    by (simp_all add: defs)
  ultimately show ?thesis
    using bypass_loss_equal_policies [OF _ _ one_row(1) one_row(2,3) one_row(1), of "bypass_pg_is 2" None 3 5]
    by (simp add: compute_policy_loss_reinforce_def agg_with_def agg_loss_def normalizer_def demo_config_def or_else_def
      mzip_def masked_sum_def Let_def)
qed

section \<open>The off-policy metrics\<close>

lemma exp_tmean_le:
  assumes "xs \<noteq> []"
  shows "exp (tmean xs) \<le> tmean (map exp xs)"
proof -
  let ?n = "real (length xs)"
  have n: "0 < ?n" using assms by simp
  have "exp (tmean xs) * (1 + (x - tmean xs)) \<le> exp x" for x
  proof -
    have "exp (tmean xs) * (1 + (x - tmean xs)) \<le> exp (tmean xs) * exp (x - tmean xs)"
      by (rule mult_left_mono [OF exp_ge_add_one_self]) simp
    then show ?thesis by (simp add: exp_add [symmetric])
  qed
  then have "sum_list (map (\<lambda>x. exp (tmean xs) * (1 + (x - tmean xs))) xs) \<le> sum_list (map exp xs)"
    by (intro sum_list_mono)
  moreover have "sum_list (map (\<lambda>x. exp (tmean xs) * (1 + (x - tmean xs))) xs) = exp (tmean xs) * ?n"
    using sum_deviation [OF assms] by (simp add: sum_list_const_mult sum_list_addf sum_list_triv)
  ultimately show ?thesis using n by (simp add: tmean_def field_simps)
qed

lemma tmean_vmax_vmin:
  assumes "xs \<noteq> []"
  shows "vmin xs \<le> tmean xs \<and> tmean xs \<le> vmax xs"
proof -
  have n: "0 < real (length xs)" using assms by simp
  have "sum_list (map (\<lambda>_. vmin xs) xs) \<le> sum_list (map (\<lambda>x. x) xs)"
    and "sum_list (map (\<lambda>x. x) xs) \<le> sum_list (map (\<lambda>_. vmax xs) xs)"
    by (intro sum_list_mono; simp add: vmin_def vmax_def)+
  then show ?thesis using n by (simp add: tmean_def field_simps sum_list_triv)
qed

lemma abs_tmean_le: "\<bar>tmean xs\<bar> \<le> tmean (map abs xs)"
proof -
  have "\<bar>sum_list xs\<bar> \<le> sum_list (map abs xs)" by (rule sum_list_abs)
  then show ?thesis by (simp add: tmean_def divide_right_mono)
qed

lemma tmean_diff: "length a = length b \<Longrightarrow> tmean (map2 (-) a b) = tmean a - tmean b"
proof -
  assume "length a = length b"
  then have "sum_list (map2 (-) a b) = sum_list a - sum_list b"
    by (induction a b rule: list_induct2) simp_all
  with \<open>length a = length b\<close> show ?thesis by (simp add: tmean_def diff_divide_distrib)
qed

lemma tmean_uminus: "tmean (map uminus xs) = - tmean xs"
proof -
  have "sum_list (map uminus xs) = - sum_list xs" for xs :: vec by (induction xs) simp_all
  then show ?thesis by (simp add: tmean_def)
qed

definition metric :: "metrics \<Rightarrow> string \<Rightarrow> real" where
  "metric ms k = the (map_of ms k)"

lemma metric_values:
  fixes old ro m
  defines "d \<equiv> map2 (-) (row_masked_means ro m) (row_masked_means old m)" and "ms \<equiv> offpolicy_list old ro m"
  shows "metric ms ''k3_kl'' = mean_over (mmap (\<lambda>x. exp x - x - 1) (mzip (-) old ro)) m"
    and "metric ms ''log_ppl_diff'' = tmean d" and "metric ms ''ppl_ratio'' = tmean (map exp d)"
    and "metric ms ''log_ppl_abs_diff'' = tmean (map abs d)"
    and "metric ms ''log_ppl_diff_max'' = vmax d" and "metric ms ''log_ppl_diff_min'' = vmin d"
    and "metric ms ''training_log_ppl'' = tmean (map uminus (row_masked_means old m))"
    and "metric ms ''rollout_log_ppl'' = tmean (map uminus (row_masked_means ro m))"
    and "metric ms ''training_ppl'' = tmean (map (\<lambda>x. exp (- x)) (row_masked_means old m))"
    and "metric ms ''rollout_ppl'' = tmean (map (\<lambda>x. exp (- x)) (row_masked_means ro m))"
  by (simp_all add: metric_def ms_def d_def offpolicy_list_def rollout_metrics_def Let_def)

text \<open>the off-policy metrics agree with each other: the k3 estimate is not negative; the difference of the
  log perplexities is the difference of the two logged values, lies between the logged minimum and maximum
  and is bounded by the absolute difference; and each logged (arithmetic) perplexity or perplexity ratio is at
  least the exponential of the corresponding logged logarithm.\<close>

theorem offpolicy_metrics_consistent:
  assumes valid: "any_valid m" and old: "same_shape old m" and ro: "same_shape ro m" and binary: "\<forall>row\<in>set m. binary row"
  shows "\<exists>ms. compute_offpolicy_metrics old (Some ro) m = Inr ms
    \<and> 0 \<le> metric ms ''k3_kl''
    \<and> metric ms ''log_ppl_diff'' = metric ms ''training_log_ppl'' - metric ms ''rollout_log_ppl''
    \<and> metric ms ''log_ppl_diff_min'' \<le> metric ms ''log_ppl_diff''
    \<and> metric ms ''log_ppl_diff'' \<le> metric ms ''log_ppl_diff_max''
    \<and> \<bar>metric ms ''log_ppl_diff''\<bar> \<le> metric ms ''log_ppl_abs_diff''
    \<and> exp (metric ms ''log_ppl_diff'') \<le> metric ms ''ppl_ratio''
    \<and> exp (metric ms ''training_log_ppl'') \<le> metric ms ''training_ppl''
    \<and> exp (metric ms ''rollout_log_ppl'') \<le> metric ms ''rollout_ppl''"
proof -
  let ?ms = "offpolicy_list old ro m" and ?d = "map2 (-) (row_masked_means ro m) (row_masked_means old m)"
  have len: "length (row_masked_means ro m) = length m" "length (row_masked_means old m) = length m"
    using same_shape_length [OF old] same_shape_length [OF ro] by (simp_all add: row_masked_means_def)
  have "m \<noteq> []" using valid by (rule any_valid_nonempty)
  then have ne: "?d \<noteq> []" "row_masked_means old m \<noteq> []" "row_masked_means ro m \<noteq> []"
    using len by (metis length_0_conv length_map length_zip min.idem)+
  have "0 \<le> exp x - x - 1" for x :: real using exp_ge_add_one_self [of x] by linarith
  then have "0 \<le> mean_over (mmap (\<lambda>x. exp x - x - 1) (mzip (-) old ro)) m"
    by (intro mean_over_nonneg [OF binary]) (auto simp: concat_mmap)
  moreover have "tmean ?d = tmean (map uminus (row_masked_means old m)) - tmean (map uminus (row_masked_means ro m))"
    using len by (simp add: tmean_diff tmean_uminus)
  moreover have "exp (tmean (map uminus xs)) \<le> tmean (map (\<lambda>x. exp (- x)) xs)" if "xs \<noteq> []" for xs
    using exp_tmean_le [of "map uminus xs"] that by (simp add: comp_def)
  ultimately show ?thesis
    using tmean_vmax_vmin [OF ne(1)] exp_tmean_le [OF ne(1)] abs_tmean_le [of ?d] ne
    by (intro exI [of _ ?ms] conjI offpolicy_run [OF valid]) (simp_all only: metric_values)
qed

theorem offpolicy_metrics_consistent_witness:
  "\<exists>ms. compute_offpolicy_metrics [[3, 5]] (Some [[4, 5]]) [[1, 0]] = Inr ms \<and> 0 \<le> metric ms ''k3_kl''"
  using offpolicy_metrics_consistent [OF one_row(2) one_row(1) one_row(1) one_row(3), of 3 5 4 5] by blast

section \<open>The batch\<close>

lemma mask_step_shape:
  assumes "mask_step c lr m = Inr (m', ms)" and shape: "same_shape lr m"
  shows "same_shape m' m \<and> (rollout_rs c = None \<longrightarrow> m' = m)"
proof (cases "rollout_rs c = None \<or> lr = []")
  case True
  then show ?thesis
    using assms same_shape_length [OF shape]
    by (auto simp: mask_step_def compute_rollout_rejection_mask_def same_shape_def split: if_splits option.splits)
next
  case False
  then obtain modes where modes: "rollout_rs c = Some modes" and ne: "lr \<noteq> []" by auto
  then obtain opts ts final ms1 where opts: "parse_options modes = Inr opts"
    and loop: "for_each (rejection_step (safe_log_ratio lr) m (map (\<lambda>row. 0 < sum_list row) m)) ts (mmap (\<lambda>_. 1) m, []) = Inr (final, ms1)"
    and m': "m' = mzip (*) m final"
    using assms(1)
    by (auto simp: mask_step_def compute_rollout_rejection_mask_def rbind_eq_Inr Let_def split: if_splits)
  have one: "same_shape (mmap (\<lambda>_. 1) m :: mat) m" by simp (simp add: same_shape_def)
  have "same_shape final m"
    using rejection_loop_mask [OF loop _ one] shape by (simp add: safe_log_ratio_def)
  then have "same_shape m' m"
    unfolding m' using same_shape_mzip same_shape_sym same_shape_trans by blast
  then show ?thesis using modes by simp
qed

lemma get_set_tensor:
  "batch d = Some td \<Longrightarrow> get_tensor k (set_tensor k' rows d) = (if k = k' then Inr rows else get_tensor k d)"
  by (simp add: get_tensor_def set_tensor_def dict_index_def map_of_dict_set)

lemma union_one:
  assumes "batch d = Some td" and "td_size td = n"
    and "union_proto d \<lparr>batch = Some \<lparr>td_size = n, td_items = [(k, w)]\<rparr>, non_tensor_batch = [], meta_info = []\<rparr> = Inr d'"
  shows "get_tensor k d' = Inr w \<and> (\<forall>key. key \<noteq> k \<longrightarrow> get_tensor key d' = get_tensor key d)
    \<and> non_tensor_batch d' = non_tensor_batch d \<and> meta_info d' = meta_info d"
  using assms
  by (auto simp: union_proto_def union_tensor_dict_def rbind_eq_Inr passert_eq_Inr get_tensor_def dict_index_def map_add_def
    split: option.splits if_splits)

text \<open>applying rollout correction to a batch replaces the response mask by one of the same shape, adds the
  importance weights when they are configured, and leaves every other tensor, array and meta value as it was;
  without rejection sampling the mask is unchanged.\<close>

theorem correction_updates_batch:
  fixes d d' :: "(vec, 'a) data_proto"
  assumes run: "compute_rollout_correction_and_add_to_batch ranks c d = Inr (d', ms)" and td: "batch d = Some td"
  shows "(\<exists>m m'. get_tensor ''response_mask'' d = Inr m \<and> get_tensor ''response_mask'' d' = Inr m' \<and> same_shape m' m
        \<and> (rollout_rs c = None \<longrightarrow> m' = m))
    \<and> (rollout_is c \<noteq> None \<and> rollout_is_threshold c \<noteq> None \<longrightarrow> (\<exists>w. get_tensor ''rollout_is_weights'' d' = Inr w))
    \<and> (\<forall>key. key \<notin> {''response_mask'', ''rollout_is_weights''} \<longrightarrow> get_tensor key d' = get_tensor key d)
    \<and> non_tensor_batch d' = non_tensor_batch d \<and> meta_info d' = meta_info d"
proof -
  obtain old ro m where m: "get_tensor ''response_mask'' d = Inr m"
    and run1: "rbind (compute_rollout_correction_and_rejection_mask ranks c old ro m)
       (\<lambda>(proto, m', ms). let d = set_tensor ''response_mask'' m' d
          in case proto of None \<Rightarrow> Inr (d, ms) | Some w \<Rightarrow> rbind (union_proto d w) (\<lambda>d. Inr (d, ms))) = Inr (d', ms)"
    using run unfolding compute_rollout_correction_and_add_to_batch_def rbind_eq_Inr by blast
  then obtain proto :: "(vec, 'a) data_proto option" and m' ms1 where cor: "compute_rollout_correction_and_rejection_mask ranks c old ro m = Inr (proto, m', ms1)"
    by (auto simp: rbind_eq_Inr)
  define d1 where "d1 = set_tensor ''response_mask'' m' d"
  have d': "(case proto of None \<Rightarrow> Inr (d1, ms1) | Some w \<Rightarrow> rbind (union_proto d1 w) (\<lambda>d. Inr (d, ms1))) = Inr (d', ms)"
    using run1 unfolding cor rbind_Inr prod.case Let_def d1_def .
  have ok: "any_valid m" "same_shape old m" "same_shape old ro"
    using cor by (auto simp: compute_rollout_correction_and_rejection_mask_def split: if_splits)
  have lr: "same_shape (mzip (-) old ro) m"
    by (rule same_shape_trans [OF same_shape_mzip [OF ok(3)] same_shape_trans [OF same_shape_sym [OF ok(3)] ok(2)]])
  from cor obtain weights ms2 ms3 where w: "weights_step ranks c (mzip (-) old ro) m = Inr (weights, ms2)"
    and k: "mask_step c (mzip (-) old ro) m = Inr (m', ms3)"
    and proto: "proto = map_option (\<lambda>w. \<lparr>batch = Some \<lparr>td_size = length w, td_items = [(''rollout_is_weights'', w)]\<rparr>,
                            non_tensor_batch = [], meta_info = []\<rparr>) weights"
    unfolding correction_unfold [OF ok] by (auto simp: rbind_eq_Inr)
  note shape = mask_step_shape [OF k lr]
  have configured: "weights \<noteq> None" if "rollout_is c \<noteq> None \<and> rollout_is_threshold c \<noteq> None"
    using w that by (auto simp: weights_step_def rbind_eq_Inr)
  have b1: "batch d1 = Some (td\<lparr>td_items := dict_set ''response_mask'' m' (td_items td)\<rparr>)"
    by (simp add: d1_def set_tensor_def td)
  have g1: "get_tensor key d1 = (if key = ''response_mask'' then Inr m' else get_tensor key d)" for key
    unfolding d1_def by (rule get_set_tensor [OF td])
  have r1: "non_tensor_batch d1 = non_tensor_batch d" "meta_info d1 = meta_info d" by (simp_all add: d1_def set_tensor_def)
  show ?thesis
  proof (cases weights)
    case None
    then have "d' = d1" using d' by (simp add: proto)
    then show ?thesis using m shape configured None by (auto simp: g1 r1)
  next
    case (Some w)
    then have u: "union_proto d1 \<lparr>batch = Some \<lparr>td_size = length w, td_items = [(''rollout_is_weights'', w)]\<rparr>,
        non_tensor_batch = [], meta_info = []\<rparr> = Inr d'"
      using d' by (auto simp: proto rbind_eq_Inr)
    then have "td_size (td\<lparr>td_items := dict_set ''response_mask'' m' (td_items td)\<rparr>) = length w"
      by (auto simp: union_proto_def union_tensor_dict_def b1 rbind_eq_Inr passert_eq_Inr)
    from union_one [OF b1 this u] show ?thesis using m shape by (auto simp: g1 r1)
  qed
qed

definition sample_batch :: "(vec, unit) data_proto" where
  "sample_batch = \<lparr>batch = Some \<lparr>td_size = 1, td_items = [(''old_log_probs'', [[3, 5]]), (''rollout_log_probs'', [[3, 5]]),
     (''response_mask'', [[1, 0]])]\<rparr>, non_tensor_batch = [], meta_info = []\<rparr>"

lemma sample_batch_run:
  "\<exists>d' ms. compute_rollout_correction_and_add_to_batch None (decoupled_token_is 2) sample_batch = Inr (d', ms)"
proof -
  have c: "\<not> rollout_is_batch_normalize (decoupled_token_is 2)" "rollout_is (decoupled_token_is 2) = Some ''token''"
    "rollout_is_threshold (decoupled_token_is 2) = Some (TNum 2)"
    by (simp_all add: decoupled_token_is_def with_is_def rollout_config_default_def)
  have cond: "rollout_is (decoupled_token_is 2) = None \<or> rollout_is_threshold (decoupled_token_is 2) = None \<longleftrightarrow> False"
    by (simp add: c)
  obtain ms where run: "compute_rollout_correction_and_rejection_mask None (decoupled_token_is 2) [[3, 5]] [[3, 5]] [[1, 0]] =
    Inr (Some \<lparr>batch = Some \<lparr>td_size = length [[1, 0 :: real]], td_items = [(''rollout_is_weights'', [[1, 0]])]\<rparr>, non_tensor_batch = [],
           meta_info = []\<rparr> :: (vec, unit) data_proto option, [[1, 0]], ms)"
    using equal_policies_run [OF preset_contains_one c(1) one_row(1) one_row(2,3), of None 3 5] unfolding cond if_False by blast
  have g: "get_tensor ''old_log_probs'' sample_batch = Inr [[3, 5]]" "get_tensor ''rollout_log_probs'' sample_batch = Inr [[3, 5]]"
    "get_tensor ''response_mask'' sample_batch = Inr [[1, 0]]"
    by (simp_all add: sample_batch_def get_tensor_def dict_index_def)
  have s: "set_tensor ''response_mask'' [[1, 0]] sample_batch = sample_batch"
    by (simp add: sample_batch_def set_tensor_def)
  have "\<exists>d'. union_proto sample_batch \<lparr>batch = Some \<lparr>td_size = length [[1, 0 :: real]], td_items = [(''rollout_is_weights'', [[1, 0 :: real]])]\<rparr>,
      non_tensor_batch = [], meta_info = []\<rparr> = Inr d'"
    by (simp add: sample_batch_def union_proto_def union_tensor_dict_def)
  then show ?thesis
    unfolding compute_rollout_correction_and_add_to_batch_def g rbind_Inr run prod.case Let_def s option.case by auto
qed

theorem correction_updates_batch_witness:
  "\<exists>d' ms w. compute_rollout_correction_and_add_to_batch None (decoupled_token_is 2) sample_batch = Inr (d', ms)
     \<and> get_tensor ''rollout_is_weights'' d' = Inr w \<and> get_tensor ''old_log_probs'' d' = Inr [[3, 5]]"
proof -
  obtain d' ms where run: "compute_rollout_correction_and_add_to_batch None (decoupled_token_is 2) sample_batch = Inr (d', ms)"
    using sample_batch_run by blast
  have td: "batch sample_batch = Some \<lparr>td_size = 1, td_items = [(''old_log_probs'', [[3, 5]]), (''rollout_log_probs'', [[3, 5]]),
     (''response_mask'', [[1, 0]])]\<rparr>" by (simp add: sample_batch_def)
  note th = correction_updates_batch [OF run td]
  have c: "rollout_is (decoupled_token_is 2) \<noteq> None \<and> rollout_is_threshold (decoupled_token_is 2) \<noteq> None"
    by (simp add: decoupled_token_is_def with_is_def rollout_config_default_def)
  from th have frame: "\<forall>key. key \<notin> {''response_mask'', ''rollout_is_weights''} \<longrightarrow> get_tensor key d' = get_tensor key sample_batch"
    by blast
  have "get_tensor ''old_log_probs'' d' = get_tensor ''old_log_probs'' sample_batch"
    by (rule frame [rule_format]) simp
  also have "\<dots> = Inr [[3, 5]]" by (simp add: sample_batch_def get_tensor_def dict_index_def)
  finally have "get_tensor ''old_log_probs'' d' = Inr [[3, 5]]" .
  moreover from th have "\<exists>w. get_tensor ''rollout_is_weights'' d' = Inr w" by (elim conjE) (erule mp, rule c)
  ultimately show ?thesis using run by (elim exE) (intro exI conjI)
qed

section \<open>Limits of the threshold checks\<close>

text \<open>
  A single k1 threshold below 1 is accepted although its inferred lower bound is above it, and then every
  response token is rejected; a threshold 0 divides by zero instead of being reported; and IcePop fails on
  a batch in which no ratio is inside the band.
\<close>

theorem rollout_threshold_limits:
  "\<exists>ms. compute_rollout_rejection_mask [[x, y]] [[1, 0]] (Some ''token_k1'') (Some (TNum (1 / 2))) = Inr ([[0, 0]], ms)"
  "parse_rollout_rs_thresholds [''token_k1''] (Some (TNum 0)) = Inl (ZeroDivisionError ''float division by zero'')"
  "compute_rollout_correction_weights None [[10, 0]] [[1, 0]] ''token'' (TStr ''0.5_5.0'') False
     = Inl (ZeroDivisionError ''float division by zero'')"
proof -
  have opts: "parse_options ''token_k1'' = Inr [''token_k1'']" by code_simp
  have ts: "parse_rollout_rs_thresholds [''token_k1''] (Some (TNum (1 / 2))) = Inr [(''token_k1'', Some 2, 1 / 2)]"
    by (simp add: parse_rollout_rs_thresholds_def raw_specs_def match_specs_def add_threshold_def option_threshold_def
      option_names k1_bounds_def)
  have "trusted_mask [(''token_k1'', Some 2, 1 / 2)] [[x, y]] [[1, 0]] = [[0, 0]]"
    by (auto simp: trusted_mask_def trusted_def Let_def upt_rec)
  then show "\<exists>ms. compute_rollout_rejection_mask [[x, y]] [[1, 0]] (Some ''token_k1'') (Some (TNum (1 / 2))) = Inr ([[0, 0]], ms)"
    using rejection_mask_eq [OF one_row opts ts, of x y] by simp
  show "parse_rollout_rs_thresholds [''token_k1''] (Some (TNum 0)) = Inl (ZeroDivisionError ''float division by zero'')"
    by (simp add: parse_rollout_rs_thresholds_def raw_specs_def match_specs_def add_threshold_def option_threshold_def
      option_names k1_bounds_def)
qed (rule icepop_out_of_band)

end
