(* ===== verification/TrainerStep.thy ===== *)
theory TrainerStep
  imports TokenBaseline RolloutEntry Microbatch DataProtoFacts
begin

text \<open>
  What the driver process does with a batch between the rollout and the update of the actor
  (\<open>verl/trainer/ppo/ray_trainer.py\<close>): the KL penalty in the reward, the dispatch to the advantage
  estimators, the preference-feedback resampling of \<open>core_algos.py\<close>, and the step of \<open>fit\<close> that
  composes them with rollout correction. A tensor of shape \<open>(bs,)\<close> is held as rows of length one.
\<close>

section \<open>Configuration\<close>

text \<open>\<open>AlgoConfig\<close>, as far as the step reads it; \<open>pf_method\<close> and \<open>pf_pow\<close> are \<open>pf_ppo.get(...)\<close>.\<close>

record algo_config =
  gamma :: real
  lam :: real
  adv_estimator :: string
  norm_adv_by_std_in_grpo :: bool
  use_kl_in_reward :: bool
  kl_penalty_kind :: string
  use_pf_ppo :: bool
  pf_method :: "string option"
  pf_pow :: "real option"
  correction :: "rollout_config option"
  gdpo_reward_keys :: "string list option"
  gdpo_reward_weights :: "real list option"

definition algo_config_default :: algo_config where
  "algo_config_default = \<lparr>gamma = 1, lam = 1, adv_estimator = ''gae'', norm_adv_by_std_in_grpo = True,
     use_kl_in_reward = False, kl_penalty_kind = ''kl'', use_pf_ppo = False, pf_method = None, pf_pow = None,
     correction = None, gdpo_reward_keys = None, gdpo_reward_weights = None\<rparr>"

text \<open>
  What the step takes from torch and numpy: the two largest positions \<open>torch.topk(rewards, 2)[1]\<close>, the
  draw \<open>torch.multinomial(weights, n, replacement=True)\<close>, and how numpy reads a cell of an object array as
  a label or as a number.
\<close>

record 'a libs =
  topk2 :: "vec \<Rightarrow> nat \<times> nat"
  multinomial :: "vec \<Rightarrow> nat \<Rightarrow> nat list"
  label_of :: "'a \<Rightarrow> string"
  number_of :: "'a \<Rightarrow> real"

section \<open>KL penalty in the reward\<close>

text \<open>The penalty of every element; an unknown kind raises even for an empty tensor.\<close>

definition kl_penalty_tensor :: "mat \<Rightarrow> mat \<Rightarrow> string \<Rightarrow> mat result" where
  "kl_penalty_tensor logprob ref_logprob kind =
     rbind (kl_penalty 0 0 kind) (\<lambda>_.
       map_result (\<lambda>(old, ref). map_result (\<lambda>(x, y). kl_penalty x y kind) (zip old ref)) (zip logprob ref_logprob))"

text \<open>\<open>data.batch.batch_size[0]\<close>.\<close>

definition batch_size :: "(vec, 'a) data_proto \<Rightarrow> nat" where
  "batch_size d = (case batch d of None \<Rightarrow> 0 | Some td \<Rightarrow> td_size td)"

definition apply_kl_penalty ::
    "(vec, 'a) data_proto \<Rightarrow> kl_controller \<Rightarrow> string \<Rightarrow> ((vec, 'a) data_proto \<times> kl_controller \<times> metrics) result" where
  "apply_kl_penalty d kl_ctrl kind =
     rbind (get_tensor ''response_mask'' d) (\<lambda>response_mask.
     rbind (get_tensor ''token_level_scores'' d) (\<lambda>token_level_scores.
     rbind (get_tensor ''old_log_probs'' d) (\<lambda>old_log_probs.
     rbind (get_tensor ''ref_log_prob'' d) (\<lambda>ref_log_prob.
     rbind (kl_penalty_tensor old_log_probs ref_log_prob kind) (\<lambda>kld0.
       let kld = mzip (*) kld0 response_mask;
           beta = kl_value kl_ctrl;
           token_level_rewards = mzip (-) token_level_scores (mmap ((*) beta) kld);
           current_kl = tmean (row_masked_means kld response_mask)
       in Inr (set_tensor ''token_level_rewards'' token_level_rewards d,
               kl_update kl_ctrl current_kl (real (batch_size d)),
               [(''actor/reward_kl_penalty'', current_kl), (''actor/reward_kl_penalty_coeff'', beta)]))))))"

section \<open>The response mask\<close>

text \<open>\<open>attention_mask[:, -response_length:]\<close>; \<open>-0\<close> takes the whole row.\<close>

definition last_columns :: "nat \<Rightarrow> mat \<Rightarrow> mat" where
  "last_columns n a = map (\<lambda>row. if n = 0 then row else drop (length row - n) row) a"

definition compute_response_mask :: "(vec, 'a) data_proto \<Rightarrow> mat result" where
  "compute_response_mask d =
     rbind (get_tensor ''responses'' d) (\<lambda>responses.
     rbind (get_tensor ''attention_mask'' d) (\<lambda>attention_mask.
       Inr (last_columns (width responses) attention_mask)))"

section \<open>Speculative decoding\<close>

text \<open>\<open>zip(..., strict=True)\<close>.\<close>

definition strict_zip :: "'b list \<Rightarrow> 'c list \<Rightarrow> ('b \<times> 'c) list result" where
  "strict_zip xs ys =
     (if length xs = length ys then Inr (zip xs ys)
      else Inl (ValueError (''zip() argument 2 is '' @ (if length ys < length xs then ''shorter'' else ''longer'')
             @ '' than argument 1'')))"

text \<open>\<open>[x for x, keep in zip(xs, non_padding_mask, strict=True) if keep]\<close>.\<close>

definition drop_padded :: "bool list option \<Rightarrow> 'b list \<Rightarrow> 'b list result" where
  "drop_padded non_padding_mask xs =
     (case non_padding_mask of None \<Rightarrow> Inr xs
      | Some flags \<Rightarrow> rbind (strict_zip xs flags) (\<lambda>ps. Inr (map fst (filter snd ps))))"

definition compute_spec_decode_metrics ::
    "nat list option \<Rightarrow> nat list option \<Rightarrow> nat list option \<Rightarrow> bool list option \<Rightarrow> metrics result" where
  "compute_spec_decode_metrics spec_drafts spec_accepts spec_verifies non_padding_mask =
     (case (spec_drafts, spec_accepts, spec_verifies) of
        (None, None, None) \<Rightarrow> Inr []
      | (Some drafts, Some accepts, Some verifies) \<Rightarrow>
          rbind (drop_padded non_padding_mask drafts) (\<lambda>drafts.
          rbind (drop_padded non_padding_mask accepts) (\<lambda>accepts.
          rbind (drop_padded non_padding_mask verifies) (\<lambda>verifies.
            if drafts = [] then Inr []
            else
              rbind (strict_zip accepts drafts) (\<lambda>ad.
              rbind (strict_zip accepts verifies) (\<lambda>av.
                let rates = map (\<lambda>(a, d). if 0 < d then real a / real d else 0) ad;
                    lengths = map (\<lambda>(a, v). if 0 < v then 1 + real a / real v else 0) av;
                    n = real (length drafts)
                in Inr [(''rollout/spec_accept_rate'', sum_list rates / n),
                        (''rollout/spec_accept_length'', sum_list lengths / n)])))))
      | _ \<Rightarrow> Inl (AssertionError (''spec_decode metrics require all three of spec_num_draft_tokens / ''
               @ ''spec_num_accepted_tokens / spec_num_verify_steps; got partial inputs'')))"

section \<open>Preference-feedback resampling\<close>

text \<open>\<open>torch.pow\<close> of an absolute value; \<open>torch.multinomial\<close> rejects the infinite weight of a zero score.\<close>

definition abs_pow :: "real \<Rightarrow> real \<Rightarrow> real result" where
  "abs_pow weight_pow x =
     (if weight_pow = 0 then Inr 1
      else if x = 0 \<and> weight_pow < 0
      then Inl (RuntimeError ''probability tensor contains either inf, nan or element < 0'')
      else Inr (\<bar>x\<bar> powr weight_pow))"

definition compute_weights :: "vec \<Rightarrow> string option \<Rightarrow> real option \<Rightarrow> vec result" where
  "compute_weights scores reweight_method weight_pow =
     (if scores = [] \<and> reweight_method \<in> {Some ''pow'', Some ''max_min'', Some ''max_random''}
      then Inl (RuntimeError ''an empty batch has no maximum and cannot be sampled'')
      else if reweight_method = Some ''pow''
      then (case weight_pow of
              None \<Rightarrow> Inl (TypeError ''pow() received an invalid combination of arguments'')
            | Some p \<Rightarrow> map_result (abs_pow p) scores)
      else if reweight_method = Some ''max_min''
      then Inr (map (\<lambda>s. if s = vmax scores \<or> s = vmin scores then 1 else 0) scores)
      else if reweight_method = Some ''max_random''
      then Inr (map (\<lambda>s. if s = vmax scores then 4 / 10 else 1 / 10) scores)
      else Inl (ValueError (''Unsupported reweight_method: ''
             @ (case reweight_method of None \<Rightarrow> ''None'' | Some name \<Rightarrow> name))))"

definition resample_meta :: "nat \<Rightarrow> nat list \<Rightarrow> pyval \<Rightarrow> pyval" where
  "resample_meta n sample_indices v =
     (case v of PList vs \<Rightarrow> if length vs = n then PList (pick_rows sample_indices vs) else v | _ \<Rightarrow> v)"

definition compute_pf_ppo_reweight_data ::
    "(vec \<Rightarrow> nat \<Rightarrow> nat list) \<Rightarrow> string option \<Rightarrow> real option \<Rightarrow> (vec, 'a) data_proto \<Rightarrow> (vec, 'a) data_proto result" where
  "compute_pf_ppo_reweight_data draw reweight_method weight_pow d =
     rbind (get_tensor ''token_level_scores'' d) (\<lambda>token_level_scores.
       let scores = row_sums token_level_scores
       in rbind (compute_weights scores reweight_method weight_pow) (\<lambda>weights.
            let sample_indices = draw (map (\<lambda>w. max (w + 1 / 10 ^ 8) (1 / 10 ^ 8)) weights) (length scores)
            in Inr (d\<lparr>batch := map_option (\<lambda>td. td\<lparr>td_items := map_items (pick_rows sample_indices) (td_items td)\<rparr>) (batch d),
                      non_tensor_batch := map_items (pick_rows sample_indices) (non_tensor_batch d),
                      meta_info := map (\<lambda>(k, v). (k, resample_meta (length scores) sample_indices v)) (meta_info d)\<rparr>)))"

section \<open>The dispatch to the advantage estimators\<close>

definition registered_estimators :: "string list" where
  "registered_estimators = [''gae'', ''grpo'', ''grpo_vectorized'', ''gdpo'', ''grpo_passk'',
     ''reinforce_plus_plus_baseline'', ''rloo'', ''opo'', ''reinforce_plus_plus'', ''remax'', ''gpg'',
     ''rloo_vectorized'', ''optimal_token_baseline'', ''tir_optimal_token_baseline'']"

definition get_adv_estimator_fn :: "string \<Rightarrow> string result" where
  "get_adv_estimator_fn name =
     (if name \<in> set registered_estimators then Inr name
      else Inl (ValueError (''Unknown advantage estimator simply: '' @ name)))"

text \<open>The keyword arguments that are passed only when the batch has them.\<close>

definition optional_tensor :: "string \<Rightarrow> (vec, 'a) data_proto \<Rightarrow> mat option" where
  "optional_tensor key d = (case batch d of None \<Rightarrow> None | Some td \<Rightarrow> map_of (td_items td) key)"

definition required :: "string \<Rightarrow> string \<Rightarrow> 'v option \<Rightarrow> ('v \<Rightarrow> 'b result) \<Rightarrow> 'b result" where
  "required fn arg v k =
     (case v of
        Some x \<Rightarrow> k x
      | None \<Rightarrow> Inl (TypeError (fn @ ''() missing 1 required positional argument: '' @ quoted arg)))"

text \<open>The raw rewards of GDPO, read from the configuration and the batch.\<close>

definition gdpo_components ::
    "('a \<Rightarrow> real) \<Rightarrow> algo_config option \<Rightarrow> (vec, 'a) data_proto
      \<Rightarrow> (string list \<times> (string \<times> vec) list \<times> int list \<times> real list option) option result" where
  "gdpo_components number config d =
     (case config of
        None \<Rightarrow> Inr None
      | Some c \<Rightarrow>
          if gdpo_reward_keys c = None \<or> gdpo_reward_keys c = Some []
          then Inr (Some ([], [], [], None))
          else
            rbind (get_tensor ''prompts'' d) (\<lambda>prompts.
            rbind (get_tensor ''attention_mask'' d) (\<lambda>attention_mask.
              Inr (Some (or_else (gdpo_reward_keys c) [],
                         map (\<lambda>(k, v). (k, map number v)) (non_tensor_batch d),
                         map (\<lambda>row. \<lfloor>sum_list (drop (width prompts) row)\<rfloor> - 1) attention_mask,
                         gdpo_reward_weights c)))))"

definition call_estimator ::
    "'a libs \<Rightarrow> string \<Rightarrow> algo_config option \<Rightarrow> (vec, 'a) data_proto \<Rightarrow> mat \<Rightarrow> mat \<Rightarrow> (mat \<times> mat) result" where
  "call_estimator lib name config d rewards response_mask =
     (let uid = map_of (non_tensor_batch d) ''uid''; epsilon = 1 / 10 ^ 6;
          weights = optional_tensor ''rollout_is_weights'' d;
          token_fn = (if name = ''optimal_token_baseline'' then compute_optimal_token_baseline_advantage
                      else compute_multi_turn_optimal_token_baseline_advantage)
      in if name = ''grpo_vectorized''
         then (if optional_tensor ''reward_baselines'' d \<noteq> None
               then Inl (TypeError (''compute_grpo_vectorized_outcome_advantage() got an unexpected keyword argument ''
                      @ quoted ''reward_baselines''))
               else required ''compute_grpo_vectorized_outcome_advantage'' ''index'' uid (\<lambda>index.
                 compute_grpo_vectorized_outcome_advantage rewards response_mask (StrArray (map (label_of lib) index)) epsilon True))
         else if name = ''gdpo''
         then required ''compute_gdpo_outcome_advantage'' ''index'' uid (\<lambda>index.
           rbind (gdpo_components (number_of lib) config d) (\<lambda>components.
             compute_gdpo_outcome_advantage rewards response_mask index epsilon True components))
         else if name = ''grpo_passk''
         then required ''compute_grpo_passk_outcome_advantage'' ''index'' uid (\<lambda>index.
           case config of
             None \<Rightarrow> Inl (AssertionError [])
           | Some c \<Rightarrow> compute_grpo_passk_outcome_advantage (topk2 lib) rewards response_mask index epsilon
                         (norm_adv_by_std_in_grpo c))
         else if name = ''reinforce_plus_plus_baseline''
         then required ''compute_reinforce_plus_plus_baseline_outcome_advantage'' ''index'' uid (\<lambda>index.
           compute_reinforce_plus_plus_baseline_outcome_advantage rewards response_mask index)
         else if name = ''rloo''
         then required ''compute_rloo_outcome_advantage'' ''index'' uid (\<lambda>index.
           compute_rloo_outcome_advantage rewards response_mask index)
         else if name = ''opo''
         then required ''compute_opo_outcome_advantage'' ''index'' uid (\<lambda>index.
           compute_opo_outcome_advantage rewards response_mask index)
         else if name = ''reinforce_plus_plus''
         then (case config of
                 None \<Rightarrow> Inl (AssertionError [])
               | Some c \<Rightarrow> compute_reinforce_plus_plus_outcome_advantage rewards response_mask (gamma c))
         else if name = ''remax''
         then required ''compute_remax_outcome_advantage'' ''reward_baselines'' (optional_tensor ''reward_baselines'' d)
           (\<lambda>reward_baselines. Inr (compute_remax_outcome_advantage rewards (map hd reward_baselines) response_mask))
         else if name = ''gpg''
         then required ''compute_gpg_outcome_advantage'' ''index'' uid (\<lambda>index.
           compute_gpg_outcome_advantage rewards response_mask index 1)
         else if name = ''rloo_vectorized''
         then required ''compute_rloo_vectorized_outcome_advantage'' ''index'' uid (\<lambda>index.
           Inr (compute_rloo_vectorized_outcome_advantage rewards response_mask (map (label_of lib) index)))
         else
           passert (optional_tensor ''sum_pi_squared'' d \<noteq> None)
             (''Step-dependent optimal baseline requires sum_pi_squared from actor. ''
               @ ''Please set actor.calculate_sum_pi_squared=True in config.'')
             (rbind (get_tensor ''sum_pi_squared'' d) (\<lambda>sum_pi_squared.
              rbind (get_tensor ''old_log_probs'' d) (\<lambda>old_log_probs.
                required (if name = ''optimal_token_baseline'' then ''compute_optimal_token_baseline_advantage''
                          else ''compute_multi_turn_optimal_token_baseline_advantage'') ''index'' uid (\<lambda>index.
                  token_fn rewards response_mask index old_log_probs sum_pi_squared weights True (1 / 10 ^ 8))))))"

definition put_advantages :: "(vec, 'a) data_proto \<Rightarrow> mat \<times> mat \<Rightarrow> (vec, 'a) data_proto" where
  "put_advantages d out = set_tensor ''returns'' (snd out) (set_tensor ''advantages'' (fst out) d)"

text \<open>\<open>data.batch["response_mask"]\<close> is computed when the trainer has not done so.\<close>

definition with_response_mask :: "(vec, 'a) data_proto \<Rightarrow> (vec, 'a) data_proto result" where
  "with_response_mask d =
     (case batch d of
        None \<Rightarrow> Inl (AttributeError (quoted ''NoneType'' @ '' object has no attribute '' @ quoted ''keys''))
      | Some td \<Rightarrow>
          if ''response_mask'' \<in> set (map fst (td_items td)) then Inr d
          else rbind (compute_response_mask d) (\<lambda>m. Inr (set_tensor ''response_mask'' m d)))"

definition compute_advantage ::
    "'a libs \<Rightarrow> string \<Rightarrow> real \<Rightarrow> real \<Rightarrow> bool \<Rightarrow> algo_config option \<Rightarrow> (vec, 'a) data_proto
      \<Rightarrow> (vec, 'a) data_proto result" where
  "compute_advantage lib estimator discount lambda norm_by_std config d =
     rbind (with_response_mask d) (\<lambda>d.
       if estimator = ''gae''
       then
         rbind (get_tensor ''token_level_rewards'' d) (\<lambda>rewards.
         rbind (get_tensor ''values'' d) (\<lambda>vals.
         rbind (get_tensor ''response_mask'' d) (\<lambda>response_mask.
         rbind (compute_gae_advantage_return rewards vals response_mask discount lambda) (\<lambda>out.
           let d = put_advantages d out
           in case config of
                None \<Rightarrow> Inl (AttributeError (quoted ''NoneType'' @ '' object has no attribute '' @ quoted ''get''))
              | Some c \<Rightarrow> if use_pf_ppo c
                         then compute_pf_ppo_reweight_data (multinomial lib) (pf_method c) (pf_pow c) d
                         else Inr d))))
       else if estimator = ''grpo''
       then
         rbind (get_tensor ''response_mask'' d) (\<lambda>response_mask.
         rbind (get_tensor ''token_level_rewards'' d) (\<lambda>rewards.
         rbind (dict_index (non_tensor_batch d) ''uid'') (\<lambda>index.
         rbind (compute_grpo_outcome_advantage rewards response_mask index (1 / 10 ^ 6) norm_by_std)
           (\<lambda>out. Inr (put_advantages d out)))))
       else
         rbind (get_adv_estimator_fn estimator) (\<lambda>name.
         rbind (get_tensor ''token_level_rewards'' d) (\<lambda>rewards.
         rbind (get_tensor ''response_mask'' d) (\<lambda>response_mask.
         rbind (call_estimator lib name config d rewards response_mask)
           (\<lambda>out. Inr (put_advantages d out))))))"

section \<open>The step of \<open>fit\<close>\<close>

text \<open>The token-level rewards: the scores, with the KL penalty when it is part of the reward.\<close>

definition reward_step ::
    "algo_config \<Rightarrow> kl_controller \<Rightarrow> (vec, 'a) data_proto \<Rightarrow> ((vec, 'a) data_proto \<times> kl_controller \<times> metrics) result" where
  "reward_step c kl_ctrl d =
     (if use_kl_in_reward c then apply_kl_penalty d kl_ctrl (kl_penalty_kind c)
      else rbind (get_tensor ''token_level_scores'' d) (\<lambda>scores.
             Inr (set_tensor ''token_level_rewards'' scores d, kl_ctrl, [])))"

text \<open>In bypass mode the correction is left to the actor.\<close>

definition correction_step ::
    "algo_config \<Rightarrow> (vec, 'a) data_proto \<Rightarrow> ((vec, 'a) data_proto \<times> metrics) result" where
  "correction_step c d =
     (case correction c of
        Some rc \<Rightarrow> if optional_tensor ''rollout_log_probs'' d \<noteq> None \<and> \<not> bypass_mode rc
                   then compute_rollout_correction_and_add_to_batch None rc d
                   else Inr (d, [])
      | None \<Rightarrow> Inr (d, []))"

definition advantage_step ::
    "'a libs \<Rightarrow> algo_config \<Rightarrow> mat \<Rightarrow> (string \<times> 'a list) list \<Rightarrow> kl_controller \<Rightarrow> (vec, 'a) data_proto
      \<Rightarrow> ((vec, 'a) data_proto \<times> kl_controller \<times> metrics) result" where
  "advantage_step lib c reward_tensor reward_extra_infos kl_ctrl d =
     (let d = set_tensor ''token_level_scores'' reward_tensor d;
          d = d\<lparr>non_tensor_batch := dict_update (non_tensor_batch d) reward_extra_infos\<rparr>
      in rbind (reward_step c kl_ctrl d) (\<lambda>(d, kl_ctrl, kl_metrics).
         rbind (correction_step c d) (\<lambda>(d, is_metrics).
         rbind (compute_advantage lib (adv_estimator c) (gamma c) (lam c) (norm_adv_by_std_in_grpo c) (Some c) d)
           (\<lambda>d. Inr (d, kl_ctrl, dict_update kl_metrics is_metrics)))))"

end
