(* ===== verification/TrainerFacts.thy ===== *)
theory TrainerFacts
  imports TrainerStep
begin

text \<open>
  What the driver's step guarantees: the advantages live on the response tokens, the KL penalty only
  lowers rewards, resampling keeps rows together, and a batch whose policies agree goes through the
  step as if neither the penalty nor the correction were configured.
\<close>

section \<open>Advantages on the response tokens\<close>

definition masked_by :: "mat \<Rightarrow> mat \<Rightarrow> bool" where
  "masked_by m a \<longleftrightarrow> (\<forall>i t. i < length a \<longrightarrow> i < length m \<longrightarrow> t < length (a ! i) \<longrightarrow> t < length (m ! i)
     \<longrightarrow> m ! i ! t = 0 \<longrightarrow> a ! i ! t = 0)"

lemma masked_by_bcast [intro]: "masked_by m (bcast_mul s m)"
  by (simp add: masked_by_def bcast_mul_def)

lemma masked_by_mzip [intro]: "masked_by m (mzip (*) a m)"
  by (simp add: masked_by_def mzip_def)

lemma required_Inr: "required fn arg v k = Inr x \<longleftrightarrow> (\<exists>y. v = Some y \<and> k y = Inr x)"
  by (cases v) (simp_all add: required_def)

lemmas estimator_definitions = compute_grpo_outcome_advantage_def compute_grpo_vectorized_outcome_advantage_def
  compute_gdpo_outcome_advantage_def compute_grpo_passk_outcome_advantage_def
  compute_reinforce_plus_plus_baseline_outcome_advantage_def compute_rloo_outcome_advantage_def
  compute_opo_outcome_advantage_def compute_reinforce_plus_plus_outcome_advantage_def compute_gpg_outcome_advantage_def
  compute_rloo_vectorized_outcome_advantage_def compute_optimal_token_baseline_advantage_def
  compute_multi_turn_optimal_token_baseline_advantage_def

lemma estimators_masked:
  "compute_grpo_outcome_advantage r m index eps nrm = Inr out \<Longrightarrow> masked_by m (fst out)"
  "compute_grpo_vectorized_outcome_advantage r m ls eps nrm = Inr out \<Longrightarrow> masked_by m (fst out)"
  "compute_grpo_passk_outcome_advantage topk r m index eps nrm = Inr out \<Longrightarrow> masked_by m (fst out)"
  "compute_reinforce_plus_plus_baseline_outcome_advantage r m index = Inr out \<Longrightarrow> masked_by m (fst out)"
  "compute_rloo_outcome_advantage r m index = Inr out \<Longrightarrow> masked_by m (fst out)"
  "compute_opo_outcome_advantage r m index = Inr out \<Longrightarrow> masked_by m (fst out)"
  "compute_reinforce_plus_plus_outcome_advantage r m g = Inr out \<Longrightarrow> masked_by m (fst out)"
  "compute_gpg_outcome_advantage r m index f = Inr out \<Longrightarrow> masked_by m (fst out)"
  "masked_by m (fst (compute_rloo_vectorized_outcome_advantage r m strs))"
  by (auto simp: estimator_definitions rbind_eq_Inr Let_def split: if_splits)

lemma gdpo_masked: "compute_gdpo_outcome_advantage r m index eps nrm cs = Inr out \<Longrightarrow> masked_by m (fst out)"
  unfolding compute_gdpo_outcome_advantage_def Let_def by (auto simp: rbind_eq_Inr split: if_splits)

lemma token_baseline_masked:
  "compute_optimal_token_baseline_advantage r m index old spi ws z eps = Inr out \<Longrightarrow> masked_by m (fst out)"
  "compute_multi_turn_optimal_token_baseline_advantage r m index old spi ws z eps = Inr out \<Longrightarrow> masked_by m (fst out)"
  unfolding estimator_definitions Let_def with_index_def in_index_def
  by (auto split: if_splits list.splits)

lemma call_estimator_masked:
  assumes "call_estimator lib name config d rewards m = Inr out" and "name \<noteq> ''remax''"
  shows "masked_by m (fst out)"
  using assms unfolding call_estimator_def Let_def
  by (auto simp: required_Inr rbind_eq_Inr passert_eq_Inr split: if_splits option.splits
    intro: estimators_masked gdpo_masked token_baseline_masked)

lemma get_put_advantages:
  assumes "batch d = Some td"
  shows "get_tensor k (put_advantages d out) =
    (if k = ''returns'' then Inr (snd out) else if k = ''advantages'' then Inr (fst out) else get_tensor k d)"
proof -
  have "batch (set_tensor ''advantages'' (fst out) d) = Some (td\<lparr>td_items := dict_set ''advantages'' (fst out) (td_items td)\<rparr>)"
    using assms by (simp add: set_tensor_def)
  then show ?thesis using assms by (simp add: put_advantages_def get_set_tensor)
qed

lemma put_advantages_rest:
  "non_tensor_batch (put_advantages d out) = non_tensor_batch d" "meta_info (put_advantages d out) = meta_info d"
  "batch d = Some td \<Longrightarrow> \<exists>td'. batch (put_advantages d out) = Some td' \<and> td_size td' = td_size td"
  by (simp_all add: put_advantages_def set_tensor_def)

lemma with_response_mask_present: "get_tensor ''response_mask'' d = Inr m \<Longrightarrow> with_response_mask d = Inr d"
  by (auto simp: get_tensor_def with_response_mask_def dict_index_def dest: map_of_SomeD split: option.splits)
    (metis (no_types, lifting) fst_conv imageI map_of_SomeD)

lemma estimator_names: "''gae'' \<noteq> ''grpo''" "''grpo'' \<noteq> ''remax''" by simp_all

text \<open>A run of the dispatch without GAE puts the result of the estimator into the batch.\<close>

lemma dispatch_run:
  assumes m: "get_tensor ''response_mask'' d = Inr m"
    and run: "compute_advantage lib estimator discount lambda norm_by_std config d = Inr d'" and gae: "estimator \<noteq> ''gae''"
  shows "\<exists>rewards out. get_tensor ''token_level_rewards'' d = Inr rewards \<and> d' = put_advantages d out
    \<and> (if estimator = ''grpo'' then \<exists>index. map_of (non_tensor_batch d) ''uid'' = Some index
           \<and> compute_grpo_outcome_advantage rewards m index (1 / 10 ^ 6) norm_by_std = Inr out
       else estimator \<in> set registered_estimators \<and> call_estimator lib estimator config d rewards m = Inr out)"
proof (cases "estimator = ''grpo''")
  case True
  then show ?thesis
    using run unfolding compute_advantage_def with_response_mask_present [OF m] rbind_Inr True
    by (auto simp: m rbind_eq_Inr dict_index_def split: option.splits)
next
  case False
  then show ?thesis
    using run gae unfolding compute_advantage_def with_response_mask_present [OF m] rbind_Inr
    by (auto simp: m rbind_eq_Inr get_adv_estimator_fn_def split: if_splits)
qed

text \<open>C29: for every registered estimator but GAE and ReMax, computing the advantages adds the two tensors
  \<open>advantages\<close> and \<open>returns\<close> and nothing else, and the advantage of every position outside the response
  mask, in a hole of a multi-turn response as in the padding, is zero.\<close>

theorem advantages_on_response_tokens:
  assumes m: "get_tensor ''response_mask'' d = Inr m"
    and run: "compute_advantage lib estimator discount lambda norm_by_std config d = Inr d'"
    and estimator: "estimator \<notin> {''gae'', ''remax''}"
  shows "(\<exists>adv rets. get_tensor ''advantages'' d' = Inr adv \<and> get_tensor ''returns'' d' = Inr rets \<and> masked_by m adv)
    \<and> (\<forall>key. key \<notin> {''advantages'', ''returns''} \<longrightarrow> get_tensor key d' = get_tensor key d)
    \<and> non_tensor_batch d' = non_tensor_batch d \<and> meta_info d' = meta_info d"
proof -
  obtain td where td: "batch d = Some td" using m by (cases "batch d") (simp_all add: get_tensor_def)
  have gae: "estimator \<noteq> ''gae''" using estimator by simp
  obtain rewards out where d': "d' = put_advantages d out"
    and out: "if estimator = ''grpo'' then \<exists>index. map_of (non_tensor_batch d) ''uid'' = Some index
           \<and> compute_grpo_outcome_advantage rewards m index (1 / 10 ^ 6) norm_by_std = Inr out
       else estimator \<in> set registered_estimators \<and> call_estimator lib estimator config d rewards m = Inr out"
    using dispatch_run [OF m run gae] by blast
  have "masked_by m (fst out)"
  proof (cases "estimator = ''grpo''")
    case True
    then show ?thesis using out by (auto intro: estimators_masked(1))
  next
    case False
    then show ?thesis using out estimator call_estimator_masked by (simp only: if_False) blast
  qed
  then show ?thesis
    by (simp add: d' get_put_advantages [OF td] put_advantages_rest)
qed

definition demo_libs :: "nat libs" where
  "demo_libs = \<lparr>topk2 = \<lambda>xs. (0, 1), multinomial = \<lambda>ws n. replicate n 0, label_of = show_nat, number_of = real\<rparr>"

definition demo_batch :: "(vec, nat) data_proto" where
  "demo_batch = \<lparr>batch = Some \<lparr>td_size = 2, td_items = [(''response_mask'', [[1, 0], [1, 1]]),
      (''token_level_rewards'', [[1, 0], [0, 3]])]\<rparr>, non_tensor_batch = [(''uid'', [7, 7])], meta_info = []\<rparr>"

lemma demo_run:
  "compute_advantage demo_libs ''rloo'' 1 1 True None demo_batch
    = Inr (put_advantages demo_batch ([[- 2, 0], [2, 2]], [[- 2, 0], [2, 2]]))"
  by (simp add: compute_advantage_def with_response_mask_def demo_batch_def get_tensor_def dict_index_def
    get_adv_estimator_fn_def registered_estimators_def call_estimator_def required_def Let_def
    compute_rloo_outcome_advantage_def rloo_scores_def row_sums_def with_index_def group_by_def by_group_size_def
    dict_get_def tmean_def bcast_mul_def)

theorem advantages_on_response_tokens_witness:
  "(\<exists>adv rets. get_tensor ''advantages'' (put_advantages demo_batch ([[- 2, 0], [2, 2]], [[- 2, 0], [2, 2]])) = Inr adv
      \<and> get_tensor ''returns'' (put_advantages demo_batch ([[- 2, 0], [2, 2]], [[- 2, 0], [2, 2]])) = Inr rets
      \<and> masked_by [[1, 0], [1, 1]] adv)
    \<and> non_tensor_batch (put_advantages demo_batch ([[- 2, 0], [2, 2]], [[- 2, 0], [2, 2]])) = non_tensor_batch demo_batch"
  using advantages_on_response_tokens [OF _ demo_run, of "[[1, 0], [1, 1]]"]
  by (simp add: demo_batch_def get_tensor_def dict_index_def)

section \<open>The KL penalty\<close>

definition nonnegative_kinds :: "string set" where
  "nonnegative_kinds = {''abs'', ''mse'', ''k2'', ''low_var_kl'', ''k3'', ''abs+'', ''mse+'', ''k2+'', ''low_var_kl+'', ''k3+''}"

lemma k3_value: "0 \<le> clamp (- 10) 10 (exp (x :: real) - x - 1)"
  using exp_ge_add_one_self [of x] unfolding clamp_def by linarith

lemma kl_penalty_nonneg:
  assumes "kind \<in> nonnegative_kinds"
  shows "\<exists>v. kl_penalty x y kind = Inr v \<and> 0 \<le> v \<and> (x = y \<longrightarrow> v = 0)"
  using assms k3_value [of "clamp (- 20) 20 (y - x)"] exI [of "\<lambda>v. (x - y)\<^sup>2 = v * 2 \<and> 0 \<le> v \<and> (x = y \<longrightarrow> v = 0)" "(x - y)\<^sup>2 / 2"]
  unfolding nonnegative_kinds_def
  by (elim insertE emptyE) (simp_all add: kl_penalty_def kl_penalty_forward_def Let_def, simp_all add: clamp_def)

definition kl_value_of :: "string \<Rightarrow> real \<Rightarrow> real \<Rightarrow> real" where
  "kl_value_of kind x y = (case kl_penalty x y kind of Inr v \<Rightarrow> v | Inl _ \<Rightarrow> 0)"

lemma kl_penalty_tensor_eq:
  assumes "kind \<in> nonnegative_kinds"
  shows "kl_penalty_tensor a b kind = Inr (mzip (kl_value_of kind) a b)"
proof -
  have v: "kl_penalty x y kind = Inr (kl_value_of kind x y)" for x y
    using kl_penalty_nonneg [OF assms, of x y] by (auto simp: kl_value_of_def)
  have row: "map_result (\<lambda>(x, y). kl_penalty x y kind) (zip old ref) = Inr (map2 (kl_value_of kind) old ref)" for old ref
    by (rule map_result_map) (auto simp: v)
  have "map_result (\<lambda>(old, ref). map_result (\<lambda>(x, y). kl_penalty x y kind) (zip old ref)) (zip a b)
      = Inr (map2 (map2 (kl_value_of kind)) a b)"
    by (rule map_result_map) (auto simp: row)
  then show ?thesis by (simp add: kl_penalty_tensor_def v mzip_def)
qed

lemma tmean_means_nonneg:
  assumes "\<forall>row\<in>set m. binary row" "length vs = length m" "\<And>i. i < length m \<Longrightarrow> \<forall>v\<in>set (vs ! i). 0 \<le> v"
  shows "0 \<le> tmean (row_masked_means vs m)"
proof -
  have "0 \<le> masked_mean (vs ! i) (m ! i)" if "i < length m" for i
    using masked_sum_nonneg [of "m ! i" "vs ! i"] sum_binary_nonneg [of "m ! i"] assms that by (simp add: masked_mean_def)
  then have "\<forall>x\<in>set (row_masked_means vs m). 0 \<le> x"
    unfolding all_set_conv_all_nth using assms(2) by (simp add: row_masked_means_def)
  then show ?thesis unfolding tmean_def by (intro divide_nonneg_nonneg sum_list_nonneg) simp_all
qed

text \<open>C32: with a kind of KL estimator that is never negative (\<open>abs\<close>, \<open>mse\<close>, \<open>k2\<close>, \<open>low_var_kl\<close>, \<open>k3\<close>, also with the suffix \<open>+\<close>; not the difference
  \<open>kl\<close> and \<open>k1\<close>), a coefficient that is not negative and a 0/1 mask, the KL penalty only lowers the token-level
  rewards, leaves them at the scores outside the response mask and where the two policies agree, reports a
  non-negative KL, and hands it with the batch size to the controller; no other tensor changes.\<close>

theorem kl_penalty_lowers_rewards:
  assumes run: "apply_kl_penalty d kl_ctrl kind = Inr (d', kl_ctrl', ms)" and kind: "kind \<in> nonnegative_kinds"
    and beta: "0 \<le> kl_value kl_ctrl"
    and m: "get_tensor ''response_mask'' d = Inr m" "\<forall>row\<in>set m. binary row"
    and tensors: "get_tensor ''token_level_scores'' d = Inr scores" "get_tensor ''old_log_probs'' d = Inr old"
      "get_tensor ''ref_log_prob'' d = Inr ref"
    and shapes: "same_shape scores m" "same_shape old m" "same_shape ref m"
  shows "\<exists>rewards current_kl. get_tensor ''token_level_rewards'' d' = Inr rewards \<and> same_shape rewards m
    \<and> (\<forall>i<length m. \<forall>t<length (m ! i). rewards ! i ! t \<le> scores ! i ! t
        \<and> (m ! i ! t = 0 \<or> old ! i ! t = ref ! i ! t \<longrightarrow> rewards ! i ! t = scores ! i ! t))
    \<and> 0 \<le> current_kl \<and> map_of ms ''actor/reward_kl_penalty'' = Some current_kl
    \<and> kl_ctrl' = kl_update kl_ctrl current_kl (real (batch_size d))
    \<and> (\<forall>key. key \<noteq> ''token_level_rewards'' \<longrightarrow> get_tensor key d' = get_tensor key d)"
proof -
  obtain td where td: "batch d = Some td" using m by (cases "batch d") (simp_all add: get_tensor_def)
  define kld where "kld = mzip (*) (mzip (kl_value_of kind) old ref) m"
  define rewards where "rewards = mzip (-) scores (mmap ((*) (kl_value kl_ctrl)) kld)"
  define current_kl where "current_kl = tmean (row_masked_means kld m)"
  have d': "d' = set_tensor ''token_level_rewards'' rewards d" "kl_ctrl' = kl_update kl_ctrl current_kl (real (batch_size d))"
    "ms = [(''actor/reward_kl_penalty'', current_kl), (''actor/reward_kl_penalty_coeff'', kl_value kl_ctrl)]"
    using run by (auto simp: apply_kl_penalty_def m tensors kl_penalty_tensor_eq [OF kind] Let_def rewards_def kld_def current_kl_def)
  have oldref: "same_shape old ref" by (rule same_shape_trans [OF shapes(2) same_shape_sym [OF shapes(3)]])
  have km: "same_shape (mzip (kl_value_of kind) old ref) m" by (rule same_shape_trans [OF same_shape_mzip [OF oldref] shapes(3)])
  have kld: "same_shape kld m" unfolding kld_def by (rule same_shape_mzip [OF km])
  have pen: "same_shape (mmap ((*) (kl_value kl_ctrl)) kld) m" using kld by simp
  have sk: "same_shape scores (mmap ((*) (kl_value kl_ctrl)) kld)" by (rule same_shape_trans [OF shapes(1) same_shape_sym [OF pen]])
  have rm: "same_shape rewards m" unfolding rewards_def by (rule same_shape_trans [OF same_shape_mzip [OF sk] pen])
  have kv: "0 \<le> kl_value_of kind x y" "kl_value_of kind x x = 0" for x y
    using kl_penalty_nonneg [OF kind, of x y] kl_penalty_nonneg [OF kind, of x x] by (auto simp: kl_value_of_def)
  have mask: "m ! i ! t \<in> {0, 1}" if "i < length m" "t < length (m ! i)" for i t
    using m(2) that unfolding binary_def by (meson nth_mem subset_eq)
  have k: "kld ! i ! t = kl_value_of kind (old ! i ! t) (ref ! i ! t) * m ! i ! t" if "i < length m" "t < length (m ! i)" for i t
    using mzip_nth [OF km that, of "(*)"] mzip_nth [OF oldref, of i t "kl_value_of kind"] same_shape_length [OF shapes(3)]
      same_shape_nth [OF shapes(3)] that by (simp add: kld_def)
  have r: "rewards ! i ! t = scores ! i ! t - kl_value kl_ctrl * kld ! i ! t" if "i < length m" "t < length (m ! i)" for i t
    using mzip_nth [OF sk, of i t "(-)"] same_shape_length [OF kld] same_shape_nth [OF kld] that by (simp add: rewards_def)
  have "\<forall>v\<in>set (kld ! i). 0 \<le> v" if "i < length m" for i
    unfolding all_set_conv_all_nth using same_shape_nth [OF kld that] k [OF that] kv mask [OF that] by fastforce
  then have "0 \<le> current_kl" unfolding current_kl_def using m(2) same_shape_length [OF kld] by (intro tmean_means_nonneg) simp_all
  have "rewards ! i ! t \<le> scores ! i ! t
        \<and> (m ! i ! t = 0 \<or> old ! i ! t = ref ! i ! t \<longrightarrow> rewards ! i ! t = scores ! i ! t)"
    if "i < length m" "t < length (m ! i)" for i t
    using mask [OF that] r [OF that] k [OF that] kv beta by (auto intro!: mult_nonneg_nonneg)
  then show ?thesis using \<open>0 \<le> current_kl\<close> rm by (simp add: d' get_set_tensor [OF td])
qed

definition demo_kl_batch :: "(vec, nat) data_proto" where
  "demo_kl_batch = demo_batch\<lparr>batch := Some \<lparr>td_size = 1, td_items = [(''response_mask'', [[1, 0]]),
     (''token_level_scores'', [[1, 5]]), (''old_log_probs'', [[0, 0]]), (''ref_log_prob'', [[- 1, 3]])]\<rparr>\<rparr>"

theorem kl_penalty_lowers_rewards_witness:
  "\<exists>rewards current_kl. get_tensor ''token_level_rewards'' (set_tensor ''token_level_rewards'' [[- 1, 5]] demo_kl_batch) = Inr rewards
    \<and> same_shape rewards [[1 :: real, 0]]
    \<and> (\<forall>i<length [[1 :: real, 0]]. \<forall>t<length ([[1 :: real, 0]] ! i). rewards ! i ! t \<le> [[1, 5]] ! i ! t
        \<and> ([[1, 0 :: real]] ! i ! t = 0 \<or> [[0, 0 :: real]] ! i ! t = [[- 1, 3]] ! i ! t \<longrightarrow> rewards ! i ! t = [[1, 5]] ! i ! t))
    \<and> 0 \<le> (current_kl :: real)"
proof -
  let ?d = demo_kl_batch
  have g: "get_tensor ''response_mask'' ?d = Inr [[1, 0]]" "get_tensor ''token_level_scores'' ?d = Inr [[1, 5]]"
    "get_tensor ''old_log_probs'' ?d = Inr [[0, 0]]" "get_tensor ''ref_log_prob'' ?d = Inr [[- 1, 3]]"
    by (simp_all add: demo_kl_batch_def get_tensor_def dict_index_def)
  have run: "apply_kl_penalty ?d (FixedKLController 2) ''abs'' = Inr (set_tensor ''token_level_rewards'' [[- 1, 5]] ?d,
      FixedKLController 2, [(''actor/reward_kl_penalty'', tmean (row_masked_means [[1, 0]] [[1, 0]])), (''actor/reward_kl_penalty_coeff'', 2)])"
    by (simp add: apply_kl_penalty_def g kl_penalty_tensor_def kl_penalty_def kl_penalty_forward_def Let_def mzip_def mmap_def)
  have h: "''abs'' \<in> nonnegative_kinds" "0 \<le> kl_value (FixedKLController 2)" "\<forall>row\<in>set [[1 :: real, 0]]. binary row"
    "same_shape [[1 :: real, 5]] [[1 :: real, 0]]" "same_shape [[0 :: real, 0]] [[1 :: real, 0]]" "same_shape [[- 1 :: real, 3]] [[1 :: real, 0]]"
    by (simp_all add: nonnegative_kinds_def binary_def same_shape_def)
  show ?thesis using kl_penalty_lowers_rewards [OF run h(1,2) g(1) h(3) g(2,3,4) h(4,5,6)]
    by (elim exE conjE) (rule exI, rule exI, intro conjI, assumption+)
qed

section \<open>Resampling\<close>

lemma compute_weights_length: "compute_weights scores method p = Inr ws \<Longrightarrow> length ws = length scores"
proof -
  have len: "map_result f xs = Inr ys \<Longrightarrow> length ys = length xs" for f :: "real \<Rightarrow> real result" and xs ys
    by (induction xs arbitrary: ys) (auto simp: rbind_eq_Inr)
  show "compute_weights scores method p = Inr ws \<Longrightarrow> length ws = length scores"
    by (auto simp: compute_weights_def dest: len split: if_splits option.splits)
qed

text \<open>What torch promises of a draw with replacement: \<open>n\<close> positions of the weights.\<close>

definition draws_positions :: "(vec \<Rightarrow> nat \<Rightarrow> nat list) \<Rightarrow> bool" where
  "draws_positions draw \<longleftrightarrow> (\<forall>ws n. ws \<noteq> [] \<and> (\<forall>w\<in>set ws. 0 < w)
     \<longrightarrow> length (draw ws n) = n \<and> set (draw ws n) \<subseteq> {..<length ws})"

text \<open>the preference-feedback resampling keeps the size of the batch and keeps rows together: there is
  one list of positions of the batch such that every tensor, every array and every per-sample list of the
  result is the batch's, read at these positions.\<close>

theorem resampling_keeps_rows:
  assumes draw: "draws_positions draw" and run: "compute_pf_ppo_reweight_data draw method p d = Inr d'"
    and scores: "get_tensor ''token_level_scores'' d = Inr scores"
  shows "\<exists>ps. length ps = length scores \<and> set ps \<subseteq> {..<length scores}
    \<and> (\<forall>key. get_tensor key d' = rbind (get_tensor key d) (\<lambda>rows. Inr (pick_rows ps rows)))
    \<and> non_tensor_batch d' = map_items (pick_rows ps) (non_tensor_batch d)
    \<and> meta_info d' = map (\<lambda>(k, v). (k, resample_meta (length scores) ps v)) (meta_info d)
    \<and> batch_size d' = batch_size d"
proof -
  obtain td where td: "batch d = Some td" using scores by (cases "batch d") (simp_all add: get_tensor_def)
  obtain ws where ws: "compute_weights (row_sums scores) method p = Inr ws"
    and d': "d' = d\<lparr>batch := map_option (\<lambda>td. td\<lparr>td_items := map_items (pick_rows
          (draw (map (\<lambda>w. max (w + 1 / 10 ^ 8) (1 / 10 ^ 8)) ws) (length scores))) (td_items td)\<rparr>) (batch d),
        non_tensor_batch := map_items (pick_rows (draw (map (\<lambda>w. max (w + 1 / 10 ^ 8) (1 / 10 ^ 8)) ws) (length scores))) (non_tensor_batch d),
        meta_info := map (\<lambda>(k, v). (k, resample_meta (length scores) (draw (map (\<lambda>w. max (w + 1 / 10 ^ 8) (1 / 10 ^ 8)) ws) (length scores)) v)) (meta_info d)\<rparr>"
    using run by (auto simp: compute_pf_ppo_reweight_data_def scores Let_def rbind_eq_Inr)
  define ps where "ps = draw (map (\<lambda>w. max (w + 1 / 10 ^ 8) (1 / 10 ^ 8)) ws) (length scores)"
  note d' = d' [folded ps_def]
  have lw: "length ws = length scores" using compute_weights_length [OF ws] by simp
  have "row_sums scores \<noteq> []" using ws by (auto simp: compute_weights_def split: if_splits)
  then have ne: "ws \<noteq> []" using lw by (auto simp: row_sums_def)
  let ?w = "map (\<lambda>w. max (w + 1 / 10 ^ 8) (1 / 10 ^ 8)) ws"
  have "\<forall>w\<in>set ?w. 0 < w" by (auto simp: less_max_iff_disj)
  then have "?w \<noteq> [] \<and> (\<forall>w\<in>set ?w. 0 < w)" using ne by simp
  then have "length ps = length scores \<and> set ps \<subseteq> {..<length ?w}"
    unfolding ps_def by (rule draw [unfolded draws_positions_def, THEN spec, THEN spec, THEN mp])
  then have "length ps = length scores \<and> set ps \<subseteq> {..<length ws}" by simp
  moreover have "map_of (map_items f items) key = map_option f (map_of items key)" for f :: "vec list \<Rightarrow> vec list" and items key
    by (induction items) (auto simp: map_items_def)
  then have "get_tensor key d' = rbind (get_tensor key d) (\<lambda>rows. Inr (pick_rows ps rows))" for key
    by (simp add: d' get_tensor_def td dict_index_def split: option.splits)
  moreover have "non_tensor_batch d' = map_items (pick_rows ps) (non_tensor_batch d)"
    "meta_info d' = map (\<lambda>(k, v). (k, resample_meta (length scores) ps v)) (meta_info d)" "batch_size d' = batch_size d"
    by (simp_all add: d' batch_size_def td)
  ultimately show ?thesis using lw by (intro exI [of _ ps] conjI allI) simp_all
qed

definition demo_scored :: "(vec, nat) data_proto" where
  "demo_scored = \<lparr>batch = Some \<lparr>td_size = 2, td_items = [(''token_level_scores'', [[1], [3]])]\<rparr>,
     non_tensor_batch = [(''uid'', [4, 5])], meta_info = []\<rparr>"

theorem resampling_keeps_rows_witness:
  "let d' = demo_scored\<lparr>batch := Some \<lparr>td_size = 2, td_items = [(''token_level_scores'', [[1], [1]])]\<rparr>,
      non_tensor_batch := [(''uid'', [4, 4])]\<rparr>
   in \<exists>ps. length ps = length [[1 :: real], [3]] \<and> set ps \<subseteq> {..<length [[1 :: real], [3]]}
    \<and> (\<forall>key. get_tensor key d' = rbind (get_tensor key demo_scored) (\<lambda>rows. Inr (pick_rows ps rows)))
    \<and> non_tensor_batch d' = map_items (pick_rows ps) (non_tensor_batch demo_scored)
    \<and> meta_info d' = map (\<lambda>(k, v). (k, resample_meta (length [[1 :: real], [3]]) ps v)) (meta_info demo_scored)
    \<and> batch_size d' = batch_size demo_scored"
  unfolding Let_def
proof (rule resampling_keeps_rows)
  show "draws_positions (\<lambda>ws n. replicate n 0)" by (auto simp: draws_positions_def)
  show "compute_pf_ppo_reweight_data (\<lambda>ws n. replicate n 0) (Some ''max_min'') None demo_scored
    = Inr (demo_scored\<lparr>batch := Some \<lparr>td_size = 2, td_items = [(''token_level_scores'', [[1], [1]])]\<rparr>,
        non_tensor_batch := [(''uid'', [4, 4])]\<rparr>)"
    by (simp add: demo_scored_def compute_pf_ppo_reweight_data_def get_tensor_def dict_index_def Let_def row_sums_def
      compute_weights_def numeral_2_eq_2 pick_rows_def map_items_def)
  show "get_tensor ''token_level_scores'' demo_scored = Inr [[1], [3]]"
    by (simp add: demo_scored_def get_tensor_def dict_index_def)
qed

section \<open>A step with nothing to penalise or correct\<close>

text \<open>The dispatch reads a batch only through these queries.\<close>

definition same_reads :: "(vec, 'a) data_proto \<Rightarrow> (vec, 'a) data_proto \<Rightarrow> bool" where
  "same_reads d e \<longleftrightarrow> (\<forall>key. key \<noteq> ''rollout_is_weights'' \<longrightarrow> get_tensor key d = get_tensor key e)
     \<and> non_tensor_batch d = non_tensor_batch e \<and> batch d \<noteq> None \<and> batch e \<noteq> None"

lemma optional_tensor_eq:
  assumes "batch d \<noteq> None"
  shows "optional_tensor key d = (case get_tensor key d of Inr m \<Rightarrow> Some m | Inl _ \<Rightarrow> None)"
  using assms by (auto simp: optional_tensor_def get_tensor_def dict_index_def split: option.splits)

lemma call_estimator_same:
  assumes "same_reads d e" and "name \<notin> {''gae'', ''grpo'', ''optimal_token_baseline'', ''tir_optimal_token_baseline''}"
    and "name \<in> set registered_estimators"
  shows "call_estimator lib name config d r m = call_estimator lib name config e r m"
proof -
  have opt: "optional_tensor ''reward_baselines'' d = optional_tensor ''reward_baselines'' e"
    using assms(1) by (simp add: optional_tensor_eq same_reads_def)
  have nt: "non_tensor_batch d = non_tensor_batch e" using assms(1) by (simp add: same_reads_def)
  have read: "get_tensor ''prompts'' d = get_tensor ''prompts'' e"
    "get_tensor ''attention_mask'' d = get_tensor ''attention_mask'' e"
    using assms(1) by (simp_all add: same_reads_def)
  have gdpo: "gdpo_components number config d = gdpo_components number config e" for number
    unfolding gdpo_components_def nt read by (rule refl)
  have "name \<in> {''grpo_vectorized'', ''gdpo'', ''grpo_passk'', ''reinforce_plus_plus_baseline'', ''rloo'', ''opo'',
      ''reinforce_plus_plus'', ''remax'', ''gpg'', ''rloo_vectorized''}"
    using assms(3) unfolding registered_estimators_def list.set
    by (elim insertE emptyE) (use assms(2) in \<open>simp_all\<close>)
  then show ?thesis unfolding call_estimator_def Let_def nt opt gdpo by (elim insertE emptyE; simp)
qed

lemma compute_advantage_same:
  assumes same: "same_reads d e" and m: "get_tensor ''response_mask'' d = Inr m"
    and name: "estimator \<notin> {''gae'', ''optimal_token_baseline'', ''tir_optimal_token_baseline''}"
    and k: "key \<in> {''advantages'', ''returns''}"
  shows "rbind (compute_advantage lib estimator g l nrm config d) (get_tensor key)
    = rbind (compute_advantage lib estimator g l nrm config e) (get_tensor key)"
proof -
  have g: "get_tensor k d = get_tensor k e" if "k \<noteq> ''rollout_is_weights''" for k using same that by (simp add: same_reads_def)
  have e: "get_tensor ''response_mask'' e = Inr m" using g m by simp
  obtain td te where td: "batch d = Some td" "batch e = Some te" using same by (auto simp: same_reads_def)
  have put: "get_tensor key (put_advantages d out) = get_tensor key (put_advantages e out)" for out
    using k by (auto simp: get_put_advantages [OF td(1)] get_put_advantages [OF td(2)])
  have rb: "rbind (rbind r (\<lambda>x. rbind (f x) h)) q = rbind r (\<lambda>x. rbind (f x) (\<lambda>y. rbind (h y) q))"
    for r :: "'x result" and f :: "'x \<Rightarrow> 'y result" and h :: "'y \<Rightarrow> 'z result" and q :: "'z \<Rightarrow> 'w result"
    by (simp add: rbind_def split: sum.splits)
  have nt: "non_tensor_batch d = non_tensor_batch e" using same by (simp add: same_reads_def)
  show ?thesis
    using name unfolding compute_advantage_def with_response_mask_present [OF m] with_response_mask_present [OF e] rbind_Inr
    using call_estimator_same [OF same]
    by (auto simp: g nt get_adv_estimator_fn_def rbind_def put split: sum.splits)
qed

text \<open>The configuration is read for the discount, the normalisation and the GDPO rewards only.\<close>

definition without_policy_terms :: "algo_config \<Rightarrow> algo_config" where
  "without_policy_terms c = c\<lparr>use_kl_in_reward := False, correction := None\<rparr>"

lemma without_policy_terms_simps [simp]:
  "gamma (without_policy_terms c) = gamma c" "lam (without_policy_terms c) = lam c"
  "adv_estimator (without_policy_terms c) = adv_estimator c"
  "norm_adv_by_std_in_grpo (without_policy_terms c) = norm_adv_by_std_in_grpo c"
  "gdpo_reward_keys (without_policy_terms c) = gdpo_reward_keys c"
  "gdpo_reward_weights (without_policy_terms c) = gdpo_reward_weights c"
  "use_kl_in_reward (without_policy_terms c) = False" "correction (without_policy_terms c) = None"
  by (simp_all add: without_policy_terms_def)

lemma compute_advantage_config:
  assumes "estimator \<noteq> ''gae''"
  shows "compute_advantage lib estimator g l nrm (Some (without_policy_terms c)) d
    = compute_advantage lib estimator g l nrm (Some c) d"
proof -
  have "call_estimator lib name (Some (without_policy_terms c)) d r m = call_estimator lib name (Some c) d r m" for name d r m
    by (simp add: call_estimator_def gdpo_components_def Let_def)
  then show ?thesis unfolding compute_advantage_def if_not_P [OF assms] by presburger
qed

lemma kl_penalty_equal:
  assumes kind: "kind \<in> nonnegative_kinds" and m: "get_tensor ''response_mask'' d = Inr m"
    and tensors: "get_tensor ''token_level_scores'' d = Inr scores" "get_tensor ''old_log_probs'' d = Inr lp"
      "get_tensor ''ref_log_prob'' d = Inr lp"
    and shapes: "same_shape scores m" "same_shape lp m"
  shows "\<exists>ctrl' ms. apply_kl_penalty d ctrl kind = Inr (set_tensor ''token_level_rewards'' scores d, ctrl', ms)"
proof -
  let ?kld = "mzip (*) (mzip (kl_value_of kind) lp lp) m"
  have v: "kl_value_of kind x x = 0" for x
    using kl_penalty_nonneg [OF kind, of x x] by (auto simp: kl_value_of_def)
  have lp: "same_shape lp lp" by (simp add: same_shape_def)
  have km: "same_shape (mzip (kl_value_of kind) lp lp) m" by (rule same_shape_trans [OF same_shape_mzip [OF lp] shapes(2)])
  have kld: "same_shape ?kld m" by (rule same_shape_mzip [OF km])
  have pen: "same_shape (mmap ((*) (kl_value ctrl)) ?kld) m" using kld by simp
  have sk: "same_shape scores (mmap ((*) (kl_value ctrl)) ?kld)" by (rule same_shape_trans [OF shapes(1) same_shape_sym [OF pen]])
  have "mzip (-) scores (mmap ((*) (kl_value ctrl)) ?kld) = scores"
  proof (rule mat_eqI)
    show "same_shape (mzip (-) scores (mmap ((*) (kl_value ctrl)) ?kld)) scores"
      by (rule same_shape_trans [OF same_shape_mzip [OF sk] same_shape_sym [OF sk]])
    fix i t
    assume "i < length scores" "t < length (scores ! i)"
    then have it: "i < length m" "t < length (m ! i)"
      using same_shape_length [OF shapes(1)] same_shape_nth [OF shapes(1)] by simp_all
    have "?kld ! i ! t = 0"
      using mzip_nth [OF km it, of "(*)"] mzip_nth [OF lp, of i t "kl_value_of kind"] same_shape_length [OF shapes(2)]
        same_shape_nth [OF shapes(2)] it v by simp
    then show "mzip (-) scores (mmap ((*) (kl_value ctrl)) ?kld) ! i ! t = scores ! i ! t"
      using mzip_nth [OF sk, of i t "(-)"] same_shape_length [OF kld] same_shape_nth [OF kld] it by simp
  qed
  then show ?thesis by (simp add: apply_kl_penalty_def m tensors kl_penalty_tensor_eq [OF kind] Let_def)
qed

lemma union_new_tensor:
  assumes "batch d = Some td" and "td_size td = n" and "map_of (td_items td) k = None"
  shows "\<exists>d'. union_proto d \<lparr>batch = Some \<lparr>td_size = n, td_items = [(k, w)]\<rparr>, non_tensor_batch = [], meta_info = []\<rparr> = Inr d'
    \<and> batch d' \<noteq> None"
  using assms by (simp add: union_proto_def union_tensor_dict_def passert_def)

lemma correction_equal:
  fixes d :: "(vec, 'a) data_proto"
  assumes td: "batch d = Some td" "td_size td = length m" "map_of (td_items td) ''rollout_is_weights'' = None"
    and rc: "\<And>rc. correction c = Some rc \<Longrightarrow> contains_one rc \<and> \<not> rollout_is_batch_normalize rc"
    and m: "get_tensor ''response_mask'' d = Inr m" "any_valid m" "\<forall>row\<in>set m. binary row"
    and lp: "get_tensor ''old_log_probs'' d = Inr lp" "get_tensor ''rollout_log_probs'' d = Inr lp" "same_shape lp m"
  shows "\<exists>d' ms. correction_step c d = Inr (d', ms) \<and> same_reads d' d"
proof (cases "correction c")
  case None
  then show ?thesis using td(1) by (simp add: correction_step_def same_reads_def)
next
  case (Some rc)
  define d1 where "d1 = set_tensor ''response_mask'' m d"
  have g1: "get_tensor key d1 = get_tensor key d" for key
    using get_set_tensor [OF td(1), of key "''response_mask''" m] m(1) by (simp add: d1_def)
  obtain td1 where td1: "batch d1 = Some td1" "td_size td1 = length m" "map_of (td_items td1) ''rollout_is_weights'' = None"
    using td by (simp add: d1_def set_tensor_def map_of_dict_set)
  have rest: "non_tensor_batch d1 = non_tensor_batch d" by (simp add: d1_def set_tensor_def)
  obtain w :: "(vec, 'a) data_proto option" and ms where cor: "compute_rollout_correction_and_rejection_mask None rc lp lp m = Inr (w, m, ms)"
    and w: "w = None \<or> w = Some \<lparr>batch = Some \<lparr>td_size = length m, td_items = [(''rollout_is_weights'', m)]\<rparr>,
                    non_tensor_batch = [], meta_info = []\<rparr>"
    using equal_policies_run [of rc lp m None] rc [OF Some] lp(3) m(2,3) by (auto split: if_splits)
  have run: "compute_rollout_correction_and_add_to_batch None rc d = (case w of None \<Rightarrow> Inr (d1, ms)
      | Some w \<Rightarrow> rbind (union_proto d1 w) (\<lambda>d. Inr (d, ms)))"
    unfolding compute_rollout_correction_and_add_to_batch_def lp(1,2) m(1) rbind_Inr cor prod.case Let_def d1_def ..
  show ?thesis
  proof (cases "bypass_mode rc \<or> w = None")
    case True
    then show ?thesis using run td(1) td1(1) g1 rest
      by (auto simp: correction_step_def Some same_reads_def)
  next
    case False
    obtain d' where d': "union_proto d1 \<lparr>batch = Some \<lparr>td_size = length m, td_items = [(''rollout_is_weights'', m)]\<rparr>,
        non_tensor_batch = [], meta_info = []\<rparr> = Inr d'" "batch d' \<noteq> None"
      using union_new_tensor [OF td1] by blast
    have "same_reads d' d" using union_one [OF td1(1,2) d'(1)] g1 rest d'(2) td(1) by (simp add: same_reads_def)
    moreover have "same_reads d d" using td(1) by (simp add: same_reads_def)
    ultimately show ?thesis using run False w d'(1) by (auto simp: correction_step_def Some)
  qed
qed

text \<open>C28: on a batch whose current, reference and rollout policies agree, with some valid token under a 0/1 mask and no
  importance weights yet, the step with a KL penalty of a non-negative kind and with a rollout correction whose
  bounds contain the ratio 1 and that does not normalize the weights over the batch computes the same advantages
  and returns, or the same error, as the step with neither, for every estimator but GAE and the two
  optimal-token-baseline ones, which read the weights.\<close>

theorem equal_policies_same_advantages:
  fixes d :: "(vec, 'a) data_proto"
  assumes td: "batch d = Some td" "td_size td = length m" "map_of (td_items td) ''rollout_is_weights'' = None"
    and rc: "\<And>rc. correction c = Some rc \<Longrightarrow> contains_one rc \<and> \<not> rollout_is_batch_normalize rc"
    and m: "get_tensor ''response_mask'' d = Inr m" "any_valid m" "\<forall>row\<in>set m. binary row"
    and lp: "get_tensor ''old_log_probs'' d = Inr lp" "get_tensor ''rollout_log_probs'' d = Inr lp"
      "get_tensor ''ref_log_prob'' d = Inr lp" "same_shape lp m"
    and kind: "kl_penalty_kind c \<in> nonnegative_kinds" and r: "same_shape reward_tensor m"
    and estimator: "adv_estimator c \<notin> {''gae'', ''optimal_token_baseline'', ''tir_optimal_token_baseline''}"
    and key: "key \<in> {''advantages'', ''returns''}"
  shows "rbind (advantage_step lib c reward_tensor extra ctrl d) (\<lambda>(d', _, _). get_tensor key d')
    = rbind (advantage_step lib (without_policy_terms c) reward_tensor extra ctrl d) (\<lambda>(d', _, _). get_tensor key d')"
proof -
  define d0 where "d0 = (set_tensor ''token_level_scores'' reward_tensor d)
    \<lparr>non_tensor_batch := dict_update (non_tensor_batch (set_tensor ''token_level_scores'' reward_tensor d)) extra\<rparr>"
  define d1 where "d1 = set_tensor ''token_level_rewards'' reward_tensor d0"
  have b0: "batch d0 = batch (set_tensor ''token_level_scores'' reward_tensor d)" by (simp add: d0_def)
  have g0: "get_tensor k d0 = (if k = ''token_level_scores'' then Inr reward_tensor else get_tensor k d)" for k
    using get_set_tensor [OF td(1), of k "''token_level_scores''" reward_tensor] b0 by (simp add: get_tensor_def)
  obtain td0 where td0: "batch d0 = Some td0" using b0 td(1) by (simp add: set_tensor_def)
  have g1: "get_tensor k d1 = (if k = ''token_level_rewards'' then Inr reward_tensor else get_tensor k d0)" for k
    unfolding d1_def by (simp add: get_set_tensor [OF td0])
  obtain td1 where td1: "batch d1 = Some td1" "td_size td1 = length m" "map_of (td_items td1) ''rollout_is_weights'' = None"
    using td by (simp add: d1_def d0_def set_tensor_def map_of_dict_set)
  obtain ctrl' ms where reward: "reward_step c ctrl d0 = Inr (d1, ctrl', ms)"
    using kl_penalty_equal [OF kind, of d0 m reward_tensor lp ctrl] m lp r g0
    by (cases "use_kl_in_reward c") (auto simp: reward_step_def d1_def)
  have reward': "reward_step (without_policy_terms c) ctrl d0 = Inr (d1, ctrl, [])"
    by (simp add: reward_step_def g0 d1_def)
  obtain d2 ms2 where corr: "correction_step c d1 = Inr (d2, ms2)" and same: "same_reads d2 d1"
    using correction_equal [OF td1 rc, of c] m lp g0 g1 by auto
  have corr': "correction_step (without_policy_terms c) d1 = Inr (d1, [])" by (simp add: correction_step_def)
  have m2: "get_tensor ''response_mask'' d2 = Inr m" using same m(1) g0 g1 by (simp add: same_reads_def)
  have gae: "adv_estimator c \<noteq> ''gae''" using estimator by simp
  have adv: "rbind (compute_advantage lib (adv_estimator c) (gamma c) (lam c) (norm_adv_by_std_in_grpo c) (Some c) d2) (get_tensor key)
    = rbind (compute_advantage lib (adv_estimator c) (gamma c) (lam c) (norm_adv_by_std_in_grpo c)
        (Some (without_policy_terms c)) d1) (get_tensor key)"
    unfolding compute_advantage_config [OF gae] by (rule compute_advantage_same [OF same m2 estimator key])
  have proj: "rbind (rbind x (\<lambda>d. Inr (d, y, z))) (\<lambda>(d', _, _). q d') = rbind x q"
    for x :: "(vec, 'a) data_proto result" and y :: kl_controller and z :: metrics and q :: "(vec, 'a) data_proto \<Rightarrow> mat result"
    by (simp add: rbind_def split: sum.splits)
  have step: "advantage_step lib c' reward_tensor extra ctrl d = rbind (reward_step c' ctrl d0) (\<lambda>(d, kl_ctrl, kl_metrics).
         rbind (correction_step c' d) (\<lambda>(d, is_metrics).
         rbind (compute_advantage lib (adv_estimator c') (gamma c') (lam c') (norm_adv_by_std_in_grpo c') (Some c') d)
           (\<lambda>d. Inr (d, kl_ctrl, dict_update kl_metrics is_metrics))))" for c'
    by (simp add: advantage_step_def Let_def d0_def)
  show ?thesis unfolding step reward reward' rbind_Inr prod.case corr corr' without_policy_terms_simps proj by (rule adv)
qed

definition demo_agreeing :: "(vec, nat) data_proto" where
  "demo_agreeing = \<lparr>batch = Some \<lparr>td_size = 2, td_items = [(''response_mask'', [[1, 0], [1, 1]]),
      (''old_log_probs'', [[- 1, 0], [- 2, - 3]]), (''rollout_log_probs'', [[- 1, 0], [- 2, - 3]]),
      (''ref_log_prob'', [[- 1, 0], [- 2, - 3]])]\<rparr>, non_tensor_batch = [(''uid'', [7, 7])], meta_info = []\<rparr>"

definition demo_config :: algo_config where
  "demo_config = algo_config_default\<lparr>adv_estimator := ''rloo'', use_kl_in_reward := True, kl_penalty_kind := ''k3'',
     correction := Some (decoupled_seq_is 2)\<rparr>"

theorem equal_policies_same_advantages_witness:
  "rbind (advantage_step demo_libs demo_config [[1, 0], [0, 3]] [] (FixedKLController 1) demo_agreeing)
      (\<lambda>(d', _, _). get_tensor ''advantages'' d')
    = rbind (advantage_step demo_libs (without_policy_terms demo_config) [[1, 0], [0, 3]] [] (FixedKLController 1) demo_agreeing)
      (\<lambda>(d', _, _). get_tensor ''advantages'' d')"
proof (rule equal_policies_same_advantages [where td = "the (batch demo_agreeing)" and m = "[[1, 0], [1, 1]]" and lp = "[[- 1, 0], [- 2, - 3]]"])
  show "contains_one rc \<and> \<not> rollout_is_batch_normalize rc" if "correction demo_config = Some rc" for rc
  proof -
    have "rc = decoupled_seq_is 2" using that by (simp add: demo_config_def)
    then show ?thesis
      by (simp add: contains_one_def decoupled_seq_is_def with_is_def rollout_config_default_def threshold_two)
  qed
qed (simp_all add: demo_agreeing_def demo_config_def algo_config_default_def get_tensor_def dict_index_def any_valid_def
  binary_def same_shape_def nonnegative_kinds_def numeral_2_eq_2)

section \<open>What the dispatch does not pass on\<close>

text \<open>
  \<open>norm_adv_by_std_in_grpo\<close> reaches \<open>grpo\<close> but neither \<open>grpo_vectorized\<close> nor \<open>gdpo\<close>, which normalise
  whatever it says; \<open>grpo_vectorized\<close> does not accept the baselines that a batch may carry; an unregistered
  name is rejected; and preference-feedback resampling with the default configuration always raises,
  because the two missing settings are passed as \<open>None\<close> over the defaults of the function.
\<close>

lemma estimator_dispatch_limits:
  "compute_advantage lib ''grpo_vectorized'' g l True (Some c) d
     = compute_advantage lib ''grpo_vectorized'' g l False (Some (c\<lparr>norm_adv_by_std_in_grpo := b\<rparr>)) d"
  "compute_advantage lib ''gdpo'' g l True (Some c) d
     = compute_advantage lib ''gdpo'' g l False (Some (c\<lparr>norm_adv_by_std_in_grpo := b\<rparr>)) d"
  "optional_tensor ''reward_baselines'' d \<noteq> None \<Longrightarrow> call_estimator lib ''grpo_vectorized'' config d r m \<noteq> Inr out"
  "scores \<noteq> [] \<Longrightarrow> compute_weights scores (pf_method algo_config_default) (pf_pow algo_config_default)
     = Inl (ValueError ''Unsupported reweight_method: None'')"
proof -
  have "call_estimator lib ''gdpo'' (Some (c\<lparr>norm_adv_by_std_in_grpo := b\<rparr>)) d r m = call_estimator lib ''gdpo'' (Some c) d r m" for d r m
    by (simp add: call_estimator_def gdpo_components_def)
  moreover have "get_adv_estimator_fn ''gdpo'' = Inr ''gdpo''"
    by (simp add: get_adv_estimator_fn_def registered_estimators_def)
  ultimately show "compute_advantage lib ''gdpo'' g l True (Some c) d
     = compute_advantage lib ''gdpo'' g l False (Some (c\<lparr>norm_adv_by_std_in_grpo := b\<rparr>)) d"
    unfolding compute_advantage_def by simp
qed (simp_all add: compute_advantage_def get_adv_estimator_fn_def registered_estimators_def call_estimator_def
  compute_weights_def algo_config_default_def)

section \<open>Speculative decoding\<close>

lemma fractions_sum: "\<forall>r\<in>set rs. 0 \<le> r \<and> r \<le> 1 \<Longrightarrow> 0 \<le> sum_list rs \<and> sum_list rs \<le> real (length rs)"
  by (induction rs) auto

text \<open>
  With no more accepted than drafted tokens per request the mean acceptance rate is a fraction. Requests
  without a draft count as 0, so padded requests pull it down unless the mask drops them.
\<close>

lemma spec_accept_rate_fraction:
  assumes le: "list_all2 (\<le>) accepts drafts" and ne: "drafts \<noteq> []" and len: "length verifies = length drafts"
  shows "\<exists>rate acc_length. compute_spec_decode_metrics (Some drafts) (Some accepts) (Some verifies) None
      = Inr [(''rollout/spec_accept_rate'', rate), (''rollout/spec_accept_length'', acc_length)]
    \<and> 0 \<le> rate \<and> rate \<le> 1 \<and> 0 \<le> acc_length"
proof -
  let ?rates = "map (\<lambda>(a, d). if 0 < d then real a / real d else 0) (zip accepts drafts)"
  let ?lengths = "map (\<lambda>(a, v). if 0 < v then 1 + real a / real v else 0) (zip accepts verifies)"
  have same: "length accepts = length drafts" using le by (rule list_all2_lengthD)
  have "\<forall>r\<in>set ?rates. 0 \<le> r \<and> r \<le> 1"
    using le by (auto simp: list_all2_iff divide_le_eq)
  from fractions_sum [OF this] have "0 \<le> sum_list ?rates" "sum_list ?rates \<le> real (length drafts)"
    using same by simp_all
  moreover have "0 \<le> sum_list ?lengths" by (intro sum_list_nonneg) auto
  ultimately show ?thesis
    using ne same len by (simp add: compute_spec_decode_metrics_def drop_padded_def strict_zip_def Let_def)
qed

end
