(* ===== verification/BatchBalance.thy ===== *)
theory BatchBalance
  imports TrainerFacts DispatchFacts
begin

text \<open>
  \<open>RayPPOTrainer._balance_batch\<close>: the rows of the batch are reordered so that the equal split that the
  dispatch makes later gives every data-parallel rank a similar workload. It composes the partitioner of
  \<open>seqlen_balancing.py\<close> with the row operations of \<open>DataProto\<close>.
\<close>

section \<open>The data-parallel size\<close>

text \<open>The dispatch information of a worker group is queried once per role and cached.\<close>

definition get_dp_size :: "string \<Rightarrow> worker_group \<Rightarrow> (nat \<times> worker_group) result" where
  "get_dp_size role g =
     rbind (case map_of (dispatch_info g) role of
              Some mapping \<Rightarrow> Inr (mapping, g)
            | None \<Rightarrow> rbind (map_all (query_dispatch_info role) (workers g)) (\<lambda>mapping.
                Inr (mapping, g\<lparr>dispatch_info := dict_set role mapping (dispatch_info g)\<rparr>))) (\<lambda>(dp_rank_mapping, g').
       if dp_rank_mapping = [] then Inl (ValueError ''max() iterable argument is empty'')
       else Inr (Max (set dp_rank_mapping) + 1, g'))"

section \<open>The partitions\<close>

record balance_config =
  use_prefix_grouper :: bool
  keep_minibatch :: bool
  ppo_mini_batch_size :: nat

definition minibatch_partitions :: "int list \<Rightarrow> nat \<Rightarrow> nat \<Rightarrow> nat list list result" where
  "minibatch_partitions workload_lst minibatch_size k =
     (if minibatch_size = 0 then Inl (ZeroDivisionError ''integer division or modulo by zero'')
      else for_each (\<lambda>i parts.
               rbind (get_seqlen_balanced_partitions
                        (take minibatch_size (drop (i * minibatch_size) workload_lst)) k True)
                 (\<lambda>ps. Inr (map2 (\<lambda>acc p. acc @ map (\<lambda>x. x + minibatch_size * i) p) parts ps)))
             [0..<length workload_lst div minibatch_size] (replicate k []))"

text \<open>Light samples go to both ends of a rank's share.\<close>

definition rank_order :: "int list \<Rightarrow> nat list \<Rightarrow> nat list" where
  "rank_order workload_lst share =
     (let p = sort_key (\<lambda>x. (workload_lst ! x, x)) share in step_slice 0 2 p @ rev (step_slice 1 2 p))"

definition global_partitions ::
    "balance_config \<Rightarrow> nat \<Rightarrow> int list \<Rightarrow> 'u list option \<Rightarrow> nat list list result" where
  "global_partitions c k seqlens uids =
     (let workload_lst = calculate_workload seqlens in
      rbind (if use_prefix_grouper c \<and> uids \<noteq> None
             then (let uid_list = the uids; num_groups = card (set uid_list) in
                   if k = 0 then Inl (ZeroDivisionError ''integer modulo by zero'')
                   else if num_groups mod k \<noteq> 0
                   then Inl (ValueError (''PrefixGrouper with balance_batch requires num_uid_groups (''
                          @ show_nat num_groups @ '') % dp_size ('' @ show_nat k @ '') == 0.''))
                   else get_group_balanced_partitions seqlens uid_list k)
             else if keep_minibatch c then minibatch_partitions workload_lst (ppo_mini_batch_size c) k
             else get_seqlen_balanced_partitions workload_lst k True)
        (\<lambda>ps. Inr (if use_prefix_grouper c then ps else map (rank_order workload_lst) ps)))"

definition global_seqlens :: "mat \<Rightarrow> int list" where
  "global_seqlens a = map (\<lambda>row. \<lfloor>sum_list row\<rfloor>) a"

definition balance_batch ::
    "balance_config \<Rightarrow> worker_group \<Rightarrow> (vec, 'a) data_proto
      \<Rightarrow> (((vec, 'a) data_proto \<times> unbalance) \<times> worker_group) result" where
  "balance_batch c actor_rollout_wg d =
     rbind (get_tensor ''attention_mask'' d) (\<lambda>mask_rows.
       if mask_rows = []
       then Inl (RuntimeError ''cannot reshape tensor of 0 elements into shape [0, -1]'')
       else
         let seqlens = global_seqlens mask_rows in
         rbind (get_dp_size ''actor'' actor_rollout_wg) (\<lambda>(k, wg).
         rbind (global_partitions c k seqlens (map_of (non_tensor_batch d) ''uid'')) (\<lambda>parts.
         rbind (reorder (map int (concat parts)) d) (\<lambda>d'.
         rbind (log_seqlen_unbalance seqlens parts) (\<lambda>stats. Inr ((d', stats), wg))))))"

section \<open>Partitions share out the samples\<close>

lemma mset_rank_order [simp]: "mset (rank_order w p) = mset p"
proof -
  have "mset (step_slice 0 2 q) + mset (step_slice 1 2 q) = mset q" for q :: "nat list"
    by (rule mset_even_odd)
  then show ?thesis by (simp add: rank_order_def Let_def del: One_nat_def)
qed

lemma length_rank_order [simp]: "length (rank_order w p) = length p"
  by (metis mset_rank_order size_mset)

lemma set_rank_order [simp]: "set (rank_order w p) = set p"
  by (metis mset_rank_order set_mset_mset)

lemma calculate_workload_take: "calculate_workload (take n (drop m l)) = take n (drop m (calculate_workload l))"
  by (simp add: calculate_workload_def take_map drop_map)

text \<open>Runs of equal length give parts of equal length.\<close>

lemma group_parts_equal:
  assumes run: "get_group_balanced_partitions l uids k = Inr ps" and nn: "\<forall>s\<in>set l. 0 \<le> s"
    and runs: "\<forall>r\<in>set (uid_groups 0 uids None [] []). length r = g"
  shows "\<forall>p\<in>set ps. length p * k = length l"
proof -
  let ?gs = "uid_groups 0 uids None [] []"
  let ?w = "map (part_sum (calculate_workload l)) ?gs"
  obtain qs where len: "length l = length uids"
    and qs: "get_seqlen_balanced_partitions ?w k True = Inr qs"
    and ps: "ps = map (\<lambda>p. sort (concat (map ((!) ?gs) p))) qs"
    using run by (auto simp: get_group_balanced_partitions_def Let_def passert_eq_Inr rbind_eq_Inr)
  have "0 \<le> part_sum (calculate_workload l) r" if r: "r \<in> set ?gs" for r
  proof -
    have "i < length l" if "i \<in> set r" for i
    proof -
      have "i \<in> set (concat ?gs)" using r that by auto
      then show ?thesis unfolding uid_groups_start(1) len by simp
    qed
    then show ?thesis
      using calculate_workload_nonneg [of l] nn by (auto simp: part_sum_def intro!: sum_list_nonneg)
  qed
  then have part: "index_partition (length ?gs) k qs" "\<forall>q\<in>set qs. length q * k = length ?gs"
    using balanced_partitions_Inr [OF qs] by auto
  have total: "length l = g * length ?gs"
  proof -
    have "length (concat ?gs) = sum_list (map length ?gs)" by (rule length_concat)
    also have "map length ?gs = map (\<lambda>_. g) ?gs" using runs by (intro map_cong) auto
    finally show ?thesis using len by (simp add: uid_groups_start(1) sum_list_triv mult.commute)
  qed
  have "length (concat (map ((!) ?gs) q)) = g * length q" if q: "q \<in> set qs" for q
  proof -
    have "j < length ?gs" if "j \<in> set q" for j
      using that q index_partition_set [OF part(1)] by auto
    then have "map length (map ((!) ?gs) q) = map (\<lambda>_. g) q" using runs by (auto intro!: map_cong)
    then show ?thesis by (simp add: length_concat sum_list_triv mult.commute del: map_map)
  qed
  then show ?thesis using part(2) total by (auto simp: ps)
qed

text \<open>The micro-steps of the mini-batch loop: the shares of the mini-batches seen so far.\<close>

definition even_shares :: "nat \<Rightarrow> nat \<Rightarrow> nat list list \<Rightarrow> bool" where
  "even_shares n k ps \<longleftrightarrow> length ps = k \<and> mset (concat ps) = mset [0..<n] \<and> (\<forall>p\<in>set ps. length p * k = n)"

lemma mset_concat_map2: "length as = length bs \<Longrightarrow> mset (concat (map2 (@) as bs)) = mset (concat as) + mset (concat bs)"
  by (induction as bs rule: list_induct2) auto

lemma minibatch_step:
  assumes acc: "even_shares (s * i) k parts" and w: "\<forall>x\<in>set w. 0 \<le> x" and len: "Suc i * s \<le> length w"
    and run: "get_seqlen_balanced_partitions (take s (drop (i * s) w)) k True = Inr ps"
  shows "even_shares (s * Suc i) k (map2 (\<lambda>acc p. acc @ map (\<lambda>x. x + s * i) p) parts ps)"
proof -
  let ?w = "take s (drop (i * s) w)"
  have lw: "length ?w = s" using len by simp
  have "\<forall>x\<in>set ?w. 0 \<le> x" using w by (meson in_set_dropD in_set_takeD)
  then have ps: "length ps = k" "mset (concat ps) = mset [0..<s]" "\<forall>p\<in>set ps. length p * k = s"
    using balanced_partitions_Inr [OF run] lw by (auto simp: index_partition_def)
  let ?qs = "map (map (\<lambda>x. x + s * i)) ps"
  have eq: "map2 (\<lambda>acc p. acc @ map (\<lambda>x. x + s * i) p) parts ps = map2 (@) parts ?qs"
    by (simp add: zip_map2 split_def comp_def)
  have "mset (concat ?qs) = mset (map (\<lambda>x. x + s * i) [0..<s])"
    using ps(2) by (metis map_concat mset_map)
  also have "map (\<lambda>x. x + s * i) [0..<s] = [s * i..<s * Suc i]" by (rule nth_equalityI) auto
  finally have "mset (concat (map2 (@) parts ?qs)) = mset [0..<s * i] + mset [s * i..<s * Suc i]"
    using acc ps(1) by (simp add: mset_concat_map2 even_shares_def)
  also have "[0..<s * Suc i] = [0..<s * i] @ [s * i..<s * Suc i]"
    using upt_add_eq_append [of 0 "s * i" s] by (simp add: add.commute)
  then have "mset [0..<s * i] + mset [s * i..<s * Suc i] = mset [0..<s * Suc i]" by (metis mset_append)
  finally have m: "mset (concat (map2 (@) parts ?qs)) = mset [0..<s * Suc i]" .
  have "length p * k = s * Suc i" if pm: "p \<in> set (map2 (@) parts ?qs)" for p
  proof -
    obtain a b where ab: "(a, b) \<in> set (zip parts ?qs)" "p = a @ b" using pm by auto
    have "a \<in> set parts" "b \<in> set ?qs" by (rule set_zip_leftD [OF ab(1)], rule set_zip_rightD [OF ab(1)])
    note ab = this ab(2)
    show ?thesis using ab acc ps(3) by (auto simp: even_shares_def algebra_simps)
  qed
  then show ?thesis using m acc ps(1) by (simp add: even_shares_def eq)
qed

lemma minibatch_shares:
  assumes run: "minibatch_partitions w s k = Inr parts" and w: "\<forall>x\<in>set w. 0 \<le> x"
  shows "even_shares (s * (length w div s)) k parts"
proof -
  let ?f = "\<lambda>i parts. rbind (get_seqlen_balanced_partitions (take s (drop (i * s) w)) k True)
    (\<lambda>ps. Inr (map2 (\<lambda>acc p. acc @ map (\<lambda>x. x + s * i) p) parts ps))"
  have s: "s \<noteq> 0" and loop: "for_each ?f [0..<length w div s] (replicate k []) = Inr parts"
    using run by (auto simp: minibatch_partitions_def split: if_splits)
  have "for_each ?f [0..<j] (replicate k []) = Inr ps \<Longrightarrow> j \<le> length w div s \<Longrightarrow> even_shares (s * j) k ps" for j ps
  proof (induction j arbitrary: ps)
    case 0
    then show ?case by (auto simp: even_shares_def)
  next
    case (Suc j)
    obtain qs where qs: "for_each ?f [0..<j] (replicate k []) = Inr qs" "?f j qs = Inr ps"
      using Suc.prems(1) by (auto simp: for_each_append rbind_eq_Inr)
    have "Suc j * s \<le> length w" using Suc.prems(2) s by (metis div_times_less_eq_dividend le_trans mult_le_mono1)
    then show ?case using Suc.IH [OF qs(1)] Suc.prems(2) qs(2) minibatch_step [OF _ w] by (auto simp: rbind_eq_Inr)
  qed
  then show ?thesis using loop by blast
qed

text \<open>What the configuration needs for equal shares: whole mini-batches, or groups of one size.\<close>

definition shares_fit :: "balance_config \<Rightarrow> 'u list option \<Rightarrow> nat \<Rightarrow> bool" where
  "shares_fit c uids n \<longleftrightarrow>
     (case uids of
        Some us \<Rightarrow> if use_prefix_grouper c then \<exists>g. \<forall>r\<in>set (uid_groups 0 us None [] []). length r = g
                   else keep_minibatch c \<longrightarrow> ppo_mini_batch_size c dvd n
      | None \<Rightarrow> keep_minibatch c \<longrightarrow> ppo_mini_batch_size c dvd n)"

lemma even_shares_order: "even_shares n k (map (rank_order w) ps) \<longleftrightarrow> even_shares n k ps"
proof -
  have "mset (concat (map (rank_order w) ps)) = mset (concat ps)" by (induction ps) auto
  then show ?thesis by (simp add: even_shares_def)
qed

lemma global_partitions_shares:
  assumes run: "global_partitions c k seqlens uids = Inr parts" and nn: "\<forall>s\<in>set seqlens. 0 \<le> s"
    and fit: "shares_fit c uids (length seqlens)"
  shows "even_shares (length seqlens) k parts"
proof -
  let ?w = "calculate_workload seqlens"
  have w: "\<forall>x\<in>set ?w. 0 \<le> x" using calculate_workload_nonneg nn by blast
  have simple: "even_shares (length seqlens) k ps"
    if "(if keep_minibatch c then minibatch_partitions ?w (ppo_mini_batch_size c) k
         else get_seqlen_balanced_partitions ?w k True) = Inr ps"
      and "keep_minibatch c \<longrightarrow> ppo_mini_batch_size c dvd length seqlens" for ps
  proof (cases "keep_minibatch c")
    case True
    then show ?thesis using minibatch_shares [of ?w "ppo_mini_batch_size c" k ps] that w by simp
  next
    case False
    then show ?thesis using balanced_partitions_Inr [of ?w k True ps] that w by (auto simp: even_shares_def index_partition_def)
  qed
  show ?thesis
  proof (cases "use_prefix_grouper c \<and> uids \<noteq> None")
    case True
    then obtain us where us: "uids = Some us" "use_prefix_grouper c" by auto
    then have part: "get_group_balanced_partitions seqlens us k = Inr parts"
      using run by (auto simp: global_partitions_def Let_def rbind_eq_Inr split: if_splits)
    obtain g where "\<forall>r\<in>set (uid_groups 0 us None [] []). length r = g" using fit us by (auto simp: shares_fit_def)
    then show ?thesis
      using group_partitions_runs [OF part nn] group_parts_equal [OF part nn, of g] by (simp add: even_shares_def)
  next
    case False
    then obtain ps where ps: "(if keep_minibatch c then minibatch_partitions ?w (ppo_mini_batch_size c) k
         else get_seqlen_balanced_partitions ?w k True) = Inr ps"
      and parts: "parts = (if use_prefix_grouper c then ps else map (rank_order ?w) ps)"
      using run unfolding global_partitions_def Let_def if_not_P [OF False] rbind_eq_Inr by auto
    have "keep_minibatch c \<longrightarrow> ppo_mini_batch_size c dvd length seqlens"
      using fit False by (auto simp: shares_fit_def split: option.splits)
    then show ?thesis using simple [OF ps] by (simp add: parts even_shares_order)
  qed
qed

section \<open>The batch after balancing\<close>

lemma part_of_shares:
  assumes "\<forall>p\<in>set ps. length p = m" and "i < length ps" and "0 < length ps"
  shows "part (length ps) (concat ps) i = ps ! i"
proof -
  have total: "length (concat ps) = length ps * m"
    using assms(1) by (induction ps) auto
  have block: "map ((!) xs) [a..<a + l] = take l (drop a xs)" if "a + l \<le> length xs" for a l and xs :: "'a list"
    using that by (intro nth_equalityI) auto
  have "Suc i * m \<le> length ps * m" using assms(2) by (intro mult_le_mono1) simp
  then have "part (length ps) (concat ps) i = take m (drop (i * m) (concat ps))"
    using block [of "i * m" m "concat ps"] total assms(3) by (simp add: part_def add.commute)
  also have "take m (drop (i * m) (concat ps)) = ps ! i"
    using assms(1,2)
  proof (induction ps arbitrary: i)
    case (Cons p ps)
    then show ?case by (cases i) (auto simp: add.commute)
  qed simp
  finally show ?thesis .
qed

lemma get_dp_size_Inr:
  assumes "get_dp_size role g = Inr (k, g')"
  shows "\<exists>mapping. map_of (dispatch_info g') role = Some mapping \<and> mapping \<noteq> [] \<and> k = Max (set mapping) + 1
    \<and> workers g' = workers g \<and> (map_of (dispatch_info g) role = None \<longrightarrow> length mapping = length (workers g))
    \<and> (\<forall>m. map_of (dispatch_info g) role = Some m \<longrightarrow> m = mapping)"
  using assms by (auto simp: get_dp_size_def rbind_eq_Inr map_of_dict_set dest: map_all_length split: option.splits if_splits)

lemma balance_batch_Inr:
  fixes d :: "(vec, 'a) data_proto"
  assumes ok: "ok_proto d" and mask: "get_tensor ''attention_mask'' d = Inr mask_rows"
    and nn: "\<forall>row\<in>set mask_rows. \<forall>x\<in>set row. 0 \<le> x"
    and fit: "shares_fit c (map_of (non_tensor_batch d) ''uid'') (dlen d)"
    and run: "balance_batch c wg d = Inr ((d', stats), wg')"
  shows "\<exists>k shares. get_dp_size ''actor'' wg = Inr (k, wg') \<and> even_shares (dlen d) k shares
    \<and> d' = rows_at (concat shares) d \<and> 0 < dlen d"
proof -
  obtain td where td: "batch d = Some td" using mask by (cases "batch d") (simp_all add: get_tensor_def)
  have "(''attention_mask'', mask_rows) \<in> set (td_items td)"
    using mask by (auto simp: get_tensor_def td dict_index_def dest: map_of_SomeD split: option.splits)
  then have len: "length (global_seqlens mask_rows) = dlen d"
    using ok td by (auto simp: ok_proto_def ok_items_def dlen_def global_seqlens_def)
  have "\<forall>s\<in>set (global_seqlens mask_rows). 0 \<le> s"
    using nn by (auto simp: global_seqlens_def intro!: sum_list_nonneg)
  note nn = this
  obtain k shares where ne: "mask_rows \<noteq> []" and dp: "get_dp_size ''actor'' wg = Inr (k, wg')"
    and parts: "global_partitions c k (global_seqlens mask_rows) (map_of (non_tensor_batch d) ''uid'') = Inr shares"
    and re: "reorder (map int (concat shares)) d = Inr d'"
    using run by (auto simp: balance_batch_def mask Let_def rbind_eq_Inr split: if_splits)
  have shares: "length shares = k" "mset (concat shares) = mset [0..<dlen d]" "\<forall>s\<in>set shares. length s * k = dlen d"
    using global_partitions_shares [OF parts nn] fit len by (simp_all add: even_shares_def)
  have in_range: "\<forall>i\<in>set (concat shares). i < dlen d" using shares(2) by (metis atLeastLessThan_upt atLeastLessThan_iff set_mset_mset)
  have "map (position (dlen d)) (map int (concat shares)) = concat shares"
    by (rule nth_equalityI) (simp_all add: position_def)
  moreover have "list_all (in_bounds (dlen d)) (map int (concat shares))"
    using in_range by (auto simp: list_all_iff in_bounds_def)
  ultimately have d': "d' = rows_at (concat shares) d"
    using reorder_rows [OF ok, of "map int (concat shares)"] td re by simp
  moreover have "0 < dlen d" using len ne by (simp add: global_seqlens_def flip: len)
  ultimately show ?thesis using dp shares by (intro exI [of _ k] exI [of _ shares]) (simp add: even_shares_def)
qed

text \<open>C26: when \<open>_balance_batch\<close> returns, the batch holds the same rows in another order, one share of equal size for
  each data-parallel rank, and the dispatch to the actor's mesh hands every worker exactly the share of its
  rank: plain balancing, balancing of mini-batches when their size divides the batch, and balancing of prompt
  groups when they all have one size (\<open>shares_fit\<close>). The attention mask is not negative and a cached rank mapping
  has an entry for every worker.\<close>

theorem balance_then_dispatch:
  fixes d :: "(vec, 'a) data_proto"
  assumes ok: "ok_proto d" and mask: "get_tensor ''attention_mask'' d = Inr mask_rows"
    and nn: "\<forall>row\<in>set mask_rows. \<forall>x\<in>set row. 0 \<le> x"
    and cached: "\<forall>m. map_of (dispatch_info wg) ''actor'' = Some m \<longrightarrow> length m = world_size wg"
    and fit: "shares_fit c (map_of (non_tensor_batch d) ''uid'') (dlen d)"
    and run: "balance_batch c wg d = Inr ((d', stats), wg')"
  shows "\<exists>shares mapping. map_of (dispatch_info wg') ''actor'' = Some mapping \<and> length mapping = world_size wg'
    \<and> length shares = Max (set mapping) + 1 \<and> mset (concat shares) = mset [0..<dlen d]
    \<and> (\<forall>s\<in>set shares. length s * length shares = dlen d) \<and> d' = rows_at (concat shares) d
    \<and> dispatch_lazy_compute_data_proto global ''actor'' wg' [d'] []
        = Inr (([map (\<lambda>i. rows_at (shares ! (mapping ! i)) d) [0..<length mapping]], []), wg')"
proof -
  obtain k shares where dp: "get_dp_size ''actor'' wg = Inr (k, wg')" and even: "even_shares (dlen d) k shares"
    and d': "d' = rows_at (concat shares) d" and pos: "0 < dlen d"
    using balance_batch_Inr [OF ok mask nn fit run] by blast
  have shares: "length shares = k" "mset (concat shares) = mset [0..<dlen d]" "\<forall>s\<in>set shares. length s * k = dlen d"
    using even by (simp_all add: even_shares_def)
  obtain mapping where m: "map_of (dispatch_info wg') ''actor'' = Some mapping" "mapping \<noteq> []" "k = Max (set mapping) + 1"
    "length mapping = world_size wg'"
    using get_dp_size_Inr [OF dp] cached by (auto simp: world_size_def)
  define n where "n = dlen d"
  have n: "0 < n" using pos by (simp add: n_def)
  have lc: "length (concat shares) = n" using shares(2) by (metis length_upt minus_nat.diff_0 n_def size_mset)
  have k0: "0 < k" using m(3) by simp
  then have "hd shares \<in> set shares" using shares(1) by (cases shares) simp_all
  then have "length (hd shares) * k = n" using shares(3) n_def by blast
  then have k: "0 < k" "k dvd n" using k0 by auto
  have ok': "ok_proto d'" "dlen d' = n" unfolding d' using ok_rows_at [OF ok] dlen_rows_at [OF ok] lc by simp_all
  have "chunk_proto global k d' = Inr (map (\<lambda>i. rows_at (part k (concat shares) i) d) [0..<k])"
    unfolding d' using chunk_positions [OF ok k(1), of "concat shares" global] k n lc by force
  also have "map (\<lambda>i. rows_at (part k (concat shares) i) d) [0..<k] = map (\<lambda>i. rows_at (shares ! i) d) [0..<k]"
  proof (rule map_cong [OF refl])
    fix i assume "i \<in> set [0..<k]"
    moreover have "\<forall>s\<in>set shares. length s = n div k" using shares(3) k by (auto simp: n_def)
    ultimately show "rows_at (part k (concat shares) i) d = rows_at (shares ! i) d"
      using part_of_shares [of shares "n div k" i] shares(1) k by simp
  qed
  finally have chunks: "chunk_proto global k d' = Inr (map (\<lambda>i. rows_at (shares ! i) d) [0..<k])" .
  have split: "split_args_kwargs_data_proto global k [d'] ([] :: (string \<times> (vec, 'a) data_proto) list)
      = Inr ([map (\<lambda>i. rows_at (shares ! i) d) [0..<k]], [])"
    by (simp add: split_args_kwargs_data_proto_def chunks passert_def)
  have "\<forall>r\<in>set mapping. r < k" using m(3) by (simp add: less_Suc_eq_le)
  from dispatch_nd_rows [OF this, of "[d]" "\<lambda>d i. rows_at (shares ! i) d" "[]"]
  have "dispatch_nd_compute mapping k (world_size wg') [map (\<lambda>i. rows_at (shares ! i) d) [0..<k]] []
    = Inr ([map (\<lambda>i. rows_at (shares ! (mapping ! i)) d) [0..<length mapping]], [])" by (simp add: m(4))
  then have "dispatch_lazy_compute_data_proto global ''actor'' wg' [d'] []
        = Inr (([map (\<lambda>i. rows_at (shares ! (mapping ! i)) d) [0..<length mapping]], []), wg')"
    using m split by (simp add: dispatch_lazy_compute_data_proto_def Let_def)
  then show ?thesis using m shares d' by (intro exI [of _ shares] exI [of _ mapping]) simp
qed

definition demo_padded :: "(vec, nat) data_proto" where
  "demo_padded = \<lparr>batch = Some \<lparr>td_size = 4, td_items = [(''attention_mask'', [[1, 0], [1, 1], [1, 1], [0, 1]])]\<rparr>,
     non_tensor_batch = [], meta_info = []\<rparr>"

definition demo_group :: worker_group where
  "demo_group = \<lparr>workers = map (\<lambda>r. \<lparr>dispatch_dp_rank = [(''actor'', r)], collect_dp_rank = []\<rparr>) [0, 0, 1, 1],
     dispatch_info = [], collect_info = []\<rparr>"

definition plain_balance :: balance_config where
  "plain_balance = \<lparr>use_prefix_grouper = False, keep_minibatch = False, ppo_mini_batch_size = 2\<rparr>"

lemma plain_balance_uids: "global_partitions plain_balance k l uids = global_partitions plain_balance k l (None :: nat list option)"
  by (simp add: global_partitions_def plain_balance_def)

lemma demo_balanced:
  assumes ok: "ok_proto d" "dlen d = 4" and mask: "get_tensor ''attention_mask'' d = Inr [[1, 0], [1, 1], [1, 1], [0, 1]]"
  shows "balance_batch plain_balance demo_group d
    = Inr ((rows_at [0, 2, 3, 1] d, \<lparr>ub_min = 3, ub_max = 3, ub_minmax_diff = 0, ub_balanced_min = 3, ub_balanced_max = 3, ub_mean = 3\<rparr>),
        demo_group\<lparr>dispatch_info := [(''actor'', [0, 0, 1, 1])]\<rparr>)"
proof -
  have lens: "global_seqlens [[1, 0], [1, 1], [1, 1], [0, 1]] = [1, 2, 2, 1]" by (simp add: global_seqlens_def)
  have dp: "get_dp_size ''actor'' demo_group = Inr (2, demo_group\<lparr>dispatch_info := [(''actor'', [0, 0, 1, 1])]\<rparr>)"
    by (simp add: get_dp_size_def demo_group_def query_dispatch_info_def)
  have parts: "global_partitions plain_balance 2 [1, 2, 2, 1] (None :: nat list option) = Inr [[0, 2], [3, 1]]" by code_simp
  have uids: "global_partitions plain_balance 2 [1, 2, 2, 1] (map_of (non_tensor_batch d) ''uid'') = Inr [[0, 2], [3, 1]]"
    unfolding plain_balance_uids [of _ _ "map_of (non_tensor_batch d) ''uid''"] by (rule parts)
  have stats: "log_seqlen_unbalance [1, 2, 2, 1] [[0, 2], [3, 1]]
      = Inr \<lparr>ub_min = 3, ub_max = 3, ub_minmax_diff = 0, ub_balanced_min = 3, ub_balanced_max = 3, ub_mean = 3\<rparr>" by code_simp
  have "batch d \<noteq> None" using mask by (cases "batch d") (simp_all add: get_tensor_def)
  then have "reorder [0, 2, 3, 1] d = Inr (rows_at [0, 2, 3, 1] d)"
    using reorder_rows [OF ok(1), of "[0, 2, 3, 1]"] ok(2) by (simp add: in_bounds_def position_def)
  then show ?thesis
    using uids stats by (simp add: balance_batch_def mask lens dp del: One_nat_def)
qed

lemma balance_then_dispatch_witness:
  "\<exists>shares. mset (concat shares) = mset [0, 1, 2, 3] \<and> (\<forall>s\<in>set shares. length s = 2)
    \<and> rows_at [0, 2, 3, 1] demo_padded = rows_at (concat shares) demo_padded
    \<and> dispatch_lazy_compute_data_proto False ''actor'' (demo_group\<lparr>dispatch_info := [(''actor'', [0, 0, 1, 1])]\<rparr>)
          [rows_at [0, 2, 3, 1] demo_padded] []
        = Inr (([map (\<lambda>i. rows_at (shares ! i) demo_padded) [0, 0, 1, 1]], []), demo_group\<lparr>dispatch_info := [(''actor'', [0, 0, 1, 1])]\<rparr>)"
proof -
  have ok: "ok_proto demo_padded" "get_tensor ''attention_mask'' demo_padded = Inr [[1, 0], [1, 1], [1, 1], [0, 1]]"
    "\<forall>row\<in>set [[1, 0], [1, 1], [1, 1], [0, 1 :: real]]. \<forall>x\<in>set row. 0 \<le> x"
    "\<forall>m. map_of (dispatch_info demo_group) ''actor'' = Some m \<longrightarrow> length m = world_size demo_group"
    "shares_fit plain_balance (map_of (non_tensor_batch demo_padded) ''uid'') (dlen demo_padded)"
    by (simp_all add: demo_padded_def ok_proto_def ok_items_def dlen_def get_tensor_def dict_index_def demo_group_def
      shares_fit_def plain_balance_def)
  have four: "dlen demo_padded = 4" "[0..<4] = [0, 1, 2, 3 :: nat]" by (simp_all add: demo_padded_def dlen_def upt_rec)
  let ?g = "demo_group\<lparr>dispatch_info := [(''actor'', [0, 0, 1, 1])]\<rparr>"
  obtain shares mapping where s: "map_of (dispatch_info ?g) ''actor'' = Some mapping" "length shares = Max (set mapping) + 1"
      "mset (concat shares) = mset [0, 1, 2, 3]" "\<forall>s\<in>set shares. length s * length shares = 4"
      "rows_at [0, 2, 3, 1] demo_padded = rows_at (concat shares) demo_padded"
    and call: "dispatch_lazy_compute_data_proto False ''actor'' ?g [rows_at [0, 2, 3, 1] demo_padded] []
        = Inr (([map (\<lambda>i. rows_at (shares ! (mapping ! i)) demo_padded) [0..<length mapping]], []), ?g)"
    using balance_then_dispatch [OF ok demo_balanced [OF ok(1) four(1) ok(2)], of False] unfolding four by (elim exE conjE) (rule that; assumption)
  have m: "mapping = [0, 0, 1, 1]" using s(1) by simp
  have "map (\<lambda>i. rows_at (shares ! (mapping ! i)) demo_padded) [0..<length mapping]
    = map (\<lambda>i. rows_at (shares ! i) demo_padded) [0, 0, 1, 1]" by (simp add: m upt_rec)
  moreover have "\<forall>s\<in>set shares. length s = 2" using s(2,4) by (auto simp: m)
  ultimately show ?thesis using s(3,5) call by (intro exI [of _ shares]) simp
qed

text \<open>
  \<open>keep_minibatch\<close> goes through whole mini-batches only: when the mini-batch size does not divide the number
  of rows, the rows of the last mini-batch are no longer in the batch.
\<close>

lemma keep_minibatch_drops_tail:
  assumes "keep_minibatch c" and "\<not> use_prefix_grouper c" and "\<forall>s\<in>set seqlens. 0 \<le> s"
    and run: "global_partitions c k seqlens uids = Inr parts"
  shows "length (concat parts) = length seqlens - length seqlens mod ppo_mini_batch_size c"
proof -
  let ?w = "calculate_workload seqlens" and ?s = "ppo_mini_batch_size c"
  obtain ps where ps: "minibatch_partitions ?w ?s k = Inr ps" "parts = map (rank_order ?w) ps"
    using run assms(1,2) by (auto simp: global_partitions_def Let_def rbind_eq_Inr)
  have "even_shares (?s * (length ?w div ?s)) k parts"
    using minibatch_shares [OF ps(1)] calculate_workload_nonneg [of seqlens] assms(3) by (simp add: ps(2) even_shares_order)
  then have "length (concat parts) = ?s * (length seqlens div ?s)"
    unfolding even_shares_def by (metis length_upt minus_nat.diff_0 size_mset length_calculate_workload)
  then show ?thesis by (simp add: minus_mod_eq_mult_div)
qed

end
