(* ===== verification/RowOrder.thy ===== *)
theory RowOrder
  imports GroupBaselines DataProtoFacts
begin

text \<open>
  The advantage estimators under a reordering of the batch: statistics of a prompt group and masked
  reductions depend on the multiset of the rows only, so an estimator applied to the reordered rows
  gives the reordered result.
\<close>

section \<open>Reordered lists\<close>

definition reorders :: "nat list \<Rightarrow> nat \<Rightarrow> bool" where
  "reorders ps n \<longleftrightarrow> mset ps = mset [0..<n]"

lemma reorders_length: "reorders ps n \<Longrightarrow> length ps = n"
  unfolding reorders_def by (metis diff_zero length_upt size_mset)

lemma reorders_range: "reorders ps n \<Longrightarrow> i \<in> set ps \<Longrightarrow> i < n"
  unfolding reorders_def by (metis atLeastLessThan_iff set_mset_mset set_upt)

lemma mset_pick_rows: "reorders ps (length xs) \<Longrightarrow> mset (pick_rows ps xs) = mset xs"
  unfolding reorders_def pick_rows_def by (metis map_nth mset_map)

lemma pick_rows_map: "reorders ps (length xs) \<Longrightarrow> pick_rows ps (map f xs) = map f (pick_rows ps xs)"
  by (auto simp: pick_rows_def dest: reorders_range)

lemma pick_rows_zip:
  "reorders ps (length xs) \<Longrightarrow> length ys = length xs \<Longrightarrow> pick_rows ps (zip xs ys) = zip (pick_rows ps xs) (pick_rows ps ys)"
  by (auto simp: pick_rows_def zip_map_map zip_same_conv_map dest: reorders_range)

lemma pick_rows_map2:
  assumes "reorders ps (length xs)" "length ys = length xs"
  shows "pick_rows ps (map2 f xs ys) = map2 f (pick_rows ps xs) (pick_rows ps ys)"
  using assms pick_rows_map [of ps "zip xs ys"] by (simp add: pick_rows_zip)

lemma pick_rows_mzip:
  "reorders ps (length a) \<Longrightarrow> length b = length a \<Longrightarrow> pick_rows ps (mzip f a b) = mzip f (pick_rows ps a) (pick_rows ps b)"
  by (simp add: mzip_def pick_rows_map2)

lemma pick_rows_bcast:
  "reorders ps (length s) \<Longrightarrow> length m = length s \<Longrightarrow> pick_rows ps (bcast_mul s m) = bcast_mul (pick_rows ps s) (pick_rows ps m)"
  by (simp add: bcast_mul_def pick_rows_map2)

lemma pick_rows_sums: "reorders ps (length a) \<Longrightarrow> row_sums (pick_rows ps a) = pick_rows ps (row_sums a)"
  by (simp add: row_sums_def pick_rows_map)

lemma same_shape_pick: "same_shape a b \<Longrightarrow> reorders ps (length a) \<Longrightarrow> same_shape (pick_rows ps a) (pick_rows ps b)"
  using same_shape_length [of a b] unfolding same_shape_def by (metis pick_rows_map)

section \<open>Statistics of multisets\<close>

lemma sum_list_mset_eq: "mset xs = mset ys \<Longrightarrow> sum_list xs = (sum_list ys :: real)"
  by (metis sum_mset_sum_list)

lemma tmean_mset_eq: "mset xs = mset ys \<Longrightarrow> tmean xs = tmean ys"
  unfolding tmean_def by (metis mset_eq_length sum_list_mset_eq)

lemma tstd_mset_eq:
  assumes "mset xs = mset ys" shows "tstd xs = tstd ys"
proof -
  have "mset (map (\<lambda>x. (x - tmean xs)\<^sup>2) xs) = mset (map (\<lambda>x. (x - tmean xs)\<^sup>2) ys)" using assms by simp
  then show ?thesis
    unfolding tstd_def tmean_mset_eq [OF assms] using assms by (metis mset_eq_length sum_list_mset_eq)
qed

lemma mset_members_pick:
  assumes "reorders ps (length ks)" "length vs = length ks"
  shows "mset (members (pick_rows ps ks) (pick_rows ps vs) u) = mset (members ks vs u)"
proof -
  have "mset (zip (pick_rows ps ks) (pick_rows ps vs)) = mset (zip ks vs)"
    using mset_pick_rows [of ps "zip ks vs"] assms by (simp add: pick_rows_zip)
  then show ?thesis by (simp add: members_def mset_filter)
qed

lemma group_stat_pick:
  assumes "reorders ps (length ks)" "length vs = length ks" and stat: "\<And>xs ys. mset xs = mset ys \<Longrightarrow> stat xs = stat ys"
  shows "group_stat single stat (pick_rows ps ks) (pick_rows ps vs) u = group_stat single stat ks vs u"
  using mset_members_pick [OF assms(1,2), of u] stat unfolding group_stat_def Let_def by (metis mset_eq_length)

section \<open>Scores of the prompt groups\<close>

abbreviation reordered :: "nat list \<Rightarrow> 'b list result \<Rightarrow> 'b list result" where
  "reordered ps r \<equiv> rbind r (\<lambda>xs. Inr (pick_rows ps xs))"

lemma grpo_scores_pick:
  assumes "reorders ps (length scores)" "length index = length scores"
  shows "grpo_scores (pick_rows ps scores) (pick_rows ps index) epsilon by_std = reordered ps (grpo_scores scores index epsilon by_std)"
proof -
  have "group_stat (0, 1) (\<lambda>xs. (tmean xs, tstd xs)) (pick_rows ps index) (pick_rows ps scores) u
      = group_stat (0, 1) (\<lambda>xs. (tmean xs, tstd xs)) index scores u" for u
    using assms by (intro group_stat_pick) (auto intro: tmean_mset_eq tstd_mset_eq)
  then show ?thesis using assms by (simp add: grpo_scores_eq pick_rows_map2)
qed

lemma centered_scores_pick:
  assumes "reorders ps (length scores)" "length index = length scores"
  shows "centered_scores (pick_rows ps scores) (pick_rows ps index) = reordered ps (centered_scores scores index)"
proof -
  have "group_stat 0 tmean (pick_rows ps index) (pick_rows ps scores) u = group_stat 0 tmean index scores u" for u
    using assms by (intro group_stat_pick tmean_mset_eq) simp_all
  then show ?thesis using assms by (simp add: centered_scores_eq pick_rows_map2)
qed

lemma rloo_scores_pick:
  assumes "reorders ps (length scores)" "length index = length scores"
  shows "rloo_scores (pick_rows ps scores) (pick_rows ps index) = reordered ps (rloo_scores scores index)"
proof -
  have "group_stat 0 tmean (pick_rows ps index) (pick_rows ps scores) u = group_stat 0 tmean index scores u" for u
    using assms by (intro group_stat_pick tmean_mset_eq) simp_all
  moreover have "length (members (pick_rows ps index) (pick_rows ps scores) u) = length (members index scores u)" for u
    using assms by (intro mset_eq_length mset_members_pick) simp_all
  ultimately show ?thesis using assms by (simp add: rloo_scores_eq pick_rows_map2 Let_def cong: if_cong)
qed

lemma members_zip: "length xs = length ys \<Longrightarrow> zip (members ks xs u) (members ks ys u) = members ks (zip xs ys) u"
proof (induction xs ys arbitrary: ks rule: list_induct2)
  case (Cons x xs y ys)
  then show ?case by (cases ks) (simp_all add: members_def)
qed (simp add: members_def)

lemma opo_scores_pick:
  assumes "reorders ps (length scores)" "length index = length scores" "length lens = length scores"
  shows "opo_scores (pick_rows ps lens) (pick_rows ps scores) (pick_rows ps index) = reordered ps (opo_scores lens scores index)"
proof -
  let ?i = "pick_rows ps index" and ?s = "pick_rows ps scores" and ?l = "pick_rows ps lens"
  have len: "length (members ?i ?s u) = length (members index scores u)" for u
    using assms by (intro mset_eq_length mset_members_pick) simp_all
  have "weighted_mean (members ?i ?l u) (members ?i ?s u) = weighted_mean (members index lens u) (members index scores u)" for u
  proof -
    have "mset (members ?i (zip ?l ?s) u) = mset (members index (zip lens scores) u)"
      using mset_members_pick [of ps index "zip lens scores" u] assms by (simp add: pick_rows_zip)
    then have "mset (map2 (*) (members ?i ?l u) (members ?i ?s u)) = mset (map2 (*) (members index lens u) (members index scores u))"
      using assms by (simp add: members_zip)
    moreover have "mset (members ?i ?l u) = mset (members index lens u)" using assms by (intro mset_members_pick) simp_all
    ultimately show ?thesis unfolding weighted_mean_def by (metis sum_list_mset_eq)
  qed
  then show ?thesis using assms len by (simp add: opo_scores_eq pick_rows_map2 cong: if_cong)
qed

section \<open>Whitening\<close>

lemma masked_sum_rows:
  "same_shape a b \<Longrightarrow> masked_sum (concat a) (concat b) = sum_list (map2 masked_sum a b)"
proof (induction a arbitrary: b)
  case Nil
  then show ?case by (simp add: masked_sum_def)
next
  case (Cons v a)
  then obtain w b' where b: "b = w # b'" "length v = length w" "same_shape a b'" by (auto simp: same_shape_def Cons_eq_map_conv)
  then show ?case using Cons.IH by (simp add: masked_sum_append)
qed

lemma sum_list_concat_rows: "sum_list (concat b) = sum_list (map sum_list (b :: mat))"
  by (induction b) simp_all

lemma sum_concat_pick: "reorders ps (length b) \<Longrightarrow> sum_list (concat (pick_rows ps b)) = sum_list (concat b :: vec)"
  unfolding sum_list_concat_rows by (intro sum_list_mset_eq) (simp add: mset_pick_rows)

lemma masked_mean_pick:
  assumes "same_shape a b" "reorders ps (length a)"
  shows "masked_mean (concat (pick_rows ps a)) (concat (pick_rows ps b)) = masked_mean (concat a) (concat b)"
proof -
  note len = same_shape_length [OF assms(1)]
  have "mset (map2 masked_sum (pick_rows ps a) (pick_rows ps b)) = mset (map2 masked_sum a b)"
    using mset_pick_rows [of ps "map2 masked_sum a b"] assms(2) len by (simp add: pick_rows_map2)
  then have "masked_sum (concat (pick_rows ps a)) (concat (pick_rows ps b)) = masked_sum (concat a) (concat b)"
    unfolding masked_sum_rows [OF assms(1)] masked_sum_rows [OF same_shape_pick [OF assms]] by (rule sum_list_mset_eq)
  then show ?thesis using assms(2) len by (simp add: masked_mean_def sum_concat_pick)
qed

lemma masked_whiten_pick:
  assumes "same_shape a b" "reorders ps (length a)"
  shows "masked_whiten (pick_rows ps a) (pick_rows ps b) shift = reordered ps (masked_whiten a b shift)"
proof -
  note len = same_shape_length [OF assms(1)]
  let ?f = "\<lambda>x. (x - masked_mean (concat a) (concat b))\<^sup>2"
  have "same_shape (mmap ?f a) b" using assms(1) by (simp add: same_shape_def mmap_def comp_def)
  then have "masked_mean (concat (pick_rows ps (mmap ?f a))) (concat (pick_rows ps b)) = masked_mean (concat (mmap ?f a)) (concat b)"
    using assms(2) by (intro masked_mean_pick) (simp_all add: mmap_def)
  then have "masked_var (concat (pick_rows ps a)) (concat (pick_rows ps b)) True = masked_var (concat a) (concat b) True"
    using assms len by (simp add: masked_var_def masked_mean_pick sum_concat_pick map_concat mmap_def pick_rows_map Let_def)
  then show ?thesis
    using assms by (cases "masked_var (concat a) (concat b) True")
      (simp_all add: masked_whiten_def masked_mean_pick mmap_def pick_rows_map comp_def Let_def)
qed

section \<open>The estimators\<close>

abbreviation both_reordered :: "nat list \<Rightarrow> (mat \<times> mat) result \<Rightarrow> (mat \<times> mat) result" where
  "both_reordered ps r \<equiv> rbind r (\<lambda>(a, b). Inr (pick_rows ps a, pick_rows ps b))"

lemma scores_length:
  assumes "length index = length scores"
  shows "grpo_scores scores index epsilon by_std = Inr xs \<Longrightarrow> length xs = length scores"
    "centered_scores scores index = Inr xs \<Longrightarrow> length xs = length scores"
    "rloo_scores scores index = Inr xs \<Longrightarrow> length xs = length scores"
    "length lens = length scores \<Longrightarrow> opo_scores lens scores index = Inr xs \<Longrightarrow> length xs = length scores"
  using assms by (auto simp: grpo_scores_eq centered_scores_eq rloo_scores_eq opo_scores_eq)

lemma bcast_reordered:
  assumes "reorders ps n" "length m = n" and len: "\<And>xs. r = Inr xs \<Longrightarrow> length xs = n"
  shows "rbind (reordered ps r) (\<lambda>xs. let a = bcast_mul xs (pick_rows ps m) in Inr (a, a))
    = both_reordered ps (rbind r (\<lambda>xs. let a = bcast_mul xs m in Inr (a, a)))"
  using assms(1,2) len by (cases r) (auto simp: Let_def pick_rows_bcast)

lemma group_estimators_pick:
  assumes ps: "reorders ps (length rewards)" and len: "length m = length rewards" "length index = length rewards"
  shows "compute_grpo_outcome_advantage (pick_rows ps rewards) (pick_rows ps m) (pick_rows ps index) epsilon by_std
      = both_reordered ps (compute_grpo_outcome_advantage rewards m index epsilon by_std)"
    and "compute_rloo_outcome_advantage (pick_rows ps rewards) (pick_rows ps m) (pick_rows ps index)
      = both_reordered ps (compute_rloo_outcome_advantage rewards m index)"
    and "compute_opo_outcome_advantage (pick_rows ps rewards) (pick_rows ps m) (pick_rows ps index)
      = both_reordered ps (compute_opo_outcome_advantage rewards m index)"
proof -
  have s: "reorders ps (length (row_sums rewards))" "length index = length (row_sums rewards)" "length (row_sums m) = length (row_sums rewards)"
    using ps len by simp_all
  note scores = grpo_scores_pick [OF s(1,2)] rloo_scores_pick [OF s(1,2)] opo_scores_pick [OF s]
  note sums = pick_rows_sums [OF ps] pick_rows_sums [of ps m, unfolded len(1), OF ps]
  have lengths: "grpo_scores (row_sums rewards) index epsilon by_std = Inr xs \<Longrightarrow> length xs = length rewards"
    "rloo_scores (row_sums rewards) index = Inr xs \<Longrightarrow> length xs = length rewards"
    "opo_scores (row_sums m) (row_sums rewards) index = Inr xs \<Longrightarrow> length xs = length rewards" for xs
    using scores_length(1,3) [OF s(2)] scores_length(4) [OF s(2,3)] by simp_all
  show "compute_grpo_outcome_advantage (pick_rows ps rewards) (pick_rows ps m) (pick_rows ps index) epsilon by_std
      = both_reordered ps (compute_grpo_outcome_advantage rewards m index epsilon by_std)"
    unfolding compute_grpo_outcome_advantage_def sums scores by (rule bcast_reordered [OF ps len(1) lengths(1)])
  show "compute_rloo_outcome_advantage (pick_rows ps rewards) (pick_rows ps m) (pick_rows ps index)
      = both_reordered ps (compute_rloo_outcome_advantage rewards m index)"
    unfolding compute_rloo_outcome_advantage_def sums scores by (rule bcast_reordered [OF ps len(1) lengths(2)])
  show "compute_opo_outcome_advantage (pick_rows ps rewards) (pick_rows ps m) (pick_rows ps index)
      = both_reordered ps (compute_opo_outcome_advantage rewards m index)"
    unfolding compute_opo_outcome_advantage_def sums scores by (rule bcast_reordered [OF ps len(1) lengths(3)])
qed

lemma whitened_reordered:
  assumes "reorders ps (length a)" "same_shape a m"
  shows "rbind (masked_whiten (pick_rows ps a) (pick_rows ps m) True)
      (\<lambda>w. let b = mzip (*) w (pick_rows ps m) in Inr (b, b))
    = both_reordered ps (rbind (masked_whiten a m True) (\<lambda>w. let b = mzip (*) w m in Inr (b, b)))"
proof -
  have "length w = length a" if "masked_whiten a m True = Inr w" for w
    using that by (auto simp: masked_whiten_def Let_def rbind_eq_Inr mmap_def)
  then show ?thesis
    using assms same_shape_length [OF assms(2)]
    by (cases "masked_whiten a m True") (auto simp: masked_whiten_pick Let_def pick_rows_mzip)
qed

lemma same_shape_bcast: "length s = length m \<Longrightarrow> same_shape (bcast_mul s m) m"
  by (induction s m rule: list_induct2) (simp_all add: same_shape_def bcast_mul_def)

lemma rfpp_baseline_pick:
  assumes ps: "reorders ps (length rewards)" and len: "length m = length rewards" "length index = length rewards"
  shows "compute_reinforce_plus_plus_baseline_outcome_advantage (pick_rows ps rewards) (pick_rows ps m) (pick_rows ps index)
      = both_reordered ps (compute_reinforce_plus_plus_baseline_outcome_advantage rewards m index)"
proof (cases "centered_scores (row_sums rewards) index")
  case (Inl e)
  then show ?thesis
    using ps len by (simp add: compute_reinforce_plus_plus_baseline_outcome_advantage_def pick_rows_sums centered_scores_pick)
next
  case (Inr xs)
  then have xs: "length xs = length rewards" using scores_length(2) [of index "row_sums rewards"] len by simp
  have "rbind (masked_whiten (pick_rows ps (bcast_mul xs m)) (pick_rows ps m) True) (\<lambda>w. let b = mzip (*) w (pick_rows ps m) in Inr (b, b))
      = both_reordered ps (rbind (masked_whiten (bcast_mul xs m) m True) (\<lambda>w. let b = mzip (*) w m in Inr (b, b)))"
    using ps len xs by (intro whitened_reordered same_shape_bcast) simp_all
  then show ?thesis
    using ps len xs Inr
    by (simp add: compute_reinforce_plus_plus_baseline_outcome_advantage_def pick_rows_sums centered_scores_pick pick_rows_bcast)
qed

lemma gpg_pick:
  assumes ps: "reorders ps (length rewards)" and len: "length m = length rewards" "length index = length rewards"
  shows "compute_gpg_outcome_advantage (pick_rows ps rewards) (pick_rows ps m) (pick_rows ps index) f_norm
      = both_reordered ps (compute_gpg_outcome_advantage rewards m index f_norm)"
proof -
  let ?s = "row_sums rewards"
  have "length (filter (\<lambda>s. s \<noteq> 0) (pick_rows ps ?s)) = length (filter (\<lambda>s. s \<noteq> 0) ?s)"
    using mset_pick_rows [of ps ?s] ps by (intro mset_eq_length) (simp add: mset_filter)
  moreover have "length ps = length rewards" using reorders_length [OF ps] .
  moreover have "length xs = length rewards" if "centered_scores ?s index = Inr xs" for xs
    using scores_length(2) [OF _ that] len by simp
  ultimately show ?thesis
    using ps len by (cases "centered_scores ?s index")
      (auto simp: compute_gpg_outcome_advantage_def pick_rows_sums centered_scores_pick Let_def pick_rows_bcast pick_rows_map)
qed

text \<open>The estimators that work row by row up to the whitening.\<close>

lemma rfpp_pick:
  assumes ps: "reorders ps (length rewards)" and shape: "same_shape rewards m"
  shows "compute_reinforce_plus_plus_outcome_advantage (pick_rows ps rewards) (pick_rows ps m) discount
      = both_reordered ps (compute_reinforce_plus_plus_outcome_advantage rewards m discount)"
proof -
  note len = same_shape_length [OF shape]
  let ?r = "rfpp_returns rewards m discount"
  have row: "length (snd (rfpp_row discount xs)) = length xs" for xs
    by (induction discount xs rule: rfpp_row.induct) (auto simp: Let_def split: prod.splits)
  have "rfpp_returns (pick_rows ps rewards) (pick_rows ps m) discount = pick_rows ps ?r"
    using ps len by (simp add: rfpp_returns_def pick_rows_map2)
  moreover have shape_r: "same_shape ?r m"
    using shape by (auto simp: same_shape_def rfpp_returns_def row list_eq_iff_nth_eq)
  moreover have "length w = length ?r" if "masked_whiten ?r m True = Inr w" for w
    using that by (auto simp: masked_whiten_def Let_def rbind_eq_Inr mmap_def)
  ultimately show ?thesis
    using ps len same_shape_length [OF shape_r] by (cases "masked_whiten ?r m True")
      (auto simp: compute_reinforce_plus_plus_outcome_advantage_def Let_def masked_whiten_pick pick_rows_mzip)
qed

lemma gae_pick:
  assumes ps: "reorders ps (length rewards)" and shape: "same_shape rewards m" "same_shape vals m"
  shows "compute_gae_advantage_return (pick_rows ps rewards) (pick_rows ps vals) (pick_rows ps m) discount lambda
      = both_reordered ps (compute_gae_advantage_return rewards vals m discount lambda)"
proof -
  note len = same_shape_length [OF shape(1)] same_shape_length [OF shape(2)]
  let ?a = "gae_advantages rewards vals m discount lambda"
  have row: "length (snd (snd (gae_row discount lambda xs))) = length xs" for xs
    by (induction discount lambda xs rule: gae_row.induct) (auto simp: Let_def split: prod.splits)
  have "gae_advantages (pick_rows ps rewards) (pick_rows ps vals) (pick_rows ps m) discount lambda = pick_rows ps ?a"
    using ps len by (simp add: gae_advantages_def pick_rows_map2 pick_rows_zip)
  moreover have shape_a: "same_shape ?a m"
    using shape by (auto simp: same_shape_def gae_advantages_def row row_tokens_def list_eq_iff_nth_eq)
  moreover have "length w = length ?a" if "masked_whiten ?a m True = Inr w" for w
    using that by (auto simp: masked_whiten_def Let_def rbind_eq_Inr mmap_def)
  ultimately show ?thesis
    using ps len same_shape_length [OF shape_a] by (cases "masked_whiten ?a m True")
      (auto simp: compute_gae_advantage_return_def Let_def masked_whiten_pick pick_rows_mzip)
qed

lemma remax_pick:
  assumes ps: "reorders ps (length rewards)" and len: "length m = length rewards" "length bs = length rewards"
  shows "compute_remax_outcome_advantage (pick_rows ps rewards) (pick_rows ps bs) (pick_rows ps m)
    = map_prod (pick_rows ps) (pick_rows ps) (compute_remax_outcome_advantage rewards bs m)"
proof -
  have "length (mzip (*) rewards m) = length rewards" using len by (simp add: mzip_def)
  then have "returns_to_go (pick_rows ps rewards) (pick_rows ps m) = pick_rows ps (returns_to_go rewards m)"
    and "length (returns_to_go rewards m) = length rewards"
    using ps len by (simp_all add: returns_to_go_def pick_rows_map flip: pick_rows_mzip)
  then show ?thesis
    using ps len by (simp add: compute_remax_outcome_advantage_def Let_def pick_rows_mzip pick_rows_bcast)
qed

end
