(* ===== verification/OrderFacts.thy ===== *)
theory OrderFacts
  imports BatchBalance RowOrder
begin

text \<open>
  The comment of \<open>fit\<close> that balancing a batch does not affect the advantages: for the estimators whose
  baselines come from the prompt groups, and for those that work on single rows, the advantages of the
  balanced batch are the advantages of the batch, in the new order.
\<close>

section \<open>The batch in another order\<close>

lemma map_of_map_items: "map_of (map_items f items) key = map_option f (map_of items key)"
  by (induction items) (auto simp: map_items_def)

lemma map_items_dict_set: "map_items f (dict_set key v items) = dict_set key (f v) (map_items f items)"
  by (induction key v items rule: dict_set.induct) auto

lemma get_tensor_rows_at: "get_tensor key (rows_at ps d) = reordered ps (get_tensor key d)"
  by (simp add: get_tensor_def rows_at_def dict_index_def map_of_map_items split: option.splits)

lemma optional_tensor_rows_at: "optional_tensor key (rows_at ps d) = map_option (pick_rows ps) (optional_tensor key d)"
  by (simp add: optional_tensor_def rows_at_def map_of_map_items split: option.splits)

lemma array_rows_at: "map_of (non_tensor_batch (rows_at ps d)) key = map_option (pick_rows ps) (map_of (non_tensor_batch d) key)"
  by (simp add: rows_at_def map_of_map_items)

lemma put_advantages_rows_at:
  "put_advantages (rows_at ps d) (pick_rows ps a, pick_rows ps b) = rows_at ps (put_advantages d (a, b))"
  by (cases "batch d") (simp_all add: put_advantages_def set_tensor_def rows_at_def map_items_dict_set)

lemma tensor_length: "ok_proto d \<Longrightarrow> get_tensor key d = Inr val \<Longrightarrow> length val = dlen d"
  by (force simp: get_tensor_def dict_index_def ok_proto_def ok_items_def dlen_def dest: map_of_SomeD split: option.splits)

lemma optional_tensor_length: "ok_proto d \<Longrightarrow> optional_tensor key d = Some val \<Longrightarrow> length val = dlen d"
  by (force simp: optional_tensor_def ok_proto_def ok_items_def dlen_def dest: map_of_SomeD split: option.splits)

lemma array_length: "ok_proto d \<Longrightarrow> map_of (non_tensor_batch d) key = Some vs \<Longrightarrow> length vs = dlen d"
  by (force simp: ok_proto_def ok_items_def dest: map_of_SomeD)

section \<open>The dispatch\<close>

definition order_free :: "string set" where
  "order_free = {''gae'', ''grpo'', ''reinforce_plus_plus_baseline'', ''rloo'', ''opo'', ''reinforce_plus_plus'', ''remax'', ''gpg''}"

lemma required_reordered:
  assumes "\<And>x. v = Some x \<Longrightarrow> k' (f x) = both_reordered ps (k x)"
  shows "required fn arg (map_option f v) k' = both_reordered ps (required fn arg v k)"
  using assms by (cases v) (simp_all add: required_def)

lemma call_estimator_rows_at:
  assumes ok: "ok_proto d" and ps: "reorders ps (dlen d)" and r: "length rewards = dlen d" and shape: "same_shape rewards m"
    and name: "name \<in> order_free - {''gae'', ''grpo''}"
  shows "call_estimator lib name config (rows_at ps d) (pick_rows ps rewards) (pick_rows ps m)
    = both_reordered ps (call_estimator lib name config d rewards m)"
proof -
  have ps': "reorders ps (length rewards)" using ps r by simp
  have m: "length m = length rewards" using same_shape_length [OF shape] by simp
  have uid: "length index = length rewards" if "map_of (non_tensor_batch d) ''uid'' = Some index" for index
    using array_length [OF ok that] r by simp
  have baselines: "length bs = length rewards" if "optional_tensor ''reward_baselines'' d = Some bs" for bs
    using optional_tensor_length [OF ok that] r by simp
  consider "name = ''reinforce_plus_plus_baseline''" | "name = ''rloo''" | "name = ''opo''"
    | "name = ''reinforce_plus_plus''" | "name = ''remax''" | "name = ''gpg''"
    using name unfolding order_free_def by (elim DiffE insertE emptyE) simp_all
  then show ?thesis
  proof cases
    case 1
    then show ?thesis unfolding call_estimator_def array_rows_at Let_def
      by (simp del: rbind_Inr, intro required_reordered rfpp_baseline_pick [OF ps' m uid])
  next
    case 2
    then show ?thesis unfolding call_estimator_def array_rows_at Let_def
      by (simp del: rbind_Inr, intro required_reordered group_estimators_pick(2) [OF ps' m uid])
  next
    case 3
    then show ?thesis unfolding call_estimator_def array_rows_at Let_def
      by (simp del: rbind_Inr, intro required_reordered group_estimators_pick(3) [OF ps' m uid])
  next
    case 4
    then show ?thesis unfolding call_estimator_def Let_def
      by (cases config) (simp_all add: rfpp_pick [OF ps' shape])
  next
    case 5
    have "map hd (pick_rows ps bs) = pick_rows ps (map hd bs)" if "optional_tensor ''reward_baselines'' d = Some bs" for bs
      using baselines [OF that] ps' by (simp add: pick_rows_map)
    with 5 baselines remax_pick [OF ps' m] show ?thesis unfolding call_estimator_def optional_tensor_rows_at Let_def
      by (simp del: rbind_Inr, intro required_reordered) (simp add: map_prod_def split: prod.splits)
  next
    case 6
    then show ?thesis unfolding call_estimator_def array_rows_at Let_def
      by (simp del: rbind_Inr, intro required_reordered gpg_pick [OF ps' m uid])
  qed
qed

lemma put_both_reordered:
  "rbind (both_reordered ps r) (\<lambda>out. Inr (put_advantages (rows_at ps d) out))
    = rbind (rbind r (\<lambda>out. Inr (put_advantages d out))) (\<lambda>d'. Inr (rows_at ps d'))"
  by (cases r) (auto simp: put_advantages_rows_at)

lemma reordering_keeps_advantages:
  assumes ok: "ok_proto d" and ps: "reorders ps (dlen d)" and m: "get_tensor ''response_mask'' d = Inr m"
    and shapes: "\<forall>key\<in>{''token_level_rewards'', ''values''}. \<forall>val. get_tensor key d = Inr val \<longrightarrow> same_shape val m"
    and est: "estimator \<in> order_free" and pf: "\<forall>c\<in>set_option config. \<not> use_pf_ppo c"
  shows "compute_advantage lib estimator discount lambda by_std config (rows_at ps d)
    = rbind (compute_advantage lib estimator discount lambda by_std config d) (\<lambda>d'. Inr (rows_at ps d'))"
proof -
  have m': "get_tensor ''response_mask'' (rows_at ps d) = Inr (pick_rows ps m)" by (simp add: get_tensor_rows_at m)
  note starts = with_response_mask_present [OF m] with_response_mask_present [OF m']
  show ?thesis
  proof (cases "get_tensor ''token_level_rewards'' d")
    case (Inl e)
    then have "get_tensor ''token_level_rewards'' (rows_at ps d) = Inl e" by (simp add: get_tensor_rows_at)
    with Inl show ?thesis
      unfolding compute_advantage_def starts rbind_Inr m m' by (simp add: get_adv_estimator_fn_def)
  next
    case (Inr rewards)
    have r': "get_tensor ''token_level_rewards'' (rows_at ps d) = Inr (pick_rows ps rewards)" by (simp add: get_tensor_rows_at Inr)
    have len: "length rewards = dlen d" using tensor_length [OF ok Inr] .
    have shape: "same_shape rewards m" using shapes Inr by simp
    have ps': "reorders ps (length rewards)" using ps len by simp
    have ml: "length m = length rewards" using same_shape_length [OF shape] by simp
    consider "estimator = ''gae''" | "estimator = ''grpo''" | "estimator \<in> order_free - {''gae'', ''grpo''}" using est by auto
    then show ?thesis
    proof cases
      case 1
      show ?thesis
      proof (cases "get_tensor ''values'' d")
        case (Inl e)
        then show ?thesis
          using 1 unfolding compute_advantage_def starts rbind_Inr m m' Inr r' by (simp add: get_tensor_rows_at)
      next
        case vals: (Inr vals)
        have v': "get_tensor ''values'' (rows_at ps d) = Inr (pick_rows ps vals)" by (simp add: get_tensor_rows_at vals)
        have "same_shape vals m" using shapes vals by simp
        note gae = gae_pick [OF ps' shape this, of discount lambda]
        show ?thesis
          using pf 1 unfolding compute_advantage_def starts rbind_Inr m m' Inr r' vals v' gae
          by (cases "compute_gae_advantage_return rewards vals m discount lambda"; cases config)
            (auto simp: put_advantages_rows_at)
      qed
    next
      case 2
      show ?thesis
      proof (cases "map_of (non_tensor_batch d) ''uid''")
        case None
        then show ?thesis
          using 2 unfolding compute_advantage_def starts rbind_Inr m m' Inr r' dict_index_def array_rows_at by simp
      next
        case (Some index)
        have "length index = length rewards" using array_length [OF ok Some] len by simp
        note grpo = group_estimators_pick(1) [OF ps' ml this]
        have "compute_advantage lib estimator discount lambda by_std config (rows_at ps d)
          = rbind (both_reordered ps (compute_grpo_outcome_advantage rewards m index (1 / 10 ^ 6) by_std))
              (\<lambda>out. Inr (put_advantages (rows_at ps d) out))"
          using 2 Some unfolding compute_advantage_def starts rbind_Inr m m' Inr r' dict_index_def array_rows_at
          by (simp add: grpo)
        then show ?thesis
          using 2 Some unfolding put_both_reordered
          unfolding compute_advantage_def starts rbind_Inr m Inr dict_index_def by simp
      qed
    next
      case 3
      then have names: "estimator \<noteq> ''gae''" "estimator \<noteq> ''grpo''" "get_adv_estimator_fn estimator = Inr estimator"
        by (auto simp: get_adv_estimator_fn_def registered_estimators_def order_free_def)
      show ?thesis
        unfolding compute_advantage_def starts rbind_Inr m m' Inr r' if_not_P [OF names(1)] if_not_P [OF names(2)] names(3)
          call_estimator_rows_at [OF ok ps len shape 3] by (rule put_both_reordered)
    qed
  qed
qed

text \<open>C27: balancing the batch does not affect the advantages, which follow the prompt and not the position:
  the balanced batch has the advantages and returns of the batch, and fails where the batch fails, in the
  order of the balanced rows. For GAE, GRPO, RLOO, OPO, GPG, REINFORCE++ with and without baseline, and ReMax,
  without preference-feedback resampling, and for balancing that keeps all rows (\<open>shares_fit\<close>).\<close>

theorem balancing_keeps_advantages:
  fixes d :: "(vec, 'a) data_proto"
  assumes ok: "ok_proto d" and mask: "get_tensor ''attention_mask'' d = Inr mask_rows"
    and nn: "\<forall>row\<in>set mask_rows. \<forall>x\<in>set row. 0 \<le> x"
    and fit: "shares_fit c (map_of (non_tensor_batch d) ''uid'') (dlen d)"
    and run: "balance_batch c wg d = Inr ((d', stats), wg')"
    and m: "get_tensor ''response_mask'' d = Inr m"
    and shapes: "\<forall>key\<in>{''token_level_rewards'', ''values''}. \<forall>val. get_tensor key d = Inr val \<longrightarrow> same_shape val m"
    and est: "estimator \<in> order_free" and pf: "\<forall>c\<in>set_option config. \<not> use_pf_ppo c"
  shows "\<exists>ps. reorders ps (dlen d) \<and> d' = rows_at ps d
    \<and> compute_advantage lib estimator discount lambda by_std config d'
      = rbind (compute_advantage lib estimator discount lambda by_std config d) (\<lambda>e. Inr (rows_at ps e))"
proof -
  obtain k shares where even: "even_shares (dlen d) k shares" and d': "d' = rows_at (concat shares) d"
    using balance_batch_Inr [OF ok mask nn fit run] by blast
  have "reorders (concat shares) (dlen d)" using even by (simp add: even_shares_def reorders_def)
  with reordering_keeps_advantages [OF ok this m shapes est pf] show ?thesis unfolding d' by blast
qed

definition demo_rollout :: "(vec, nat) data_proto" where
  "demo_rollout = \<lparr>batch = Some \<lparr>td_size = 4, td_items =
       [(''attention_mask'', [[1, 0], [1, 1], [1, 1], [0, 1]]), (''response_mask'', [[1], [1], [1], [1]]),
        (''token_level_rewards'', [[5], [1], [3], [4]])]\<rparr>,
     non_tensor_batch = [(''uid'', [7, 7, 8, 8])], meta_info = []\<rparr>"

lemma balancing_keeps_advantages_witness:
  "\<exists>ps. reorders ps 4 \<and> rows_at [0, 2, 3, 1] demo_rollout = rows_at ps demo_rollout
    \<and> compute_advantage demo_libs ''rloo'' 1 1 True None (rows_at [0, 2, 3, 1] demo_rollout)
      = rbind (compute_advantage demo_libs ''rloo'' 1 1 True None demo_rollout) (\<lambda>e. Inr (rows_at ps e))"
proof -
  have ok: "ok_proto demo_rollout" "get_tensor ''attention_mask'' demo_rollout = Inr [[1, 0], [1, 1], [1, 1], [0, 1]]"
    "\<forall>row\<in>set [[1, 0], [1, 1], [1, 1], [0, 1 :: real]]. \<forall>x\<in>set row. 0 \<le> x"
    "shares_fit plain_balance (map_of (non_tensor_batch demo_rollout) ''uid'') (dlen demo_rollout)"
    and four: "dlen demo_rollout = 4" and m: "get_tensor ''response_mask'' demo_rollout = Inr [[1], [1], [1], [1]]"
    by (simp_all add: demo_rollout_def ok_proto_def ok_items_def dlen_def get_tensor_def dict_index_def
      shares_fit_def plain_balance_def)
  have shapes: "\<forall>key\<in>{''token_level_rewards'', ''values''}. \<forall>val. get_tensor key demo_rollout = Inr val
      \<longrightarrow> same_shape val [[1], [1], [1], [1 :: real]]"
    by (simp add: demo_rollout_def get_tensor_def dict_index_def same_shape_def)
  have "''rloo'' \<in> order_free" by (simp add: order_free_def)
  from balancing_keeps_advantages [OF ok demo_balanced [OF ok(1) four ok(2)] m shapes this, of None demo_libs 1 1 True]
  show ?thesis unfolding four by simp
qed

end
