(* ===== verification/SessionKeys.thy ===== *)
theory SessionKeys
  imports Rewards
begin

text \<open>
  The keys of the transfer queue (\<open>verl/trainer/main_ppo_sync.py\<close>): an agent loop may return several outputs per
  session, each stored under \<open>uid_session_index\<close>. Writing a key and splitting it are inverse, whatever the
  \<open>uid\<close>, and the scan over the keys finds the last output of every session.
\<close>

section \<open>Keys\<close>

definition make_key :: "string \<Rightarrow> nat \<Rightarrow> nat \<Rightarrow> string" where
  "make_key uid session_id index = uid @ ''_'' @ show_nat session_id @ ''_'' @ show_nat index"

text \<open>\<open>s.rsplit(c, 2)\<close>.\<close>

definition rsplit2 :: "char \<Rightarrow> string \<Rightarrow> string list" where
  "rsplit2 c s =
     (let parts = split_char c s; n = length parts
      in if n \<le> 3 then parts else join [c] (take (n - 2) parts) # drop (n - 2) parts)"

definition split_key :: "string \<Rightarrow> (string \<times> string \<times> int) result" where
  "split_key key =
     (case rsplit2 CHR ''_'' key of
        [uid, session_id, index] \<Rightarrow>
          (case parse_int index of
             Some i \<Rightarrow> Inr (uid, session_id, i)
           | None \<Rightarrow> Inl (ValueError (''invalid literal for int() with base 10: '' @ quoted index)))
      | _ \<Rightarrow> Inl (AssertionError (''Unexpected key format: '' @ key)))"

text \<open>The tags of a key.\<close>

type_synonym tags = "(string \<times> pyval) list"

section \<open>The last output of every session\<close>

text \<open>The last output of every session, in the order in which the sessions appear, as \<open>(index, row)\<close>.\<close>

definition note_output :: "(string \<times> int \<times> nat) list \<Rightarrow> string \<Rightarrow> int \<Rightarrow> nat \<Rightarrow> (string \<times> int \<times> nat) list" where
  "note_output final_sessions session_key index i =
     (case map_of final_sessions session_key of
        None \<Rightarrow> dict_set session_key (index, i) final_sessions
      | Some (j, _) \<Rightarrow> if j < index then dict_set session_key (index, i) final_sessions else final_sessions)"

fun scan_keys ::
    "nat \<Rightarrow> string list \<Rightarrow> (string \<times> int \<times> nat) list \<Rightarrow> string list \<Rightarrow> ((string \<times> int \<times> nat) list \<times> string list) result" where
  "scan_keys i [] final_sessions row_session_keys = Inr (final_sessions, row_session_keys)"
| "scan_keys i (key # keys) final_sessions row_session_keys =
     rbind (split_key key) (\<lambda>(uid, session_id, index).
       let session_key = uid @ ''_'' @ session_id
       in scan_keys (Suc i) keys (note_output final_sessions session_key index i) (row_session_keys @ [session_key]))"

definition local_index :: "(string \<times> int \<times> nat) list \<Rightarrow> string \<Rightarrow> nat" where
  "local_index final_sessions session_key = length (takeWhile (\<lambda>k. k \<noteq> session_key) (map fst final_sessions))"

section \<open>Round trip of the keys\<close>

lemma split_char_not_Nil: "split_char c s \<noteq> []"
  by (induction s) (auto split: list.splits)

lemma split_char_append: "split_char c (xs @ c # ys) = split_char c xs @ split_char c ys"
proof (induction xs)
  case (Cons x xs)
  then show ?case using split_char_not_Nil [of c xs] by (auto split: list.splits)
qed simp

lemma split_char_single: "c \<notin> set s \<Longrightarrow> split_char c s = [s]"
  by (induction s) auto

lemma join_split: "join [c] (split_char c s) = s"
proof (induction s)
  case (Cons x s)
  then show ?case using split_char_not_Nil [of c s]
    by (cases "split_char c s"; cases "tl (split_char c s)") auto
qed simp

lemma digit_char_digit: "d < 10 \<Longrightarrow> is_digit (digit_char d) \<and> of_char (digit_char d) = 48 + d"
  by (simp add: digit_char_def is_digit_def of_char_of take_bit_eq_mod)

lemma show_nat_digits: "list_all is_digit (show_nat n) \<and> show_nat n \<noteq> []"
proof (induction n rule: show_nat.induct)
  case (1 n)
  then show ?case by (subst (1 2) show_nat.simps) (auto simp: digit_char_digit)
qed

lemma parse_digits_snoc: "parse_digits (s @ [c]) = 10 * parse_digits s + (int (of_char c) - 48)"
  by (simp add: parse_digits_def)

lemma parse_show_nat: "parse_digits (show_nat n) = int n"
proof (induction n rule: show_nat.induct)
  case (1 n)
  show ?case
  proof (cases "n < 10")
    case True
    then show ?thesis by (subst show_nat.simps) (simp add: parse_digits_def digit_char_digit)
  next
    case False
    then have "parse_digits (show_nat n) = 10 * parse_digits (show_nat (n div 10)) + (int (of_char (digit_char (n mod 10))) - 48)"
      by (subst show_nat.simps) (simp add: parse_digits_snoc)
    with 1 False show ?thesis using digit_char_digit [of "n mod 10"] by (simp add: zdiv_int zmod_int)
  qed
qed

lemma digit_not_separator: "list_all is_digit s \<Longrightarrow> CHR ''_'' \<notin> set s"
  by (auto simp: list_all_iff is_digit_def)

lemma parse_int_show_nat: "parse_int (show_nat n) = Some (int n)"
proof -
  have d: "list_all is_digit (show_nat n)" "show_nat n \<noteq> []" using show_nat_digits by auto
  then have "is_digit (hd (show_nat n))" by (cases "show_nat n") auto
  then have "hd (show_nat n) \<notin> {CHR ''-'', CHR ''+''}" by (auto simp: is_digit_def)
  then show ?thesis using d by (simp add: parse_int_def parse_show_nat)
qed

lemma show_nat_inj: "show_nat m = show_nat n \<longleftrightarrow> m = n"
  by (metis of_nat_eq_iff parse_show_nat)

lemma rsplit2_key:
  assumes "CHR ''_'' \<notin> set a" "CHR ''_'' \<notin> set b"
  shows "rsplit2 CHR ''_'' (uid @ CHR ''_'' # a @ CHR ''_'' # b) = [uid, a, b]"
proof -
  have parts: "split_char CHR ''_'' (uid @ CHR ''_'' # a @ CHR ''_'' # b) = split_char CHR ''_'' uid @ [a, b]"
    using split_char_append [of "CHR ''_''" uid "a @ CHR ''_'' # b"] split_char_append [of "CHR ''_''" a b] assms
    by (simp add: split_char_single)
  show ?thesis
  proof (cases "length (split_char CHR ''_'' uid) \<le> 1")
    case True
    then have "split_char CHR ''_'' uid = [uid]"
      using split_char_not_Nil [of "CHR ''_''" uid] join_split [of "CHR ''_''" uid]
      by (cases "split_char CHR ''_'' uid") auto
    then show ?thesis by (simp add: rsplit2_def parts)
  next
    case False
    then show ?thesis by (simp add: rsplit2_def parts join_split)
  qed
qed

lemma session_key_parse: "split_key (make_key u s i) = Inr (u, show_nat s, int i)"
  using show_nat_digits [of s] show_nat_digits [of i]
  by (simp add: split_key_def make_key_def rsplit2_key digit_not_separator parse_int_show_nat)

lemma make_key_inj: "make_key u s i = make_key u' s' i' \<longleftrightarrow> u = u' \<and> s = s' \<and> i = i'"
  by (metis Pair_inject of_nat_eq_iff show_nat_inj session_key_parse sum.inject(2))

text \<open>C38: splitting a key gives back the prompt, session and index it was made from, also for prompts whose
  \<open>uid\<close> contains the separator, and different outputs have different keys.\<close>

theorem session_key_roundtrip:
  "split_key (make_key uid session_id index) = Inr (uid, show_nat session_id, int index)
   \<and> (make_key uid session_id index = make_key uid' session_id' index' \<longleftrightarrow> uid = uid' \<and> session_id = session_id' \<and> index = index')"
  by (simp add: session_key_parse make_key_inj)

section \<open>The scan over the keys\<close>

definition note_key :: "(string \<Rightarrow> string) \<Rightarrow> (string \<Rightarrow> int) \<Rightarrow> (string \<times> int \<times> nat) list \<Rightarrow> string \<times> nat \<Rightarrow> (string \<times> int \<times> nat) list" where
  "note_key session idx fin p = note_output fin (session (fst p)) (idx (fst p)) (snd p)"

lemma scan_keys_eq:
  assumes "\<And>key. key \<in> set keys \<Longrightarrow> \<exists>uid s. split_key key = Inr (uid, s, idx key) \<and> session key = uid @ ''_'' @ s"
  shows "scan_keys i keys fin out
    = Inr (foldl (note_key session idx) fin (zip keys [i..<i + length keys]), out @ map session keys)"
  using assms
proof (induction keys arbitrary: i fin out)
  case (Cons key keys)
  obtain uid s where "split_key key = Inr (uid, s, idx key)" "session key = uid @ ''_'' @ s"
    using Cons.prems [of key] by auto
  moreover have "[i..<i + length (key # keys)] = i # [Suc i..<Suc i + length keys]" by (simp add: upt_rec)
  ultimately show ?case using Cons.IH [of "Suc i"] Cons.prems by (simp add: note_key_def Let_def)
qed simp

text \<open>The dictionary after the outputs \<open>ps\<close>, pairs of a key and its row.\<close>

definition last_outputs :: "(string \<Rightarrow> string) \<Rightarrow> (string \<Rightarrow> int) \<Rightarrow> (string \<times> nat) list \<Rightarrow> (string \<times> int \<times> nat) list \<Rightarrow> bool" where
  "last_outputs session idx ps fin \<longleftrightarrow>
     distinct (map fst fin) \<and> set (map fst fin) = session ` fst ` set ps
     \<and> (\<forall>k j i. (k, j, i) \<in> set fin \<longrightarrow> (\<exists>key. (key, i) \<in> set ps \<and> session key = k \<and> idx key = j)
          \<and> (\<forall>(key, _)\<in>set ps. session key = k \<longrightarrow> idx key \<le> j))"

lemma last_outputsD:
  assumes "last_outputs session idx ps fin" and "(k, j, i) \<in> set fin"
  shows "(\<exists>key. (key, i) \<in> set ps \<and> session key = k \<and> idx key = j)
    \<and> (\<forall>(key, _)\<in>set ps. session key = k \<longrightarrow> idx key \<le> j)"
  using assms(1) [unfolded last_outputs_def, THEN conjunct2, THEN conjunct2, THEN spec, THEN spec, THEN spec, THEN mp, OF assms(2)] .

lemma dict_set_set:
  "distinct (map fst d) \<Longrightarrow> set (dict_set k v d) = {(k, v)} \<union> {(k', v'). (k', v') \<in> set d \<and> k' \<noteq> k}"
  by (induction k v d rule: dict_set.induct) (auto simp: rev_image_eqI)

lemma last_outputs_step:
  assumes fin: "last_outputs session idx ps fin"
  shows "last_outputs session idx (ps @ [p]) (note_key session idx fin p)"
proof -
  obtain key i where p: "p = (key, i)" by (cases p)
  let ?k = "session key"
  have d: "distinct (map fst fin)" "set (map fst fin) = session ` fst ` set ps" using fin by (simp_all add: last_outputs_def)
  have entries: "(\<exists>key. (key, i) \<in> set ps \<and> session key = k \<and> idx key = j)
      \<and> (\<forall>(key, _)\<in>set ps. session key = k \<longrightarrow> idx key \<le> j)" if "(k, j, i) \<in> set fin" for k j i
    using fin that unfolding last_outputs_def by blast
  show ?thesis
  proof (cases "map_of fin ?k")
    case None
    then have new: "?k \<notin> session ` fst ` set ps" using d(2) by (simp add: map_of_eq_None_iff)
    have new': "session key' \<noteq> ?k" if "(key', r) \<in> set ps" for key' r using new imageI [OF imageI [OF that], of session fst] by (metis fst_conv)
    have eq: "note_key session idx fin p = dict_set ?k (idx key, i) fin" by (simp add: note_key_def note_output_def p None)
    show ?thesis
      unfolding last_outputs_def eq
    proof (intro conjI allI impI)
      show "distinct (map fst (dict_set ?k (idx key, i) fin))" using d(1) by (rule distinct_dict_set)
      show "set (map fst (dict_set ?k (idx key, i) fin)) = session ` fst ` set (ps @ [p])"
        using d(2) by (auto simp: dict_set_keys p)
    next
      fix k j i'
      assume "(k, j, i') \<in> set (dict_set ?k (idx key, i) fin)"
      then have cases: "(k, j, i') = (?k, idx key, i) \<or> (k, j, i') \<in> set fin \<and> k \<noteq> ?k" using dict_set_set [OF d(1)] by auto
      then show "\<exists>key. (key, i') \<in> set (ps @ [p]) \<and> session key = k \<and> idx key = j" using entries [of k j i'] by (auto simp: p)
      show "\<forall>(key', _)\<in>set (ps @ [p]). session key' = k \<longrightarrow> idx key' \<le> j" using cases entries [of k j i'] new' by (auto simp: p)
    qed
  next
    case (Some jr)
    obtain j r where jr: "jr = (j, r)" by (cases jr)
    have old: "(?k, j, r) \<in> set fin" using Some jr by (auto dest: map_of_SomeD)
    show ?thesis
    proof (cases "j < idx key")
      case True
      have eq: "note_key session idx fin p = dict_set ?k (idx key, i) fin" by (simp add: note_key_def note_output_def p Some jr True)
      show ?thesis
        unfolding last_outputs_def eq
      proof (intro conjI allI impI)
        show "distinct (map fst (dict_set ?k (idx key, i) fin))" using d(1) by (rule distinct_dict_set)
        show "set (map fst (dict_set ?k (idx key, i) fin)) = session ` fst ` set (ps @ [p])"
          using d(2) by (auto simp: dict_set_keys p)
      next
        fix k j' i'
        assume "(k, j', i') \<in> set (dict_set ?k (idx key, i) fin)"
        then have cases: "(k, j', i') = (?k, idx key, i) \<or> (k, j', i') \<in> set fin \<and> k \<noteq> ?k" using dict_set_set [OF d(1)] by auto
        then show "\<exists>key. (key, i') \<in> set (ps @ [p]) \<and> session key = k \<and> idx key = j'" using entries [of k j' i'] by (auto simp: p)
        show "\<forall>(key', _)\<in>set (ps @ [p]). session key' = k \<longrightarrow> idx key' \<le> j'"
          using cases entries [OF old] entries [of k j' i'] True by (auto simp: p intro: order.trans less_imp_le)
      qed
    next
      case False
      have eq: "note_key session idx fin p = fin" by (simp add: note_key_def note_output_def p Some jr False)
      have "fst (?k, j, r) \<in> set (map fst fin)" using old by (simp only: set_map imageI)
      then have known: "?k \<in> session ` fst ` set ps" unfolding d(2) by simp
      have unique: "j' = j" if "(?k, j', i') \<in> set fin" for j' i'
        using that old d(1) by (metis eq_key_imp_eq_value prod.inject)
      show ?thesis
        unfolding last_outputs_def eq
      proof (intro conjI allI impI)
        show "distinct (map fst fin)" using d(1) .
        show "set (map fst fin) = session ` fst ` set (ps @ [p])" using d(2) known by (simp add: p insert_absorb)
      next
        fix k j' i'
        assume e: "(k, j', i') \<in> set fin"
        show "\<exists>key. (key, i') \<in> set (ps @ [p]) \<and> session key = k \<and> idx key = j'" using entries [OF e] by auto
        show "\<forall>(key', _)\<in>set (ps @ [p]). session key' = k \<longrightarrow> idx key' \<le> j'"
          using entries [OF e] unique [of j' i'] e False by (auto simp: p)
      qed
    qed
  qed
qed

lemma last_outputs_fold: "last_outputs session idx ps (foldl (note_key session idx) [] ps)"
proof (induction ps rule: rev_induct)
  case Nil
  then show ?case by (simp add: last_outputs_def)
next
  case (snoc p ps)
  then show ?case using last_outputs_step by simp
qed

text \<open>Sessions with one output each are kept in the order of the rows.\<close>

lemma fold_distinct_sessions:
  assumes "distinct (map session (map fst ps))"
  shows "foldl (note_key session idx) [] ps = map (\<lambda>(key, i). (session key, idx key, i)) ps"
  using assms
proof (induction ps rule: rev_induct)
  case (snoc p ps)
  obtain key i where p: "p = (key, i)" by (cases p)
  have app: "k \<notin> fst ` set d \<Longrightarrow> dict_set k v d = d @ [(k, v)]" for k v and d :: "(string \<times> int \<times> nat) list"
    by (induction k v d rule: dict_set.induct) auto
  let ?d = "map (\<lambda>(key, i). (session key, idx key, i)) ps"
  have new: "session key \<notin> fst ` set ?d" using snoc.prems p by force
  then have "map_of ?d (session key) = None" by (simp only: map_of_eq_None_iff not_False_eq_True)
  then show ?case using snoc new by (simp add: p note_key_def note_output_def app)
qed simp

lemma local_index_nth:
  assumes "k \<in> set (map fst fin)"
  shows "local_index fin k < length fin \<and> fst (fin ! local_index fin k) = k"
proof -
  have "local_index fin k < length (map fst fin)" "map fst fin ! local_index fin k = k"
    using assms nth_length_takeWhile [of "\<lambda>x. x \<noteq> k" "map fst fin"] length_takeWhile_le [of "\<lambda>x. x \<noteq> k" "map fst fin"]
    unfolding local_index_def by (metis (mono_tags, lifting) le_neq_implies_less takeWhile_eq_all_conv takeWhile_eq_take take_all order_refl)+
  then show ?thesis by simp
qed

end
