(* ===== verification/SyncTrainer.thy ===== *)
theory SyncTrainer
  imports OrderFacts SessionKeys
begin

text \<open>
  The synchronous trainer over a transfer queue (\<open>verl/trainer/main_ppo_sync.py\<close>) and the padding of its
  batches (\<open>verl/trainer/ppo/padding_utils.py\<close>): an agent loop may return several outputs per session, each a
  row of the batch with the key \<open>uid_session_index\<close>. The transfer queue itself is outside the repository; what
  it returns is a parameter.
\<close>

section \<open>Advantages for several outputs per session\<close>

text \<open>\<open>argmax\<close> of a row: the first position of its largest value.\<close>

definition argmax_row :: "vec \<Rightarrow> nat" where
  "argmax_row row = length (takeWhile (\<lambda>x. x \<noteq> vmax row) row)"

text \<open>\<open>scores.unsqueeze(-1) * mask\<close> stored as a tensor of the batch; one score is broadcast to all rows.\<close>

definition broadcast_scores :: "vec \<Rightarrow> mat \<Rightarrow> mat result" where
  "broadcast_scores scores mask_rows =
     (if length scores = length mask_rows then Inr (bcast_mul scores mask_rows)
      else if length scores = 1 then Inr (bcast_mul (replicate (length mask_rows) (hd scores)) mask_rows)
      else Inl (RuntimeError ''The size of tensor a must match the size of tensor b at non-singleton dimension 0''))"

definition compute_advantage_for_multi_trajectories ::
    "'a libs \<Rightarrow> string list \<Rightarrow> string \<Rightarrow> real \<Rightarrow> real \<Rightarrow> bool \<Rightarrow> algo_config option \<Rightarrow> (vec, 'a) data_proto
      \<Rightarrow> (vec, 'a) data_proto result" where
  "compute_advantage_for_multi_trajectories lib batch_keys estimator discount lambda norm_by_std config d =
     (if estimator \<noteq> ''grpo'' then compute_advantage lib estimator discount lambda norm_by_std config d
      else
        rbind (scan_keys 0 batch_keys [] []) (\<lambda>(final_sessions, row_session_keys).
        rbind (select_idxs (Ints (map (\<lambda>(_, _, i). int i) final_sessions)) d) (\<lambda>selected.
        rbind (compute_advantage lib estimator discount lambda norm_by_std config selected) (\<lambda>final_data.
        rbind (get_tensor ''response_mask'' final_data) (\<lambda>final_mask.
          if [] \<in> set final_mask
          then Inl (IndexError ''argmax(): Expected reduction dim 1 to have non-zero size.'')
          else
            rbind (get_tensor ''advantages'' final_data) (\<lambda>final_advantages.
              let final_scores = map2 (\<lambda>a m. a ! argmax_row m) final_advantages final_mask;
                  scores = map (\<lambda>session_key. final_scores ! local_index final_sessions session_key) row_session_keys
              in rbind (get_tensor ''response_mask'' d) (\<lambda>response_mask.
                 rbind (broadcast_scores scores response_mask) (\<lambda>a. Inr (put_advantages d (a, a))))))))))"

text \<open>\<open>_compute_advantage\<close> between the fields read from the transfer queue and those written back.\<close>

definition sync_compute_advantage ::
    "'a libs \<Rightarrow> algo_config \<Rightarrow> string list \<Rightarrow> kl_controller \<Rightarrow> (vec, 'a) data_proto
      \<Rightarrow> ((vec, 'a) data_proto \<times> kl_controller \<times> metrics) result" where
  "sync_compute_advantage lib c batch_keys kl_ctrl d =
     rbind (get_tensor ''rm_scores'' d) (\<lambda>rm_scores.
     rbind (reward_step c kl_ctrl (set_tensor ''token_level_scores'' rm_scores d)) (\<lambda>(d, kl_ctrl, kl_metrics).
     rbind (correction_step c d) (\<lambda>(d, is_metrics).
     rbind (compute_advantage_for_multi_trajectories lib batch_keys (adv_estimator c) (gamma c) (lam c)
              (norm_adv_by_std_in_grpo c) (Some c) d)
       (\<lambda>d. Inr (d, kl_ctrl, dict_update kl_metrics is_metrics)))))"

section \<open>Padding the batch\<close>

text \<open>A field of a sample is a tensor, by its shape and its cells, or another value.\<close>

datatype field = FTensor "nat list" vec | FValue pyval

type_synonym sample = "(string \<times> field) list"

definition compute_position_id_with_mask :: "vec \<Rightarrow> vec" where
  "compute_position_id_with_mask attention_mask_row = map (\<lambda>x. max 0 (x - 1)) (prefix_sums 0 attention_mask_row)"

definition build_padding_position_ids :: "field option \<Rightarrow> vec \<Rightarrow> field" where
  "build_padding_position_ids source_position_ids attention_mask_row =
     (let position_ids = compute_position_id_with_mask attention_mask_row; n = length position_ids
      in case source_position_ids of
           Some (FTensor shape _) \<Rightarrow>
             if length shape \<le> 1 then FTensor [n] position_ids
             else FTensor (butlast shape @ [n]) (concat (replicate (prod_list (butlast shape)) position_ids))
         | _ \<Rightarrow> FTensor [n] position_ids)"

definition build_padding_routed_experts :: "field option \<Rightarrow> nat \<Rightarrow> field option" where
  "build_padding_routed_experts source_routed_experts seq_len =
     (case source_routed_experts of
        Some (FTensor shape _) \<Rightarrow>
          if shape = [] then Some (FTensor [] [0])
          else Some (FTensor (seq_len # tl shape) (replicate (prod_list (seq_len # tl shape)) 0))
      | _ \<Rightarrow> None)"

definition construct_minimal_padding_template :: "sample \<Rightarrow> tags \<Rightarrow> int \<Rightarrow> sample \<times> tags" where
  "construct_minimal_padding_template source_td source_tag eos_token_id =
     (let eos = real_of_int eos_token_id;
          position_ids = build_padding_position_ids (map_of source_td ''position_ids'') [1, 1];
          routed_experts = build_padding_routed_experts (map_of source_td ''routed_experts'') 2;
          s1 = dict_update source_td
            [(''prompts'', FTensor [1] [eos]), (''responses'', FTensor [1] [eos]), (''input_ids'', FTensor [2] [eos, eos]),
             (''attention_mask'', FTensor [2] [1, 1]), (''position_ids'', position_ids), (''num_turns'', FValue (PInt 0)),
             (''response_mask'', FTensor [1] [0]), (''loss_mask'', FTensor [1] [0]), (''rm_scores'', FTensor [1] [0]),
             (''rollout_log_probs'', FTensor [1] [0])];
          s2 = (if map_of s1 ''multi_modal_inputs'' \<noteq> None then dict_set ''multi_modal_inputs'' (FValue (PDict [])) s1 else s1);
          s3 = (case routed_experts of Some f \<Rightarrow> dict_set ''routed_experts'' f s2 | None \<Rightarrow> dict_del ''routed_experts'' s2)
      in (s3, dict_update source_tag
            [(''is_padding'', PBool True), (''prompt_len'', PInt 1), (''response_len'', PInt 1), (''seq_len'', PInt 2)]))"

text \<open>\<open>KVBatchMeta\<close>, as far as the trainer reads it.\<close>

record kv_meta =
  mkeys :: "string list"
  mtags :: "tags list"

text \<open>\<open>fetch\<close> reads a sample of the batch from the transfer queue; the third component is what is put there.\<close>

definition upsample_batch_to_divisible_size ::
    "(string \<Rightarrow> sample result) \<Rightarrow> string \<Rightarrow> nat \<Rightarrow> int \<Rightarrow> kv_meta \<Rightarrow> (kv_meta \<times> (string \<times> sample \<times> tags) list) result" where
  "upsample_batch_to_divisible_size fetch pad_uid batch_multiple eos_token_id b =
     (if batch_multiple = 0 then Inl (ZeroDivisionError ''integer modulo by zero'')
      else let remainder = length (mkeys b) mod batch_multiple
      in if remainder = 0 then Inr (b, [])
         else
           rbind (fetch (hd (mkeys b))) (\<lambda>source_td.
             if mtags b = [] then Inl (IndexError ''list index out of range'')
             else
               (case construct_minimal_padding_template source_td (hd (mtags b)) eos_token_id of
                  (template_sample, template_tag) \<Rightarrow>
                    let template_sample = dict_set ''uid'' (FValue (PStr pad_uid)) template_sample;
                        pad_size = batch_multiple - remainder;
                        pads = map (\<lambda>local_idx. (make_key pad_uid local_idx 0,
                          (if map_of template_sample ''session_id'' \<noteq> None
                           then dict_set ''session_id'' (FValue (PInt (int local_idx))) template_sample else template_sample),
                          template_tag)) [0..<pad_size]
                    in Inr (\<lparr>mkeys = mkeys b @ map fst pads, mtags = mtags b @ map (snd \<circ> snd) pads\<rparr>, pads))))"

section \<open>Balancing\<close>

record multiple_config =
  use_critic :: bool
  critic_mini_batch :: nat
  actor_mini_batch :: nat
  rollout_n :: nat
  critic_warmup :: int

definition get_required_batch_multiple :: "multiple_config \<Rightarrow> int \<Rightarrow> nat \<Rightarrow> nat" where
  "get_required_batch_multiple c global_steps dp =
     (let m = (if use_critic c then lcm dp (critic_mini_batch c * rollout_n c) else dp)
      in if critic_warmup c \<le> global_steps then lcm m (actor_mini_batch c * rollout_n c) else m)"

definition tag_int :: "string \<Rightarrow> tags \<Rightarrow> int result" where
  "tag_int key tag =
     rbind (dict_index tag key) (\<lambda>v. case v of
         PInt i \<Rightarrow> Inr i
       | _ \<Rightarrow> Inl (TypeError ''the tag cannot be interpreted as an integer''))"

text \<open>\<open>reorder_meta\<close> is \<open>KVBatchMeta.reorder\<close>. The last component is what the padding puts into the transfer queue.\<close>

definition sync_balance_batch ::
    "(nat list \<Rightarrow> kv_meta \<Rightarrow> kv_meta) \<Rightarrow> (string \<Rightarrow> sample result) \<Rightarrow> string \<Rightarrow> int \<Rightarrow> multiple_config \<Rightarrow> int \<Rightarrow> worker_group
      \<Rightarrow> kv_meta \<Rightarrow> ((kv_meta \<times> unbalance) \<times> worker_group \<times> (string \<times> sample \<times> tags) list) result" where
  "sync_balance_batch reorder_meta fetch pad_uid eos_token_id c global_steps wg b =
     rbind (get_dp_size ''actor'' wg) (\<lambda>(dp, wg').
     rbind (upsample_batch_to_divisible_size fetch pad_uid (get_required_batch_multiple c global_steps dp) eos_token_id b) (\<lambda>(b, pads).
     rbind (map_all (tag_int ''seq_len'') (mtags b)) (\<lambda>seqlens.
     rbind (get_seqlen_balanced_partitions (calculate_workload seqlens) dp True) (\<lambda>parts.
     rbind (log_seqlen_unbalance seqlens parts) (\<lambda>stats.
       Inr ((reorder_meta (concat parts) b, stats), wg', pads))))))"

section \<open>ReMax baselines\<close>

definition baseline_prefix :: string where
  "baseline_prefix = ''remax_baseline_''"

definition remove_prefix :: "string \<Rightarrow> string \<Rightarrow> string" where
  "remove_prefix p s = (if prefix p s then drop (length p) s else s)"

text \<open>The last greedy output of every baseline prompt; the other keys are the sampled ones.\<close>

fun scan_baselines ::
    "string list \<Rightarrow> (string \<times> int \<times> string) list \<Rightarrow> ((string \<times> int \<times> string) list \<times> string list) result" where
  "scan_baselines [] final_baseline = Inr (final_baseline, [])"
| "scan_baselines (key # keys) final_baseline =
     (case rsplit2 CHR ''_'' key of
        [uid, _, index] \<Rightarrow>
          if prefix baseline_prefix uid
          then
            (case parse_int index of
               None \<Rightarrow> Inl (ValueError (''invalid literal for int() with base 10: '' @ quoted index))
             | Some output_index \<Rightarrow>
                 rbind (scan_baselines keys
                          (case map_of final_baseline uid of
                             None \<Rightarrow> dict_set uid (output_index, key) final_baseline
                           | Some (j, _) \<Rightarrow> if j < output_index then dict_set uid (output_index, key) final_baseline
                                           else final_baseline))
                   (\<lambda>(final, all_baseline_keys). Inr (final, key # all_baseline_keys)))
          else scan_baselines keys final_baseline
      | _ \<Rightarrow> Inl (ValueError ''not enough values to unpack (expected 3)''))"

text \<open>
  \<open>get_row\<close> reads \<open>uid\<close> and \<open>rm_scores\<close> of a key. The result is the batch without the baselines, the baseline that
  is put for every sampled key, and the keys that are cleared.
\<close>

definition add_remax_reward_baselines ::
    "(string \<Rightarrow> (string \<times> vec) result) \<Rightarrow> kv_meta \<Rightarrow> (kv_meta \<times> (string \<times> real) list \<times> string list) result" where
  "add_remax_reward_baselines get_row b =
     rbind (scan_baselines (take (length (mtags b)) (mkeys b)) []) (\<lambda>(final_baseline, all_baseline_keys).
       if length (mkeys b) \<noteq> length (mtags b) then Inl (ValueError ''zip() arguments have different lengths'')
       else
         let sampled = filter (\<lambda>(key, _). key \<notin> set all_baseline_keys) (zip (mkeys b) (mtags b));
             sampled_keys = map fst sampled
         in passert (final_baseline \<noteq> []) ''ReMax requires greedy baseline rollout outputs, but none were found.''
            (rbind (map_all (\<lambda>(_, _, key). get_row key) final_baseline) (\<lambda>baseline_data.
             let baseline_by_uid = dict_update [] (map (\<lambda>(uid, rm_scores). (remove_prefix baseline_prefix uid, sum_list rm_scores)) baseline_data)
             in rbind (map_all get_row sampled_keys) (\<lambda>sampled_data.
                rbind (map_all (\<lambda>(uid, _). dict_index baseline_by_uid uid) sampled_data) (\<lambda>reward_baselines.
                  if reward_baselines = [] then Inl (RuntimeError ''stack expects a non-empty TensorList'')
                  else Inr (\<lparr>mkeys = sampled_keys, mtags = map snd sampled\<rparr>, zip sampled_keys reward_baselines, all_baseline_keys))))))"

end
