(* ===== verification/SyncFacts.thy ===== *)
theory SyncFacts
  imports SyncTrainer
begin

text \<open>
  Advantages when a session has several outputs: the closed form of the scores, which depends on the
  outputs of the prompt only and not on their order in the batch.
\<close>

section \<open>Keys of a batch\<close>

definition key_prompt :: "string \<Rightarrow> string" where
  "key_prompt key = (case split_key key of Inr (uid, _, _) \<Rightarrow> uid | Inl _ \<Rightarrow> [])"

definition key_session :: "string \<Rightarrow> string" where
  "key_session key = (case split_key key of Inr (uid, s, _) \<Rightarrow> uid @ ''_'' @ s | Inl _ \<Rightarrow> [])"

definition key_index :: "string \<Rightarrow> int" where
  "key_index key = (case split_key key of Inr (_, _, i) \<Rightarrow> i | Inl _ \<Rightarrow> 0)"

lemma key_parts [simp]:
  "key_prompt (make_key u s i) = u" "key_session (make_key u s i) = u @ ''_'' @ show_nat s" "key_index (make_key u s i) = int i"
  by (simp_all add: key_prompt_def key_session_def key_index_def session_key_parse)

lemma session_eq: "u @ ''_'' @ show_nat s = u' @ ''_'' @ show_nat s' \<longleftrightarrow> u = u' \<and> s = s'"
proof
  assume "u @ ''_'' @ show_nat s = u' @ ''_'' @ show_nat s'"
  then have "make_key u s 0 = make_key u' s' 0" by (metis append.assoc make_key_def)
  then show "u = u' \<and> s = s'" by (simp add: make_key_inj)
qed simp

text \<open>A batch whose rows have keys, with the reward row and the mask row of every key.\<close>

definition keyed :: "(vec, string) data_proto \<Rightarrow> string list \<Rightarrow> (string \<Rightarrow> vec) \<Rightarrow> (string \<Rightarrow> vec) \<Rightarrow> bool" where
  "keyed d keys rew msk \<longleftrightarrow>
     ok_proto d \<and> distinct keys \<and> dlen d = length keys \<and> (\<forall>key\<in>set keys. \<exists>u s i. key = make_key u s i)
     \<and> get_tensor ''token_level_rewards'' d = Inr (map rew keys) \<and> get_tensor ''response_mask'' d = Inr (map msk keys)
     \<and> (\<forall>key\<in>set keys. msk key \<noteq> []) \<and> map_of (non_tensor_batch d) ''uid'' = Some (map key_prompt keys)"

text \<open>The last outputs of the sessions among a set of keys.\<close>

definition last_keys :: "string set \<Rightarrow> string set" where
  "last_keys S = {key \<in> S. \<forall>key'\<in>S. key_session key' = key_session key \<longrightarrow> key_index key' \<le> key_index key}"

lemma same_session_index:
  assumes "\<exists>u s i. key = make_key u s i" "\<exists>u s i. key' = make_key u s i"
    and "key_session key = key_session key'" "key_index key = key_index key'"
  shows "key = key'"
proof -
  obtain u s i u' s' i' where k: "key = make_key u s i" "key' = make_key u' s' i'" using assms(1,2) by blast
  then show ?thesis using assms(3,4) session_eq [of u s u' s'] by simp
qed

lemma session_prompt:
  assumes "\<exists>u s i. key = make_key u s i" "\<exists>u s i. key' = make_key u s i" "key_session key = key_session key'"
  shows "key_prompt key = key_prompt key'"
proof -
  obtain u s i u' s' i' where k: "key = make_key u s i" "key' = make_key u' s' i'" using assms(1,2) by blast
  then show ?thesis using assms(3) session_eq [of u s u' s'] by simp
qed

lemma argmax_row_nth: "row \<noteq> [] \<Longrightarrow> argmax_row row < length row \<and> row ! argmax_row row = vmax row"
proof -
  assume "row \<noteq> []"
  then have "vmax row \<in> set row" by (simp add: vmax_def)
  then have "length (takeWhile (\<lambda>x. x \<noteq> vmax row) row) < length row"
    by (metis (mono_tags, lifting) length_takeWhile_le le_neq_implies_less takeWhile_eq_all_conv takeWhile_eq_take take_all order_refl)
  then show ?thesis unfolding argmax_row_def using nth_length_takeWhile by fastforce
qed

section \<open>The scores\<close>

text \<open>The GRPO score of a reward among the rewards of its group.\<close>

definition group_score :: "bool \<Rightarrow> real multiset \<Rightarrow> real \<Rightarrow> real" where
  "group_score by_std M x =
     (let xs = sorted_list_of_multiset M;
          (mean, std) = (if length xs = 1 then (0, 1) else (tmean xs, tstd xs))
      in if by_std then (x - mean) / (std + 1 / 10 ^ 6) else x - mean)"

lemma grpo_scores_group:
  assumes "length index = length scores"
  shows "grpo_scores scores index (1 / 10 ^ 6) by_std
    = Inr (map2 (\<lambda>u s. group_score by_std (mset (members index scores u)) s) index scores)"
proof -
  have "group_stat (0, 1) (\<lambda>xs. (tmean xs, tstd xs)) index scores u
      = (let xs = sorted_list_of_multiset (mset (members index scores u)) in if length xs = 1 then (0, 1) else (tmean xs, tstd xs))" for u
  proof -
    let ?xs = "members index scores u" and ?ys = "sorted_list_of_multiset (mset (members index scores u))"
    have m: "mset ?ys = mset ?xs" by simp
    show ?thesis unfolding group_stat_def Let_def tmean_mset_eq [OF m] tstd_mset_eq [OF m] mset_eq_length [OF m] by simp
  qed
  then show ?thesis unfolding grpo_scores_eq [OF eq_refl [OF assms [symmetric]]] group_score_def Let_def by simp
qed

text \<open>The rows of the last outputs, in the order of the scan.\<close>

definition last_rows :: "string list \<Rightarrow> nat list" where
  "last_rows keys = map (snd \<circ> snd) (foldl (note_key key_session key_index) [] (zip keys [0..<length keys]))"

lemma scan_batch_keys:
  assumes "\<forall>key\<in>set keys. \<exists>u s i. key = make_key u s i"
  shows "scan_keys 0 keys [] [] = Inr (foldl (note_key key_session key_index) [] (zip keys [0..<length keys]), map key_session keys)"
proof -
  have "\<exists>uid s. split_key key = Inr (uid, s, key_index key) \<and> key_session key = uid @ ''_'' @ s" if "key \<in> set keys" for key
    using assms that by (auto simp: session_key_parse dest!: bspec)
  from scan_keys_eq [of keys key_index key_session 0, OF this] show ?thesis by simp
qed

lemma last_rows_spec:
  assumes dist: "distinct keys" and form: "\<forall>key\<in>set keys. \<exists>u s i. key = make_key u s i"
  defines "fin \<equiv> foldl (note_key key_session key_index) [] (zip keys [0..<length keys])"
  shows "distinct (map ((!) keys) (last_rows keys))" "set (map ((!) keys) (last_rows keys)) = last_keys (set keys)"
    "\<forall>i\<in>set (last_rows keys). i < length keys"
    "key \<in> set keys \<Longrightarrow> local_index fin (key_session key) < length (last_rows keys)
       \<and> key_session (keys ! (last_rows keys ! local_index fin (key_session key))) = key_session key"
proof -
  have F: "last_rows keys = map (snd \<circ> snd) fin" by (simp add: last_rows_def fin_def)
  have lo: "last_outputs key_session key_index (zip keys [0..<length keys]) fin"
    unfolding fin_def by (rule last_outputs_fold)
  have fst_zip: "fst ` set (zip keys [0..<length keys]) = set keys" by (metis length_map map_fst_zip map_nth set_map)
  have d: "distinct (map fst fin)" and ks: "set (map fst fin) = key_session ` set keys"
    using lo fst_zip by (simp_all add: last_outputs_def)
  have e: "i < length keys \<and> key_session (keys ! i) = k \<and> key_index (keys ! i) = j
      \<and> (\<forall>key\<in>set keys. key_session key = k \<longrightarrow> key_index key \<le> j)" if kji: "(k, j, i) \<in> set fin" for k j i
  proof -
    obtain key where key: "(key, i) \<in> set (zip keys [0..<length keys])" "key_session key = k" "key_index key = j"
      and le: "\<forall>(key, _)\<in>set (zip keys [0..<length keys]). key_session key = k \<longrightarrow> key_index key \<le> j"
      using last_outputsD [OF lo kji] by (elim conjE exE)
    have "i < length keys" "key = keys ! i" using key(1) by (auto simp: set_zip)
    moreover have "\<forall>key\<in>set keys. key_session key = k \<longrightarrow> key_index key \<le> j"
      using le unfolding fst_zip [symmetric] by auto
    ultimately show ?thesis using key by simp
  qed
  show "\<forall>i\<in>set (last_rows keys). i < length keys" using e by (force simp: F)
  have sess: "map (\<lambda>i. key_session (keys ! i)) (last_rows keys) = map fst fin"
    unfolding F map_map using e by (intro map_cong) auto
  have "distinct (map key_session (map ((!) keys) (last_rows keys)))" using d by (simp add: comp_def sess)
  then show "distinct (map ((!) keys) (last_rows keys))" using distinct_map by blast
  show "set (map ((!) keys) (last_rows keys)) = last_keys (set keys)"
  proof (intro equalityI subsetI)
    fix key assume "key \<in> set (map ((!) keys) (last_rows keys))"
    then obtain k j i where kji: "(k, j, i) \<in> set fin" "key = keys ! i" by (force simp: F)
    then show "key \<in> last_keys (set keys)" using e [OF kji(1)] by (simp add: last_keys_def)
  next
    fix key assume last: "key \<in> last_keys (set keys)"
    then have key: "key \<in> set keys" "\<And>key'. key' \<in> set keys \<Longrightarrow> key_session key' = key_session key \<Longrightarrow> key_index key' \<le> key_index key"
      by (simp_all add: last_keys_def)
    have "key_session key \<in> set (map fst fin)" unfolding ks using key(1) by simp
    then obtain j i where kji: "(key_session key, j, i) \<in> set fin" by auto
    note entry = e [OF kji]
    have in_keys: "keys ! i \<in> set keys" using entry by simp
    have "key_index (keys ! i) = key_index key" using entry key(1) key(2) [OF in_keys] by force
    then have "keys ! i = key"
      using same_session_index [of "keys ! i" key] form in_keys key(1) entry by simp
    then show "key \<in> set (map ((!) keys) (last_rows keys))" using kji by (force simp: F)
  qed
  assume "key \<in> set keys"
  then have "key_session key \<in> set (map fst fin)" unfolding ks by simp
  from local_index_nth [OF this] show "local_index fin (key_session key) < length (last_rows keys)
       \<and> key_session (keys ! (last_rows keys ! local_index fin (key_session key))) = key_session key"
    using arg_cong [OF sess, of "\<lambda>xs. xs ! local_index fin (key_session key)"] by (simp add: F)
qed

lemma members_keyed: "members (map f xs) (map g xs) u = map g (filter (\<lambda>x. f x = u) xs)"
  by (induction xs) (auto simp: members_def)

text \<open>The rewards of the last outputs of a prompt, and the score of an output among them.\<close>

definition prompt_rewards :: "(string \<Rightarrow> vec) \<Rightarrow> string set \<Rightarrow> string \<Rightarrow> real multiset" where
  "prompt_rewards rew S u = image_mset (\<lambda>key. sum_list (rew key)) (mset_set {key \<in> last_keys S. key_prompt key = u})"

definition output_score :: "bool \<Rightarrow> (string \<Rightarrow> vec) \<Rightarrow> string set \<Rightarrow> string \<Rightarrow> real" where
  "output_score by_std rew S key = group_score by_std (prompt_rewards rew S (key_prompt key)) (sum_list (rew key))"

lemma keyed_tensor:
  assumes "keyed d keys rew msk" and "\<forall>i\<in>set ps. i < length keys"
  shows "get_tensor ''token_level_rewards'' (rows_at ps d) = Inr (map rew (map ((!) keys) ps))"
    "get_tensor ''response_mask'' (rows_at ps d) = Inr (map msk (map ((!) keys) ps))"
    "map_of (non_tensor_batch (rows_at ps d)) ''uid'' = Some (map key_prompt (map ((!) keys) ps))"
  using assms by (simp_all add: keyed_def get_tensor_rows_at array_rows_at pick_rows_def)

lemma grpo_last_rows:
  fixes by_std :: bool
  assumes k: "keyed d keys rew msk"
  defines "L \<equiv> map ((!) keys) (last_rows keys)"
  defines "out \<equiv> bcast_mul (map (output_score by_std rew (set keys)) L) (map msk L)"
  shows "compute_advantage lib ''grpo'' g l by_std config (rows_at (last_rows keys) d)
    = Inr (put_advantages (rows_at (last_rows keys) d) (out, out))"
proof -
  note rows = last_rows_spec [of keys]
  have form: "distinct keys" "\<forall>key\<in>set keys. \<exists>u s i. key = make_key u s i" using k by (simp_all add: keyed_def)
  note T = keyed_tensor [OF k rows(3) [OF form], folded L_def]
  have "mset L = mset_set (last_keys (set keys))"
    using rows(1,2) [OF form] unfolding L_def by (metis mset_set_set)
  then have "mset (members (map key_prompt L) (map (\<lambda>key. sum_list (rew key)) L) u) = prompt_rewards rew (set keys) u" for u
    unfolding members_keyed prompt_rewards_def by (simp add: mset_filter filter_mset_mset_set last_keys_def)
  then have "grpo_scores (map (\<lambda>key. sum_list (rew key)) L) (map key_prompt L) (1 / 10 ^ 6) by_std
      = Inr (map (output_score by_std rew (set keys)) L)"
    by (subst grpo_scores_group) (simp_all add: output_score_def zip_map_map zip_same_conv_map)
  then have "compute_grpo_outcome_advantage (map rew L) (map msk L) (map key_prompt L) (1 / 10 ^ 6) by_std = Inr (out, out)"
    by (simp add: compute_grpo_outcome_advantage_def row_sums_def comp_def out_def Let_def)
  then show ?thesis
    unfolding compute_advantage_def with_response_mask_present [OF T(2)] by (simp add: T dict_index_def)
qed

lemma multi_run:
  assumes k: "keyed d keys rew msk"
  shows "\<exists>a. compute_advantage_for_multi_trajectories lib keys ''grpo'' g l by_std config d = Inr (put_advantages d (a, a))
    \<and> length a = length keys
    \<and> (\<forall>i<length keys. \<exists>last\<in>last_keys (set keys). key_session last = key_session (keys ! i)
         \<and> a ! i = map (\<lambda>x. output_score by_std rew (set keys) last * vmax (msk last) * x) (msk (keys ! i)))"
proof -
  define L where "L = map ((!) keys) (last_rows keys)"
  define fin where "fin = foldl (note_key key_session key_index) [] (zip keys [0..<length keys])"
  define S where "S = output_score by_std rew (set keys)"
  have form: "distinct keys" "\<forall>key\<in>set keys. \<exists>u s i. key = make_key u s i" using k by (simp_all add: keyed_def)
  note rows = last_rows_spec [OF form, folded fin_def]
  note T = keyed_tensor [OF k rows(3), folded L_def]
  have L: "set L = last_keys (set keys)" "\<forall>key\<in>set L. key \<in> set keys" using rows(2) by (simp_all add: L_def last_keys_def)
  have ne: "msk key \<noteq> []" if "key \<in> set L" for key using that L(2) k by (auto simp: keyed_def)
  have nonempty: "[] \<notin> set (map msk L)"
  proof
    assume "[] \<in> set (map msk L)"
    then obtain key where "key \<in> set L" "msk key = []" by (metis (no_types, opaque_lifting) imageE set_map)
    then show False using ne by simp
  qed
  have ints: "map (\<lambda>(_, _, i). int i) fin = map int (last_rows keys)" by (simp add: last_rows_def fin_def split_def)
  have ok: "ok_proto d" "dlen d = length keys" using k by (simp_all add: keyed_def)
  have "map (position (dlen d)) (map int (last_rows keys)) = last_rows keys" by (rule nth_equalityI) (simp_all add: position_def)
  then have sel: "select_idxs (Ints (map int (last_rows keys))) d = Inr (rows_at (last_rows keys) d)"
    using select_idxs_rows [OF ok(1), of "map int (last_rows keys)"] rows(3) ok(2) by (auto simp: list_all_iff in_bounds_def)
  let ?out = "bcast_mul (map S L) (map msk L)"
  note run = grpo_last_rows [OF k, where by_std = by_std, folded L_def S_def]
  obtain td where td: "batch (rows_at (last_rows keys) d) = Some td"
    using T(2) by (cases "batch (rows_at (last_rows keys) d)") (simp_all add: get_tensor_def)
  have M: "get_tensor ''response_mask'' (put_advantages (rows_at (last_rows keys) d) (?out, ?out)) = Inr (map msk L)"
    and A: "get_tensor ''advantages'' (put_advantages (rows_at (last_rows keys) d) (?out, ?out)) = Inr ?out"
    by (simp_all add: get_put_advantages [OF td] T)
  have final: "map2 (\<lambda>a m. a ! argmax_row m) ?out (map msk L) = map (\<lambda>key. S key * vmax (msk key)) L"
  proof (rule nth_equalityI)
    fix p assume "p < length (map2 (\<lambda>a m. a ! argmax_row m) ?out (map msk L))"
    then have p: "p < length L" by simp
    then have "argmax_row (msk (L ! p)) < length (msk (L ! p)) \<and> msk (L ! p) ! argmax_row (msk (L ! p)) = vmax (msk (L ! p))"
      by (intro argmax_row_nth ne) simp
    then show "map2 (\<lambda>a m. a ! argmax_row m) ?out (map msk L) ! p = map (\<lambda>key. S key * vmax (msk key)) L ! p"
      using p by (simp add: bcast_mul_nth)
  qed simp
  define scores where "scores = map (\<lambda>key. map (\<lambda>key. S key * vmax (msk key)) L ! local_index fin (key_session key)) keys"
  have m: "get_tensor ''response_mask'' d = Inr (map msk keys)" using k by (simp add: keyed_def)
  have "compute_advantage_for_multi_trajectories lib keys ''grpo'' g l by_std config d
      = Inr (put_advantages d (bcast_mul scores (map msk keys), bcast_mul scores (map msk keys)))"
    unfolding compute_advantage_for_multi_trajectories_def scan_batch_keys [OF form(2), folded fin_def] rbind_Inr prod.case
      ints sel run M A final Let_def if_not_P [OF nonempty]
    by (simp add: m broadcast_scores_def scores_def comp_def)
  moreover have "\<exists>last\<in>last_keys (set keys). key_session last = key_session (keys ! i)
         \<and> bcast_mul scores (map msk keys) ! i = map (\<lambda>x. S last * vmax (msk last) * x) (msk (keys ! i))"
    if i: "i < length keys" for i
  proof -
    let ?p = "local_index fin (key_session (keys ! i))"
    have p: "?p < length L" "key_session (L ! ?p) = key_session (keys ! i)"
      using rows(4) [of "keys ! i"] i by (simp_all add: L_def)
    then have "L ! ?p \<in> last_keys (set keys)" using L(1) nth_mem by blast
    moreover have "scores ! i = S (L ! ?p) * vmax (msk (L ! ?p))" using i p(1) by (simp add: scores_def)
    ultimately show ?thesis using i p by (intro bexI [of _ "L ! ?p"]) (simp_all add: bcast_mul_nth scores_def)
  qed
  ultimately show ?thesis
    by (intro exI [of _ "bcast_mul scores (map msk keys)"]) (simp add: S_def scores_def)
qed

section \<open>What the scores depend on\<close>

lemma keyed_batch: "keyed d keys rew msk \<Longrightarrow> \<exists>td. batch d = Some td"
  by (cases "batch d") (simp_all add: keyed_def get_tensor_def)

text \<open>C36: on a well-formed batch with distinct keys of outputs, the prompt id of each row that of its key, and 0/1
  response masks that are not empty: with one output per session, the trainer for several outputs per session computes
  what the trainer for single outputs computes, advantages, returns and errors, for every estimator.\<close>

theorem single_outputs_agree:
  assumes k: "keyed d keys rew msk" and single: "distinct (map key_session keys)"
    and bin: "\<forall>key\<in>set keys. \<forall>x\<in>set (msk key). x \<in> {0, 1}"
  shows "compute_advantage_for_multi_trajectories lib keys estimator g l by_std config d
    = compute_advantage lib estimator g l by_std config d"
proof (cases "estimator = ''grpo''")
  case True
  have form: "distinct keys" "\<forall>key\<in>set keys. \<exists>u s i. key = make_key u s i" and ok: "ok_proto d" "dlen d = length keys"
    using k by (simp_all add: keyed_def)
  have "distinct (map key_session (map fst (zip keys [0..<length keys])))" using single by simp
  from fold_distinct_sessions [OF this] have F: "last_rows keys = [0..<length keys]"
    unfolding last_rows_def by (simp add: comp_def split_def flip: map_map) (simp add: comp_def)
  let ?out = "bcast_mul (map (output_score by_std rew (set keys)) keys) (map msk keys)"
  have direct: "compute_advantage lib ''grpo'' g l by_std config d = Inr (put_advantages d (?out, ?out))"
    using grpo_last_rows [OF k, of lib g l by_std config] rows_at_all [OF ok(1)] by (simp add: F ok(2) map_nth)
  obtain a where a: "compute_advantage_for_multi_trajectories lib keys ''grpo'' g l by_std config d = Inr (put_advantages d (a, a))"
    "length a = length keys" and rows: "\<forall>i<length keys. \<exists>last\<in>last_keys (set keys). key_session last = key_session (keys ! i)
         \<and> a ! i = map (\<lambda>x. output_score by_std rew (set keys) last * vmax (msk last) * x) (msk (keys ! i))"
    using multi_run [OF k, of lib g l by_std config] by blast
  have "a = ?out"
  proof (rule nth_equalityI)
    fix i assume "i < length a"
    then have i: "i < length keys" using a(2) by simp
    obtain last where last: "last \<in> last_keys (set keys)" "key_session last = key_session (keys ! i)"
      and row: "a ! i = map (\<lambda>x. output_score by_std rew (set keys) last * vmax (msk last) * x) (msk (keys ! i))"
      using rows i by blast
    have "last = keys ! i" using single last i by (auto simp: last_keys_def distinct_map dest: inj_onD)
    moreover have "vmax (msk (keys ! i)) * x = x" if x: "x \<in> set (msk (keys ! i))" for x
    proof (cases "x = 0")
      case False
      then have "x = 1" and le: "\<forall>y\<in>set (msk (keys ! i)). y \<le> 1" using bin x i by force+
      then have "vmax (msk (keys ! i)) = 1" unfolding vmax_def using x by (intro Max_eqI) auto
      then show ?thesis by simp
    qed simp
    ultimately show "a ! i = ?out ! i" using i row by (simp add: bcast_mul_nth mult.assoc)
  qed (use a(2) in simp)
  then show ?thesis using a(1) direct True by simp
next
  case False
  then show ?thesis by (simp add: compute_advantage_for_multi_trajectories_def)
qed

lemma last_keys_of_prompt:
  assumes A: "\<forall>key\<in>A. \<exists>u s i. key = make_key u s i" and B: "\<forall>key\<in>B. \<exists>u s i. key = make_key u s i"
    and same: "\<forall>key. key_prompt key = u \<longrightarrow> (key \<in> A \<longleftrightarrow> key \<in> B)"
  shows "{key \<in> last_keys A. key_prompt key = u} \<subseteq> {key \<in> last_keys B. key_prompt key = u}"
proof
  fix key assume "key \<in> {key \<in> last_keys A. key_prompt key = u}"
  then have key: "key \<in> A" "key_prompt key = u" "\<forall>key'\<in>A. key_session key' = key_session key \<longrightarrow> key_index key' \<le> key_index key"
    by (simp_all add: last_keys_def)
  have kB: "key \<in> B" using key(1,2) same by blast
  moreover have "key_index key' \<le> key_index key" if key': "key' \<in> B" "key_session key' = key_session key" for key'
  proof -
    have "key_prompt key' = u" using session_prompt [of key' key] B key'(1) kB key'(2) key(2) by simp
    then have "key' \<in> A" using key'(1) same by blast
    then show ?thesis using key(3) key'(2) by blast
  qed
  ultimately show "key \<in> {key \<in> last_keys B. key_prompt key = u}" using key(2) by (simp add: last_keys_def)
qed

text \<open>C35: with the estimator \<open>grpo\<close>, the advantages of the outputs of a prompt are a function of the outputs of that
  prompt. Take two well-formed batches with distinct keys of outputs, the prompt id of each row that of its key, and
  response masks that are not empty. If they hold the same outputs of a prompt, in whatever order and among whatever
  other outputs, such as synthetic padding rows, the two computations return and every output of the prompt gets the
  same advantages. (Estimators that scale with the size of the batch or whiten over it do not have this property.)\<close>

theorem advantages_local_to_prompt:
  assumes a: "keyed a keys_a rew_a msk_a" and b: "keyed b keys_b rew_b msk_b"
    and same: "\<forall>key. key_prompt key = u \<longrightarrow> (key \<in> set keys_a \<longleftrightarrow> key \<in> set keys_b)"
    and vals: "\<forall>key\<in>set keys_a. key_prompt key = u \<longrightarrow> rew_a key = rew_b key \<and> msk_a key = msk_b key"
  shows "\<exists>a' b' adv_a adv_b.
      compute_advantage_for_multi_trajectories lib keys_a ''grpo'' g l by_std config a = Inr a'
    \<and> compute_advantage_for_multi_trajectories lib keys_b ''grpo'' g l by_std config b = Inr b'
    \<and> get_tensor ''advantages'' a' = Inr adv_a \<and> get_tensor ''advantages'' b' = Inr adv_b
    \<and> (\<forall>i<length keys_a. \<forall>j<length keys_b. keys_a ! i = keys_b ! j \<and> key_prompt (keys_a ! i) = u \<longrightarrow> adv_a ! i = adv_b ! j)"
proof -
  let ?A = "set keys_a" and ?B = "set keys_b"
  have form: "\<forall>key\<in>?A. \<exists>u s i. key = make_key u s i" "\<forall>key\<in>?B. \<exists>u s i. key = make_key u s i"
    using a b by (simp_all add: keyed_def)
  have same': "\<forall>key. key_prompt key = u \<longrightarrow> (key \<in> ?B \<longleftrightarrow> key \<in> ?A)" using same by blast
  have eq: "{key \<in> last_keys ?A. key_prompt key = u} = {key \<in> last_keys ?B. key_prompt key = u}"
    using last_keys_of_prompt [OF form same] last_keys_of_prompt [OF form(2,1) same'] by (rule equalityI)
  have in_A: "key \<in> ?A" if "key \<in> last_keys ?A" for key using that by (simp add: last_keys_def)
  have "{key \<in> last_keys ?A. key_prompt key = u} \<subseteq> ?A" using in_A by auto
  then have fin: "finite {key \<in> last_keys ?A. key_prompt key = u}" by (rule finite_subset) simp
  have prompt: "prompt_rewards rew_a ?A u = prompt_rewards rew_b ?B u"
    unfolding prompt_rewards_def eq [symmetric] using vals in_A fin by (intro image_mset_cong) auto
  obtain sa where sa: "compute_advantage_for_multi_trajectories lib keys_a ''grpo'' g l by_std config a = Inr (put_advantages a (sa, sa))"
    and rows_a: "\<forall>i<length keys_a. \<exists>last\<in>last_keys ?A. key_session last = key_session (keys_a ! i)
         \<and> sa ! i = map (\<lambda>x. output_score by_std rew_a ?A last * vmax (msk_a last) * x) (msk_a (keys_a ! i))"
    using multi_run [OF a, of lib g l by_std config] by blast
  obtain sb where sb: "compute_advantage_for_multi_trajectories lib keys_b ''grpo'' g l by_std config b = Inr (put_advantages b (sb, sb))"
    and rows_b: "\<forall>i<length keys_b. \<exists>last\<in>last_keys ?B. key_session last = key_session (keys_b ! i)
         \<and> sb ! i = map (\<lambda>x. output_score by_std rew_b ?B last * vmax (msk_b last) * x) (msk_b (keys_b ! i))"
    using multi_run [OF b, of lib g l by_std config] by blast
  have "sa ! i = sb ! j" if ij: "i < length keys_a" "j < length keys_b" "keys_a ! i = keys_b ! j" "key_prompt (keys_a ! i) = u" for i j
  proof -
    obtain p where p: "p \<in> last_keys ?A" "key_session p = key_session (keys_a ! i)"
      and rp: "sa ! i = map (\<lambda>x. output_score by_std rew_a ?A p * vmax (msk_a p) * x) (msk_a (keys_a ! i))"
      using rows_a ij(1) by blast
    obtain q where q: "q \<in> last_keys ?B" "key_session q = key_session (keys_b ! j)"
      and rq: "sb ! j = map (\<lambda>x. output_score by_std rew_b ?B q * vmax (msk_b q) * x) (msk_b (keys_b ! j))"
      using rows_b ij(2) by blast
    have kp: "key_prompt p = u" using session_prompt [of p "keys_a ! i"] form(1) in_A [OF p(1)] p(2) ij(1,4) by simp
    then have pB: "p \<in> last_keys ?B" using p(1) eq by blast
    have idx: "key_index p \<le> key_index q" "key_index q \<le> key_index p"
      using pB q p(2) ij(3) by (auto simp: last_keys_def)
    have "p = q"
      using same_session_index [of p q] form(2) pB q p(2) ij(3) idx by (simp add: last_keys_def)
    moreover have "keys_b ! j \<in> ?A" using nth_mem [OF ij(1)] ij(3) by simp
    then have "msk_a (keys_a ! i) = msk_b (keys_b ! j)" using vals ij(3,4) by simp
    moreover have "rew_a p = rew_b p" "msk_a p = msk_b p" using vals kp in_A [OF p(1)] by auto
    moreover have "output_score by_std rew_a ?A p = output_score by_std rew_b ?B p"
      using \<open>rew_a p = rew_b p\<close> by (simp add: output_score_def kp prompt)
    ultimately show ?thesis using rp rq by simp
  qed
  moreover obtain ta tb where "batch a = Some ta" "batch b = Some tb" using keyed_batch [OF a] keyed_batch [OF b] by blast
  ultimately show ?thesis
    by - (rule exI [of _ "put_advantages a (sa, sa)"], rule exI [of _ "put_advantages b (sb, sb)"], rule exI [of _ sa],
      rule exI [of _ sb], use sa sb in \<open>auto simp: get_put_advantages\<close>)
qed

section \<open>Examples\<close>

definition demo_string_libs :: "string libs" where
  "demo_string_libs = \<lparr>topk2 = \<lambda>xs. (0, 1), multinomial = \<lambda>ws n. replicate n 0, label_of = id, number_of = \<lambda>_. 0\<rparr>"

definition demo_reward :: "string \<Rightarrow> vec" where
  "demo_reward key = (if key_prompt key = ''p'' then [real_of_int (key_index key), 2] else [0, 0])"

definition demo_mask :: "string \<Rightarrow> vec" where
  "demo_mask key = (if key_prompt key = ''p'' then [1, 1] else [0, 0])"

definition demo_sessions :: "string list \<Rightarrow> (vec, string) data_proto" where
  "demo_sessions keys = \<lparr>batch = Some \<lparr>td_size = length keys,
       td_items = [(''token_level_rewards'', map demo_reward keys), (''response_mask'', map demo_mask keys)]\<rparr>,
     non_tensor_batch = [(''uid'', map key_prompt keys)], meta_info = []\<rparr>"

lemma demo_keyed:
  "distinct keys \<Longrightarrow> \<forall>key\<in>set keys. \<exists>u s i. key = make_key u s i \<Longrightarrow> keyed (demo_sessions keys) keys demo_reward demo_mask"
  by (simp add: keyed_def demo_sessions_def demo_mask_def ok_proto_def ok_items_def dlen_def get_tensor_def dict_index_def)

lemma single_outputs_agree_witness:
  "compute_advantage_for_multi_trajectories demo_string_libs [make_key ''p'' 0 0, make_key ''p'' 1 3] ''grpo'' 1 1 True None
      (demo_sessions [make_key ''p'' 0 0, make_key ''p'' 1 3])
    = compute_advantage demo_string_libs ''grpo'' 1 1 True None (demo_sessions [make_key ''p'' 0 0, make_key ''p'' 1 3])"
proof (rule single_outputs_agree)
  show "keyed (demo_sessions [make_key ''p'' 0 0, make_key ''p'' 1 3]) [make_key ''p'' 0 0, make_key ''p'' 1 3] demo_reward demo_mask"
    by (rule demo_keyed) (auto simp: make_key_inj)
  show "distinct (map key_session [make_key ''p'' 0 0, make_key ''p'' 1 3])" by (simp add: show_nat_inj)
qed (simp add: demo_mask_def)

text \<open>Two outputs of one session and one of another, without and with a padding row in front.\<close>

lemma advantages_local_to_prompt_witness:
  "\<exists>a' b' adv_a adv_b.
      compute_advantage_for_multi_trajectories demo_string_libs [make_key ''p'' 0 0, make_key ''p'' 0 1, make_key ''p'' 1 0] ''grpo'' 1 1 True None
        (demo_sessions [make_key ''p'' 0 0, make_key ''p'' 0 1, make_key ''p'' 1 0]) = Inr a'
    \<and> compute_advantage_for_multi_trajectories demo_string_libs
        [make_key ''pad'' 0 0, make_key ''p'' 0 0, make_key ''p'' 0 1, make_key ''p'' 1 0] ''grpo'' 1 1 True None
        (demo_sessions [make_key ''pad'' 0 0, make_key ''p'' 0 0, make_key ''p'' 0 1, make_key ''p'' 1 0]) = Inr b'
    \<and> get_tensor ''advantages'' a' = Inr adv_a \<and> get_tensor ''advantages'' b' = Inr adv_b \<and> adv_a ! 1 = adv_b ! 2"
proof -
  let ?a = "[make_key ''p'' 0 0, make_key ''p'' 0 1, make_key ''p'' 1 0]"
  let ?b = "make_key ''pad'' 0 0 # ?a"
  have a: "keyed (demo_sessions ?a) ?a demo_reward demo_mask" and b: "keyed (demo_sessions ?b) ?b demo_reward demo_mask"
    by (rule demo_keyed; auto simp: make_key_inj)+
  have same: "\<forall>key. key_prompt key = ''p'' \<longrightarrow> (key \<in> set ?a \<longleftrightarrow> key \<in> set ?b)" by auto
  have vals: "\<forall>key\<in>set ?a. key_prompt key = ''p'' \<longrightarrow> demo_reward key = demo_reward key \<and> demo_mask key = demo_mask key" by simp
  obtain a' b' adv_a adv_b where r: "compute_advantage_for_multi_trajectories demo_string_libs ?a ''grpo'' 1 1 True None (demo_sessions ?a) = Inr a'"
      "compute_advantage_for_multi_trajectories demo_string_libs ?b ''grpo'' 1 1 True None (demo_sessions ?b) = Inr b'"
      "get_tensor ''advantages'' a' = Inr adv_a" "get_tensor ''advantages'' b' = Inr adv_b"
    and adv: "\<forall>i<length ?a. \<forall>j<length ?b. ?a ! i = ?b ! j \<and> key_prompt (?a ! i) = ''p'' \<longrightarrow> adv_a ! i = adv_b ! j"
    using advantages_local_to_prompt [OF a b same vals, of demo_string_libs 1 1 True None] by (elim exE conjE) (rule that; assumption)
  have "adv_a ! 1 = adv_b ! 2" by (rule adv [rule_format]) simp_all
  with r show ?thesis by (intro exI conjI)
qed

end
