(* ===== verification/SyncBalance.thy ===== *)
theory SyncBalance
  imports SyncFacts
begin

text \<open>
  The balancing of the synchronous trainer: padding to the multiple that the later steps need always makes
  the batch divisible, and balancing then always returns.
\<close>

section \<open>Padding\<close>

lemma dict_update_simps [simp]: "dict_update d [] = d" "dict_update d ((k, v) # e) = dict_update (dict_set k v d) e"
  by (simp_all add: dict_update_def)

text \<open>What every padding row looks like.\<close>

definition padding_row :: "string \<Rightarrow> string \<times> sample \<times> tags \<Rightarrow> bool" where
  "padding_row pad_uid p \<longleftrightarrow> (case p of (key, s, t) \<Rightarrow>
     (\<exists>j. key = make_key pad_uid j 0) \<and> map_of s ''uid'' = Some (FValue (PStr pad_uid))
     \<and> map_of s ''response_mask'' = Some (FTensor [1] [0]) \<and> map_of s ''rm_scores'' = Some (FTensor [1] [0])
     \<and> map_of t ''seq_len'' = Some (PInt 2) \<and> map_of t ''is_padding'' = Some (PBool True))"

lemma template_fields:
  assumes "construct_minimal_padding_template source_td source_tag eos = (s, t)"
  shows "map_of s ''response_mask'' = Some (FTensor [1] [0])" "map_of s ''rm_scores'' = Some (FTensor [1] [0])"
    "map_of t ''seq_len'' = Some (PInt 2)" "map_of t ''is_padding'' = Some (PBool True)"
  using assms
  by (auto simp: construct_minimal_padding_template_def Let_def map_of_dict_set map_of_dict_del split: option.splits if_splits)

lemma upsample_spec:
  assumes m: "0 < m" and lens: "length (mtags b) = length (mkeys b)" and ne: "mkeys b \<noteq> []"
    and fetch: "fetch (hd (mkeys b)) = Inr source"
  shows "\<exists>b' pads. upsample_batch_to_divisible_size fetch pad_uid m eos b = Inr (b', pads)
    \<and> mkeys b' = mkeys b @ map fst pads \<and> mtags b' = mtags b @ map (snd \<circ> snd) pads
    \<and> length pads < m \<and> m dvd length (mkeys b) + length pads
    \<and> distinct (map fst pads) \<and> (\<forall>p\<in>set pads. padding_row pad_uid p)"
proof (cases "length (mkeys b) mod m = 0")
  case True
  then show ?thesis using m by (simp add: upsample_batch_to_divisible_size_def mod_0_imp_dvd)
next
  case False
  let ?r = "length (mkeys b) mod m"
  obtain s t where st: "construct_minimal_padding_template source (hd (mtags b)) eos = (s, t)" by force
  define s' where "s' = dict_set ''uid'' (FValue (PStr pad_uid)) s"
  define pads where "pads = map (\<lambda>j. (make_key pad_uid j 0,
      (if map_of s' ''session_id'' \<noteq> None then dict_set ''session_id'' (FValue (PInt (int j))) s' else s'), t)) [0..<m - ?r]"
  have tags: "mtags b \<noteq> []" using lens ne by auto
  have run: "upsample_batch_to_divisible_size fetch pad_uid m eos b
      = Inr (\<lparr>mkeys = mkeys b @ map fst pads, mtags = mtags b @ map (snd \<circ> snd) pads\<rparr>, pads)"
    using m False fetch tags unfolding upsample_batch_to_divisible_size_def Let_def
    by (simp add: st pads_def s'_def)
  have "length pads = m - ?r" by (simp add: pads_def)
  moreover have "?r < m" using m by simp
  moreover have "m dvd length (mkeys b) + (m - ?r)"
    using m by (metis add.commute add_diff_assoc2 dvd_add_right_iff dvd_refl dvd_minus_mod less_imp_le mod_less_divisor mod_less_eq_dividend)
  moreover have "distinct (map fst pads)"
    unfolding pads_def by (simp add: comp_def distinct_map inj_on_def make_key_inj)
  moreover have "padding_row pad_uid p" if "p \<in> set pads" for p
    using that template_fields [OF st] by (auto simp: pads_def s'_def padding_row_def map_of_dict_set)
  ultimately show ?thesis using False
    by - (rule exI [of _ "\<lparr>mkeys = mkeys b @ map fst pads, mtags = mtags b @ map (snd \<circ> snd) pads\<rparr>"],
      rule exI [of _ pads], use run in auto)
qed

section \<open>Balancing\<close>

text \<open>The documented behaviour of \<open>KVBatchMeta.reorder\<close>, and tags that carry the length of the sequence.\<close>

definition reorders_meta :: "(nat list \<Rightarrow> kv_meta \<Rightarrow> kv_meta) \<Rightarrow> bool" where
  "reorders_meta reorder_meta \<longleftrightarrow> (\<forall>ps b. set ps \<subseteq> {..<length (mkeys b)}
     \<longrightarrow> reorder_meta ps b = \<lparr>mkeys = pick_rows ps (mkeys b), mtags = pick_rows ps (mtags b)\<rparr>)"

definition has_length :: "tags \<Rightarrow> bool" where
  "has_length tag \<longleftrightarrow> (\<exists>n. map_of tag ''seq_len'' = Some (PInt (int n)))"

lemma tag_lengths:
  assumes "\<forall>t\<in>set ts. has_length t"
  shows "\<exists>ns. map_all (tag_int ''seq_len'') ts = Inr ns \<and> length ns = length ts \<and> (\<forall>n\<in>set ns. 0 \<le> n)"
  using assms
proof (induction ts)
  case (Cons t ts)
  obtain n where "map_of t ''seq_len'' = Some (PInt (int n))" using Cons.prems by (auto simp: has_length_def)
  then have "tag_int ''seq_len'' t = Inr (int n)" by (simp add: tag_int_def dict_index_def)
  with Cons show ?case by auto
qed simp

lemma unbalance_total:
  assumes part: "index_partition (length l) k ps" and k: "0 < k" "k \<le> length l" "length ps = k"
  shows "\<exists>stats. log_seqlen_unbalance l ps = Inr stats"
proof -
  have "length l div k \<noteq> 0" using k by (simp add: div_eq_0_iff)
  moreover have "\<forall>p\<in>set ps. \<forall>i\<in>set p. i < length l" using index_partition_set [OF part] by auto
  ultimately show ?thesis using k by (auto simp: log_seqlen_unbalance_def Let_def not_le)
qed

lemma required_multiple:
  assumes "0 < dp" and "0 < critic_mini_batch c" "0 < actor_mini_batch c" "0 < rollout_n c"
  shows "0 < get_required_batch_multiple c step dp" "dp dvd get_required_batch_multiple c step dp"
    "use_critic c \<Longrightarrow> critic_mini_batch c * rollout_n c dvd get_required_batch_multiple c step dp"
    "critic_warmup c \<le> step \<Longrightarrow> actor_mini_batch c * rollout_n c dvd get_required_batch_multiple c step dp"
  using assms by (auto simp: get_required_batch_multiple_def Let_def lcm_pos_nat intro: dvd_trans)

text \<open>C37: the synchronous trainer can balance every batch that is not empty, when every tag has the length of its sequence,
  the first sample can be read from the transfer queue and the mini-batch sizes are positive. It returns a reordering of
  the batch followed by fewer padding rows than the required multiple, all of them masked, without reward and with
  a prompt of their own; the size is divisible by the data-parallel size and by the mini-batches of every
  update that follows.\<close>

theorem sync_balance_total:
  assumes dp: "get_dp_size ''actor'' wg = Inr (dp, wg')" and lens: "length (mtags b) = length (mkeys b)" and ne: "mkeys b \<noteq> []"
    and tags: "\<forall>t\<in>set (mtags b). has_length t" and fetch: "fetch (hd (mkeys b)) = Inr source"
    and reorder: "reorders_meta reorder_meta"
    and minis: "0 < critic_mini_batch c" "0 < actor_mini_batch c" "0 < rollout_n c"
  shows "\<exists>b' stats pads ps. sync_balance_batch reorder_meta fetch pad_uid eos c step wg b = Inr ((b', stats), wg', pads)
    \<and> reorders ps (length (mkeys b')) \<and> mkeys b' = pick_rows ps (mkeys b @ map fst pads)
    \<and> mtags b' = pick_rows ps (mtags b @ map (snd \<circ> snd) pads)
    \<and> length pads < get_required_batch_multiple c step dp \<and> (\<forall>p\<in>set pads. padding_row pad_uid p) \<and> distinct (map fst pads)
    \<and> dp dvd length (mkeys b') \<and> (use_critic c \<longrightarrow> critic_mini_batch c * rollout_n c dvd length (mkeys b'))
    \<and> (critic_warmup c \<le> step \<longrightarrow> actor_mini_batch c * rollout_n c dvd length (mkeys b'))"
proof -
  have dp0: "0 < dp" using get_dp_size_Inr [OF dp] by auto
  note multiple = required_multiple [OF dp0 minis, of step]
  let ?m = "get_required_batch_multiple c step dp"
  obtain u pads where u: "upsample_batch_to_divisible_size fetch pad_uid ?m eos b = Inr (u, pads)"
    "mkeys u = mkeys b @ map fst pads" "mtags u = mtags b @ map (snd \<circ> snd) pads" "length pads < ?m"
    "?m dvd length (mkeys b) + length pads" "distinct (map fst pads)" "\<forall>p\<in>set pads. padding_row pad_uid p"
    using upsample_spec [where fetch = fetch, OF multiple(1) lens ne fetch, of pad_uid eos] by blast
  let ?n = "length (mkeys b) + length pads"
  have n: "length (mkeys u) = ?n" "length (mtags u) = ?n" "0 < ?n" using u(2,3) lens ne by simp_all
  have "has_length (snd (snd p))" if "p \<in> set pads" for p
    using u(7) that by (auto simp: padding_row_def has_length_def intro: exI [of _ 2])
  then have "\<forall>t\<in>set (mtags u). has_length t" using tags u(3) by auto
  then obtain ns where ns: "map_all (tag_int ''seq_len'') (mtags u) = Inr ns" "length ns = ?n" "\<forall>x\<in>set ns. 0 \<le> x"
    using tag_lengths n(2) by metis
  have dvd: "dp dvd ?n" using multiple(2) u(5) by (rule dvd_trans)
  have le: "dp \<le> ?n" using dvd n(3) by (rule dvd_imp_le)
  have w: "\<forall>x\<in>set (calculate_workload ns). 0 \<le> x" using calculate_workload_nonneg ns(3) by blast
  obtain parts where parts: "get_seqlen_balanced_partitions (calculate_workload ns) dp True = Inr parts" "index_partition ?n dp parts"
    using partitions_total [of dp "calculate_workload ns" True] dp0 le dvd w ns(2) by auto
  have len: "length parts = dp" and perm: "reorders (concat parts) ?n" using parts(2) by (simp_all add: index_partition_def reorders_def)
  obtain stats where stats: "log_seqlen_unbalance ns parts = Inr stats"
    using unbalance_total [of ns dp parts] parts(2) dp0 le len ns(2) by auto
  let ?b = "\<lparr>mkeys = pick_rows (concat parts) (mkeys u), mtags = pick_rows (concat parts) (mtags u)\<rparr>"
  have "set (concat parts) \<subseteq> {..<length (mkeys u)}" using reorders_range [OF perm] n(1) by auto
  then have b': "reorder_meta (concat parts) u = ?b" using reorder by (simp add: reorders_meta_def)
  have "sync_balance_batch reorder_meta fetch pad_uid eos c step wg b = Inr ((?b, stats), wg', pads)"
    by (simp add: sync_balance_batch_def dp u(1) ns(1) parts(1) stats b')
  moreover have "length (mkeys ?b) = ?n" using reorders_length [OF perm] by simp
  moreover have "use_critic c \<longrightarrow> critic_mini_batch c * rollout_n c dvd ?n" "critic_warmup c \<le> step \<longrightarrow> actor_mini_batch c * rollout_n c dvd ?n"
    using multiple(3,4) dvd_trans [OF _ u(5)] by blast+
  ultimately show ?thesis
    by - (rule exI [of _ ?b], rule exI [of _ stats], rule exI [of _ pads], rule exI [of _ "concat parts"],
      use perm u dvd in simp)
qed

definition demo_multiple :: multiple_config where
  "demo_multiple = \<lparr>use_critic = False, critic_mini_batch = 1, actor_mini_batch = 2, rollout_n = 2, critic_warmup = 0\<rparr>"

definition demo_meta :: kv_meta where
  "demo_meta = \<lparr>mkeys = [make_key ''p'' 0 0], mtags = [[(''seq_len'', PInt 3)]]\<rparr>"

definition pick_meta :: "nat list \<Rightarrow> kv_meta \<Rightarrow> kv_meta" where
  "pick_meta ps b = \<lparr>mkeys = pick_rows ps (mkeys b), mtags = pick_rows ps (mtags b)\<rparr>"

lemma sync_balance_total_witness:
  "\<exists>b' stats wg' pads. sync_balance_batch pick_meta (\<lambda>_. Inr []) ''pad'' 0 demo_multiple 0 demo_group demo_meta = Inr ((b', stats), wg', pads)
    \<and> length pads < 4 \<and> 4 dvd length (mkeys b')"
proof -
  have dp: "get_dp_size ''actor'' demo_group = Inr (2, demo_group\<lparr>dispatch_info := [(''actor'', [0, 0, 1, 1])]\<rparr>)"
    by (simp add: get_dp_size_def demo_group_def query_dispatch_info_def)
  have b: "length (mtags demo_meta) = length (mkeys demo_meta)" "mkeys demo_meta \<noteq> []" "\<forall>t\<in>set (mtags demo_meta). has_length t"
    by (auto simp: demo_meta_def has_length_def intro: exI [of _ 3])
  have four: "get_required_batch_multiple demo_multiple 0 2 = 4"
    by (simp add: get_required_batch_multiple_def demo_multiple_def)
  have picks: "reorders_meta pick_meta" by (simp add: reorders_meta_def pick_meta_def)
  have minis: "0 < critic_mini_batch demo_multiple" "0 < actor_mini_batch demo_multiple" "0 < rollout_n demo_multiple"
    "critic_warmup demo_multiple \<le> 0" "actor_mini_batch demo_multiple * rollout_n demo_multiple = 4" by (simp_all add: demo_multiple_def)
  obtain b' stats pads ps where r: "sync_balance_batch pick_meta (\<lambda>_. Inr []) ''pad'' 0 demo_multiple 0 demo_group demo_meta
      = Inr ((b', stats), demo_group\<lparr>dispatch_info := [(''actor'', [0, 0, 1, 1])]\<rparr>, pads)"
    and pads: "length pads < 4" "critic_warmup demo_multiple \<le> 0 \<longrightarrow> actor_mini_batch demo_multiple * rollout_n demo_multiple dvd length (mkeys b')"
    using sync_balance_total [where fetch = "\<lambda>_. Inr []", OF dp b refl picks minis(1-3), of "''pad''" 0 0]
    unfolding four by (elim exE conjE) (rule that; assumption)
  then show ?thesis using minis(4,5) by auto
qed

end
