(* ===== verification/ReplayBuffer.thy ===== *)
theory ReplayBuffer
  imports SessionKeys
begin

text \<open>
  The replay buffer of the synchronous trainer (\<open>verl/trainer/main_ppo_sync.py\<close>): a thread copies the tags of
  the transfer queue into it, the agent loop workers write into the transfer queue, and the trainer waits until
  the prompts of its step have finished. The transfer queue is outside the repository: what it lists is a
  parameter. A run is any interleaving of the steps of \<open>sync_step\<close>. Every put, clear and listing of the
  transfer queue is one step.
\<close>

section \<open>The operations of the buffer\<close>

type_synonym replay_buffer = "(string \<times> (string \<times> tags) list) list"

text \<open>\<open>partitions\<close> is a \<open>defaultdict\<close>: a missing partition is empty.\<close>

definition buffer_partition :: "replay_buffer \<Rightarrow> string \<Rightarrow> (string \<times> tags) list" where
  "buffer_partition b partition_id = dict_get_or b partition_id []"

definition merge_item :: "(string \<times> tags) list \<Rightarrow> string \<times> tags \<Rightarrow> (string \<times> tags) list" where
  "merge_item p item = dict_set (fst item) (dict_update (dict_get_or p (fst item) []) (snd item)) p"

definition add_items :: "string \<Rightarrow> (string \<times> tags) list \<Rightarrow> replay_buffer \<Rightarrow> replay_buffer" where
  "add_items partition_id items b = dict_set partition_id (foldl merge_item (buffer_partition b partition_id) items) b"

definition remove_keys :: "string \<Rightarrow> string list \<Rightarrow> replay_buffer \<Rightarrow> replay_buffer" where
  "remove_keys partition_id keys b =
     dict_set partition_id (foldl (\<lambda>p key. dict_del key p) (buffer_partition b partition_id) keys) b"

text \<open>\<open>tag["global_steps"] == global_steps\<close>.\<close>

definition eq_steps :: "pyval \<Rightarrow> int option \<Rightarrow> bool" where
  "eq_steps v global_steps = (case global_steps of None \<Rightarrow> v = PNone | Some g \<Rightarrow> eq_int v g)"

text \<open>One pass over the partition: \<open>None\<close> when a prompt of the step is still running.\<close>

fun scan_partition ::
    "int option \<Rightarrow> (string \<times> tags) list \<Rightarrow> string list \<Rightarrow> tags list \<Rightarrow> (string list \<times> tags list) option result" where
  "scan_partition global_steps [] keys tgs = Inr (Some (keys, tgs))"
| "scan_partition global_steps ((key, tag) # p) keys tgs =
     rbind (dict_index tag ''global_steps'') (\<lambda>steps.
       if eq_steps steps global_steps
       then rbind (dict_index tag ''status'') (\<lambda>status.
              if eq_str status ''running'' then Inr None
              else if eq_str status ''success'' then scan_partition global_steps p (keys @ [key]) (tgs @ [tag])
              else scan_partition global_steps p keys tgs)
       else scan_partition global_steps p keys tgs)"

text \<open>The loop body of \<open>sample\<close>; after \<open>None\<close> it sleeps and tries again.\<close>

definition sample_attempt ::
    "string \<Rightarrow> int option \<Rightarrow> int option \<Rightarrow> replay_buffer \<Rightarrow> (string list \<times> tags list) option result" where
  "sample_attempt partition_id global_steps batch_size b =
     (let sized = (batch_size \<noteq> None \<and> batch_size \<noteq> Some 0)
      in passert ((global_steps \<noteq> None \<or> sized) \<and> \<not> (global_steps \<noteq> None \<and> sized))
           ''Either global_steps or batch_size must be specified, but not both.''
           (scan_partition global_steps (buffer_partition b partition_id) [] []))"

section \<open>What is written\<close>

text \<open>\<open>generate_sequences\<close> marks the prompts; \<open>_agent_loop_postprocess\<close> tags every output of a session.\<close>

definition running_tags :: "int \<Rightarrow> tags" where
  "running_tags global_steps = [(''global_steps'', PInt global_steps), (''status'', PStr ''running'')]"

definition running_items :: "int \<Rightarrow> string list \<Rightarrow> (string \<times> tags) list" where
  "running_items global_steps uids = dict_update [] (map (\<lambda>uid. (uid, running_tags global_steps)) uids)"

definition output_tags :: "int \<Rightarrow> nat \<Rightarrow> nat \<Rightarrow> tags" where
  "output_tags global_steps prompt_len response_len =
     [(''global_steps'', PInt global_steps), (''status'', PStr ''success''), (''prompt_len'', PInt (int prompt_len)),
      (''response_len'', PInt (int response_len)), (''seq_len'', PInt (int (prompt_len + response_len)))]"

definition output_items :: "string \<Rightarrow> nat \<Rightarrow> int \<Rightarrow> (nat \<times> nat) list \<Rightarrow> (string \<times> tags) list" where
  "output_items uid session_id global_steps outputs =
     map (\<lambda>(i, prompt_len, response_len). (make_key uid session_id i, output_tags global_steps prompt_len response_len))
       (zip [0..<length outputs] outputs)"

definition status_tags :: "string \<Rightarrow> tags" where
  "status_tags status = [(''status'', PStr status)]"

section \<open>Interleavings\<close>

text \<open>
  A prompt: its step, the sessions whose agent loop still runs, and the status its worker has put.
  \<open>stored\<close> is what the transfer queue holds, \<open>removed\<close> the keys that were cleared from it; \<open>polled\<close> is a listing that
  the polling thread has received and not yet added.
\<close>

record prompt_state =
  p_step :: int
  p_pending :: "nat set"
  p_result :: "string option"

record sync_state =
  buffer :: replay_buffer
  stored :: "(string \<times> tags) list"
  removed :: "string set"
  polled :: "(string \<times> tags) list option"
  prompts :: "string \<Rightarrow> prompt_state option"

definition sync_start :: sync_state where
  "sync_start = \<lparr>buffer = [], stored = [], removed = {}, polled = None, prompts = (\<lambda>_. None)\<rparr>"

definition output_key :: "string \<Rightarrow> bool" where
  "output_key key \<longleftrightarrow> (case split_key key of Inr _ \<Rightarrow> True | Inl _ \<Rightarrow> False)"

text \<open>Prompt ids are random and differ in form from the keys of outputs and from the ids of padding rows.\<close>

definition fresh_uid :: "sync_state \<Rightarrow> string \<Rightarrow> bool" where
  "fresh_uid s uid \<longleftrightarrow> prompts s uid = None \<and> \<not> output_key uid \<and> \<not> prefix ''pad'' uid"

definition tag_is :: "int \<Rightarrow> string \<Rightarrow> tags \<Rightarrow> bool" where
  "tag_is g status tag \<longleftrightarrow> map_of tag ''global_steps'' = Some (PInt g) \<and> map_of tag ''status'' = Some (PStr status)"

text \<open>
  One rule per write of the trainer, the workers and the polling thread. When some session of a prompt raises, its
  worker puts the status \<open>failure\<close> while the other sessions go on. The trainer puts padding rows, with the tag of a
  sampled row, and clears keys first from the transfer queue and then from the buffer.
\<close>

inductive sync_step ::
    "((string \<times> tags) list \<Rightarrow> (string \<times> tags) list \<Rightarrow> bool) \<Rightarrow> string \<Rightarrow> sync_state \<Rightarrow> sync_state \<Rightarrow> bool" for listing pid where
  generate: "\<lbrakk>\<forall>u\<in>set uids. fresh_uid s u; distinct uids\<rbrakk> \<Longrightarrow>
    sync_step listing pid s (s\<lparr>buffer := add_items pid (running_items g uids) (buffer s),
      prompts := (\<lambda>u. if u \<in> set uids then Some \<lparr>p_step = g, p_pending = {..<n u}, p_result = None\<rparr> else prompts s u)\<rparr>)"
| session_end: "\<lbrakk>prompts s u = Some p; sid \<in> p_pending p\<rbrakk> \<Longrightarrow>
    sync_step listing pid s (s\<lparr>stored := stored s @ output_items u sid (p_step p) outputs,
      prompts := (prompts s)(u \<mapsto> p\<lparr>p_pending := p_pending p - {sid}\<rparr>)\<rparr>)"
| finished: "\<lbrakk>prompts s u = Some p; p_result p = None; p_pending p = {}\<rbrakk> \<Longrightarrow>
    sync_step listing pid s (s\<lparr>stored := stored s @ [(u, status_tags ''finished'')],
      prompts := (prompts s)(u \<mapsto> p\<lparr>p_result := Some ''finished''\<rparr>)\<rparr>)"
| failure: "\<lbrakk>prompts s u = Some p; p_result p = None\<rbrakk> \<Longrightarrow>
    sync_step listing pid s (s\<lparr>stored := stored s @ [(u, status_tags ''failure'')],
      prompts := (prompts s)(u \<mapsto> p\<lparr>p_pending := p_pending p - raised, p_result := Some ''failure''\<rparr>)\<rparr>)"
| pad: "\<lbrakk>distinct (map fst tag); tag_is g ''success'' tag; distinct sids;
    \<forall>j\<in>set sids. make_key (''pad'' @ h) j 0 \<notin> fst ` set (stored s) \<union> removed s\<rbrakk> \<Longrightarrow>
    sync_step listing pid s (s\<lparr>stored := stored s @ map (\<lambda>j. (make_key (''pad'' @ h) j 0, tag)) sids\<rparr>)"
| poll: "\<lbrakk>polled s = None; listing (stored s) d\<rbrakk> \<Longrightarrow> sync_step listing pid s (s\<lparr>polled := Some d\<rparr>)"
| add: "polled s = Some d \<Longrightarrow> sync_step listing pid s (s\<lparr>buffer := add_items pid d (buffer s), polled := None\<rparr>)"
| clear_store: "\<forall>k\<in>set keys. output_key k \<and> k \<in> fst ` set (stored s) \<union> removed s \<Longrightarrow>
    sync_step listing pid s (s\<lparr>stored := filter (\<lambda>(k, _). k \<notin> set keys) (stored s), removed := removed s \<union> set keys\<rparr>)"
| clear_buffer: "set keys \<subseteq> removed s \<Longrightarrow> sync_step listing pid s (s\<lparr>buffer := remove_keys pid keys (buffer s)\<rparr>)"

definition sync_reachable :: "((string \<times> tags) list \<Rightarrow> (string \<times> tags) list \<Rightarrow> bool) \<Rightarrow> string \<Rightarrow> sync_state \<Rightarrow> bool" where
  "sync_reachable listing pid s \<longleftrightarrow> (sync_step listing pid)\<^sup>*\<^sup>* sync_start s"

text \<open>The documented behaviour of \<open>kv_list\<close>: every key that is held, once, with its tags.\<close>

definition lists_stored :: "((string \<times> tags) list \<Rightarrow> (string \<times> tags) list \<Rightarrow> bool) \<Rightarrow> bool" where
  "lists_stored listing \<longleftrightarrow> (\<forall>h d. listing h d \<longrightarrow> distinct (map fst h) \<longrightarrow> distinct (map fst d) \<and> set d = set h)"

end
