(* ===== verification/ReplayFacts.thy ===== *)
theory ReplayFacts
  imports ReplayBuffer
begin

text \<open>
  When the trainer's wait ends, the outputs of the finished prompts of its step are all in the batch,
  however the workers, the polling thread and the cleanup are interleaved.
\<close>

section \<open>Dictionaries\<close>

lemma partition_add: "buffer_partition (add_items pid items b) pid = foldl merge_item (buffer_partition b pid) items"
  by (simp add: buffer_partition_def add_items_def dict_get_or_def map_of_dict_set)

lemma partition_remove: "buffer_partition (remove_keys pid keys b) pid = foldl (\<lambda>p key. dict_del key p) (buffer_partition b pid) keys"
  by (simp add: buffer_partition_def remove_keys_def dict_get_or_def map_of_dict_set)

lemma merge_distinct: "distinct (map fst p) \<Longrightarrow> distinct (map fst (foldl merge_item p items))"
  by (induction items arbitrary: p) (simp_all add: merge_item_def distinct_dict_set)

lemma map_of_merge:
  "distinct (map fst items) \<Longrightarrow> map_of (foldl merge_item p items) k
    = (case map_of items k of None \<Rightarrow> map_of p k | Some t \<Rightarrow> Some (dict_update (dict_get_or p k []) t))"
proof (induction items arbitrary: p)
  case (Cons x items)
  obtain k' t where x: "x = (k', t)" by (cases x)
  have "map_of items k' = None" "distinct (map fst items)" using Cons.prems x by (simp_all add: map_of_eq_None_iff)
  then show ?case using Cons.IH [of "merge_item p x"]
    by (auto simp: x merge_item_def map_of_dict_set dict_get_or_def split: option.splits)
qed simp

lemma map_of_del_keys: "map_of (foldl (\<lambda>p key. dict_del key p) p keys) k = (if k \<in> set keys then None else map_of p k)"
  by (induction keys arbitrary: p) (simp_all add: map_of_dict_del)

lemma distinct_del_keys: "distinct (map fst p) \<Longrightarrow> distinct (map fst (foldl (\<lambda>p key. dict_del key p) p keys))"
  by (induction keys arbitrary: p) (simp_all add: distinct_dict_del)

lemma dom_keys: "map_of d k = Some t \<Longrightarrow> k \<in> fst ` set d"
  by (metis domI dom_map_of_conv_image_fst)

lemma keys_dom: "k \<in> fst ` set d \<Longrightarrow> \<exists>t. map_of d k = Some t"
  by (metis domD dom_map_of_conv_image_fst)

lemma running_items_eq: "distinct uids \<Longrightarrow> map_of (running_items g uids) k = (if k \<in> set uids then Some (running_tags g) else None)"
  unfolding running_items_def
  by (subst map_of_dict_update) (simp_all add: comp_def map_of_map_restrict restrict_map_def)

lemma distinct_update: "distinct (map fst d) \<Longrightarrow> distinct (map fst (dict_update d e))"
  unfolding dict_update_def by (induction e arbitrary: d) (auto simp: distinct_dict_set)

section \<open>The scan\<close>

lemma scan_partition_eq:
  assumes "\<forall>(k, t)\<in>set p. \<exists>g st. tag_is g st t"
  shows "scan_partition (Some g) p ks ts = Inr (if \<exists>(k, t)\<in>set p. tag_is g ''running'' t then None
    else Some (ks @ map fst (filter (\<lambda>(k, t). tag_is g ''success'' t) p), ts @ map snd (filter (\<lambda>(k, t). tag_is g ''success'' t) p)))"
  using assms
proof (induction p arbitrary: ks ts)
  case (Cons x p)
  obtain k t where x: "x = (k, t)" by (cases x)
  obtain g' st where t: "map_of t ''global_steps'' = Some (PInt g')" "map_of t ''status'' = Some (PStr st)"
    using Cons.prems x by (auto simp: tag_is_def)
  have "\<forall>(k, t)\<in>set p. \<exists>g st. tag_is g st t" using Cons.prems by simp
  note IH = Cons.IH [OF this]
  show ?case by (simp add: x dict_index_def t IH eq_steps_def eq_str_def tag_is_def)
qed simp

section \<open>The invariant\<close>

lemma make_key_output [simp]: "output_key (make_key u s i)"
  by (simp add: output_key_def session_key_parse)

text \<open>The key of an output of a session that is over, of a prompt of step \<open>g\<close>, or of a padding row.\<close>

definition done_output :: "(string \<Rightarrow> prompt_state option) \<Rightarrow> string \<Rightarrow> int \<Rightarrow> bool" where
  "done_output P k g \<longleftrightarrow> (\<exists>u sid i. k = make_key u sid i
     \<and> (prefix ''pad'' u \<or> (\<exists>p. P u = Some p \<and> sid \<notin> p_pending p \<and> g = p_step p)))"

definition entry_ok :: "(string \<Rightarrow> prompt_state option) \<Rightarrow> string \<Rightarrow> tags \<Rightarrow> bool" where
  "entry_ok P k t \<longleftrightarrow> (\<exists>g. done_output P k g \<and> distinct (map fst t) \<and> tag_is g ''success'' t)
     \<or> (\<exists>p r. P k = Some p \<and> p_result p = Some r \<and> t = status_tags r)"

definition has_outputs :: "(string \<times> tags) list \<Rightarrow> string \<Rightarrow> string set \<Rightarrow> bool" where
  "has_outputs h u S \<longleftrightarrow> (\<forall>sid i. make_key u sid i \<in> fst ` set h \<longrightarrow> make_key u sid i \<in> S)"

definition prompts_ok :: "sync_state \<Rightarrow> bool" where
  "prompts_ok s \<longleftrightarrow> (\<forall>u p. prompts s u = Some p \<longrightarrow> \<not> output_key u \<and> \<not> prefix ''pad'' u
     \<and> p_result p \<noteq> Some ''running'' \<and> p_result p \<noteq> Some ''success'' \<and> (p_result p = Some ''finished'' \<longrightarrow> p_pending p = {})
     \<and> map_of (stored s) u = map_option status_tags (p_result p))"

definition listing_ok :: "sync_state \<Rightarrow> (string \<times> tags) list \<Rightarrow> bool" where
  "listing_ok s d \<longleftrightarrow> distinct (map fst d) \<and> (\<forall>k t. map_of d k = Some t \<longrightarrow> entry_ok (prompts s) k t)
     \<and> (\<forall>u. map_of d u = Some (status_tags ''finished'') \<longrightarrow> has_outputs (stored s) u (fst ` set d))"

definition removed_ok :: "sync_state \<Rightarrow> bool" where
  "removed_ok s \<longleftrightarrow> (\<forall>k\<in>removed s. k \<notin> fst ` set (stored s) \<and> (\<exists>g. done_output (prompts s) k g))"

definition prompt_entry_ok :: "sync_state \<Rightarrow> (string \<times> tags) list \<Rightarrow> string \<Rightarrow> prompt_state \<Rightarrow> bool" where
  "prompt_entry_ok s b u p \<longleftrightarrow> (\<exists>t st. map_of b u = Some t \<and> tag_is (p_step p) st t \<and> (st = ''running'' \<or> p_result p = Some st)
     \<and> (st = ''finished'' \<longrightarrow> has_outputs (stored s) u (fst ` set b)))"

definition buffer_ok :: "sync_state \<Rightarrow> (string \<times> tags) list \<Rightarrow> bool" where
  "buffer_ok s b \<longleftrightarrow> distinct (map fst b) \<and> (\<forall>u p. prompts s u = Some p \<longrightarrow> prompt_entry_ok s b u p)
     \<and> (\<forall>k t. map_of b k = Some t \<longrightarrow> prompts s k = None \<longrightarrow> (\<exists>g. done_output (prompts s) k g \<and> tag_is g ''success'' t))"

definition sync_inv :: "string \<Rightarrow> sync_state \<Rightarrow> bool" where
  "sync_inv pid s \<longleftrightarrow> prompts_ok s \<and> listing_ok s (stored s) \<and> removed_ok s \<and> (\<forall>d. polled s = Some d \<longrightarrow> listing_ok s d)
     \<and> buffer_ok s (buffer_partition (buffer s) pid)"

text \<open>Prompts only advance.\<close>

definition advance :: "(string \<Rightarrow> prompt_state option) \<Rightarrow> (string \<Rightarrow> prompt_state option) \<Rightarrow> bool" where
  "advance P P' \<longleftrightarrow> (\<forall>u p. P u = Some p \<longrightarrow> (\<exists>p'. P' u = Some p' \<and> p_step p' = p_step p \<and> p_pending p' \<subseteq> p_pending p
     \<and> (\<forall>r. p_result p = Some r \<longrightarrow> p_result p' = Some r)))"

lemma done_output_mono: "done_output P k g \<Longrightarrow> advance P P' \<Longrightarrow> done_output P' k g"
  unfolding done_output_def advance_def by (metis subsetD)

lemma entry_ok_mono: "entry_ok P k t \<Longrightarrow> advance P P' \<Longrightarrow> entry_ok P' k t"
proof -
  assume e: "entry_ok P k t" and a: "advance P P'"
  show ?thesis
  proof (cases "\<exists>g. done_output P k g \<and> distinct (map fst t) \<and> tag_is g ''success'' t")
    case True
    then show ?thesis using done_output_mono [OF _ a] by (auto simp: entry_ok_def)
  next
    case False
    then obtain p r where p: "P k = Some p" "p_result p = Some r" "t = status_tags r" using e by (auto simp: entry_ok_def)
    then obtain p' where "P' k = Some p'" "p_result p' = Some r" using a unfolding advance_def by blast
    with p(3) show ?thesis by (simp add: entry_ok_def)
  qed
qed

lemma done_output_key: "done_output P k g \<Longrightarrow> output_key k"
  by (auto simp: done_output_def)

lemma status_tags_simps [simp]: "map_of (status_tags r) ''status'' = Some (PStr r)" "map_of (status_tags r) ''global_steps'' = None"
  "distinct (map fst (status_tags r))" "status_tags r = status_tags r' \<longleftrightarrow> r = r'"
  by (simp_all add: status_tags_def)

lemma finished_entry: "entry_ok P u (status_tags r) \<Longrightarrow> \<exists>p. P u = Some p \<and> p_result p = Some r"
  by (auto simp: entry_ok_def tag_is_def)

text \<open>A step of the workers: no prompt is new, and none that has finished stores another output.\<close>

definition quiet :: "sync_state \<Rightarrow> sync_state \<Rightarrow> bool" where
  "quiet s s' \<longleftrightarrow> advance (prompts s) (prompts s')
     \<and> (\<forall>u p sid i. prompts s u = Some p \<longrightarrow> p_result p = Some ''finished'' \<longrightarrow> make_key u sid i \<in> fst ` set (stored s')
          \<longrightarrow> make_key u sid i \<in> fst ` set (stored s))"

lemma quiet_outputs:
  assumes "quiet s s'" and "prompts s u = Some p" "p_result p = Some ''finished''" and "has_outputs (stored s) u S"
  shows "has_outputs (stored s') u S"
  using assms unfolding quiet_def has_outputs_def by blast

lemma listing_ok_quiet:
  assumes "listing_ok s d" and q: "quiet s s'"
  shows "listing_ok s' d"
proof -
  have a: "advance (prompts s) (prompts s')" using q by (simp add: quiet_def)
  have "has_outputs (stored s') u (fst ` set d)" if u: "map_of d u = Some (status_tags ''finished'')" for u
  proof -
    have "entry_ok (prompts s) u (status_tags ''finished'')" using assms(1) u by (simp add: listing_ok_def)
    from finished_entry [OF this] obtain p where "prompts s u = Some p" "p_result p = Some ''finished''" by blast
    moreover have "has_outputs (stored s) u (fst ` set d)" using assms(1) u by (simp add: listing_ok_def)
    ultimately show ?thesis by (rule quiet_outputs [OF q])
  qed
  then show ?thesis using assms(1) entry_ok_mono [OF _ a] by (simp add: listing_ok_def)
qed

lemma store_ok_iff: "listing_ok s (stored s) \<longleftrightarrow> distinct (map fst (stored s)) \<and> (\<forall>k t. map_of (stored s) k = Some t \<longrightarrow> entry_ok (prompts s) k t)"
  by (simp add: listing_ok_def has_outputs_def)

lemma store_append:
  assumes "listing_ok s (stored s)" and "advance (prompts s) (prompts s')" and "stored s' = stored s @ xs" and "distinct (map fst xs)"
    and "\<And>k t. (k, t) \<in> set xs \<Longrightarrow> k \<notin> fst ` set (stored s) \<and> entry_ok (prompts s') k t"
  shows "listing_ok s' (stored s')"
proof -
  have "distinct (map fst (stored s @ xs))" using assms(1,4,5) unfolding store_ok_iff by force
  moreover have "entry_ok (prompts s') k t" if "map_of (stored s @ xs) k = Some t" for k t
  proof (cases "map_of (stored s) k")
    case None
    then have "(k, t) \<in> set xs" using that by (auto simp: map_add_def split: option.splits dest: map_of_SomeD)
    then show ?thesis using assms(5) by blast
  next
    case (Some t')
    moreover have "map_of xs k = None" using assms(5) dom_keys [OF Some] by (force simp: map_of_eq_None_iff)
    ultimately have "map_of (stored s) k = Some t" using that by (simp add: map_add_def)
    then show ?thesis using assms(1) entry_ok_mono [OF _ assms(2)] unfolding store_ok_iff by blast
  qed
  ultimately show ?thesis unfolding store_ok_iff by (simp add: assms(3))
qed

lemma buffer_prompt:
  "buffer_ok s b \<Longrightarrow> prompts s u = Some p \<Longrightarrow> \<exists>t st. map_of b u = Some t \<and> tag_is (p_step p) st t
     \<and> (st = ''running'' \<or> p_result p = Some st) \<and> (st = ''finished'' \<longrightarrow> has_outputs (stored s) u (fst ` set b))"
  unfolding buffer_ok_def prompt_entry_ok_def by blast

lemma buffer_other:
  "buffer_ok s b \<Longrightarrow> map_of b k = Some t \<Longrightarrow> prompts s k = None \<Longrightarrow> \<exists>g. done_output (prompts s) k g \<and> tag_is g ''success'' t"
  unfolding buffer_ok_def by blast

lemma has_outputs_mono: "has_outputs h u S \<Longrightarrow> S \<subseteq> T \<Longrightarrow> has_outputs h u T"
  unfolding has_outputs_def by blast

lemma buffer_ok_quiet:
  assumes b: "buffer_ok s b" and q: "quiet s s'" and dom: "\<And>u. prompts s' u = None \<longleftrightarrow> prompts s u = None"
  shows "buffer_ok s' b"
proof -
  have a: "advance (prompts s) (prompts s')" using q by (simp add: quiet_def)
  have "prompt_entry_ok s' b u p'" if "prompts s' u = Some p'" for u p'
  proof -
    obtain p where p: "prompts s u = Some p" using dom [of u] \<open>prompts s' u = Some p'\<close> by auto
    then have p': "p_step p' = p_step p" "\<forall>r. p_result p = Some r \<longrightarrow> p_result p' = Some r"
      using a \<open>prompts s' u = Some p'\<close> unfolding advance_def by (metis option.inject)+
    obtain t st where t: "map_of b u = Some t" "tag_is (p_step p) st t" "st = ''running'' \<or> p_result p = Some st"
      "st = ''finished'' \<longrightarrow> has_outputs (stored s) u (fst ` set b)"
      using buffer_prompt [OF b p] by blast
    have "has_outputs (stored s') u (fst ` set b)" if "st = ''finished''"
      using quiet_outputs [OF q p] t(3,4) that by simp
    then show ?thesis using t p' by (auto simp: prompt_entry_ok_def)
  qed
  moreover have "\<exists>g. done_output (prompts s') k g \<and> tag_is g ''success'' t" if k: "map_of b k = Some t" "prompts s' k = None" for k t
  proof -
    have "prompts s k = None" using k(2) dom by simp
    from buffer_other [OF b k(1) this] show ?thesis using done_output_mono [OF _ a] by blast
  qed
  ultimately show ?thesis using b by (simp add: buffer_ok_def)
qed

lemma tag_is_update: "distinct (map fst e) \<Longrightarrow> tag_is g st e \<Longrightarrow> tag_is g st (dict_update d e)"
  by (simp add: tag_is_def map_of_dict_update del: map_of_eq_Some_iff)

lemma merge_keys:
  assumes "distinct (map fst d)"
  shows "fst ` set b \<subseteq> fst ` set (foldl merge_item b d) \<and> fst ` set d \<subseteq> fst ` set (foldl merge_item b d)"
proof -
  have "map_of (foldl merge_item b d) k \<noteq> None" if "map_of b k \<noteq> None \<or> map_of d k \<noteq> None" for k
    using that by (auto simp: map_of_merge [OF assms] split: option.splits)
  then show ?thesis by (metis map_of_eq_None_iff subsetI)
qed

lemma buffer_ok_add:
  assumes b: "buffer_ok s b" and d: "listing_ok s d" and ok: "prompts_ok s"
  shows "buffer_ok s (foldl merge_item b d)"
proof -
  let ?b = "foldl merge_item b d"
  have m: "map_of ?b k = (case map_of d k of None \<Rightarrow> map_of b k | Some t \<Rightarrow> Some (dict_update (dict_get_or b k []) t))" for k
    using d by (simp add: map_of_merge listing_ok_def)
  have keys: "fst ` set b \<subseteq> fst ` set ?b" "fst ` set d \<subseteq> fst ` set ?b" using d merge_keys [of d b] by (simp_all add: listing_ok_def)
  have "prompt_entry_ok s ?b u p" if p: "prompts s u = Some p" for u p
  proof -
    obtain t st where t: "map_of b u = Some t" "tag_is (p_step p) st t" "st = ''running'' \<or> p_result p = Some st"
      "st = ''finished'' \<longrightarrow> has_outputs (stored s) u (fst ` set b)"
      using buffer_prompt [OF b p] by blast
    show ?thesis
    proof (cases "map_of d u")
      case None
      have "st = ''finished'' \<longrightarrow> has_outputs (stored s) u (fst ` set ?b)" using t(4) has_outputs_mono [OF _ keys(1)] by blast
      then show ?thesis using t m [of u] None by (auto simp: prompt_entry_ok_def)
    next
      case (Some e)
      have "entry_ok (prompts s) u e" using d Some by (simp add: listing_ok_def)
      moreover have "\<not> output_key u" using ok p by (simp add: prompts_ok_def)
      ultimately obtain r where r: "p_result p = Some r" "e = status_tags r" using p done_output_key by (auto simp: entry_ok_def)
      have "tag_is (p_step p) r (dict_update t (status_tags r))"
        using t(2) by (simp add: tag_is_def map_of_dict_update)
      moreover have "r = ''finished'' \<longrightarrow> has_outputs (stored s) u (fst ` set ?b)"
        using d Some r(2) has_outputs_mono [OF _ keys(2)] by (simp add: listing_ok_def)
      ultimately show ?thesis using m [of u] Some r t(1) by (auto simp: prompt_entry_ok_def dict_get_or_def)
    qed
  qed
  moreover have "\<exists>g. done_output (prompts s) k g \<and> tag_is g ''success'' t" if k: "map_of ?b k = Some t" "prompts s k = None" for k t
  proof (cases "map_of d k")
    case None
    then show ?thesis using buffer_other [OF b, of k t] k m [of k] by simp
  next
    case (Some e)
    then have "entry_ok (prompts s) k e" using d by (simp add: listing_ok_def)
    then obtain g where g: "done_output (prompts s) k g" "distinct (map fst e)" "tag_is g ''success'' e" using k(2) by (auto simp: entry_ok_def)
    moreover have "t = dict_update (dict_get_or b k []) e" using k(1) m [of k] Some by simp
    ultimately have "tag_is g ''success'' t" using tag_is_update by simp
    with g(1) show ?thesis by blast
  qed
  ultimately show ?thesis using b merge_distinct by (simp add: buffer_ok_def)
qed

section \<open>Every step keeps the invariant\<close>

lemma advance_refl [simp]: "advance P P"
  by (simp add: advance_def)

lemma advance_upd:
  "P u = Some p \<Longrightarrow> p_step p' = p_step p \<Longrightarrow> p_pending p' \<subseteq> p_pending p \<Longrightarrow> (\<forall>r. p_result p = Some r \<longrightarrow> p_result p' = Some r)
    \<Longrightarrow> advance P (P(u \<mapsto> p'))"
  by (simp add: advance_def)

lemma inv_store:
  assumes inv: "sync_inv pid s" and a: "advance (prompts s) (prompts s')" and dom: "\<And>u. prompts s' u = None \<longleftrightarrow> prompts s u = None"
    and frame: "buffer s' = buffer s" "polled s' = polled s" "removed s' = removed s" and st: "stored s' = stored s @ xs"
    and ok: "prompts_ok s'" and dist: "distinct (map fst xs)"
    and new: "\<And>k t. (k, t) \<in> set xs \<Longrightarrow> k \<notin> fst ` set (stored s) \<union> removed s \<and> entry_ok (prompts s') k t
      \<and> (\<forall>u sid i p. k = make_key u sid i \<longrightarrow> prompts s u = Some p \<longrightarrow> p_result p \<noteq> Some ''finished'')"
  shows "sync_inv pid s'"
proof -
  have q: "quiet s s'" using a new unfolding quiet_def st by fastforce
  have "listing_ok s (stored s)" using inv by (simp add: sync_inv_def)
  from store_append [OF this a st dist] have "listing_ok s' (stored s')" using new by blast
  moreover have "removed_ok s'"
    unfolding removed_ok_def
  proof
    fix k assume "k \<in> removed s'"
    then have k: "k \<in> removed s" using frame(3) by simp
    then obtain g where "k \<notin> fst ` set (stored s)" and "done_output (prompts s) k g" using inv unfolding sync_inv_def removed_ok_def by blast
    moreover have "k \<notin> fst ` set xs" using new k by fastforce
    ultimately show "k \<notin> fst ` set (stored s') \<and> (\<exists>g. done_output (prompts s') k g)"
      using done_output_mono [OF _ a] st by (metis Un_iff image_Un set_append)
  qed
  moreover have "\<forall>d. polled s' = Some d \<longrightarrow> listing_ok s' d" using inv listing_ok_quiet [OF _ q] frame(2) by (simp add: sync_inv_def)
  moreover have "buffer_ok s' (buffer_partition (buffer s') pid)"
    using inv buffer_ok_quiet [OF _ q dom] frame(1) by (simp add: sync_inv_def)
  ultimately show ?thesis using ok by (simp add: sync_inv_def)
qed

lemma prompt_key: "prompts_ok s \<Longrightarrow> prompts s u = Some p \<Longrightarrow> \<not> output_key u"
  by (simp add: prompts_ok_def)

lemma prompt_not_output: "sync_inv pid s \<Longrightarrow> prompts s u = Some p \<Longrightarrow> \<not> output_key u"
  by (simp add: sync_inv_def prompts_ok_def)

lemma stored_output:
  assumes "sync_inv pid s" and "k \<in> fst ` set (stored s) \<union> removed s" and "output_key k"
  shows "\<exists>g. done_output (prompts s) k g"
proof (cases "k \<in> removed s")
  case True
  then show ?thesis using assms(1) by (simp add: sync_inv_def removed_ok_def)
next
  case False
  then have "k \<in> fst ` set (stored s)" using assms(2) by simp
  from keys_dom [OF this] obtain t where "map_of (stored s) k = Some t" ..
  moreover have "listing_ok s (stored s)" using assms(1) by (simp add: sync_inv_def)
  ultimately have "entry_ok (prompts s) k t" unfolding store_ok_iff by simp
  moreover have "prompts s k \<noteq> Some p" for p using prompt_not_output [OF assms(1)] assms(3) by metis
  ultimately show ?thesis unfolding entry_ok_def by metis
qed

lemma pending_fresh:
  assumes inv: "sync_inv pid s" and p: "prompts s u = Some p" "sid \<in> p_pending p"
  shows "make_key u sid i \<notin> fst ` set (stored s) \<union> removed s"
proof
  assume "make_key u sid i \<in> fst ` set (stored s) \<union> removed s"
  from stored_output [OF inv this] obtain g where "done_output (prompts s) (make_key u sid i) g" by auto
  moreover have "\<not> prefix ''pad'' u" using inv p(1) by (simp add: sync_inv_def prompts_ok_def)
  ultimately show False using p by (auto simp: done_output_def make_key_inj)
qed

lemma output_items_keys: "map fst (output_items u sid g outs) = map (make_key u sid) [0..<length outs]"
  by (rule nth_equalityI) (simp_all add: output_items_def split_def)

lemma output_items_entry:
  assumes "(k, t) \<in> set (output_items u sid g outs)"
  shows "(\<exists>i. k = make_key u sid i) \<and> distinct (map fst t) \<and> tag_is g ''success'' t"
proof -
  from assms obtain i a b where "k = make_key u sid i" "t = output_tags g a b" by (auto simp: output_items_def)
  then show ?thesis by (auto simp: output_tags_def tag_is_def)
qed

lemma inv_session_end:
  assumes inv: "sync_inv pid s" and p: "prompts s u = Some p" "sid \<in> p_pending p"
  shows "sync_inv pid (s\<lparr>stored := stored s @ output_items u sid (p_step p) outs,
      prompts := (prompts s)(u \<mapsto> p\<lparr>p_pending := p_pending p - {sid}\<rparr>)\<rparr>)" (is "sync_inv pid ?s")
proof (rule inv_store [OF inv, where xs = "output_items u sid (p_step p) outs"])
  show "advance (prompts s) (prompts ?s)" using advance_upd [where P = "prompts s" and u = u, OF p(1)] by simp
  show "distinct (map fst (output_items u sid (p_step p) outs))"
    unfolding output_items_keys by (simp add: distinct_map inj_on_def make_key_inj)
  have none: "map_of (output_items u sid (p_step p) outs) v = None" if "\<not> output_key v" for v
  proof (rule ccontr)
    assume "map_of (output_items u sid (p_step p) outs) v \<noteq> None"
    then obtain t where "(v, t) \<in> set (output_items u sid (p_step p) outs)" by (auto dest: map_of_SomeD)
    from output_items_entry [OF this] show False using that by auto
  qed
  have "p_result p \<noteq> Some ''finished''" using inv p by (auto simp: sync_inv_def prompts_ok_def)
  then show "prompts_ok ?s" using inv p none by (auto simp: sync_inv_def prompts_ok_def map_add_def split: option.splits)
  show "k \<notin> fst ` set (stored s) \<union> removed s \<and> entry_ok (prompts ?s) k t
      \<and> (\<forall>u sid i p. k = make_key u sid i \<longrightarrow> prompts s u = Some p \<longrightarrow> p_result p \<noteq> Some ''finished'')"
    if kt: "(k, t) \<in> set (output_items u sid (p_step p) outs)" for k t
  proof -
    obtain i where k: "k = make_key u sid i" and t: "distinct (map fst t)" "tag_is (p_step p) ''success'' t"
      using output_items_entry [OF kt] by blast
    have "done_output (prompts ?s) k (p_step p)" unfolding done_output_def using k
      by - (rule exI [of _ u], rule exI [of _ sid], rule exI [of _ i], simp)
    then show ?thesis using pending_fresh [OF inv p, of i] k t \<open>p_result p \<noteq> _\<close> p(1)
      by (auto simp: entry_ok_def make_key_inj)
  qed
qed (use p in auto)

lemma inv_status:
  assumes inv: "sync_inv pid s" and p: "prompts s u = Some p" "p_result p = None" and P: "P \<subseteq> p_pending p"
    and r: "r = ''finished'' \<and> P = {} \<or> r = ''failure''"
  shows "sync_inv pid (s\<lparr>stored := stored s @ [(u, status_tags r)],
      prompts := (prompts s)(u \<mapsto> p\<lparr>p_pending := P, p_result := Some r\<rparr>)\<rparr>)" (is "sync_inv pid ?s")
proof (rule inv_store [OF inv, where xs = "[(u, status_tags r)]"])
  show "advance (prompts s) (prompts ?s)" using advance_upd [where P = "prompts s" and u = u, OF p(1)] P p(2) by simp
  have u: "\<not> output_key u" using prompt_not_output [OF inv p(1)] .
  have new: "u \<notin> fst ` set (stored s)" using inv p by (simp add: sync_inv_def prompts_ok_def flip: map_of_eq_None_iff)
  then show "prompts_ok ?s" using inv p r by (auto simp: sync_inv_def prompts_ok_def map_add_def map_of_eq_None_iff split: option.splits)
  have "u \<notin> removed s" using inv u done_output_key by (auto simp: sync_inv_def removed_ok_def)
  then show "k \<notin> fst ` set (stored s) \<union> removed s \<and> entry_ok (prompts ?s) k t
      \<and> (\<forall>u sid i p. k = make_key u sid i \<longrightarrow> prompts s u = Some p \<longrightarrow> p_result p \<noteq> Some ''finished'')"
    if "(k, t) \<in> set [(u, status_tags r)]" for k t
    using that new u by (auto simp: entry_ok_def)
qed (use p in auto)

lemma inv_pad:
  assumes inv: "sync_inv pid s" and v: "prefix ''pad'' v" and tag: "distinct (map fst tag)" "tag_is g ''success'' tag" and dist: "distinct sids"
    and new: "\<forall>j\<in>set sids. make_key v j 0 \<notin> fst ` set (stored s) \<union> removed s"
  shows "sync_inv pid (s\<lparr>stored := stored s @ map (\<lambda>j. (make_key v j 0, tag)) sids\<rparr>)" (is "sync_inv pid ?s")
proof (rule inv_store [OF inv, where xs = "map (\<lambda>j. (make_key v j 0, tag)) sids"])
  let ?xs = "map (\<lambda>j. (make_key v j 0, tag)) sids"
  show "distinct (map fst ?xs)" using dist by (simp add: comp_def distinct_map inj_on_def make_key_inj)
  have none: "map_of ?xs w = None" if "\<not> output_key w" for w using that by (auto simp: map_of_eq_None_iff)
  then show "prompts_ok ?s" using inv none by (auto simp: sync_inv_def prompts_ok_def map_add_def split: option.splits)
  show "k \<notin> fst ` set (stored s) \<union> removed s \<and> entry_ok (prompts ?s) k t
      \<and> (\<forall>u sid i p. k = make_key u sid i \<longrightarrow> prompts s u = Some p \<longrightarrow> p_result p \<noteq> Some ''finished'')"
    if kt: "(k, t) \<in> set ?xs" for k t
  proof -
    obtain j where j: "j \<in> set sids" "k = make_key v j 0" "t = tag" using kt by auto
    have "done_output (prompts s) k g" unfolding done_output_def j(2)
      by (rule exI [of _ "v"], rule exI [of _ j], rule exI [of _ 0]) (simp add: v)
    moreover have "prompts s v = None" using inv v by (cases "prompts s v") (auto simp: sync_inv_def prompts_ok_def)
    ultimately show ?thesis using new j tag by (auto simp: entry_ok_def make_key_inj)
  qed
qed auto

lemma inv_clear_store:
  assumes inv: "sync_inv pid s" and keys: "\<forall>k\<in>set keys. output_key k \<and> k \<in> fst ` set (stored s) \<union> removed s"
  shows "sync_inv pid (s\<lparr>stored := filter (\<lambda>(k, _). k \<notin> set keys) (stored s), removed := removed s \<union> set keys\<rparr>)" (is "sync_inv pid ?s")
proof -
  have q: "quiet s ?s" by (auto simp: quiet_def)
  have m: "map_of (filter (\<lambda>(k, _). k \<notin> set keys) h) k = (if k \<in> set keys then None else map_of h k)" for h :: "(string \<times> tags) list" and k
    by (induction h) auto
  have sub: "fst ` set (stored ?s) = fst ` set (stored s) - set keys" by force
  have "prompts_ok ?s" using inv keys by (auto simp: sync_inv_def prompts_ok_def m)
  moreover have "listing_ok s (stored s)" using inv by (simp add: sync_inv_def)
  then have "distinct (map fst (stored ?s)) \<and> (\<forall>k t. map_of (stored ?s) k = Some t \<longrightarrow> entry_ok (prompts ?s) k t)"
    unfolding store_ok_iff by (simp add: m distinct_map_filter)
  then have "listing_ok ?s (stored ?s)" unfolding store_ok_iff .
  moreover have "removed_ok ?s"
    unfolding removed_ok_def
  proof
    fix k assume "k \<in> removed ?s"
    then have k: "k \<in> removed s \<or> k \<in> set keys" by auto
    then have "k \<notin> fst ` set (stored ?s)" using inv unfolding sub sync_inv_def removed_ok_def by blast
    moreover have "\<exists>g. done_output (prompts s) k g"
      using k inv stored_output [OF inv, of k] keys unfolding sync_inv_def removed_ok_def by blast
    ultimately show "k \<notin> fst ` set (stored ?s) \<and> (\<exists>g. done_output (prompts ?s) k g)" by simp
  qed
  moreover have "\<forall>d. polled ?s = Some d \<longrightarrow> listing_ok ?s d" using inv listing_ok_quiet [OF _ q] by (simp add: sync_inv_def)
  moreover have "buffer_ok s (buffer_partition (buffer s) pid)" using inv by (simp add: sync_inv_def)
  from buffer_ok_quiet [OF this q] have "buffer_ok ?s (buffer_partition (buffer ?s) pid)" by simp
  ultimately show ?thesis by (simp add: sync_inv_def)
qed

text \<open>The buffer, its lock and the listing in flight are not part of the other invariants.\<close>

lemma frame_ok:
  assumes "prompts s' = prompts s" "stored s' = stored s"
  shows "prompts_ok s' = prompts_ok s" "listing_ok s' = listing_ok s" "buffer_ok s' = buffer_ok s"
proof -
  show "prompts_ok s' = prompts_ok s" by (simp add: prompts_ok_def assms)
  show "listing_ok s' = listing_ok s" by (rule ext) (simp add: listing_ok_def assms)
  show "buffer_ok s' = buffer_ok s" by (rule ext) (simp add: buffer_ok_def prompt_entry_ok_def assms)
qed

lemma inv_frame:
  assumes inv: "sync_inv pid s" and same: "prompts s' = prompts s" "stored s' = stored s" "removed s' = removed s"
    and d: "\<forall>d. polled s' = Some d \<longrightarrow> listing_ok s d" and b: "buffer_ok s (buffer_partition (buffer s') pid)"
  shows "sync_inv pid s'"
  using inv d b unfolding sync_inv_def frame_ok [OF same(1,2)] same(2) by (simp add: removed_ok_def same)

lemma buffer_ok_remove:
  assumes inv: "sync_inv pid s" and keys: "set keys \<subseteq> removed s" and b: "buffer_ok s b"
  shows "buffer_ok s (foldl (\<lambda>p key. dict_del key p) b keys)"
proof -
  let ?b = "foldl (\<lambda>p key. dict_del key p) b keys"
  have r: "removed_ok s" using inv by (simp add: sync_inv_def)
  have m: "map_of ?b k = (if k \<in> set keys then None else map_of b k)" for k by (rule map_of_del_keys)
  have keep: "k \<in> fst ` set ?b" if k: "k \<in> fst ` set b" "k \<notin> set keys" for k
    using keys_dom [OF k(1)] m [of k] k(2) dom_keys [of ?b k] by auto
  have "prompt_entry_ok s ?b u p" if p: "prompts s u = Some p" for u p
  proof -
    obtain t st where t: "map_of b u = Some t" "tag_is (p_step p) st t" "st = ''running'' \<or> p_result p = Some st"
      "st = ''finished'' \<longrightarrow> has_outputs (stored s) u (fst ` set b)"
      using buffer_prompt [OF b p] by blast
    have "u \<notin> set keys" using keys r prompt_not_output [OF inv p] done_output_key unfolding removed_ok_def by blast
    then have "map_of ?b u = Some t" using m t(1) by simp
    moreover have "has_outputs (stored s) u (fst ` set ?b)" if "has_outputs (stored s) u (fst ` set b)"
      using that keep keys r unfolding has_outputs_def removed_ok_def by blast
    ultimately show ?thesis unfolding prompt_entry_ok_def using t by blast
  qed
  moreover have "\<exists>g. done_output (prompts s) k g \<and> tag_is g ''success'' t" if "map_of ?b k = Some t" "prompts s k = None" for k t
    using buffer_other [OF b, of k t] that m [of k] by (simp split: if_splits)
  moreover have "distinct (map fst b)" using b by (simp add: buffer_ok_def)
  then have "distinct (map fst ?b)" by (rule distinct_del_keys)
  ultimately show ?thesis unfolding buffer_ok_def by blast
qed

lemma inv_generate:
  assumes inv: "sync_inv pid s" and fresh: "\<forall>u\<in>set uids. fresh_uid s u" and dist: "distinct uids"
  shows "sync_inv pid (s\<lparr>buffer := add_items pid (running_items g uids) (buffer s),
      prompts := (\<lambda>u. if u \<in> set uids then Some \<lparr>p_step = g, p_pending = {..<n u}, p_result = None\<rparr> else prompts s u)\<rparr>)" (is "sync_inv pid ?s")
proof -
  let ?b = "buffer_partition (buffer s) pid" and ?P = "prompts ?s"
  let ?b' = "foldl merge_item ?b (running_items g uids)"
  have old: "?P u = prompts s u" if "prompts s u = Some p" for u p using that fresh by (auto simp: fresh_uid_def)
  have a: "advance (prompts s) ?P"
    unfolding advance_def
  proof (intro allI impI)
    fix u p assume p: "prompts s u = Some p"
    from old [OF p] have "?P u = Some p" unfolding p .
    then show "\<exists>p'. ?P u = Some p' \<and> p_step p' = p_step p \<and> p_pending p' \<subseteq> p_pending p \<and> (\<forall>r. p_result p = Some r \<longrightarrow> p_result p' = Some r)"
      by - (rule exI [of _ p], simp)
  qed
  have q: "quiet s ?s" unfolding quiet_def using a by simp
  have store: "listing_ok s (stored s)" and b: "buffer_ok s ?b" using inv by (simp_all add: sync_inv_def)
  have unknown: "map_of (stored s) u = None \<and> map_of ?b u = None" if u: "u \<in> set uids" for u
  proof -
    have f: "prompts s u = None" "\<not> output_key u" using fresh u by (simp_all add: fresh_uid_def)
    have "map_of (stored s) u = None"
    proof (rule ccontr)
      assume "map_of (stored s) u \<noteq> None"
      then obtain t where "map_of (stored s) u = Some t" by auto
      then have "entry_ok (prompts s) u t" using store unfolding store_ok_iff by simp
      then show False using f done_output_key by (auto simp: entry_ok_def)
    qed
    moreover have "map_of ?b u = None"
    proof (rule ccontr)
      assume "map_of ?b u \<noteq> None"
      then obtain t where "map_of ?b u = Some t" by auto
      from buffer_other [OF b this f(1)] show False using f(2) done_output_key by blast
    qed
    ultimately show ?thesis ..
  qed
  have ri: "map_of (running_items g uids) k = (if k \<in> set uids then Some (running_tags g) else None)" for k using running_items_eq [OF dist] .
  have rd: "distinct (map fst (running_items g uids))" unfolding running_items_def by (rule distinct_update) simp
  have m: "map_of ?b' k = (if k \<in> set uids then Some (dict_update [] (running_tags g)) else map_of ?b k)" for k
    by (simp add: map_of_merge [OF rd] ri unknown dict_get_or_def)
  have run: "tag_is g ''running'' (dict_update [] (running_tags g))" by (simp add: tag_is_def running_tags_def dict_update_def)
  have "prompts_ok ?s" using inv fresh unknown by (auto simp: sync_inv_def prompts_ok_def fresh_uid_def)
  moreover have "listing_ok ?s (stored ?s)" using listing_ok_quiet [OF store q] by simp
  moreover have "removed_ok ?s" using inv done_output_mono [OF _ a] unfolding sync_inv_def removed_ok_def by fastforce
  moreover have "\<forall>d. polled ?s = Some d \<longrightarrow> listing_ok ?s d" using inv listing_ok_quiet [OF _ q] by (simp add: sync_inv_def)
  moreover have "buffer_ok ?s ?b'"
  proof -
    have "prompt_entry_ok ?s ?b' u p" if p: "?P u = Some p" for u p
    proof (cases "u \<in> set uids")
      case True
      then have "p_step p = g" using p by auto
      then show ?thesis unfolding prompt_entry_ok_def using m [of u] True run
        by - (rule exI [of _ "dict_update [] (running_tags g)"], rule exI [of _ "''running''"], simp)
    next
      case False
      then have p': "prompts s u = Some p" using p by simp
      have "fst ` set ?b \<subseteq> fst ` set ?b'" using merge_keys [OF rd] by blast
      then show ?thesis using buffer_prompt [OF b p'] m [of u] False has_outputs_mono [of "stored s" u "fst ` set ?b"]
        unfolding prompt_entry_ok_def by auto
    qed
    moreover have "\<exists>g. done_output ?P k g \<and> tag_is g ''success'' t" if k: "map_of ?b' k = Some t" "?P k = None" for k t
    proof -
      have "k \<notin> set uids" "prompts s k = None" using k(2) by (auto split: if_splits)
      then show ?thesis using buffer_other [OF b, of k t] k(1) m [of k] done_output_mono [OF _ a] by auto
    qed
    moreover have "distinct (map fst ?b')" using b merge_distinct by (simp add: buffer_ok_def)
    ultimately show ?thesis unfolding buffer_ok_def by blast
  qed
  ultimately show ?thesis unfolding sync_inv_def by (simp add: partition_add)
qed

lemma listing_of_store:
  assumes "lists_stored listing" and "sync_inv pid s" and "listing (stored s) d"
  shows "listing_ok s d \<and> map_of d = map_of (stored s)"
proof -
  have s: "listing_ok s (stored s)" using assms(2) by (simp add: sync_inv_def)
  then have d: "distinct (map fst d)" "set d = set (stored s)" using assms(1,3) unfolding lists_stored_def store_ok_iff by blast+
  then have m: "map_of d = map_of (stored s)" using s map_of_inject_set unfolding store_ok_iff by blast
  show ?thesis using s d m unfolding listing_ok_def by simp
qed

lemma sync_step_inv:
  assumes "lists_stored listing" and "sync_step listing pid s s'" and inv: "sync_inv pid s"
  shows "sync_inv pid s'"
  using assms(2)
proof cases
  case (generate uids g n)
  then show ?thesis using inv_generate [OF inv] by blast
next
  case (session_end u p sid outputs)
  then show ?thesis using inv_session_end [OF inv] by blast
next
  case (finished u p)
  then have eq: "p\<lparr>p_pending := {}, p_result := Some ''finished''\<rparr> = p\<lparr>p_result := Some ''finished''\<rparr>" by (cases p) simp
  show ?thesis using finished inv_status [OF inv, of u p "{}" "''finished''", unfolded eq] by simp
next
  case (failure u p raised)
  then show ?thesis using inv_status [OF inv, of u p "p_pending p - raised" "''failure''"] by simp
next
  case (pad tag g sids h)
  then show ?thesis using inv_pad [OF inv, of "''pad'' @ h"] by simp
next
  case (poll d)
  then show ?thesis using inv_frame [OF inv, of s'] listing_of_store [OF assms(1) inv] inv by (simp add: sync_inv_def)
next
  case (add d)
  have "buffer_ok s (foldl merge_item (buffer_partition (buffer s) pid) d)"
    using inv add by (intro buffer_ok_add) (simp_all add: sync_inv_def)
  then show ?thesis using inv_frame [OF inv, of s'] add by (simp add: partition_add)
next
  case (clear_store keys)
  then show ?thesis using inv_clear_store [OF inv] by blast
next
  case (clear_buffer keys)
  have "buffer_ok s (buffer_partition (buffer s) pid)" using inv by (simp add: sync_inv_def)
  from buffer_ok_remove [OF inv clear_buffer(2) this]
  have "buffer_ok s (foldl (\<lambda>p key. dict_del key p) (buffer_partition (buffer s) pid) keys)" .
  then show ?thesis using inv_frame [OF inv, of s'] clear_buffer inv by (simp add: partition_remove sync_inv_def)
qed

lemma sync_start_inv: "sync_inv pid sync_start"
  by (simp add: sync_inv_def sync_start_def prompts_ok_def listing_ok_def removed_ok_def buffer_ok_def
      buffer_partition_def dict_get_or_def has_outputs_def)

lemma sync_reachable_inv:
  assumes "lists_stored listing" and "sync_reachable listing pid s"
  shows "sync_inv pid s"
  using assms(2) unfolding sync_reachable_def
  by (induction rule: rtranclp_induct) (simp_all add: sync_start_inv sync_step_inv [OF assms(1)])

section \<open>The wait of the trainer\<close>

lemma buffer_tags:
  assumes b: "buffer_ok s b"
  shows "\<forall>(k, t)\<in>set b. \<exists>g st. tag_is g st t"
proof clarify
  fix k t assume "(k, t) \<in> set b"
  then have k: "map_of b k = Some t" using b by (simp add: buffer_ok_def)
  show "\<exists>g st. tag_is g st t"
  proof (cases "prompts s k")
    case None
    then show ?thesis using buffer_other [OF b k] by blast
  next
    case (Some p)
    then show ?thesis using buffer_prompt [OF b, of k p] k by auto
  qed
qed

text \<open>The batch of a partition, \<open>None\<close> while a prompt of the step is running.\<close>

definition batch_of :: "int \<Rightarrow> (string \<times> tags) list \<Rightarrow> (string list \<times> tags list) option" where
  "batch_of g p = (if \<exists>(k, t)\<in>set p. tag_is g ''running'' t then None
     else Some (map fst (filter (\<lambda>(k, t). tag_is g ''success'' t) p), map snd (filter (\<lambda>(k, t). tag_is g ''success'' t) p)))"

lemma sample_attempt_eq:
  assumes "buffer_ok s (buffer_partition b pid)"
  shows "sample_attempt pid (Some g) None b = Inr (batch_of g (buffer_partition b pid))"
  using scan_partition_eq [OF buffer_tags [OF assms]] by (simp add: sample_attempt_def batch_of_def)

lemma tag_is_unique: "tag_is g st t \<Longrightarrow> tag_is g' st' t \<longleftrightarrow> g' = g \<and> st' = st"
  by (auto simp: tag_is_def)

lemma sampled_keys:
  assumes ok: "prompts_ok s" and b: "buffer_ok s b" and none: "\<not> (\<exists>(k, t)\<in>set b. tag_is g ''running'' t)"
    and keys: "keys = map fst (filter (\<lambda>(k, t). tag_is g ''success'' t) b)"
  shows "(\<forall>u p. prompts s u = Some p \<and> p_step p = g \<longrightarrow> p_result p \<noteq> None
          \<and> (p_result p = Some ''finished'' \<longrightarrow> has_outputs (stored s) u (set keys)))
     \<and> (\<forall>k\<in>set keys. done_output (prompts s) k g) \<and> distinct keys"
proof (intro conjI allI impI ballI)
  have dist: "distinct (map fst b)" using b by (simp add: buffer_ok_def)
  have entry: "map_of b k = Some t \<longleftrightarrow> (k, t) \<in> set b" for k t using dist by simp
  show "distinct keys" using dist unfolding keys by (rule distinct_map_filter)
  show "done_output (prompts s) k g" if ks: "k \<in> set keys" for k
  proof -
    obtain t where "(k, t) \<in> set b" and ts: "tag_is g ''success'' t" using ks unfolding keys by auto
    then have t: "map_of b k = Some t" using entry by blast
    have "prompts s k = None"
    proof (cases "prompts s k")
      case (Some p)
      obtain st where "tag_is (p_step p) st t" "st = ''running'' \<or> p_result p = Some st" using buffer_prompt [OF b Some] t by auto
      moreover have "st = ''success''" using \<open>tag_is (p_step p) st t\<close> ts tag_is_unique by blast
      ultimately have "p_result p = Some ''success''" by simp
      moreover have "p_result p \<noteq> Some ''success''" using ok [unfolded prompts_ok_def, rule_format, OF Some] by simp
      ultimately show ?thesis by simp
    qed
    then obtain g' where "done_output (prompts s) k g'" "tag_is g' ''success'' t" using buffer_other [OF b t] by blast
    then show ?thesis using tag_is_unique [OF ts] by simp
  qed
  fix u p assume p: "prompts s u = Some p \<and> p_step p = g"
  obtain t st where t: "map_of b u = Some t" "tag_is g st t" "st = ''running'' \<or> p_result p = Some st"
      "st = ''finished'' \<longrightarrow> has_outputs (stored s) u (fst ` set b)"
    using buffer_prompt [OF b, of u p] p by blast
  have "(u, t) \<in> set b" using t(1) entry by blast
  then have "st \<noteq> ''running''" using none t(2) by blast
  then have r: "p_result p = Some st" using t(3) by blast
  then show "p_result p \<noteq> None" by simp
  assume "p_result p = Some ''finished''"
  then have outs: "has_outputs (stored s) u (fst ` set b)" using r t(4) by simp
  show "has_outputs (stored s) u (set keys)"
    unfolding has_outputs_def
  proof (intro allI impI)
    fix sid i assume "make_key u sid i \<in> fst ` set (stored s)"
    then have "make_key u sid i \<in> fst ` set b" using outs by (simp add: has_outputs_def)
    then obtain t' where t': "map_of b (make_key u sid i) = Some t'" using keys_dom by metis
    have np: "prompts s (make_key u sid i) = None" using prompt_key [OF ok, of "make_key u sid i"] by (cases "prompts s (make_key u sid i)") simp_all
    obtain g' where g': "done_output (prompts s) (make_key u sid i) g'" "tag_is g' ''success'' t'" using buffer_other [OF b t' np] by blast
    have "\<not> prefix ''pad'' u" using ok p by (simp add: prompts_ok_def)
    then have "g' = g" using g'(1) p by (auto simp: done_output_def make_key_inj)
    then have "(make_key u sid i, t') \<in> set (filter (\<lambda>(k, t). tag_is g ''success'' t) b)" using g'(2) t' entry by simp
    from imageI [OF this, of fst] show "make_key u sid i \<in> set keys" unfolding keys set_map by simp
  qed
qed

text \<open>C33: the wait of the trainer never raises, and when it ends every prompt of the step has finished or failed, the
  batch holds every output that is stored for the finished ones, and nothing but outputs of sessions of the step
  that are over and padding rows, each once. This holds in every interleaving of the trainer, the workers and the
  polling thread.\<close>

theorem sample_waits_for_prompts:
  assumes "lists_stored listing" and "sync_reachable listing pid s"
  shows "\<exists>r. sample_attempt pid (Some g) None (buffer s) = Inr r
    \<and> (\<forall>keys tgs. r = Some (keys, tgs) \<longrightarrow>
         (\<forall>u p. prompts s u = Some p \<and> p_step p = g \<longrightarrow> p_result p \<noteq> None
            \<and> (p_result p = Some ''finished'' \<longrightarrow> has_outputs (stored s) u (set keys)))
         \<and> (\<forall>k\<in>set keys. done_output (prompts s) k g) \<and> distinct keys)"
proof -
  have ok: "prompts_ok s" and b: "buffer_ok s (buffer_partition (buffer s) pid)"
    using sync_reachable_inv [OF assms] by (simp_all add: sync_inv_def)
  let ?p = "buffer_partition (buffer s) pid"
  have "(\<forall>u p. prompts s u = Some p \<and> p_step p = g \<longrightarrow> p_result p \<noteq> None
            \<and> (p_result p = Some ''finished'' \<longrightarrow> has_outputs (stored s) u (set keys)))
         \<and> (\<forall>k\<in>set keys. done_output (prompts s) k g) \<and> distinct keys" if r: "batch_of g ?p = Some (keys, tgs)" for keys tgs
    using r by (intro sampled_keys [OF ok b]) (simp_all add: batch_of_def split: if_splits)
  then show ?thesis by (intro exI [of _ "batch_of g ?p"] conjI sample_attempt_eq [OF b]) blast
qed

text \<open>C34: once the prompts of a step have finished or failed, one listing of the transfer queue ends the wait.\<close>

theorem sample_ends:
  assumes "lists_stored listing" and "sync_reachable listing pid s" and "listing (stored s) d"
    and closed: "\<forall>u p. prompts s u = Some p \<and> p_step p = g \<longrightarrow> p_result p \<noteq> None"
  shows "\<exists>batch. sample_attempt pid (Some g) None (add_items pid d (buffer s)) = Inr (Some batch)"
proof -
  have inv: "sync_inv pid s" using sync_reachable_inv [OF assms(1,2)] .
  then have ok: "prompts_ok s" and b: "buffer_ok s (buffer_partition (buffer s) pid)" by (simp_all add: sync_inv_def)
  have d: "listing_ok s d" "map_of d = map_of (stored s)" using listing_of_store [OF assms(1) inv assms(3)] by simp_all
  let ?b = "foldl merge_item (buffer_partition (buffer s) pid) d"
  have b': "buffer_ok s ?b" using buffer_ok_add [OF b d(1) ok] .
  have "\<not> tag_is g ''running'' t" if "(k, t) \<in> set ?b" for k t
  proof
    assume run: "tag_is g ''running'' t"
    have k: "map_of ?b k = Some t" using that b' by (simp add: buffer_ok_def)
    show False
    proof (cases "prompts s k")
      case None
      from buffer_other [OF b' k None] show False using run by (auto simp: tag_is_def)
    next
      case (Some p)
      obtain st where st: "tag_is (p_step p) st t" using buffer_prompt [OF b' Some] k by auto
      then have "p_step p = g" using run tag_is_unique by blast
      then obtain r where r: "p_result p = Some r" using closed Some by blast
      then have "map_of d k = Some (status_tags r)" and "r \<noteq> ''running''" using ok Some d(2) by (auto simp: prompts_ok_def)
      then have "t = dict_update (dict_get_or (buffer_partition (buffer s) pid) k []) (status_tags r)"
        using k d(1) by (simp add: map_of_merge listing_ok_def)
      then have "map_of t ''status'' = Some (PStr r)" by (simp add: map_of_dict_update)
      then show False using run \<open>r \<noteq> ''running''\<close> by (simp add: tag_is_def)
    qed
  qed
  then have "\<not> (\<exists>(k, t)\<in>set ?b. tag_is g ''running'' t)" by blast
  moreover have "buffer_ok s (buffer_partition (add_items pid d (buffer s)) pid)" using b' by (simp add: partition_add)
  ultimately show ?thesis by (subst sample_attempt_eq) (simp_all add: partition_add batch_of_def)
qed

section \<open>Runs\<close>

lemma reach_step: "sync_reachable listing pid s \<Longrightarrow> sync_step listing pid s s' \<Longrightarrow> sync_reachable listing pid s'"
  unfolding sync_reachable_def by (rule rtranclp.rtrancl_into_rtrancl)

text \<open>A transfer queue that lists its content in the order of the writes.\<close>

lemma in_order_lists: "lists_stored (\<lambda>h d. d = h)"
  by (simp add: lists_stored_def)

definition after_prompt :: "string \<Rightarrow> string \<Rightarrow> int \<Rightarrow> (nat \<times> nat) list \<Rightarrow> sync_state \<Rightarrow> sync_state" where
  "after_prompt pid u g outs s = s\<lparr>buffer := add_items pid (running_items g [u]) (buffer s),
     stored := stored s @ output_items u 0 g outs @ [(u, status_tags ''finished'')],
     prompts := (prompts s)(u \<mapsto> \<lparr>p_step = g, p_pending = {}, p_result = Some ''finished''\<rparr>)\<rparr>"

lemma after_prompt_reachable:
  assumes r: "sync_reachable listing pid s" and fresh: "fresh_uid s u"
  shows "sync_reachable listing pid (after_prompt pid u g outs s)"
proof -
  let ?p = "\<lambda>S. \<lparr>p_step = g, p_pending = S, p_result = None\<rparr>"
  have eq: "(\<lambda>v. if v \<in> set [u] then Some (?p {..<1}) else prompts s v) = (prompts s)(u \<mapsto> ?p {0})"
    by (rule ext) (simp add: lessThan_Suc)
  have "sync_step listing pid s (s\<lparr>buffer := add_items pid (running_items g [u]) (buffer s), prompts := (prompts s)(u \<mapsto> ?p {0})\<rparr>)"
    using sync_step.generate [of "[u]" s listing pid g "\<lambda>_. 1"] fresh unfolding eq by simp
  note r1 = reach_step [OF r this]
  note r2 = reach_step [OF r1 sync_step.session_end [where u = u and sid = 0 and p = "?p {0}" and outputs = outs], simplified]
  note r3 = reach_step [OF r2 sync_step.finished [where u = u and p = "?p {}"], simplified]
  show ?thesis using r3 by (simp add: after_prompt_def)
qed

definition after_poll :: "string \<Rightarrow> sync_state \<Rightarrow> sync_state" where
  "after_poll pid s = s\<lparr>buffer := add_items pid (stored s) (buffer s)\<rparr>"

lemma after_poll_reachable:
  assumes "sync_reachable (\<lambda>h d. d = h) pid s" and "polled s = None"
  shows "sync_reachable (\<lambda>h d. d = h) pid (after_poll pid s)"
proof -
  note r1 = reach_step [OF assms(1) sync_step.poll [OF assms(2) refl]]
  note r2 = reach_step [OF r1 sync_step.add, simplified]
  have "s\<lparr>buffer := add_items pid (stored s) (buffer s), polled := None\<rparr> = after_poll pid s"
    using assms(2) by (simp add: after_poll_def)
  then show ?thesis using r2 by simp
qed

text \<open>A listing that is read before the keys of a batch are cleared, and added afterwards, brings the keys back.\<close>

definition after_stale_clear :: "string \<Rightarrow> string list \<Rightarrow> sync_state \<Rightarrow> sync_state" where
  "after_stale_clear pid keys s = s\<lparr>buffer := add_items pid (stored s) (remove_keys pid keys (buffer s)),
     stored := filter (\<lambda>(k, _). k \<notin> set keys) (stored s), removed := removed s \<union> set keys\<rparr>"

lemma after_stale_clear_reachable:
  assumes "sync_reachable (\<lambda>h d. d = h) pid s" and "polled s = None" and "\<forall>k\<in>set keys. output_key k \<and> k \<in> fst ` set (stored s)"
  shows "sync_reachable (\<lambda>h d. d = h) pid (after_stale_clear pid keys s)"
proof -
  note r1 = reach_step [OF assms(1) sync_step.poll [OF assms(2) refl]]
  have "\<forall>k\<in>set keys. output_key k \<and> k \<in> fst ` set (stored (s\<lparr>polled := Some (stored s)\<rparr>)) \<union> removed (s\<lparr>polled := Some (stored s)\<rparr>)"
    using assms(3) by simp
  note r2 = reach_step [OF r1 sync_step.clear_store [OF this]]
  note r3 = reach_step [OF r2 sync_step.clear_buffer [where keys = keys], simplified]
  note r4 = reach_step [OF r3 sync_step.add, simplified]
  have "s\<lparr>stored := filter (\<lambda>(k, _). k \<notin> set keys) (stored s), removed := removed s \<union> set keys,
      buffer := add_items pid (stored s) (remove_keys pid keys (buffer s)), polled := None\<rparr> = after_stale_clear pid keys s"
    using assms(2) by (cases s) (simp add: after_stale_clear_def)
  then show ?thesis using r4 by simp
qed

definition demo_done :: sync_state where
  "demo_done = after_prompt ''val'' ''a'' 1 [(2, 3)] sync_start"

lemma demo_done_reachable: "sync_reachable (\<lambda>h d. d = h) ''val'' demo_done"
  unfolding demo_done_def
proof (rule after_prompt_reachable)
  show "sync_reachable (\<lambda>h d. d = h) ''val'' sync_start" by (simp add: sync_reachable_def)
  show "fresh_uid sync_start ''a''" by (simp add: fresh_uid_def sync_start_def output_key_def split_key_def rsplit2_def)
qed

text \<open>
  Validation takes several batches in the same step, so the wait for the second one can return keys of the first
  that have been cleared from the transfer queue.
\<close>

definition demo_stale :: sync_state where
  "demo_stale = after_poll ''val'' (after_prompt ''val'' ''b'' 1 [(2, 3)] (after_stale_clear ''val'' [''a_0_0''] (after_poll ''val'' demo_done)))"

lemma stale_listing_returns_removed_keys:
  "sync_reachable (\<lambda>h d. d = h) ''val'' demo_stale
   \<and> map_sum id (map_option fst) (sample_attempt ''val'' (Some 1) None (buffer demo_stale)) = Inr (Some [''a_0_0'', ''b_0_0''])
   \<and> ''a_0_0'' \<in> removed demo_stale \<and> ''a_0_0'' \<notin> fst ` set (stored demo_stale)"
proof (intro conjI)
  have idle: "polled demo_done = None" by (simp add: demo_done_def after_prompt_def sync_start_def)
  have key: "make_key ''a'' 0 0 = ''a_0_0''" by code_simp
  note r1 = after_poll_reachable [OF demo_done_reachable idle]
  have "sync_reachable (\<lambda>h d. d = h) ''val'' (after_stale_clear ''val'' [''a_0_0''] (after_poll ''val'' demo_done))"
  proof (rule after_stale_clear_reachable [OF r1])
    show "polled (after_poll ''val'' demo_done) = None" using idle by (simp add: after_poll_def)
    have "output_key ''a_0_0''" using make_key_output [of "''a''" 0 0] unfolding key .
    moreover have "''a_0_0'' \<in> fst ` set (stored demo_done)"
      by (simp add: demo_done_def after_prompt_def sync_start_def output_items_def key)
    ultimately show "\<forall>k\<in>set [''a_0_0'']. output_key k \<and> k \<in> fst ` set (stored (after_poll ''val'' demo_done))"
      by (simp add: after_poll_def)
  qed
  note r2 = after_prompt_reachable [OF this]
  show "sync_reachable (\<lambda>h d. d = h) ''val'' demo_stale"
    unfolding demo_stale_def
    by (rule after_poll_reachable [OF r2])
      (simp_all add: fresh_uid_def output_key_def split_key_def rsplit2_def after_stale_clear_def after_poll_def demo_done_def
        after_prompt_def sync_start_def)
qed code_simp+

lemma demo_prompt: "prompts demo_done = [''a'' \<mapsto> \<lparr>p_step = 1, p_pending = {}, p_result = Some ''finished''\<rparr>]"
  by (simp add: demo_done_def after_prompt_def sync_start_def)

lemma sample_waits_for_prompts_witness:
  "\<exists>keys tgs. sample_attempt ''val'' (Some 1) None (buffer (after_poll ''val'' demo_done)) = Inr (Some (keys, tgs))
    \<and> has_outputs (stored demo_done) ''a'' (set keys) \<and> keys = [''a_0_0'']"
proof -
  let ?s = "after_poll ''val'' demo_done"
  have idle: "polled demo_done = None" by (simp add: demo_done_def after_prompt_def sync_start_def)
  have "map_sum id (map_option fst) (sample_attempt ''val'' (Some 1) None (buffer ?s)) = Inr (Some [''a_0_0''])" by code_simp
  then obtain tgs where run: "sample_attempt ''val'' (Some 1) None (buffer ?s) = Inr (Some ([''a_0_0''], tgs))"
    by (cases "sample_attempt ''val'' (Some 1) None (buffer ?s)") auto
  let ?p = "\<lparr>p_step = 1, p_pending = {}, p_result = Some ''finished''\<rparr>"
  have p: "prompts ?s ''a'' = Some ?p \<and> p_step ?p = 1" by (simp add: after_poll_def demo_prompt)
  have "\<forall>u p. prompts ?s u = Some p \<and> p_step p = 1 \<longrightarrow> p_result p \<noteq> None
      \<and> (p_result p = Some ''finished'' \<longrightarrow> has_outputs (stored ?s) u (set [''a_0_0'']))"
    using sample_waits_for_prompts [OF in_order_lists after_poll_reachable [OF demo_done_reachable idle], of 1] run by auto
  from this [rule_format, OF p] have "has_outputs (stored ?s) ''a'' (set [''a_0_0''])" by simp
  then show ?thesis using run by (simp add: after_poll_def)
qed

lemma sample_ends_witness:
  "\<exists>batch. sample_attempt ''val'' (Some 1) None (add_items ''val'' (stored demo_done) (buffer demo_done)) = Inr (Some batch)"
  using sample_ends [OF in_order_lists demo_done_reachable refl, of 1] by (simp add: demo_prompt)

end
