(* ===== verification/Spec2Isabelle.thy ===== *)
theory Spec2Isabelle
  imports Microbatch TokenReturns LossFacts Ticket Message Executor FileFacts DispatchFacts AsyncFacts RewardFacts SyncBalance ReplayFacts
begin

text \<open>
  This library models the algorithmic core of the reinforcement-learning framework \<open>verl\<close> (Python, under
  \<open>src/verl\<close>): how batches are stored, split and balanced, how advantages and losses are computed, how
  asynchronous rollout and training exchange samples, and the simulated tool backends with the
  checker that rewards multi-turn tool use. Every definition translates the function it is named
  after; fallible code returns \<open>exn + 'a\<close>, \<open>Inl\<close> for an exception (\<open>Prelude\<close>).

  How the parts interact. A \<^bold>\<open>rollouter\<close> generates samples and puts them into the message queue; the
  \<^bold>\<open>trainer\<close> collects them into a batch, a \<open>DataProto\<close>. The batch is cut into micro-batches by
  sequence-length balancing and put back in order afterwards; advantages come from the token rewards
  of the responses, losses from log-probabilities and advantages. Rewards for tool use compare the
  state of simulated backends after the calls of the model and after the reference calls.

  \<^bold>\<open>Batches.\<close>
  \<^item> \<open>Heapq\<close>, \<open>Seqlen\<close>, \<open>Microbatch\<close>: \<open>utils/seqlen_balancing.py\<close>. \<open>Heapq\<close> is the binary heap of Python on lists;
    \<open>Seqlen\<close> has the Karmarkar-Karp and the greedy partitioner; \<open>Microbatch\<close> the functions that call them.
    The lemmas show that every index lands in one non-empty part, load bounds, and that the micro-batches
    restore the batch.
  \<^item> \<open>DataProto\<close>, \<open>DataProtoFacts\<close>: \<open>protocol.py\<close> and two helpers of \<open>utils/py_functional.py\<close>. A tensor is the list of
    its rows. Every row operation is shown to select rows at computed positions (\<open>rows_at\<close>), from which the
    round trips of padding, chunking, reordering and popping follow.
  \<^item> \<open>Dispatch\<close>, \<open>DispatchFacts\<close>: \<open>single_controller/base/decorator.py\<close>, \<open>base/worker.py\<close> and \<open>ray/base.py\<close>: how a call on a
    worker group splits a \<open>DataProto\<close>, runs a method on every worker and joins the outputs. For methods that
    work by rows the distributed call equals the local one.

  \<^bold>\<open>Advantages and losses.\<close>
  \<^item> \<open>Tensor\<close>, \<open>Groupwise\<close>: masked reductions of \<open>utils/torch_functional.py\<close> and group labels of \<open>utils/groupwise.py\<close>.
  \<^item> \<open>Advantage\<close>: the advantage estimators of \<open>trainer/ppo/core_algos.py\<close>, dictionaries and loops as written.
    \<open>GroupBaselines\<close> shows what the group baselines compute and that the vectorized versions agree with the loops;
    \<open>TokenReturns\<close> gives the closed forms of GAE, REINFORCE++ and ReMax.
  \<^item> \<open>Losses\<close>, \<open>LossFacts\<close>: loss aggregation, policy and value losses, KL estimators and KL control of the same file
    (and the constants of \<open>workers/config/actor.py\<close>), with additivity over micro-batches and bounds of the clipped terms.
  \<^item> \<open>RolloutSpecs\<close>, \<open>RolloutCorr\<close>: \<open>trainer/ppo/rollout_corr_helper.py\<close>, the presets of \<open>trainer/config/algorithm.py\<close> and the
    loss of bypass mode: the correction for the gap between the policy that generated the responses and the
    trained one. \<open>RolloutFacts\<close> states the rejection mask on probability ratios; \<open>RolloutWeights\<close> has the range, the
    normalization and the failures of the importance weights; \<open>RolloutEntry\<close> the entry points on the batch, and
    that nothing is corrected when the policies agree. The sums that an all-reduce adds are a parameter.

  \<^item> \<open>TokenBaseline\<close>: the two optimal-token-baseline estimators of \<open>core_algos.py\<close>, and that the multi-turn one
    equals the single-turn one on masks without holes.
  \<^item> \<open>TrainerStep\<close>, \<open>TrainerFacts\<close>: what the driver does with a batch before the update, from \<open>trainer/ppo/ray_trainer.py\<close>:
    KL penalty, dispatch to the estimators, preference-feedback resampling, and the part of \<open>fit\<close> that composes
    them with rollout correction. \<open>BatchBalance\<close> is \<open>_balance_batch\<close>; its theorem goes through the partitioners,
    \<open>DataProto.reorder\<close> and the dispatch of the worker group. \<open>RowOrder\<close> and \<open>OrderFacts\<close> show that balancing the
    batch leaves the advantages of every row as they are.
  \<^item> \<open>SessionKeys\<close>, \<open>SyncTrainer\<close>: the trainer over a transfer queue, \<open>trainer/main_ppo_sync.py\<close>, where a session may
    have several outputs, and the padding of its batches, \<open>trainer/ppo/padding_utils.py\<close>. What the queue returns is
    a parameter. \<open>SyncFacts\<close> shows that the advantages of a prompt depend on its own outputs only and agree with
    those of \<open>TrainerStep\<close> when every session has one output; \<open>SyncBalance\<close> that every batch can be balanced.
  \<^item> \<open>ReplayBuffer\<close>: the replay buffer of the same file, its polling thread and what the workers write, as a step relation
    over the buffer and the transfer queue. \<open>ReplayFacts\<close> shows by its invariant that the wait of the trainer ends
    with all outputs of its step, and that a listing in flight during the cleanup brings removed keys back.

  \<^bold>\<open>Rewards.\<close>
  \<^item> \<open>Rewards\<close>, \<open>RewardFacts\<close>: \<open>utils/reward_score\<close>, the dispatch by data source and the scorers \<open>gsm8k.py\<close> and
    \<open>math_reward.py\<close>, with theorems on which part of a solution is scored.

  \<^bold>\<open>Asynchronous training.\<close>
  \<^item> \<open>MessageQueue\<close>: \<open>experimental/fully_async_policy/message_queue.py\<close>, a step relation over calls and wakeups.
    The invariant relates the history of calls to the queue and to its counters.
  \<^item> \<open>AsyncRollout\<close>, \<open>AsyncFacts\<close>: the coroutines of \<open>fully_async_rollouter.py\<close> and \<open>fully_async_trainer.py\<close> over that
    queue. One function per coroutine runs it from one await to the next, \<open>None\<close> meaning that it waits;
    a run is any list of actions, so a theorem about runs holds for every interleaving.

  \<^bold>\<open>Tool use.\<close>
  \<^item> \<open>PyValue\<close>, \<open>PyText\<close>: Python values, insertion-ordered dictionaries, string methods, and the locales that
    state what a backend promises (calls, an invariant, errors that leave the state alone). Each backend
    interprets them with its own step function.
  \<^item> \<open>Ticket\<close>, \<open>Message\<close>: \<open>ticket_api.py\<close> and \<open>message_api.py\<close> of \<open>utils/bfcl_multiturn/func_source_code\<close>.
  \<^item> \<open>FileSystem\<close>, \<open>FileOps\<close>, \<open>FileFacts\<close>: \<open>gorilla_file_system.py\<close>. Objects live in a heap of nodes and a heap of
    dictionaries, because the code shares dictionaries between directories; names map to addresses.
  \<^item> \<open>Executor\<close>: \<open>executor.py\<close> and \<open>checker.py\<close>, over an arbitrary backend.

  \<^bold>\<open>Bounds and fuel.\<close> Loops recurse structurally or with a measure, so they return. \<open>find\<close> and \<open>du\<close> of the file system
  recurse through directories that may contain themselves; they take the recursion limit of the interpreter, and
  raise \<open>RecursionError\<close> when it is used up. \<open>pwd\<close> follows parent links, and returns because every
  parent is older than its child. The random draws of \<open>message_api.py\<close> are a stream; the loop that draws until an id
  is free is \<open>None\<close> when no later draw is free.

  \<^bold>\<open>Abstractions.\<close> Floating-point numbers are reals in the numeric parts and rationals in the backends, so rounding,
  infinities and NaN are not modelled; a tensor division by zero is 0. Tensors have no device, dtype or
  gradient. Text is ASCII. Code outside the repository is a parameter of the definitions that use it: evaluation of
  call strings, random numbers and draws, \<open>topk\<close> and permutations, the order of Python sets.

  \<^bold>\<open>Not modelled.\<close> Ray, torch distributed and inference engines, model definitions and kernels, checkpoints, the
  rest of \<open>ray_trainer.py\<close> and \<open>main_ppo_sync.py\<close> (workers, validation, logging), reward functions that
  run code or call services, and the remaining simulated backends (posting, trading, vehicle,
  travel and math). Of \<open>protocol.py\<close> serialization and the operations on columns; of the asynchronous trainer
  validation, checkpoints and profiling. Generation is assumed to return.
\<close>

end
